(* ===== verification/Prelude.thy ===== *)
theory Prelude
  imports Main "HOL-Library.Char_ord" "HOL-Library.List_Lexorder"
begin

text \<open>
  What the components share: Python exceptions as values, computations that pass a state
  and may raise, the string operations the source uses, and decimal numerals.

  A Python \<open>str\<close> is a \<^typ>\<open>string\<close>, a list of characters, each standing for one code
  point of the range U+0000 to U+00FF (an Isabelle character is one of 256 values), so
  lengths and indices count code points as Python's do. The white space and line boundaries
  below are those of Python's \<open>str.strip\<close>, \<open>str.split\<close> and \<open>str.splitlines\<close>
  in that range.
\<close>

named_theorems eff_simps \<open>unfolding of the state-and-exception combinators\<close>
named_theorems codec_simps \<open>encoders and decoders, unfolded together\<close>

section \<open>Exceptions as values\<close>

text \<open>
  The exceptions the modelled code raises. \<open>ValueError\<close> carries the constant part of the
  message, which tells the branches apart; \<open>json.JSONDecodeError\<close> is a \<open>ValueError\<close>.
  \<open>CancelledError\<close> is asyncio's cancellation, which \<open>except Exception\<close> does not catch.
  \<open>UntypedValue\<close> is not a Python exception: it marks the inputs for which the code,
  which does not check, would store a value of another type than the field's annotation
  says; the model stops there.
\<close>

datatype py_error =
    KeyError string
  | ValueError string
  | TypeError string
  | AttributeError string
  | LookupError string
  | RuntimeError string
  | OverflowError string
  | OSError string
  | ZeroDivisionError
  | CancelledError
  | DispatchError string
  | HandlerError string
  | UntypedValue string

type_synonym 'a result = "py_error + 'a"

fun rbind :: "'a result \<Rightarrow> ('a \<Rightarrow> 'b result) \<Rightarrow> 'b result" where
  "rbind (Inl e) f = Inl e"
| "rbind (Inr x) f = f x"

fun rmap_list :: "('a \<Rightarrow> 'b result) \<Rightarrow> 'a list \<Rightarrow> 'b list result" where
  "rmap_list f [] = Inr []"
| "rmap_list f (x # xs) =
     rbind (f x) (\<lambda>y. rbind (rmap_list f xs) (\<lambda>ys. Inr (y # ys)))"

lemma rbind_eq_Inr [simp]:
  "rbind r f = Inr y \<longleftrightarrow> (\<exists>x. r = Inr x \<and> f x = Inr y)"
  by (cases r) auto

lemma rbind_eq_Inl:
  "rbind r f = Inl e \<longleftrightarrow> r = Inl e \<or> (\<exists>x. r = Inr x \<and> f x = Inl e)"
  by (cases r) auto

lemma rmap_list_all_Inr:
  "(\<And>x. x \<in> set xs \<Longrightarrow> f x = Inr (g x)) \<Longrightarrow> rmap_list f xs = Inr (map g xs)"
  by (induction xs) auto

lemma rmap_list_eq_Inr_length: "rmap_list f xs = Inr ys \<Longrightarrow> length ys = length xs"
  by (induction xs arbitrary: ys) auto

lemma rmap_list_cong [fundef_cong]:
  "xs = ys \<Longrightarrow> (\<And>x. x \<in> set ys \<Longrightarrow> f x = g x) \<Longrightarrow> rmap_list f xs = rmap_list g ys"
  by (induction xs arbitrary: ys) auto

lemma distinct_map_ConsD: "distinct (map f (x # xs)) \<Longrightarrow> y \<in> set xs \<Longrightarrow> f y \<noteq> f x"
  by (metis distinct.simps(2) image_eqI list.map(2) list.set_map)

section \<open>State-passing computations that may raise\<close>

text \<open>
  A raised exception keeps the state reached so far: what was written to disk before a
  \<open>raise\<close> stays written.
\<close>

type_synonym ('s, 'a) eff = "'s \<Rightarrow> 'a result \<times> 's"

definition eret :: "'a \<Rightarrow> ('s, 'a) eff" where
  "eret x s = (Inr x, s)"

definition eraise :: "py_error \<Rightarrow> ('s, 'a) eff" where
  "eraise e s = (Inl e, s)"

definition elift :: "'a result \<Rightarrow> ('s, 'a) eff" where
  "elift r s = (r, s)"

definition eread :: "('s \<Rightarrow> 'a result) \<Rightarrow> ('s, 'a) eff" where
  "eread f s = (f s, s)"

definition eupdate :: "('s \<Rightarrow> 's) \<Rightarrow> ('s, unit) eff" where
  "eupdate f s = (Inr (), f s)"

definition ebind :: "('s, 'a) eff \<Rightarrow> ('a \<Rightarrow> ('s, 'b) eff) \<Rightarrow> ('s, 'b) eff" where
  "ebind m f s = (case m s of (Inl e, s') \<Rightarrow> (Inl e, s') | (Inr x, s') \<Rightarrow> f x s')"

fun efold :: "('a \<Rightarrow> 'b \<Rightarrow> ('s, 'b) eff) \<Rightarrow> 'a list \<Rightarrow> 'b \<Rightarrow> ('s, 'b) eff" where
  "efold f [] acc = eret acc"
| "efold f (x # xs) acc = ebind (f x acc) (efold f xs)"

lemma eret_simp [simp, eff_simps]: "eret x s = (Inr x, s)"
  by (simp add: eret_def)

lemma eraise_simp [simp, eff_simps]: "eraise e s = (Inl e, s)"
  by (simp add: eraise_def)

lemma elift_simp [simp, eff_simps]: "elift r s = (r, s)"
  by (simp add: elift_def)

lemma eread_simp [simp, eff_simps]: "eread f s = (f s, s)"
  by (simp add: eread_def)

lemma eupdate_simp [simp, eff_simps]: "eupdate f s = (Inr (), f s)"
  by (simp add: eupdate_def)

lemma ebind_Inr [simp]: "m s = (Inr x, s') \<Longrightarrow> ebind m f s = f x s'"
  by (simp add: ebind_def)

lemma ebind_Inl [simp]: "m s = (Inl e, s') \<Longrightarrow> ebind m f s = (Inl e, s')"
  by (simp add: ebind_def)

lemma ebind_eq_Inr:
  "ebind m f s = (Inr y, t) \<longleftrightarrow> (\<exists>x s'. m s = (Inr x, s') \<and> f x s' = (Inr y, t))"
  by (auto simp: ebind_def split: prod.splits sum.splits)

lemma efold_append: "efold f (xs @ ys) acc = ebind (efold f xs acc) (efold f ys)"
proof (induction xs arbitrary: acc)
  case Nil
  show ?case by (simp add: fun_eq_iff ebind_def eret_def)
next
  case (Cons x xs)
  then show ?case by (simp add: fun_eq_iff ebind_def split: prod.splits sum.splits)
qed

lemma efold_invariant:
  assumes "\<And>x acc w. P w \<Longrightarrow> P (snd (f x acc w))" "P w"
  shows "P (snd (efold f xs acc w))"
  using assms(2)
proof (induction xs arbitrary: acc w)
  case (Cons x xs)
  then show ?case
    using assms(1) [of w x acc] by (auto simp: ebind_def split: prod.splits sum.splits)
qed simp

section \<open>Dictionaries with insertion order\<close>

text \<open>
  A Python \<open>dict\<close> whose order the code relies on is an association list: storing a
  present key keeps its position, a new key goes to the end.
\<close>

fun dict_set :: "'k \<Rightarrow> 'v \<Rightarrow> ('k \<times> 'v) list \<Rightarrow> ('k \<times> 'v) list" where
  "dict_set k v [] = [(k, v)]"
| "dict_set k v ((k', v') # m) =
     (if k' = k then (k', v) # m else (k', v') # dict_set k v m)"

definition dict_del :: "'k \<Rightarrow> ('k \<times> 'v) list \<Rightarrow> ('k \<times> 'v) list" where
  "dict_del k m = filter (\<lambda>(k', _). k' \<noteq> k) m"

lemma map_of_dict_set [simp]: "map_of (dict_set k v m) = (map_of m)(k \<mapsto> v)"
  by (induction m) (auto simp: fun_eq_iff)

lemma map_of_dict_del [simp]: "map_of (dict_del k m) = (map_of m)(k := None)"
  by (induction m) (auto simp: dict_del_def fun_eq_iff)

lemma keys_dict_set: "map fst (dict_set k v m) =
    (if k \<in> fst ` set m then map fst m else map fst m @ [k])"
proof (induction m)
  case Nil
  show ?case by simp
next
  case (Cons p m)
  obtain a b where "p = (a, b)" by (cases p)
  with Cons show ?case by (cases "k \<in> fst ` set m") auto
qed

lemma dict_set_fst: "fst ` set (dict_set k v m) = insert k (fst ` set m)"
  by (induction k v m rule: dict_set.induct) (auto simp: image_iff)

lemma dict_set_subset: "set (dict_set k v m) \<subseteq> insert (k, v) (set m)"
  by (induction k v m rule: dict_set.induct) (auto split: if_splits)

lemma distinct_dict_set [intro]:
  "distinct (map fst m) \<Longrightarrow> distinct (map fst (dict_set k v m))"
  by (simp add: keys_dict_set)

lemma distinct_dict_del [intro]:
  "distinct (map fst m) \<Longrightarrow> distinct (map fst (dict_del k m))"
  unfolding dict_del_def by (rule distinct_map_filter)

end
