(* ===== verification/Sessions.thy ===== *)
theory Sessions
  imports PyString
begin

text \<open>
  Session keys and agent ids (\<open>src/thorn/runtime/_session.py\<close>). A key is a
  non-empty tuple of non-empty components without a slash; its text joins the components
  with slashes. The constructor takes either the text or the components.
\<close>

datatype session_key = SessionKey (components: "string list")

type_synonym agent_id = string

definition slash :: char where "slash = CHR 0x2F"
definition colon :: char where "colon = CHR 0x3A"

fun check_components :: "string list \<Rightarrow> unit result" where
  "check_components [] = Inr ()"
| "check_components (c # cs) =
     (if c = [] then Inl (ValueError ''SessionKey components must be non-empty'')
      else if slash \<in> set c then Inl (ValueError ''SessionKey component must not contain /'')
      else check_components cs)"

definition session_key_of_components :: "string list \<Rightarrow> session_key result" where
  "session_key_of_components cs =
     (if cs = [] then Inl (ValueError ''SessionKey must have at least one component'')
      else rbind (check_components cs) (\<lambda>_. Inr (SessionKey cs)))"

definition session_key_of_string :: "string \<Rightarrow> session_key result" where
  "session_key_of_string s =
     (if s = [] then Inl (ValueError ''SessionKey string must be non-empty'')
      else session_key_of_components (py_split slash s))"

definition session_key_str :: "session_key \<Rightarrow> string" where
  "session_key_str k = py_join [slash] (components k)"

definition valid_session_key :: "session_key \<Rightarrow> bool" where
  "valid_session_key k \<longleftrightarrow>
     components k \<noteq> [] \<and> (\<forall>c \<in> set (components k). c \<noteq> [] \<and> slash \<notin> set c)"

section \<open>The constructor's invariant and the round trip through the text\<close>

lemma check_components_Inr:
  "check_components cs = Inr u \<longleftrightarrow> (\<forall>c \<in> set cs. c \<noteq> [] \<and> slash \<notin> set c)"
  by (induction cs) auto

lemma session_key_of_components_Inr [simp]:
  "session_key_of_components cs = Inr k \<longleftrightarrow> k = SessionKey cs \<and> valid_session_key k"
  by (auto simp: session_key_of_components_def valid_session_key_def check_components_Inr)

lemma session_key_str_not_Nil:
  "valid_session_key k \<Longrightarrow> session_key_str k \<noteq> []"
  by (auto simp: session_key_str_def py_join_eq_Nil_iff valid_session_key_def)

lemma session_key_roundtrip:
  assumes "valid_session_key k"
  shows "session_key_of_string (session_key_str k) = Inr k"
proof -
  from assms have "py_split slash (session_key_str k) = components k"
    unfolding session_key_str_def valid_session_key_def by (intro py_split_join) auto
  with assms show ?thesis
    by (simp add: session_key_of_string_def session_key_str_not_Nil)
qed

lemma session_key_of_string_str:
  "session_key_of_string s = Inr k \<Longrightarrow> session_key_str k = s \<and> valid_session_key k"
  by (auto simp: session_key_of_string_def session_key_str_def py_join_split
      split: if_splits)

end
