(* ===== verification/Addresses.thy ===== *)
theory Addresses
  imports Sessions
begin

text \<open>
  Addresses of durable queues and the address book (\<open>src/thorn/runtime/_address.py\<close>).
  The two frozen dataclasses are the two constructors; their \<open>__post_init__\<close> checks are
  the functions \<open>mk_session_address\<close> and \<open>mk_service_address\<close>, through which the
  code builds every address. The book is a dictionary from addresses to queues, with the
  type of queues left open.
\<close>

datatype address =
    SessionAddress agent_id session_key
  | ServiceAddress string

definition mk_session_address :: "agent_id \<Rightarrow> session_key \<Rightarrow> address result" where
  "mk_session_address a k =
     (if slash \<in> set a then Inl (ValueError ''Agent ID must not contain /'')
      else if colon \<in> set a then Inl (ValueError ''Agent ID must not contain :'')
      else if session_key_str k = [] then Inl (ValueError ''Session key must be non-empty'')
      else Inr (SessionAddress a k))"

definition mk_service_address :: "string \<Rightarrow> address result" where
  "mk_service_address s =
     (if s = [] then Inl (ValueError ''Service name must be non-empty'')
      else if slash \<in> set s \<or> colon \<in> set s
        then Inl (ValueError ''Service name must not contain / or :'')
      else Inr (ServiceAddress s))"

fun address_str :: "address \<Rightarrow> string" where
  "address_str (SessionAddress a k) = ''session:'' @ a @ ''/'' @ session_key_str k"
| "address_str (ServiceAddress s) = ''service:'' @ s"

definition parse_session_body :: "string \<Rightarrow> address result" where
  "parse_session_body body =
     (case py_partition slash body of (agent, found, key) \<Rightarrow>
        if \<not> found \<or> agent = [] \<or> key = []
        then Inl (ValueError ''Session address must be session:<agent-id>/<session-key>'')
        else rbind (session_key_of_string key) (mk_session_address agent))"

definition address_parse :: "string \<Rightarrow> address result" where
  "address_parse text =
     (case py_partition colon text of (kind, found, body) \<Rightarrow>
        if \<not> found then Inl (ValueError ''Address missing : separator'')
        else if kind = ''session'' then parse_session_body body
        else if kind = ''service'' then
          (if body = []
           then Inl (ValueError ''Service address must be service:<service-name>'')
           else mk_service_address body)
        else Inl (ValueError ''Unknown address kind''))"

fun valid_address :: "address \<Rightarrow> bool" where
  "valid_address (SessionAddress a k) \<longleftrightarrow>
     a \<noteq> [] \<and> slash \<notin> set a \<and> colon \<notin> set a \<and> valid_session_key k"
| "valid_address (ServiceAddress s) \<longleftrightarrow> s \<noteq> [] \<and> slash \<notin> set s \<and> colon \<notin> set s"

section \<open>The address book\<close>

type_synonym 'q address_book = "(address \<times> 'q) list"

definition book_register :: "address \<Rightarrow> 'q \<Rightarrow> 'q address_book \<Rightarrow> 'q address_book result" where
  "book_register a q book =
     (if map_of book a \<noteq> None then Inl (ValueError ''Address already registered'')
      else Inr (dict_set a q book))"

definition book_unregister :: "address \<Rightarrow> 'q address_book \<Rightarrow> 'q address_book result" where
  "book_unregister a book =
     (if map_of book a = None then Inl (KeyError (address_str a))
      else Inr (dict_del a book))"

definition book_get :: "'q address_book \<Rightarrow> address \<Rightarrow> 'q option" where
  "book_get book a = map_of book a"

definition book_resolve :: "'q address_book \<Rightarrow> address \<Rightarrow> 'q result" where
  "book_resolve book a =
     (case map_of book a of
        None \<Rightarrow> Inl (LookupError (address_str a))
      | Some q \<Rightarrow> Inr q)"

definition book_contains :: "'q address_book \<Rightarrow> address \<Rightarrow> bool" where
  "book_contains book a = (map_of book a \<noteq> None)"

definition book_addresses :: "'q address_book \<Rightarrow> address list" where
  "book_addresses book = map fst book"

section \<open>Canonical text and parsing\<close>

lemma address_str_partition:
  "py_partition colon (address_str (SessionAddress a k)) =
     (''session'', True, a @ slash # session_key_str k)"
  "py_partition colon (address_str (ServiceAddress s)) = (''service'', True, s)"
  by (simp_all add: colon_def slash_def)

lemma parse_address_str:
  assumes "valid_address a"
  shows "address_parse (address_str a) = Inr a"
proof (cases a)
  case (SessionAddress ag k)
  with assms have "py_partition slash (ag @ slash # session_key_str k) = (ag, True, session_key_str k)"
    by simp
  with assms SessionAddress show ?thesis
    unfolding SessionAddress address_parse_def address_str_partition
    by (simp add: parse_session_body_def session_key_str_not_Nil session_key_roundtrip
        mk_session_address_def)
next
  case (ServiceAddress s)
  with assms show ?thesis
    unfolding ServiceAddress address_parse_def address_str_partition
    by (simp add: mk_service_address_def)
qed

lemma parse_session_body_Inr:
  assumes "parse_session_body body = Inr a"
  obtains ag k where "a = SessionAddress ag k" "valid_address a"
    "body = ag @ slash # session_key_str k"
proof -
  obtain ag f key where p: "py_partition slash body = (ag, f, key)"
    by (cases "py_partition slash body")
  with assms have f: "f" "ag \<noteq> []"
    and r: "rbind (session_key_of_string key) (mk_session_address ag) = Inr a"
    by (auto simp: parse_session_body_def split: if_splits)
  from r obtain k where k: "session_key_of_string key = Inr k" "mk_session_address ag k = Inr a"
    by auto
  from p f(1) have "body = ag @ slash # key \<and> slash \<notin> set ag"
    using py_partition_True [of slash body ag key] by simp
  then show thesis
    using session_key_of_string_str [OF k(1)] k(2) f(2) that
    by (auto simp: mk_session_address_def split: if_splits)
qed

lemma address_parse_Inr:
  assumes "address_parse raw = Inr a"
  shows "address_str a = raw \<and> valid_address a"
proof -
  obtain kind f body where p: "py_partition colon raw = (kind, f, body)"
    by (cases "py_partition colon raw")
  with assms have f by (auto simp: address_parse_def split: if_splits)
  with p have whole: "raw = kind @ colon # body" using py_partition_True [of colon raw kind body] by simp
  show ?thesis
  proof (cases "kind = ''session''")
    case True
    with p assms \<open>f\<close> have "parse_session_body body = Inr a"
      by (simp add: address_parse_def)
    then obtain ag k where "a = SessionAddress ag k" "valid_address a"
        "body = ag @ slash # session_key_str k"
      by (rule parse_session_body_Inr)
    with whole True show ?thesis by (simp add: colon_def slash_def)
  next
    case False
    with p assms \<open>f\<close> whole show ?thesis
      by (auto simp: address_parse_def mk_service_address_def colon_def split: if_splits)
  qed
qed

section \<open>The book's laws\<close>

lemma book_get_register:
  "book_register a q book = Inr book' \<Longrightarrow>
     book_get book' b = (if b = a then Some q else book_get book b)"
  by (auto simp: book_register_def book_get_def split: if_splits)

lemma book_get_unregister:
  "book_unregister a book = Inr book' \<Longrightarrow>
     book_get book' b = (if b = a then None else book_get book b)"
  by (auto simp: book_unregister_def book_get_def split: if_splits)

end
