(* ===== verification/Paths.thy ===== *)
theory Paths
  imports Addresses "HOL-Library.Sublist"
begin

text \<open>
  The on-disk layout of an agency (\<open>src/thorn/runtime/_paths.py\<close>): the percent encoding
  of identifiers into directory names, session keys as relative paths, the path helpers of
  \<open>AgencyPaths\<close>, and the enumeration of the queue directories found on disk.
  A path is the list of its components; \<open>path_child\<close> is \<open>Path.__truediv__\<close> with one
  component, which drops an empty name and the name \<open>.\<close>.
\<close>

type_synonym path = "string list"

definition path_child :: "path \<Rightarrow> string \<Rightarrow> path" where
  "path_child p c = (if c = [] \<or> c = ''.'' then p else p @ [c])"

definition path_children :: "path \<Rightarrow> string list \<Rightarrow> path" where
  "path_children p cs = fold (\<lambda>c q. path_child q c) cs p"

section \<open>Percent encoding (urllib.parse.quote and unquote)\<close>

definition utf8_char :: "char \<Rightarrow> nat list" where
  "utf8_char c =
     (let n = of_char c in if n < 128 then [n] else [192 + n div 64, 128 + n mod 64])"

definition utf8_encode :: "string \<Rightarrow> nat list" where
  "utf8_encode s = concat (map utf8_char s)"

text \<open>\<open>None\<close>: the bytes are not UTF-8, or a code point lies above U+00FF.\<close>

fun utf8_decode :: "nat list \<Rightarrow> string option" where
  "utf8_decode [] = Some []"
| "utf8_decode (n # ns) =
     (if n < 128 then map_option ((#) (char_of n)) (utf8_decode ns)
      else (case ns of
          [] \<Rightarrow> None
        | m # ms \<Rightarrow>
            (if (n = 194 \<or> n = 195) \<and> 128 \<le> m \<and> m < 192
             then map_option ((#) (char_of (64 * (n - 192) + (m - 128)))) (utf8_decode ms)
             else None)))"

definition is_unreserved :: "nat \<Rightarrow> bool" where
  "is_unreserved n \<longleftrightarrow>
     48 \<le> n \<and> n \<le> 57 \<or> 65 \<le> n \<and> n \<le> 90 \<or> 97 \<le> n \<and> n \<le> 122 \<or>
     n = 95 \<or> n = 46 \<or> n = 45 \<or> n = 126"

definition hex_digit :: "nat \<Rightarrow> char" where
  "hex_digit n = char_of (if n < 10 then 48 + n else 55 + n)"

definition hex_val :: "char \<Rightarrow> nat option" where
  "hex_val c =
     (let n = of_char c :: nat in
        if 48 \<le> n \<and> n \<le> 57 then Some (n - 48)
        else if 65 \<le> n \<and> n \<le> 70 then Some (n - 55)
        else if 97 \<le> n \<and> n \<le> 102 then Some (n - 87)
        else None)"

definition percent :: char where "percent = CHR 0x25"

definition quote_byte :: "nat \<Rightarrow> string" where
  "quote_byte n =
     (if is_unreserved n then [char_of n] else [percent, hex_digit (n div 16), hex_digit (n mod 16)])"

definition url_quote :: "string \<Rightarrow> string" where
  "url_quote s = concat (map quote_byte (utf8_encode s))"

fun unquote_bytes :: "string \<Rightarrow> nat list" where
  "unquote_bytes [] = []"
| "unquote_bytes (c # s) =
     (if c = percent then
        (case s of
           a # b # t \<Rightarrow>
             (case (hex_val a, hex_val b) of
                (Some x, Some y) \<Rightarrow> (16 * x + y) # unquote_bytes t
              | _ \<Rightarrow> of_char c # unquote_bytes s)
         | _ \<Rightarrow> of_char c # unquote_bytes s)
      else of_char c # unquote_bytes s)"

definition is_ascii :: "char \<Rightarrow> bool" where
  "is_ascii c \<longleftrightarrow> (of_char c :: nat) < 128"

text \<open>Maximal ASCII runs are decoded, what lies between them is copied.\<close>

function unquote_runs :: "string \<Rightarrow> string option" where
  "unquote_runs s =
     (if s = [] then Some []
      else if is_ascii (hd s) then
        (case (utf8_decode (unquote_bytes (takeWhile is_ascii s)),
               unquote_runs (dropWhile is_ascii s)) of
           (Some a, Some b) \<Rightarrow> Some (a @ b)
         | _ \<Rightarrow> None)
      else map_option ((#) (hd s)) (unquote_runs (tl s)))"
  by pat_completeness auto
termination
proof (relation "measure length", simp, goal_cases)
  case (1 s)
  then obtain c t where "s = c # t" by (cases s) auto
  with 1 show ?case by (simp add: le_imp_less_Suc length_dropWhile_le)
next
  case (2 s)
  then show ?case by (cases s) auto
qed

declare unquote_runs.simps [simp del]

definition url_unquote :: "string \<Rightarrow> string option" where
  "url_unquote s = (if percent \<notin> set s then Some s else unquote_runs s)"

definition safe_dirname :: "string \<Rightarrow> string" where
  "safe_dirname name =
     (let encoded = url_quote name in
        if encoded = ''.'' then ''%2E''
        else if encoded = ''..'' then ''%2E%2E''
        else encoded)"

text \<open>A name whose decoding leaves the range of the model is an \<open>UntypedValue\<close>.\<close>

definition unsafe_dirname :: "string \<Rightarrow> string result" where
  "unsafe_dirname dirname =
     (case url_unquote dirname of
        None \<Rightarrow> Inl (UntypedValue ''code point above U+00FF'')
      | Some s \<Rightarrow> Inr s)"

definition session_state_dir :: string where
  "session_state_dir = ''_state''"

definition session_key_path :: "session_key \<Rightarrow> path" where
  "session_key_path k = path_children [] (map safe_dirname (components k))"

definition session_key_from_path :: "bool \<Rightarrow> path \<Rightarrow> session_key result" where
  "session_key_from_path absolute parts =
     (if absolute then Inl (ValueError ''session_key_from_path expects a relative path'')
      else rbind (rmap_list unsafe_dirname parts) session_key_of_components)"

section \<open>AgencyPaths\<close>

record agency_paths =
  home_root :: path
  workspace_root :: path

definition agents_root :: "agency_paths \<Rightarrow> path" where
  "agents_root p = path_child (home_root p) ''agents''"

definition agent_framework_dir :: "agency_paths \<Rightarrow> agent_id \<Rightarrow> path" where
  "agent_framework_dir p a = path_child (agents_root p) (safe_dirname a)"

definition agent_identity_file :: "agency_paths \<Rightarrow> agent_id \<Rightarrow> path" where
  "agent_identity_file p a = path_child (agent_framework_dir p a) ''agent.json''"

definition agent_home_mount :: "agency_paths \<Rightarrow> agent_id \<Rightarrow> path" where
  "agent_home_mount p a = path_child (agent_framework_dir p a) ''home''"

definition agent_home :: "agency_paths \<Rightarrow> agent_id \<Rightarrow> path" where
  "agent_home p a = agent_home_mount p a"

definition agent_workspace_dir :: "agency_paths \<Rightarrow> agent_id \<Rightarrow> path" where
  "agent_workspace_dir p a =
     path_child (path_child (workspace_root p) ''agents'') (safe_dirname a)"

definition agent_workspace_mount :: "agency_paths \<Rightarrow> agent_id \<Rightarrow> path" where
  "agent_workspace_mount p a = path_child (agent_workspace_dir p a) ''workspace''"

definition agent_control_dir :: "agency_paths \<Rightarrow> agent_id \<Rightarrow> path" where
  "agent_control_dir p a = path_child (agent_workspace_dir p a) ''control''"

definition agent_toolhost_socket :: "agency_paths \<Rightarrow> agent_id \<Rightarrow> path" where
  "agent_toolhost_socket p a = path_child (agent_control_dir p a) ''toolhost.sock''"

definition agent_toolhost_log :: "agency_paths \<Rightarrow> agent_id \<Rightarrow> path" where
  "agent_toolhost_log p a = path_child (agent_control_dir p a) ''toolhost.log''"

definition session_workspace :: "agency_paths \<Rightarrow> agent_id \<Rightarrow> session_key \<Rightarrow> path" where
  "session_workspace p a k = path_children (agent_workspace_mount p a) (session_key_path k)"

definition agent_sessions_dir :: "agency_paths \<Rightarrow> agent_id \<Rightarrow> path" where
  "agent_sessions_dir p a = path_child (agent_framework_dir p a) ''sessions''"

definition agent_sandbox_dir :: "agency_paths \<Rightarrow> agent_id \<Rightarrow> path" where
  "agent_sandbox_dir p a = path_child (agent_framework_dir p a) ''sandbox''"

definition session_state_root :: "agency_paths \<Rightarrow> agent_id \<Rightarrow> session_key \<Rightarrow> path" where
  "session_state_root p a k = path_children (agent_sessions_dir p a) (session_key_path k)"

definition session_metadata_dir :: "agency_paths \<Rightarrow> agent_id \<Rightarrow> session_key \<Rightarrow> path" where
  "session_metadata_dir p a k = path_child (session_state_root p a k) session_state_dir"

definition session_inbox_dir :: "agency_paths \<Rightarrow> agent_id \<Rightarrow> session_key \<Rightarrow> path" where
  "session_inbox_dir p a k = path_child (session_metadata_dir p a k) ''inbox''"

definition session_inbox_errored_dir :: "agency_paths \<Rightarrow> agent_id \<Rightarrow> session_key \<Rightarrow> path" where
  "session_inbox_errored_dir p a k = path_child (session_inbox_dir p a k) ''errored''"

definition session_todo_file :: "agency_paths \<Rightarrow> agent_id \<Rightarrow> session_key \<Rightarrow> path" where
  "session_todo_file p a k =
     path_child (path_children (agent_home_mount p a) (session_key_path k)) ''TODO.md''"

definition services_root :: "agency_paths \<Rightarrow> path" where
  "services_root p = path_child (home_root p) ''services''"

definition service_dir :: "agency_paths \<Rightarrow> string \<Rightarrow> path" where
  "service_dir p s = path_child (services_root p) (safe_dirname s)"

definition service_queue_dir :: "agency_paths \<Rightarrow> string \<Rightarrow> path" where
  "service_queue_dir p s = path_child (service_dir p s) ''queue''"

definition service_queue_errored_dir :: "agency_paths \<Rightarrow> string \<Rightarrow> path" where
  "service_queue_errored_dir p s = path_child (service_queue_dir p s) ''errored''"

section \<open>Enumeration of what is on disk\<close>

text \<open>
  The directories on disk are a list of paths, in the order the operating system lists
  them. A Python generator that may raise is the list of what it yields before the
  exception, with the exception.
\<close>

type_synonym 'a gen = "'a list \<times> py_error option"

fun gen_concat :: "('a \<Rightarrow> 'b gen) \<Rightarrow> 'a list \<Rightarrow> 'b gen" where
  "gen_concat f [] = ([], None)"
| "gen_concat f (x # xs) =
     (case f x of
        (ys, Some e) \<Rightarrow> (ys, Some e)
      | (ys, None) \<Rightarrow> (case gen_concat f xs of (zs, e) \<Rightarrow> (ys @ zs, e)))"

fun gen_of_result :: "'a result \<Rightarrow> 'a gen" where
  "gen_of_result (Inl e) = ([], Some e)"
| "gen_of_result (Inr x) = ([x], None)"

definition subdirs :: "path list \<Rightarrow> path \<Rightarrow> path list" where
  "subdirs dirs d = filter (\<lambda>q. q \<noteq> [] \<and> butlast q = d) dirs"

definition iter_agent_dirs :: "agency_paths \<Rightarrow> path list \<Rightarrow> path list" where
  "iter_agent_dirs p dirs = subdirs dirs (agents_root p)"

text \<open>\<open>sessions_dir.rglob(SESSION_STATE_DIR)\<close>: the directories of that name anywhere below.\<close>

definition rglob_state_dirs :: "path list \<Rightarrow> path \<Rightarrow> path list" where
  "rglob_state_dirs dirs d =
     filter (\<lambda>q. strict_prefix d q \<and> last q = session_state_dir) dirs"

definition session_of_state_dir ::
    "path \<Rightarrow> agent_id \<Rightarrow> path \<Rightarrow> (agent_id \<times> session_key \<times> path) gen" where
  "session_of_state_dir sessions_dir a d =
     (let rel = drop (length sessions_dir) (butlast d) in
        if rel = [] then ([], None)
        else if session_state_dir \<in> set rel then ([], None)
        else gen_of_result (rbind (session_key_from_path False rel) (\<lambda>k. Inr (a, k, d))))"

definition agent_session_dirs ::
    "path list \<Rightarrow> path \<Rightarrow> (agent_id \<times> session_key \<times> path) gen" where
  "agent_session_dirs dirs agent_dir =
     (let sessions_dir = agent_dir @ [''sessions''] in
        if sessions_dir \<notin> set dirs then ([], None)
        else (case unsafe_dirname (last agent_dir) of
            Inl e \<Rightarrow> ([], Some e)
          | Inr a \<Rightarrow> gen_concat (session_of_state_dir sessions_dir a)
                      (rglob_state_dirs dirs sessions_dir)))"

definition iter_session_state_dirs ::
    "agency_paths \<Rightarrow> path list \<Rightarrow> (agent_id \<times> session_key \<times> path) gen" where
  "iter_session_state_dirs p dirs = gen_concat (agent_session_dirs dirs) (iter_agent_dirs p dirs)"

definition iter_session_metadata_locations ::
    "agency_paths \<Rightarrow> path list \<Rightarrow> (agent_id \<times> session_key \<times> path) gen" where
  "iter_session_metadata_locations p dirs = iter_session_state_dirs p dirs"

definition iter_session_inbox_locations ::
    "agency_paths \<Rightarrow> path list \<Rightarrow> (agent_id \<times> session_key \<times> path) gen" where
  "iter_session_inbox_locations p dirs =
     (case iter_session_state_dirs p dirs of (xs, e) \<Rightarrow>
        (map (\<lambda>(a, k, d). (a, k, d @ [''inbox'']))
           (filter (\<lambda>(a, k, d). d @ [''inbox''] \<in> set dirs) xs), e))"

definition iter_session_inbox_dirs :: "agency_paths \<Rightarrow> path list \<Rightarrow> path gen" where
  "iter_session_inbox_dirs p dirs =
     (case iter_session_state_dirs p dirs of (xs, e) \<Rightarrow>
        (filter (\<lambda>d. d \<in> set dirs) (map (\<lambda>(a, k, d). d @ [''inbox'']) xs), e))"

definition iter_service_queue_dirs :: "agency_paths \<Rightarrow> path list \<Rightarrow> path list" where
  "iter_service_queue_dirs p dirs =
     filter (\<lambda>d. d \<in> set dirs) (map (\<lambda>d. d @ [''queue'']) (subdirs dirs (services_root p)))"

definition iter_service_queue_locations ::
    "agency_paths \<Rightarrow> path list \<Rightarrow> (string \<times> path) gen" where
  "iter_service_queue_locations p dirs =
     gen_concat
       (\<lambda>d. if d @ [''queue''] \<notin> set dirs then ([], None)
            else gen_of_result
              (rbind (unsafe_dirname (last d)) (\<lambda>s. Inr (s, d @ [''queue'']))))
       (subdirs dirs (services_root p))"

section \<open>The layout of earlier versions\<close>

text \<open>
  \<open>detect_legacy_layout\<close>: \<open>files\<close> are the regular files on disk. The suffix of a name
  starts at its last dot, when that is neither the first nor the last character.
\<close>

definition path_suffix :: "string \<Rightarrow> string" where
  "path_suffix name =
     (let n = length (takeWhile (\<lambda>c. c \<noteq> CHR ''.'') (rev name)) in
        if 0 < n \<and> n + 1 < length name then drop (length name - (n + 1)) name else [])"

definition detect_legacy_layout :: "agency_paths \<Rightarrow> path list \<Rightarrow> path list \<Rightarrow> path list" where
  "detect_legacy_layout p dirs files =
     (let agents = agents_root p;
          agent_dirs = subdirs dirs agents;
          known = map last (filter (\<lambda>e. e @ [''agent.json''] \<in> set files) agent_dirs)
      in filter (\<lambda>e. path_suffix (last e) = ''.json'') (subdirs files agents)
       @ filter (\<lambda>e. e @ [''agent.json''] \<notin> set dirs \<union> set files \<and>
                     e @ [''sessions''] \<in> set dirs) agent_dirs
       @ (if agents \<in> set dirs
          then filter (\<lambda>e. last e \<in> set known) (subdirs dirs (workspace_root p))
          else []))"

definition raise_if_legacy_layout :: "agency_paths \<Rightarrow> path list \<Rightarrow> path list \<Rightarrow> unit result" where
  "raise_if_legacy_layout p dirs files =
     (if detect_legacy_layout p dirs files = [] then Inr ()
      else Inl (RuntimeError ''Pre-Phase-A agency layout detected''))"

definition paths_for_cli :: "path \<Rightarrow> agency_paths" where
  "paths_for_cli cwd = \<lparr>home_root = path_child cwd ''.thorn'', workspace_root = cwd\<rparr>"

definition paths_for_gateway :: "path \<Rightarrow> path \<Rightarrow> agency_paths" where
  "paths_for_gateway agency_dir workspace_dir =
     \<lparr>home_root = agency_dir, workspace_root = workspace_dir\<rparr>"

section \<open>The encoding is invertible\<close>

lemma utf8_roundtrip: "utf8_decode (utf8_encode s) = Some s"
proof (induction s)
  case Nil
  show ?case by (simp add: utf8_encode_def)
next
  case (Cons c s)
  define n where "n = (of_char c :: nat)"
  have n: "n < 256" "c = char_of n" by (simp_all add: n_def)
  show ?case
  proof (cases "n < 128")
    case True
    with Cons show ?thesis
      by (simp add: utf8_encode_def utf8_char_def n_def [symmetric] n(2) [symmetric])
  next
    case False
    with n have d: "n div 64 = 2 \<or> n div 64 = 3" by arith
    have "64 * (n div 64) + n mod 64 = n" by simp
    then show ?thesis
      using Cons False d
      by (auto simp: utf8_encode_def utf8_char_def n_def [symmetric] n(2) [symmetric] Let_def)
  qed
qed

lemma utf8_char_bytes: "n \<in> set (utf8_char c) \<Longrightarrow> n < 256"
proof -
  assume n: "n \<in> set (utf8_char c)"
  have "(of_char c :: nat) < 256" by simp
  then have "(of_char c :: nat) div 64 < 4" "(of_char c :: nat) mod 64 < 64"
    by (simp_all add: less_mult_imp_div_less)
  with n show ?thesis by (auto simp: utf8_char_def Let_def split: if_splits)
qed

lemma utf8_encode_bytes: "n \<in> set (utf8_encode s) \<Longrightarrow> n < 256"
  by (auto simp: utf8_encode_def utf8_char_bytes)

lemma hex_val_hex_digit: "n < 16 \<Longrightarrow> hex_val (hex_digit n) = Some n"
  by (auto simp: hex_val_def hex_digit_def Let_def)

lemma is_unreserved_not_percent: "is_unreserved n \<Longrightarrow> char_of n \<noteq> percent"
proof
  assume "is_unreserved n" and "char_of n = percent"
  then have "(of_char (char_of n :: char) :: nat) = 37" by (simp add: percent_def)
  with \<open>is_unreserved n\<close> show False by (auto simp: is_unreserved_def)
qed

lemma unquote_quote_byte:
  assumes "n < 256"
  shows "unquote_bytes (quote_byte n @ s) = n # unquote_bytes s"
proof (cases "is_unreserved n")
  case True
  with assms show ?thesis by (simp add: quote_byte_def is_unreserved_not_percent)
next
  case False
  have "n div 16 < 16" "16 * (n div 16) + n mod 16 = n" using assms by auto
  with False show ?thesis by (simp add: quote_byte_def hex_val_hex_digit)
qed

lemma unquote_quote_bytes:
  "\<forall>n \<in> set ns. n < 256 \<Longrightarrow> unquote_bytes (concat (map quote_byte ns)) = ns"
  by (induction ns) (auto simp: unquote_quote_byte)

lemma ascii_quote_byte: "n < 256 \<Longrightarrow> c \<in> set (quote_byte n) \<Longrightarrow> is_ascii c"
  by (auto simp: quote_byte_def is_ascii_def is_unreserved_def percent_def hex_digit_def
      split: if_splits)

lemma ascii_url_quote: "c \<in> set (url_quote s) \<Longrightarrow> is_ascii c"
  by (auto simp: url_quote_def dest: ascii_quote_byte utf8_encode_bytes)

lemma unquote_runs_ascii:
  "\<forall>c \<in> set s. is_ascii c \<Longrightarrow> unquote_runs s = utf8_decode (unquote_bytes s)"
proof -
  assume "\<forall>c \<in> set s. is_ascii c"
  then have t: "takeWhile is_ascii s = s" "dropWhile is_ascii s = []"
    by (simp_all add: takeWhile_eq_all_conv dropWhile_eq_Nil_conv)
  have nil: "unquote_runs [] = Some []" by (simp add: unquote_runs.simps)
  show ?thesis
  proof (cases s)
    case Nil
    then show ?thesis by (simp add: nil)
  next
    case (Cons c r)
    with \<open>\<forall>c \<in> set s. is_ascii c\<close> have "is_ascii (hd s)" "s \<noteq> []" by auto
    then show ?thesis
      by (simp add: unquote_runs.simps [of s] t nil split: option.splits)
  qed
qed

lemma unquote_bytes_plain: "percent \<notin> set s \<Longrightarrow> unquote_bytes s = map of_char s"
  by (induction s) auto

lemma utf8_decode_ascii:
  "\<forall>c \<in> set s. is_ascii c \<Longrightarrow> utf8_decode (map of_char s) = Some s"
  by (induction s) (auto simp: is_ascii_def)

lemma unquote_runs_quote: "unquote_runs (url_quote s) = Some s"
  unfolding url_quote_def
  by (subst unquote_runs_ascii)
    (auto simp: unquote_quote_bytes utf8_encode_bytes utf8_roundtrip
      dest: ascii_quote_byte utf8_encode_bytes)

lemma url_unquote_quote: "url_unquote (url_quote s) = Some s"
proof (cases "percent \<in> set (url_quote s)")
  case True
  then show ?thesis by (simp add: url_unquote_def unquote_runs_quote)
next
  case False
  have a: "\<forall>c \<in> set (url_quote s). is_ascii c" by (simp add: ascii_url_quote)
  with False have "unquote_runs (url_quote s) = Some (url_quote s)"
    by (simp add: unquote_runs_ascii unquote_bytes_plain utf8_decode_ascii)
  with False show ?thesis by (simp add: url_unquote_def unquote_runs_quote)
qed

lemma url_quote_inject [simp]: "url_quote a = url_quote b \<longleftrightarrow> a = b"
  by (metis option.inject url_unquote_quote)

lemma url_quote_dots: "url_quote ''.'' = ''.''" "url_quote ''..'' = ''..''"
  by code_simp+

lemma url_unquote_dots: "url_unquote ''%2E'' = Some ''.''" "url_unquote ''%2E%2E'' = Some ''..''"
  by code_simp+

lemma unsafe_safe_dirname: "unsafe_dirname (safe_dirname s) = Inr s"
proof -
  have "url_unquote (safe_dirname s) = Some s"
  proof (cases "url_quote s = ''.'' \<or> url_quote s = ''..''")
    case True
    then have "s = ''.'' \<or> s = ''..''"
      using url_quote_dots url_quote_inject by metis
    then show ?thesis
      by (auto simp: safe_dirname_def url_quote_dots url_unquote_dots)
  next
    case False
    then show ?thesis by (simp add: safe_dirname_def Let_def url_unquote_quote)
  qed
  then show ?thesis by (simp add: unsafe_dirname_def)
qed

lemma safe_dirname_inject [simp]: "safe_dirname a = safe_dirname b \<longleftrightarrow> a = b"
  by (metis sum.inject(2) unsafe_safe_dirname)

lemma quote_byte_not_slash: "n < 256 \<Longrightarrow> slash \<notin> set (quote_byte n)"
proof
  assume n: "n < 256" and "slash \<in> set (quote_byte n)"
  then have "slash = char_of n \<and> is_unreserved n \<or>
      (\<exists>k < 16. slash = hex_digit k)" 
  proof (cases "is_unreserved n")
    case True
    with \<open>slash \<in> set (quote_byte n)\<close> show ?thesis by (simp add: quote_byte_def)
  next
    case False
    have "slash \<noteq> percent" by (simp add: slash_def percent_def)
    moreover have "n div 16 < 16" and "n mod 16 < 16"
      using n by (simp_all add: less_mult_imp_div_less)
    moreover have "slash = hex_digit (n div 16) \<or> slash = hex_digit (n mod 16)"
      using False \<open>slash \<in> set (quote_byte n)\<close> calculation by (auto simp: quote_byte_def)
    ultimately show ?thesis by blast
  qed
  then show False
  proof
    assume "slash = char_of n \<and> is_unreserved n"
    then have "is_unreserved n" and "(of_char slash :: nat) = of_char (char_of n :: char)"
      by simp_all
    moreover from this(2) have "n = 47" using n by (simp add: slash_def)
    ultimately show False by (simp add: is_unreserved_def)
  next
    assume "\<exists>k < 16. slash = hex_digit k"
    then obtain k where "k < 16" "hex_val slash = Some k" using hex_val_hex_digit by metis
    then show False by (simp add: hex_val_def slash_def)
  qed
qed

lemma slash_url_quote: "slash \<notin> set (url_quote s)"
  using quote_byte_not_slash utf8_encode_bytes unfolding url_quote_def by fastforce

lemma quote_byte_not_Nil [simp]: "quote_byte n \<noteq> []"
  by (simp add: quote_byte_def)

lemma url_quote_Nil: "url_quote s = [] \<longleftrightarrow> s = []"
  by (cases s) (auto simp: url_quote_def utf8_encode_def utf8_char_def Let_def)

text \<open>The encoded name of a non-empty identifier is one path component.\<close>

lemma safe_dirname_component:
  assumes "s \<noteq> []"
  shows "safe_dirname s \<noteq> [] \<and> safe_dirname s \<noteq> ''.'' \<and> safe_dirname s \<noteq> ''..'' \<and>
    slash \<notin> set (safe_dirname s)"
  using assms slash_url_quote [of s]
  by (auto simp: safe_dirname_def Let_def url_quote_Nil slash_def)

section \<open>The layout\<close>

lemma path_child_name [simp]:
  "c \<noteq> [] \<Longrightarrow> c \<noteq> ''.'' \<Longrightarrow> path_child p c = p @ [c]"
  by (simp add: path_child_def)

lemma path_child_safe [simp]: "s \<noteq> [] \<Longrightarrow> path_child p (safe_dirname s) = p @ [safe_dirname s]"
  using safe_dirname_component [of s] by simp

lemma path_children_names:
  "\<forall>c \<in> set cs. c \<noteq> [] \<and> c \<noteq> ''.'' \<Longrightarrow> path_children p cs = p @ cs"
  by (induction cs arbitrary: p) (auto simp: path_children_def)

definition encoded_key :: "session_key \<Rightarrow> string list" where
  "encoded_key k = map safe_dirname (components k)"

lemma encoded_key_names:
  "valid_session_key k \<Longrightarrow> \<forall>c \<in> set (encoded_key k). c \<noteq> [] \<and> c \<noteq> ''.''"
  using safe_dirname_component by (auto simp: encoded_key_def valid_session_key_def)

lemma session_key_path_eq: "valid_session_key k \<Longrightarrow> session_key_path k = encoded_key k"
  using path_children_names [OF encoded_key_names, of k "[]"]
  by (simp add: session_key_path_def encoded_key_def)

lemma encoded_key_inject [simp]: "encoded_key k = encoded_key j \<longleftrightarrow> k = j"
proof
  assume "encoded_key k = encoded_key j"
  moreover have "inj safe_dirname" by (rule injI) simp
  ultimately have "components k = components j"
    unfolding encoded_key_def by (simp add: inj_map_eq_map)
  then show "k = j" by (rule session_key.expand)
qed simp

lemma session_key_from_encoded:
  assumes "valid_session_key k"
  shows "session_key_from_path False (encoded_key k) = Inr k"
proof -
  have "rmap_list unsafe_dirname (map safe_dirname cs) = Inr cs" for cs
    by (induction cs) (simp_all add: unsafe_safe_dirname)
  with assms show ?thesis
    by (simp add: session_key_from_path_def encoded_key_def)
qed

lemma agent_framework_dir_eq [simp]:
  "a \<noteq> [] \<Longrightarrow> agent_framework_dir p a = home_root p @ [''agents'', safe_dirname a]"
  by (simp add: agent_framework_dir_def agents_root_def)

lemma agent_workspace_dir_eq [simp]:
  "a \<noteq> [] \<Longrightarrow> agent_workspace_dir p a = workspace_root p @ [''agents'', safe_dirname a]"
  by (simp add: agent_workspace_dir_def)

lemma session_state_root_eq:
  "a \<noteq> [] \<Longrightarrow> valid_session_key k \<Longrightarrow> session_state_root p a k =
     home_root p @ [''agents'', safe_dirname a, ''sessions''] @ encoded_key k"
  using path_children_names [OF encoded_key_names]
  by (simp add: session_state_root_def agent_sessions_dir_def session_key_path_eq)

lemma session_metadata_dir_eq:
  "a \<noteq> [] \<Longrightarrow> valid_session_key k \<Longrightarrow> session_metadata_dir p a k =
     home_root p @ [''agents'', safe_dirname a, ''sessions''] @ encoded_key k @ [''_state'']"
  by (simp add: session_metadata_dir_def session_state_root_eq session_state_dir_def)

lemma session_inbox_dir_eq:
  "a \<noteq> [] \<Longrightarrow> valid_session_key k \<Longrightarrow> session_inbox_dir p a k =
     home_root p @ [''agents'', safe_dirname a, ''sessions''] @ encoded_key k @ [''_state'', ''inbox'']"
  by (simp add: session_inbox_dir_def session_metadata_dir_eq)

text \<open>A key without the sentinel name as a component has no encoded component that is it.\<close>

definition sentinel_free :: "session_key \<Rightarrow> bool" where
  "sentinel_free k \<longleftrightarrow> session_state_dir \<notin> set (components k)"

lemma safe_dirname_sentinel [simp]: "safe_dirname s = ''_state'' \<longleftrightarrow> s = ''_state''"
proof -
  have "safe_dirname ''_state'' = ''_state''" by code_simp
  then show ?thesis by (metis safe_dirname_inject)
qed

lemma encoded_key_sentinel: "''_state'' \<in> set (encoded_key k) \<longleftrightarrow> \<not> sentinel_free k"
proof -
  have "''_state'' \<in> set (encoded_key k) \<longleftrightarrow> (\<exists>c \<in> set (components k). ''_state'' = safe_dirname c)"
    by (auto simp: encoded_key_def image_iff)
  also have "\<dots> \<longleftrightarrow> (\<exists>c \<in> set (components k). c = ''_state'')"
    using safe_dirname_sentinel by metis
  finally show ?thesis by (simp add: sentinel_free_def session_state_dir_def)
qed

lemma sentinel_prefix:
  "x \<notin> set ys \<Longrightarrow> prefix (xs @ [x]) (ys @ x # zs) \<Longrightarrow> x \<notin> set xs \<Longrightarrow> xs = ys"
proof (induction xs arbitrary: ys)
  case Nil
  then show ?case by (cases ys) auto
next
  case (Cons a xs)
  then show ?case by (cases ys) auto
qed

lemma session_dirs_disjoint:
  assumes "a \<noteq> []" "b \<noteq> []" "valid_session_key k" "valid_session_key j"
    and "sentinel_free k" "sentinel_free j"
    and "prefix (session_metadata_dir p a k) (session_metadata_dir p b j @ rest)"
  shows "a = b \<and> k = j"
proof -
  from assms(7) have "safe_dirname a = safe_dirname b" and
    "prefix (encoded_key k @ [''_state'']) (encoded_key j @ ''_state'' # rest)"
    using assms(1-4) by (auto simp: session_metadata_dir_eq)
  then show ?thesis
    using sentinel_prefix [of "''_state''" "encoded_key j" "encoded_key k" rest] assms(5,6)
    by (simp add: encoded_key_sentinel)
qed

text \<open>With the sentinel as a component the directory of one session is that of another.\<close>

lemma sentinel_collision:
  assumes "a \<noteq> []" "valid_session_key k"
  shows "session_state_root p a (SessionKey (components k @ [''_state''])) = session_metadata_dir p a k"
proof -
  have "valid_session_key (SessionKey (components k @ [''_state'']))"
    using assms(2) by (auto simp: valid_session_key_def slash_def)
  with assms show ?thesis
    by (simp add: session_state_root_eq session_metadata_dir_eq encoded_key_def)
qed

lemma gen_concat_member:
  assumes "gen_concat f xs = (ys, None)" "x \<in> set xs" "y \<in> set (fst (f x))"
  shows "y \<in> set ys"
  using assms
proof (induction xs arbitrary: ys)
  case (Cons z xs)
  then obtain us vs where "f z = (us, None)" "gen_concat f xs = (vs, None)" "ys = us @ vs"
    by (auto split: prod.splits option.splits)
  with Cons show ?case by auto
qed simp

lemma gen_concat_part:
  "gen_concat f xs = (ys, None) \<Longrightarrow> x \<in> set xs \<Longrightarrow> \<exists>zs. f x = (zs, None)"
proof (induction xs arbitrary: ys)
  case (Cons z xs)
  then obtain us vs where "f z = (us, None)" "gen_concat f xs = (vs, None)" "ys = us @ vs"
    by (auto split: prod.splits option.splits)
  with Cons show ?case by auto
qed simp

lemma session_of_encoded_state_dir:
  assumes "valid_session_key k" "sentinel_free k"
  shows "session_of_state_dir sd a (sd @ encoded_key k @ [''_state'']) =
    ([(a, k, sd @ encoded_key k @ [''_state''])], None)"
proof -
  have "encoded_key k \<noteq> []" using assms(1) by (simp add: encoded_key_def valid_session_key_def)
  moreover have "drop (length sd) (butlast (sd @ encoded_key k @ [''_state''])) = encoded_key k"
    by (simp add: butlast_append)
  moreover have "session_state_dir \<notin> set (encoded_key k)"
    using assms(2) encoded_key_sentinel [of k] by (simp add: session_state_dir_def)
  ultimately show ?thesis
    unfolding session_of_state_dir_def
    by (simp add: session_key_from_encoded [OF assms(1)])
qed

lemma iter_session_state_dirs_complete:
  assumes "iter_session_state_dirs p dirs = (xs, None)"
    and "a \<noteq> []" "valid_session_key k" "sentinel_free k"
    and "agent_framework_dir p a \<in> set dirs" "agent_sessions_dir p a \<in> set dirs"
    and "session_metadata_dir p a k \<in> set dirs"
  shows "(a, k, session_metadata_dir p a k) \<in> set xs"
proof -
  let ?ad = "agent_framework_dir p a" and ?sd = "agent_sessions_dir p a"
  have sd: "?sd = ?ad @ [''sessions'']" by (simp add: agent_sessions_dir_def)
  have md: "session_metadata_dir p a k = ?sd @ encoded_key k @ [''_state'']"
    using assms(2,3) by (simp add: session_metadata_dir_eq sd)
  have ad: "?ad \<in> set (iter_agent_dirs p dirs)"
    using assms(2,5) by (simp add: iter_agent_dirs_def subdirs_def agents_root_def butlast_append)
  obtain ys where ys: "agent_session_dirs dirs ?ad = (ys, None)"
    using gen_concat_part [OF assms(1) [unfolded iter_session_state_dirs_def] ad] by blast
  have ua: "unsafe_dirname (last ?ad) = Inr a"
    using assms(2) by (simp add: unsafe_safe_dirname)
  have g: "gen_concat (session_of_state_dir ?sd a) (rglob_state_dirs dirs ?sd) = (ys, None)"
    using ys assms(6) ua unfolding agent_session_dirs_def Let_def sd [symmetric] by simp
  have "session_metadata_dir p a k \<in> set (rglob_state_dirs dirs ?sd)"
    using assms(7) md by (simp add: rglob_state_dirs_def session_state_dir_def strict_prefix_def)
  then have "(a, k, session_metadata_dir p a k) \<in> set ys"
    using gen_concat_member [OF g] session_of_encoded_state_dir [OF assms(3,4), of ?sd a] md
    by fastforce
  then show ?thesis
    using gen_concat_member [OF assms(1) [unfolded iter_session_state_dirs_def] ad] ys by simp
qed

section \<open>What the sandbox sees\<close>

text \<open>
  The two mounts of an agent contain its own work and none of the files the framework keeps,
  when the two roots do not put one agents directory inside the other.
\<close>

definition roots_apart :: "agency_paths \<Rightarrow> bool" where
  "roots_apart p \<longleftrightarrow>
     home_root p @ [''agents''] \<parallel> workspace_root p @ [''agents''] \<and>
     home_root p @ [''services''] \<parallel> workspace_root p @ [''agents'']"

definition agent_mounts :: "agency_paths \<Rightarrow> agent_id \<Rightarrow> path set" where
  "agent_mounts p a = {agent_home_mount p a, agent_workspace_mount p a}"

definition framework_dirs ::
    "agency_paths \<Rightarrow> agent_id \<Rightarrow> session_key \<Rightarrow> string \<Rightarrow> path set" where
  "framework_dirs p a k s =
     {agent_identity_file p a, session_metadata_dir p a k, session_inbox_dir p a k,
      agent_sandbox_dir p a, agent_control_dir p a, agent_toolhost_socket p a,
      service_queue_dir p s}"

lemma prefix_of_parallel:
  "xs \<parallel> ys \<Longrightarrow> \<not> prefix (xs @ us) (ys @ vs)"
  by (metis append_prefixD parallel_def prefix_append prefix_def prefix_same_cases)

lemma roots_apart_cli: "roots_apart (paths_for_cli cwd)"
  by (auto simp: roots_apart_def paths_for_cli_def parallel_def)

lemma roots_apart_not_prefix:
  assumes "roots_apart p"
  shows "\<not> prefix (home_root p @ ''agents'' # us) (workspace_root p @ ''agents'' # vs)"
    and "\<not> prefix (workspace_root p @ ''agents'' # us) (home_root p @ ''agents'' # vs)"
    and "\<not> prefix (workspace_root p @ ''agents'' # us) (home_root p @ ''services'' # vs)"
  using assms prefix_of_parallel [of "home_root p @ [''agents'']" "workspace_root p @ [''agents'']" us vs]
    prefix_of_parallel [of "workspace_root p @ [''agents'']" "home_root p @ [''agents'']" us vs]
    prefix_of_parallel [of "workspace_root p @ [''agents'']" "home_root p @ [''services'']" us vs]
  by (auto simp: roots_apart_def parallel_commute)

lemma service_queue_dir_eq:
  "s \<noteq> [] \<Longrightarrow> service_queue_dir p s = home_root p @ [''services'', safe_dirname s, ''queue'']"
  by (simp add: service_queue_dir_def service_dir_def services_root_def)

lemma session_key_path_children:
  "valid_session_key k \<Longrightarrow> path_children q (session_key_path k) = q @ encoded_key k"
  by (simp add: session_key_path_eq path_children_names encoded_key_names)

text \<open>Whatever an agent's sandbox sees through its two mounts, no identity file, session
  metadata or inbox, sandbox directory, control directory or service queue of any agent lies
  inside a mount, while the agent's own session working directories and todo files do.\<close>

theorem mounts_hide_framework:
  assumes "roots_apart p" "a \<noteq> []" "b \<noteq> []" "s \<noteq> []"
    and "valid_session_key k" "valid_session_key j"
  shows "(\<forall>m \<in> agent_mounts p a. \<forall>d \<in> framework_dirs p b k s. \<not> prefix m d) \<and>
    prefix (agent_workspace_mount p a) (session_workspace p a j) \<and>
    prefix (agent_home_mount p a) (session_todo_file p a j)"
proof -
  note dirs = agent_home_mount_def agent_workspace_mount_def agent_identity_file_def
    agent_sandbox_dir_def agent_control_dir_def agent_toolhost_socket_def
  show ?thesis
    using assms roots_apart_not_prefix [OF assms(1)]
    by (auto simp: agent_mounts_def framework_dirs_def dirs session_metadata_dir_eq
        session_inbox_dir_eq service_queue_dir_eq session_workspace_def session_todo_file_def
        session_key_path_children)
qed

theorem mounts_hide_framework_witness:
  "\<not> prefix (agent_home_mount (paths_for_cli [''repo'']) ''ann'')
      (session_inbox_dir (paths_for_cli [''repo'']) ''ann'' (SessionKey [''cli'', ''x''])) \<and>
   \<not> prefix (agent_workspace_mount (paths_for_cli [''repo'']) ''ann'')
      (agent_control_dir (paths_for_cli [''repo'']) ''ann'')"
  using mounts_hide_framework [OF roots_apart_cli, of "''ann''" "''ann''" "''chat''"
      "SessionKey [''cli'', ''x'']" "SessionKey [''cli'', ''x'']" "[''repo'']"]
  by (simp add: valid_session_key_def slash_def agent_mounts_def framework_dirs_def)

section \<open>Properties\<close>

text \<open>An identifier survives the encoding into a directory name, and the name of a
  non-empty identifier is a single path component other than the two dot names.\<close>

theorem safe_dirname_correct:
  "unsafe_dirname (safe_dirname s) = Inr s \<and>
   (s = [] \<or> (safe_dirname s \<noteq> [] \<and> safe_dirname s \<noteq> ''.'' \<and> safe_dirname s \<noteq> ''..'' \<and>
      slash \<notin> set (safe_dirname s)))"
  using unsafe_safe_dirname safe_dirname_component by blast

text \<open>The framework directories of two sessions are never nested or equal, whatever the
  hierarchy of their keys, as long as no component of a key is the sentinel name.\<close>

theorem session_dirs_never_nest:
  assumes "a \<noteq> []" "b \<noteq> []" "valid_session_key k" "valid_session_key j"
    and "sentinel_free k" "sentinel_free j"
    and "prefix (session_metadata_dir p a k) (session_metadata_dir p b j @ rest)"
  shows "a = b \<and> k = j"
  using assms by (rule session_dirs_disjoint)

theorem session_dirs_never_nest_witness:
  "\<not> prefix (session_metadata_dir (paths_for_cli []) ''ann'' (SessionKey [''a'', ''b'']))
     (session_metadata_dir (paths_for_cli []) ''ann'' (SessionKey [''a'', ''b'', ''inbox'']) @ [''x''])"
  using session_dirs_never_nest [of "''ann''" "''ann''" "SessionKey [''a'', ''b'']"
      "SessionKey [''a'', ''b'', ''inbox'']" "paths_for_cli []" "[''x'']"]
  by (auto simp: valid_session_key_def sentinel_free_def session_state_dir_def slash_def)

text \<open>When the enumeration of the session directories ends without an exception, every
  session whose metadata directory is on disk and whose key has no sentinel component is
  yielded, with its agent id and key decoded back to the original values.\<close>

theorem enumeration_finds_sessions:
  assumes "iter_session_state_dirs p dirs = (xs, None)"
    and "a \<noteq> []" "valid_session_key k" "sentinel_free k"
    and "agent_framework_dir p a \<in> set dirs" "agent_sessions_dir p a \<in> set dirs"
    and "session_metadata_dir p a k \<in> set dirs"
  shows "(a, k, session_metadata_dir p a k) \<in> set xs"
  using assms by (rule iter_session_state_dirs_complete)

theorem enumeration_finds_sessions_witness:
  "(''a:n'', SessionKey [''x y'', ''..''],
     [''agents'', ''a%3An'', ''sessions'', ''x%20y'', ''%2E%2E'', ''_state'']) \<in>
   set (fst (iter_session_state_dirs (paths_for_gateway [] [''w''])
     [[''agents'', ''a%3An''], [''agents'', ''a%3An'', ''sessions''],
      [''agents'', ''a%3An'', ''sessions'', ''x%20y'', ''%2E%2E'', ''_state'']]))"
proof -
  let ?p = "paths_for_gateway [] [''w'']" and ?k = "SessionKey [''x y'', ''..'']"
  let ?dirs = "[[''agents'', ''a%3An''], [''agents'', ''a%3An'', ''sessions''],
      [''agents'', ''a%3An'', ''sessions'', ''x%20y'', ''%2E%2E'', ''_state'']]"
  have "snd (iter_session_state_dirs ?p ?dirs) = None" by code_simp
  then obtain xs where x: "iter_session_state_dirs ?p ?dirs = (xs, None)"
    by (metis prod.collapse)
  have d: "agent_framework_dir ?p ''a:n'' = [''agents'', ''a%3An'']"
    "agent_sessions_dir ?p ''a:n'' = [''agents'', ''a%3An'', ''sessions'']"
    "session_metadata_dir ?p ''a:n'' ?k =
       [''agents'', ''a%3An'', ''sessions'', ''x%20y'', ''%2E%2E'', ''_state'']"
    by code_simp+
  have v: "valid_session_key ?k" "sentinel_free ?k"
    by (simp_all add: valid_session_key_def sentinel_free_def slash_def session_state_dir_def)
  show ?thesis
    using enumeration_finds_sessions [OF x _ v, of "''a:n''"] x unfolding d by simp
qed

text \<open>A session whose key ends with the sentinel name keeps its root in the metadata
  directory of the session with the shorter key, and the enumeration of a disk that holds
  both yields only the latter.\<close>

theorem sentinel_component_collides:
  "session_state_root (paths_for_cli []) ''a'' (SessionKey [''x'', ''_state'']) =
     session_metadata_dir (paths_for_cli []) ''a'' (SessionKey [''x'']) \<and>
   iter_session_state_dirs (paths_for_cli [])
     [agent_framework_dir (paths_for_cli []) ''a'', agent_sessions_dir (paths_for_cli []) ''a'',
      session_metadata_dir (paths_for_cli []) ''a'' (SessionKey [''x'']),
      session_metadata_dir (paths_for_cli []) ''a'' (SessionKey [''x'', ''_state''])] =
   ([(''a'', SessionKey [''x''],
      session_metadata_dir (paths_for_cli []) ''a'' (SessionKey [''x'']))], None)"
  by code_simp

end
