(* ===== verification/Json.thy ===== *)
theory Json
  imports PyString
begin

text \<open>
  What \<open>json.loads\<close> returns and what the decoders of the source do with it: lookups with
  and without a default, truth values, and the conversions \<open>str\<close> and \<open>int\<close>. An object is an
  association list, in the order of the text, with distinct keys; floating-point numbers do
  not occur in the documents the modelled code writes and are left out. \<open>UntypedValue\<close>
  marks the inputs on which the model stops.
\<close>

datatype json =
    JNull
  | JBool bool
  | JInt int
  | JStr string
  | JArr "json list"
  | JObj "(string \<times> json) list"

type_synonym json_object = "(string \<times> json) list"

text \<open>A file holds a document or bytes that \<open>json.loads\<close> refuses with a \<open>ValueError\<close>.\<close>

datatype file_content = FileJson json | Unparsable

fun json_loads :: "file_content \<Rightarrow> json result" where
  "json_loads (FileJson j) = Inr j"
| "json_loads Unparsable = Inl (ValueError ''JSONDecodeError'')"

fun truthy :: "json \<Rightarrow> bool" where
  "truthy JNull = False"
| "truthy (JBool b) = b"
| "truthy (JInt i) = (i \<noteq> 0)"
| "truthy (JStr s) = (s \<noteq> [])"
| "truthy (JArr xs) = (xs \<noteq> [])"
| "truthy (JObj m) = (m \<noteq> [])"

text \<open>\<open>data[key]\<close>, \<open>data.get(key)\<close> and \<open>data.get(key) or default\<close> on a dictionary.\<close>

definition jitem :: "json_object \<Rightarrow> string \<Rightarrow> json result" where
  "jitem m k = (case map_of m k of None \<Rightarrow> Inl (KeyError k) | Some v \<Rightarrow> Inr v)"

definition jget :: "json_object \<Rightarrow> string \<Rightarrow> json" where
  "jget m k = (case map_of m k of None \<Rightarrow> JNull | Some v \<Rightarrow> v)"

definition jget_or :: "json_object \<Rightarrow> string \<Rightarrow> json \<Rightarrow> json" where
  "jget_or m k d = (if truthy (jget m k) then jget m k else d)"

text \<open>The decoders call \<open>data.get\<close> first, which only a dictionary has, or subscript with a
  string, which raises another exception on other values.\<close>

fun jdict :: "json \<Rightarrow> json_object result" where
  "jdict (JObj m) = Inr m"
| "jdict _ = Inl (AttributeError ''get'')"

fun jmapping :: "json \<Rightarrow> json_object result" where
  "jmapping (JObj m) = Inr m"
| "jmapping _ = Inl (TypeError ''not subscriptable with a string'')"

text \<open>\<open>str(x)\<close> on the values whose text the model has.\<close>

fun py_str :: "json \<Rightarrow> string result" where
  "py_str JNull = Inr ''None''"
| "py_str (JBool b) = Inr (if b then ''True'' else ''False'')"
| "py_str (JInt i) = Inr (show_int i)"
| "py_str (JStr s) = Inr s"
| "py_str (JArr _) = Inl (UntypedValue ''repr of a list'')"
| "py_str (JObj _) = Inl (UntypedValue ''repr of a dict'')"

lemma rmap_list_py_str [simp]: "rmap_list py_str (map JStr xs) = Inr xs"
  by (induction xs) simp_all

text \<open>\<open>int(text)\<close>: surrounding white space, a sign, and digits with single underscores
  between them.\<close>

fun read_digits_us :: "nat \<Rightarrow> string \<Rightarrow> nat option" where
  "read_digits_us acc [] = None"
| "read_digits_us acc (c # s) =
     (case digit_val c of
        None \<Rightarrow> None
      | Some d \<Rightarrow>
          (case s of
             [] \<Rightarrow> Some (10 * acc + d)
           | e # t \<Rightarrow>
               if e = CHR ''_'' then read_digits_us (10 * acc + d) t
               else read_digits_us (10 * acc + d) s))"

definition py_int_of_str :: "string \<Rightarrow> int result" where
  "py_int_of_str text0 =
     (let t = py_strip text0;
          neg = (t \<noteq> [] \<and> hd t = CHR ''-'');
          ds = (if t \<noteq> [] \<and> (hd t = CHR ''-'' \<or> hd t = CHR ''+'') then tl t else t)
      in case read_digits_us 0 ds of
           None \<Rightarrow> Inl (ValueError ''invalid literal for int'')
         | Some n \<Rightarrow> Inr (if neg then - int n else int n))"

fun py_int :: "json \<Rightarrow> int result" where
  "py_int (JInt i) = Inr i"
| "py_int (JBool b) = Inr (if b then 1 else 0)"
| "py_int (JStr s) = py_int_of_str s"
| "py_int _ = Inl (TypeError ''int() argument'')"

text \<open>A field annotated \<open>str\<close> or \<open>str | None\<close> that the code stores without a check.\<close>

fun as_str :: "json \<Rightarrow> string result" where
  "as_str (JStr s) = Inr s"
| "as_str _ = Inl (UntypedValue ''str'')"

fun as_str_opt :: "json \<Rightarrow> string option result" where
  "as_str_opt JNull = Inr None"
| "as_str_opt (JStr s) = Inr (Some s)"
| "as_str_opt _ = Inl (UntypedValue ''str | None'')"

fun jstr_opt :: "string option \<Rightarrow> json" where
  "jstr_opt None = JNull"
| "jstr_opt (Some s) = JStr s"

lemma as_str_opt_jstr_opt [simp]: "as_str_opt (jstr_opt x) = Inr x"
  by (cases x) auto

text \<open>Enumerations whose values are strings.\<close>

definition enum_from_value :: "('a \<Rightarrow> string) \<Rightarrow> 'a list \<Rightarrow> json \<Rightarrow> 'a result" where
  "enum_from_value value members j =
     (case j of
        JStr s \<Rightarrow> (case find (\<lambda>m. value m = s) members of
                    None \<Rightarrow> Inl (ValueError ''not a valid member'')
                  | Some m \<Rightarrow> Inr m)
      | _ \<Rightarrow> Inl (ValueError ''not a valid member''))"

lemma enum_from_value_of:
  assumes "inj_on val (set ms)" "m \<in> set ms"
  shows "enum_from_value val ms (JStr (val m)) = Inr m"
proof -
  have "find (\<lambda>x. val x = val m) ms = Some m"
    using assms by (induction ms) (auto simp: inj_on_def)
  then show ?thesis by (simp add: enum_from_value_def)
qed

section \<open>Codecs\<close>

text \<open>
  The contract of a pair of an encoder and a decoder. What is encoded in different ways is
  different, and a list encoded element by element is decoded element by element.
\<close>

locale codec =
  fixes enc :: "'a \<Rightarrow> 'b"
    and dec :: "'b \<Rightarrow> 'a result"
    and ok :: "'a \<Rightarrow> bool"
  assumes dec_enc: "ok x \<Longrightarrow> dec (enc x) = Inr x"
begin

lemma enc_inject: "ok x \<Longrightarrow> ok y \<Longrightarrow> enc x = enc y \<Longrightarrow> x = y"
  by (metis dec_enc sum.inject(2))

lemma enc_inj_on: "inj_on enc (Collect ok)"
  by (rule inj_onI) (auto intro: enc_inject)

lemma dec_enc_list: "\<forall>x \<in> set xs. ok x \<Longrightarrow> rmap_list dec (map enc xs) = Inr xs"
  by (induction xs) (auto simp: dec_enc)

lemma distinct_enc: "\<forall>x \<in> set xs. ok x \<Longrightarrow> distinct xs \<Longrightarrow> distinct (map enc xs)"
  by (auto simp: distinct_map intro: inj_on_subset [OF enc_inj_on])

end

end
