(* ===== verification/Timestamps.thy ===== *)
theory Timestamps
  imports Json
begin

text \<open>
  UTC timestamps: the values of \<open>datetime.now(timezone.utc)\<close>, the text \<open>isoformat\<close> writes
  for them and \<open>datetime.fromisoformat\<close> on texts of that shape. Other texts, of which
  Python accepts some, are outside the model (\<open>UntypedValue\<close>).
\<close>

record timestamp =
  ts_year :: nat
  ts_month :: nat
  ts_day :: nat
  ts_hour :: nat
  ts_minute :: nat
  ts_second :: nat
  ts_micro :: nat

definition is_leap :: "nat \<Rightarrow> bool" where
  "is_leap y \<longleftrightarrow> y mod 4 = 0 \<and> (y mod 100 \<noteq> 0 \<or> y mod 400 = 0)"

definition days_in_month :: "nat \<Rightarrow> nat \<Rightarrow> nat" where
  "days_in_month y m =
     (if m = 2 then (if is_leap y then 29 else 28)
      else if m = 4 \<or> m = 6 \<or> m = 9 \<or> m = 11 then 30 else 31)"

definition valid_timestamp :: "timestamp \<Rightarrow> bool" where
  "valid_timestamp t \<longleftrightarrow>
     1 \<le> ts_year t \<and> ts_year t \<le> 9999 \<and> 1 \<le> ts_month t \<and> ts_month t \<le> 12 \<and>
     1 \<le> ts_day t \<and> ts_day t \<le> days_in_month (ts_year t) (ts_month t) \<and>
     ts_hour t < 24 \<and> ts_minute t < 60 \<and> ts_second t < 60 \<and> ts_micro t < 1000000"

fun fixed_digits :: "nat \<Rightarrow> nat \<Rightarrow> string" where
  "fixed_digits 0 n = []"
| "fixed_digits (Suc k) n = fixed_digits k (n div 10) @ [digit_char (n mod 10)]"

definition isoformat :: "timestamp \<Rightarrow> string" where
  "isoformat t =
     fixed_digits 4 (ts_year t) @ ''-'' @ fixed_digits 2 (ts_month t) @ ''-'' @
     fixed_digits 2 (ts_day t) @ ''T'' @ fixed_digits 2 (ts_hour t) @ '':'' @
     fixed_digits 2 (ts_minute t) @ '':'' @ fixed_digits 2 (ts_second t) @
     (if ts_micro t = 0 then [] else ''.'' @ fixed_digits 6 (ts_micro t)) @ ''+00:00''"

text \<open>A reader of \<open>k\<close> digits, or of one fixed character, returns what is left.\<close>

definition take_num :: "nat \<Rightarrow> string \<Rightarrow> (nat \<times> string) option" where
  "take_num k s =
     (if length s < k then None
      else map_option (\<lambda>n. (n, drop k s)) (read_digits 0 (take k s)))"

fun take_char :: "char \<Rightarrow> string \<Rightarrow> string option" where
  "take_char c [] = None"
| "take_char c (x # s) = (if x = c then Some s else None)"

fun read_fields :: "(nat \<times> char option) list \<Rightarrow> string \<Rightarrow> (nat list \<times> string) option" where
  "read_fields [] s = Some ([], s)"
| "read_fields ((k, sep) # fs) s =
     (case take_num k s of
        None \<Rightarrow> None
      | Some (n, s1) \<Rightarrow>
          (case (case sep of None \<Rightarrow> Some s1 | Some c \<Rightarrow> take_char c s1) of
             None \<Rightarrow> None
           | Some s2 \<Rightarrow>
               (case read_fields fs s2 of None \<Rightarrow> None | Some (ns, s3) \<Rightarrow> Some (n # ns, s3))))"

definition iso_fields :: "(nat \<times> char option) list" where
  "iso_fields =
     [(4, Some CHR ''-''), (2, Some CHR ''-''), (2, Some CHR ''T''), (2, Some CHR '':''),
      (2, Some CHR '':''), (2, None)]"

definition read_micro :: "string \<Rightarrow> nat option" where
  "read_micro s =
     (if s = ''+00:00'' then Some 0
      else (case take_char CHR ''.'' s of
          None \<Rightarrow> None
        | Some s1 \<Rightarrow> (case take_num 6 s1 of
              Some (us, s2) \<Rightarrow> (if s2 = ''+00:00'' then Some us else None)
            | None \<Rightarrow> None)))"

definition iso_of_text :: "string \<Rightarrow> timestamp option" where
  "iso_of_text s =
     (case read_fields iso_fields s of
        Some ([y, mo, d, h, mi, se], rest) \<Rightarrow>
          (case read_micro rest of
             None \<Rightarrow> None
           | Some us \<Rightarrow> Some \<lparr>ts_year = y, ts_month = mo, ts_day = d, ts_hour = h,
                               ts_minute = mi, ts_second = se, ts_micro = us\<rparr>)
      | _ \<Rightarrow> None)"

fun fromisoformat :: "json \<Rightarrow> timestamp result" where
  "fromisoformat (JStr s) =
     (case iso_of_text s of
        None \<Rightarrow> Inl (UntypedValue ''fromisoformat'')
      | Some t \<Rightarrow> (if valid_timestamp t then Inr t
                     else Inl (ValueError ''field out of range'')))"
| "fromisoformat _ = Inl (TypeError ''fromisoformat: argument must be str'')"

section \<open>Reading back what was written\<close>

lemma length_fixed_digits [simp]: "length (fixed_digits k n) = k"
  by (induction k arbitrary: n) auto

lemma read_fixed_digits:
  "n < 10 ^ k \<Longrightarrow> read_digits 0 (fixed_digits k n) = Some n"
proof (induction k arbitrary: n)
  case (Suc k)
  then have "n div 10 < 10 ^ k" by (simp add: less_mult_imp_div_less)
  with Suc.IH show ?case by (simp add: read_digits_append digit_val_digit_char)
qed simp

lemma take_num_fixed [simp]:
  "n < 10 ^ k \<Longrightarrow> take_num k (fixed_digits k n @ s) = Some (n, s)"
  by (simp add: take_num_def read_fixed_digits)

lemma valid_timestamp_bounds:
  assumes "valid_timestamp t"
  shows "ts_year t < 10 ^ 4" "ts_month t < 10 ^ 2" "ts_day t < 10 ^ 2" "ts_hour t < 10 ^ 2"
    "ts_minute t < 10 ^ 2" "ts_second t < 10 ^ 2" "ts_micro t < 10 ^ 6"
  using assms by (auto simp: valid_timestamp_def days_in_month_def split: if_splits)

lemma iso_of_isoformat:
  assumes "valid_timestamp t"
  shows "iso_of_text (isoformat t) = Some t"
proof -
  note b = valid_timestamp_bounds [OF assms]
  let ?rest = "(if ts_micro t = 0 then [] else ''.'' @ fixed_digits 6 (ts_micro t)) @ ''+00:00''"
  have "read_fields iso_fields (isoformat t) =
      Some ([ts_year t, ts_month t, ts_day t, ts_hour t, ts_minute t, ts_second t], ?rest)"
    using b(1-6) by (simp add: iso_fields_def isoformat_def del: fixed_digits.simps)
  moreover have "read_micro ?rest = Some (ts_micro t)"
    using b(7) by (simp add: read_micro_def del: fixed_digits.simps)
  ultimately show ?thesis by (simp add: iso_of_text_def)
qed

lemma fromisoformat_isoformat [codec_simps]:
  "valid_timestamp t \<Longrightarrow> fromisoformat (JStr (isoformat t)) = Inr t"
  by (simp add: iso_of_isoformat)

interpretation timestamp_codec: codec "\<lambda>t. JStr (isoformat t)" fromisoformat valid_timestamp
  by unfold_locales (rule fromisoformat_isoformat)

end
