(* ===== verification/Ulids.thy ===== *)
theory Ulids
  imports PyString "HOL-Library.Word"
begin

text \<open>
  Notification identifiers (\<open>_generate_ulid\<close> in \<open>src/thorn/runtime/_notification.py\<close>):
  a 128-bit value, the milliseconds above 80 random bits, written as 26 characters of the
  Crockford base-32 alphabet. The two module variables are the record \<open>ulid_state\<close>; the clock
  reading and the random bytes are inputs. Directory listings sort by these identifiers.
\<close>

unbundle bit_operations_syntax

record ulid_state =
  last_ms :: nat
  last_rand :: nat

definition ulid_init :: ulid_state where
  "ulid_init = \<lparr>last_ms = 0, last_rand = 0\<rparr>"

definition ulid_alphabet :: string where
  "ulid_alphabet = ''0123456789ABCDEFGHJKMNPQRSTVWXYZ''"

definition ulid_rand_mask :: nat where
  "ulid_rand_mask = push_bit 80 1 - 1"

text \<open>The loop of 26 steps, which collects the digits from the least significant one.\<close>

fun ulid_digits :: "nat \<Rightarrow> nat \<Rightarrow> string" where
  "ulid_digits 0 v = []"
| "ulid_digits (Suc n) v = ulid_alphabet ! (v AND 31) # ulid_digits n (drop_bit 5 v)"

definition ulid_encode :: "nat \<Rightarrow> string" where
  "ulid_encode v = rev (ulid_digits 26 v)"

definition ulid_value :: "ulid_state \<Rightarrow> nat" where
  "ulid_value st = (push_bit 80 (last_ms st)) OR (last_rand st)"

definition ulid_step :: "nat \<Rightarrow> nat \<Rightarrow> ulid_state \<Rightarrow> ulid_state" where
  "ulid_step ms rnd st =
     (if ms \<le> last_ms st
      then st\<lparr>last_rand := (last_rand st + 1) AND ulid_rand_mask\<rparr>
      else st\<lparr>last_ms := ms, last_rand := rnd\<rparr>)"

definition generate_ulid :: "nat \<Rightarrow> nat \<Rightarrow> ulid_state \<Rightarrow> string \<times> ulid_state" where
  "generate_ulid ms rnd st =
     (let st' = ulid_step ms rnd st in (ulid_encode (ulid_value st'), st'))"

fun generate_ulids :: "(nat \<times> nat) list \<Rightarrow> ulid_state \<Rightarrow> string list \<times> ulid_state" where
  "generate_ulids [] st = ([], st)"
| "generate_ulids ((ms, rnd) # xs) st =
     (let (i, st1) = generate_ulid ms rnd st; (is, st2) = generate_ulids xs st1
      in (i # is, st2))"

definition ulid_ok :: "ulid_state \<Rightarrow> bool" where
  "ulid_ok st \<longleftrightarrow> last_ms st < 2 ^ 48 \<and> last_rand st < 2 ^ 80"

text \<open>The random counter is at its last value, so that the next step in the same
  millisecond wraps.\<close>

definition ulid_exhausted :: "ulid_state \<Rightarrow> bool" where
  "ulid_exhausted st \<longleftrightarrow> last_rand st = ulid_rand_mask"

section \<open>Arithmetic form\<close>

lemma ulid_rand_mask_eq: "ulid_rand_mask = 2 ^ 80 - 1"
  by (simp add: ulid_rand_mask_def push_bit_eq_mult)

lemma and_ulid_mask: "n AND ulid_rand_mask = n mod 2 ^ 80"
proof -
  have "ulid_rand_mask = mask 80" by (simp only: ulid_rand_mask_eq mask_eq_exp_minus_1)
  then show ?thesis by (simp only: take_bit_eq_mod [symmetric] take_bit_eq_mask)
qed

lemma ulid_value_eq:
  assumes r: "last_rand st < 2 ^ 80"
  shows "ulid_value st = last_ms st * 2 ^ 80 + last_rand st"
proof -
  have "push_bit 80 (last_ms st) AND last_rand st = 0"
  proof (rule bit_eqI)
    fix n
    have "\<not> bit (last_rand st) n" if "80 \<le> n"
    proof -
      have "(2::nat) ^ 80 \<le> 2 ^ n" using that by (rule power_increasing) simp
      with r have "last_rand st div 2 ^ n = 0" by (simp only: div_less)
      then show ?thesis by (simp only: bit_iff_odd) simp
    qed
    then show "bit (push_bit 80 (last_ms st) AND last_rand st) n = bit (0 :: nat) n"
      by (auto simp: bit_and_iff bit_push_bit_iff)
  qed
  then have "push_bit 80 (last_ms st) OR last_rand st = push_bit 80 (last_ms st) + last_rand st"
    by (simp only: disjunctive_add_eq_or)
  then show ?thesis by (simp add: ulid_value_def push_bit_eq_mult)
qed

lemma ulid_step_ok:
  assumes "ulid_ok st" "ms < 2 ^ 48" "rnd < 2 ^ 80"
  shows "ulid_ok (ulid_step ms rnd st)"
proof -
  have "(last_rand st + 1) mod 2 ^ 80 < 2 ^ 80" by (rule mod_less_divisor) simp
  with assms show ?thesis by (simp add: ulid_step_def ulid_ok_def and_ulid_mask del: mod_less_divisor)
qed

lemma ulid_value_bound: "ulid_ok st \<Longrightarrow> ulid_value st < 2 ^ 128"
  by (simp add: ulid_ok_def ulid_value_eq)

text \<open>One step raises the value, unless it wraps the counter.\<close>

lemma ulid_step_increases:
  assumes "ulid_ok st" "ms < 2 ^ 48" "rnd < 2 ^ 80"
    and "last_ms st < ms \<or> \<not> ulid_exhausted st"
  shows "ulid_value st < ulid_value (ulid_step ms rnd st)"
proof (cases "ms \<le> last_ms st")
  case True
  with assms(4) have "last_rand st \<noteq> 2 ^ 80 - 1"
    by (simp add: ulid_exhausted_def ulid_rand_mask_eq)
  with assms(1) have "(last_rand st + 1) mod 2 ^ 80 = last_rand st + 1"
    by (simp add: ulid_ok_def)
  with True assms(1) show ?thesis
    using ulid_step_ok [OF assms(1-3)]
    by (simp add: ulid_step_def ulid_value_eq ulid_ok_def and_ulid_mask)
next
  case False
  then have "last_ms st * 2 ^ 80 + last_rand st < (last_ms st + 1) * 2 ^ 80"
    and "(last_ms st + 1) * 2 ^ 80 \<le> ms * 2 ^ 80"
    using assms(1) by (simp_all add: ulid_ok_def)
  with False assms show ?thesis
    by (simp add: ulid_step_def ulid_value_eq ulid_ok_def)
qed

section \<open>The text is ordered as the value\<close>

lemma length_ulid_digits [simp]: "length (ulid_digits n v) = n"
  by (induction n arbitrary: v) auto

lemma length_ulid_encode [simp]: "length (ulid_encode v) = 26"
  by (simp add: ulid_encode_def)

lemma ulid_digits_snoc:
  "ulid_digits (Suc n) v = ulid_alphabet ! (v mod 32) # ulid_digits n (v div 32)"
proof -
  have "v AND 31 = v mod 32"
    using take_bit_eq_mask [of 5 v] by (simp add: take_bit_eq_mod mask_eq_exp_minus_1)
  then show ?thesis by (simp add: drop_bit_eq_div)
qed

lemma ulid_alphabet_sorted: "sorted_wrt (<) ulid_alphabet"
  by code_simp

lemma ulid_alphabet_mono: "a < b \<Longrightarrow> b < 32 \<Longrightarrow> ulid_alphabet ! a < ulid_alphabet ! b"
  by (rule sorted_wrt_nth_less [OF ulid_alphabet_sorted]) (simp_all add: ulid_alphabet_def)

lemma less_append_same_length:
  "length xs = length ys \<Longrightarrow> xs < ys \<Longrightarrow> xs @ us < ys @ (vs :: 'a :: linorder list)"
  by (simp add: list_less_def lexord_sufI)

lemma less_append_left: "us < vs \<Longrightarrow> xs @ us < xs @ (vs :: 'a :: linorder list)"
  by (simp add: list_less_def lexord_append_leftI)

lemma ulid_digits_mono:
  "v < w \<Longrightarrow> w < 32 ^ n \<Longrightarrow> rev (ulid_digits n v) < rev (ulid_digits n w)"
proof (induction n arbitrary: v w)
  case 0
  then show ?case by simp
next
  case (Suc n)
  show ?case
  proof (cases "v div 32 = w div 32")
    case True
    with Suc.prems(1) have "v mod 32 < w mod 32"
      by (metis div_mult_mod_eq nat_add_left_cancel_less)
    then have "[ulid_alphabet ! (v mod 32)] < [ulid_alphabet ! (w mod 32)]"
      by (simp add: ulid_alphabet_mono)
    with True show ?thesis unfolding ulid_digits_snoc by (simp add: less_append_left)
  next
    case False
    with Suc.prems have "v div 32 < w div 32" "w div 32 < 32 ^ n"
      by (simp_all add: div_le_mono le_neq_implies_less less_mult_imp_div_less)
    with Suc.IH show ?thesis
      unfolding ulid_digits_snoc by (simp add: less_append_same_length)
  qed
qed

lemma ulid_encode_mono:
  assumes "v < w" "w < 2 ^ 128"
  shows "ulid_encode v < ulid_encode w"
proof -
  have "w < 32 ^ 26" using assms(2) by simp
  with assms(1) show ?thesis unfolding ulid_encode_def by (rule ulid_digits_mono)
qed

lemma ulid_digits_chars: "c \<in> set (ulid_digits n v) \<Longrightarrow> c \<in> set ulid_alphabet"
proof (induction n arbitrary: v)
  case (Suc n)
  have "v mod 32 < length ulid_alphabet" by (simp add: ulid_alphabet_def)
  then have "ulid_alphabet ! (v mod 32) \<in> set ulid_alphabet" by (rule nth_mem)
  with Suc show ?case unfolding ulid_digits_snoc by auto
qed simp

lemma ulid_encode_chars: "set (ulid_encode v) \<subseteq> set ulid_alphabet"
  using ulid_digits_chars by (auto simp: ulid_encode_def)

section \<open>Sequences of identifiers\<close>

text \<open>No step of the sequence finds the counter exhausted in the same millisecond.\<close>

fun ulid_inputs_ok :: "(nat \<times> nat) list \<Rightarrow> ulid_state \<Rightarrow> bool" where
  "ulid_inputs_ok [] st = True"
| "ulid_inputs_ok ((ms, rnd) # xs) st \<longleftrightarrow>
     ms < 2 ^ 48 \<and> rnd < 2 ^ 80 \<and> (last_ms st < ms \<or> \<not> ulid_exhausted st) \<and>
     ulid_inputs_ok xs (ulid_step ms rnd st)"

lemma generate_ulids_above:
  "ulid_ok st \<Longrightarrow> ulid_inputs_ok xs st \<Longrightarrow>
     sorted_wrt (<) (ulid_encode (ulid_value st) # fst (generate_ulids xs st))"
proof (induction xs st rule: generate_ulids.induct)
  case (2 ms rnd xs st)
  let ?st = "ulid_step ms rnd st"
  from 2(3) have i: "ms < 2 ^ 48" "rnd < 2 ^ 80" "last_ms st < ms \<or> \<not> ulid_exhausted st"
    "ulid_inputs_ok xs ?st" by simp_all
  have ok: "ulid_ok ?st" using ulid_step_ok 2(2) i by blast
  have "sorted_wrt (<) (ulid_encode (ulid_value ?st) # fst (generate_ulids xs ?st))"
    using 2(1) [OF _ _ ok i(4)] by (simp add: generate_ulid_def Let_def)
  moreover have "ulid_encode (ulid_value st) < ulid_encode (ulid_value ?st)"
    using ulid_step_increases [OF 2(2) i(1-3)] ulid_value_bound [OF ok] by (rule ulid_encode_mono)
  ultimately show ?case
    by (auto simp: generate_ulid_def Let_def split: prod.splits intro: less_trans)
qed simp

text \<open>The identifiers generated one after the other are strictly increasing as strings,
  also within a millisecond and when the clock goes back, as long as the counter of random
  bits is not at its last value when it is incremented.\<close>

theorem ulids_strictly_increase:
  assumes "ulid_ok st" "ulid_inputs_ok xs st"
  shows "sorted_wrt (<) (fst (generate_ulids xs st))"
  using generate_ulids_above [OF assms] by simp

theorem ulids_strictly_increase_witness:
  "sorted_wrt (<) (fst (generate_ulids [(5, 7), (5, 900), (3, 1), (6, 0)] ulid_init))"
  by (rule ulids_strictly_increase)
    (simp_all add: ulid_ok_def ulid_init_def ulid_exhausted_def ulid_step_def and_ulid_mask
      ulid_rand_mask_eq)

text \<open>The increment of an exhausted counter wraps to zero, and the next identifier of
  the same millisecond is below the one before it.\<close>

theorem ulid_counter_wraps:
  assumes "ulid_ok st" "ulid_exhausted st" "ms \<le> last_ms st"
  shows "fst (generate_ulid ms rnd st) < ulid_encode (ulid_value st)"
proof -
  have "last_rand (ulid_step ms rnd st) = 0" "last_ms (ulid_step ms rnd st) = last_ms st"
    using assms(2,3) by (simp_all add: ulid_step_def and_ulid_mask ulid_exhausted_def ulid_rand_mask_eq)
  then have "ulid_value (ulid_step ms rnd st) < ulid_value st"
    using assms(1,2) by (simp add: ulid_value_eq ulid_ok_def ulid_exhausted_def ulid_rand_mask_eq)
  then have "ulid_encode (ulid_value (ulid_step ms rnd st)) < ulid_encode (ulid_value st)"
    using ulid_value_bound [OF assms(1)] by (rule ulid_encode_mono)
  then show ?thesis by (simp add: generate_ulid_def Let_def)
qed

theorem ulid_counter_wraps_witness:
  "fst (generate_ulid 9 4 \<lparr>last_ms = 9, last_rand = 2 ^ 80 - 1\<rparr>) <
   ulid_encode (ulid_value \<lparr>last_ms = 9, last_rand = 2 ^ 80 - 1\<rparr>)"
  by (rule ulid_counter_wraps) (simp_all add: ulid_ok_def ulid_exhausted_def ulid_rand_mask_eq)

end
