(* ===== verification/Notifications.thy ===== *)
theory Notifications
  imports Addresses Timestamps Ulids
begin

text \<open>
  Notifications (\<open>src/thorn/runtime/_notification.py\<close>): the lifecycle statuses, the
  completion rationale, the specification a source posts and the persisted form, with their
  JSON forms, and the construction of a notification from a specification. The clock and the
  random bytes of a post are the input \<open>post_tick\<close>.
\<close>

section \<open>Status\<close>

datatype notification_status = PENDING | IN_PROGRESS | HANDLED | ERRORED | CONFIRMED

instantiation notification_status :: enum
begin

definition "enum_notification_status = [PENDING, IN_PROGRESS, HANDLED, ERRORED, CONFIRMED]"
definition "enum_all_notification_status P \<longleftrightarrow>
  P PENDING \<and> P IN_PROGRESS \<and> P HANDLED \<and> P ERRORED \<and> P CONFIRMED"
definition "enum_ex_notification_status P \<longleftrightarrow>
  P PENDING \<or> P IN_PROGRESS \<or> P HANDLED \<or> P ERRORED \<or> P CONFIRMED"

instance
proof
  have all: "(\<forall>s. P s) \<longleftrightarrow> P PENDING \<and> P IN_PROGRESS \<and> P HANDLED \<and> P ERRORED \<and> P CONFIRMED" for P
    by (metis notification_status.exhaust)
  show "UNIV = set (enum_class.enum :: notification_status list)"
    using all [of "\<lambda>s. s \<in> set enum_class.enum"]
    by (auto simp: enum_notification_status_def)
  show "distinct (enum_class.enum :: notification_status list)"
    by (simp add: enum_notification_status_def)
  show "enum_class.enum_all P \<longleftrightarrow> Ball UNIV P" for P :: "notification_status \<Rightarrow> bool"
    using all [of P] by (simp add: enum_all_notification_status_def)
  show "enum_class.enum_ex P \<longleftrightarrow> Bex UNIV P" for P :: "notification_status \<Rightarrow> bool"
    using all [of "\<lambda>s. \<not> P s"] by (auto simp: enum_ex_notification_status_def)
qed

end

fun status_value :: "notification_status \<Rightarrow> string" where
  "status_value PENDING = ''pending''"
| "status_value IN_PROGRESS = ''in_progress''"
| "status_value HANDLED = ''handled''"
| "status_value ERRORED = ''errored''"
| "status_value CONFIRMED = ''confirmed''"

definition status_of_json :: "json \<Rightarrow> notification_status result" where
  "status_of_json = enum_from_value status_value enum_class.enum"

section \<open>Completion rationale\<close>

record rationale =
  completed_actions :: "string list"
  request_coverage :: "string list"
  self_review :: string
  remaining_work :: "string list"
  external_follow_up :: "string list"

definition has_meaningful_entry :: "string list \<Rightarrow> bool" where
  "has_meaningful_entry entries = list_ex (\<lambda>e. py_strip e \<noteq> []) entries"

definition blank_error :: "string \<times> string list \<Rightarrow> string list" where
  "blank_error p =
     (if list_ex (\<lambda>e. py_strip e = []) (snd p)
      then [fst p @ '' must not contain blank items''] else [])"

definition validation_errors :: "rationale \<Rightarrow> string list" where
  "validation_errors r =
     (if has_meaningful_entry (completed_actions r) then []
      else [''completed_actions must contain at least one item'']) @
     (if has_meaningful_entry (request_coverage r) then []
      else [''request_coverage must contain at least one item'']) @
     (if py_strip (self_review r) = [] then [''self_review must not be empty''] else []) @
     concat (map blank_error
       [(''completed_actions'', completed_actions r), (''request_coverage'', request_coverage r),
        (''remaining_work'', remaining_work r), (''external_follow_up'', external_follow_up r)])"

definition jstrs :: "string list \<Rightarrow> json" where
  "jstrs xs = JArr (map JStr xs)"

definition rationale_to_json :: "rationale \<Rightarrow> json" where
  "rationale_to_json r = JObj
     [(''completed_actions'', jstrs (completed_actions r)),
      (''request_coverage'', jstrs (request_coverage r)),
      (''self_review'', JStr (self_review r)),
      (''remaining_work'', jstrs (remaining_work r)),
      (''external_follow_up'', jstrs (external_follow_up r))]"

text \<open>\<open>_string_tuple\<close>: a string is one entry, a dictionary iterates over its keys.\<close>

fun string_tuple :: "json \<Rightarrow> string list result" where
  "string_tuple (JStr s) = Inr [s]"
| "string_tuple (JArr xs) = rmap_list py_str xs"
| "string_tuple (JObj m) = Inr (map fst m)"
| "string_tuple _ = Inl (TypeError ''not iterable'')"

definition rationale_from_json :: "json \<Rightarrow> rationale result" where
  "rationale_from_json j =
     rbind (jmapping j) (\<lambda>m.
     rbind (rbind (jitem m ''completed_actions'') string_tuple) (\<lambda>ca.
     rbind (rbind (jitem m ''request_coverage'') string_tuple) (\<lambda>rc.
     rbind (rbind (jitem m ''self_review'') py_str) (\<lambda>sr.
     rbind (string_tuple (jget_or m ''remaining_work'' (JArr []))) (\<lambda>rw.
     rbind (string_tuple (jget_or m ''external_follow_up'' (JArr []))) (\<lambda>ef.
       Inr \<lparr>completed_actions = ca, request_coverage = rc, self_review = sr,
            remaining_work = rw, external_follow_up = ef\<rparr>))))))"

definition item_lines :: "string \<Rightarrow> string list \<Rightarrow> string list" where
  "item_lines heading entries =
     (heading @ '':'') # (if entries \<noteq> [] then map (\<lambda>e. ''- '' @ e) entries else [''- None''])"

definition rationale_display_text :: "rationale \<Rightarrow> string" where
  "rationale_display_text r =
     py_join [CHR 0x0A]
       ([''Completion rationale:''] @
        item_lines ''Completed actions'' (completed_actions r) @
        item_lines ''Request coverage'' (request_coverage r) @
        item_lines ''Remaining work'' (remaining_work r) @
        [''Self-review:'', ''- '' @ self_review r] @
        item_lines ''External follow-up'' (external_follow_up r))"

section \<open>Specifications and notifications\<close>

record notification_spec =
  sp_source :: string
  sp_content :: string
  sp_target :: address
  sp_metadata :: json_object
  sp_rsvp_to :: "address option"
  sp_external_key :: "string option"

record notification =
  n_id :: string
  n_source :: string
  n_content :: string
  n_target :: address
  n_metadata :: json_object
  n_rsvp_to :: "address option"
  n_external_key :: "string option"
  n_posted_at :: timestamp
  n_status :: notification_status
  n_attempt_count :: int
  n_notes :: "string option"
  n_rationale :: "rationale option"
  n_error_reason :: "string option"

record post_tick =
  tick_ms :: nat
  tick_rand :: nat
  tick_now :: timestamp

definition from_spec ::
    "post_tick \<Rightarrow> notification_spec \<Rightarrow> ulid_state \<Rightarrow> notification \<times> ulid_state" where
  "from_spec tick sp st =
     (let (i, st') = generate_ulid (tick_ms tick) (tick_rand tick) st in
        (\<lparr>n_id = i, n_source = sp_source sp, n_content = sp_content sp, n_target = sp_target sp,
          n_metadata = sp_metadata sp, n_rsvp_to = sp_rsvp_to sp,
          n_external_key = sp_external_key sp, n_posted_at = tick_now tick, n_status = PENDING,
          n_attempt_count = 0, n_notes = None, n_rationale = None, n_error_reason = None\<rparr>,
         st'))"

definition notification_to_json :: "notification \<Rightarrow> json" where
  "notification_to_json n = JObj
     [(''id'', JStr (n_id n)),
      (''source'', JStr (n_source n)),
      (''content'', JStr (n_content n)),
      (''target'', JStr (address_str (n_target n))),
      (''metadata'', JObj (n_metadata n)),
      (''rsvp_to'', jstr_opt (map_option address_str (n_rsvp_to n))),
      (''external_key'', jstr_opt (n_external_key n)),
      (''posted_at'', JStr (isoformat (n_posted_at n))),
      (''status'', JStr (status_value (n_status n))),
      (''attempt_count'', JInt (n_attempt_count n)),
      (''notes'', jstr_opt (n_notes n)),
      (''completion_rationale'',
        (case n_rationale n of None \<Rightarrow> JNull | Some r \<Rightarrow> rationale_to_json r)),
      (''error_reason'', jstr_opt (n_error_reason n))]"

text \<open>\<open>Address.parse\<close> begins with \<open>text.partition\<close>, which only a string has.\<close>

fun address_of_json :: "json \<Rightarrow> address result" where
  "address_of_json (JStr s) = address_parse s"
| "address_of_json _ = Inl (AttributeError ''partition'')"

text \<open>\<open>dict(data.get(''metadata'') or {})\<close>.\<close>

fun metadata_of_json :: "json \<Rightarrow> json_object result" where
  "metadata_of_json (JObj m) = Inr m"
| "metadata_of_json (JStr s) = Inl (ValueError ''dictionary update sequence'')"
| "metadata_of_json (JArr _) = Inl (UntypedValue ''dict of a list'')"
| "metadata_of_json _ = Inl (TypeError ''not iterable'')"

definition rsvp_of_json :: "json \<Rightarrow> address option result" where
  "rsvp_of_json j = (if truthy j then rbind (address_of_json j) (\<lambda>a. Inr (Some a)) else Inr None)"

definition rationale_opt_of_json :: "json \<Rightarrow> rationale option result" where
  "rationale_opt_of_json j =
     (if j = JNull then Inr None else rbind (rationale_from_json j) (\<lambda>r. Inr (Some r)))"

definition notification_from_json :: "json \<Rightarrow> notification result" where
  "notification_from_json j =
     rbind (jdict j) (\<lambda>m.
     rbind (rbind (jitem m ''id'') py_str) (\<lambda>i.
     rbind (rbind (jitem m ''source'') as_str) (\<lambda>src.
     rbind (rbind (jitem m ''content'') as_str) (\<lambda>content.
     rbind (rbind (jitem m ''target'') address_of_json) (\<lambda>target.
     rbind (metadata_of_json (jget_or m ''metadata'' (JObj []))) (\<lambda>meta.
     rbind (rsvp_of_json (jget m ''rsvp_to'')) (\<lambda>rsvp.
     rbind (as_str_opt (jget m ''external_key'')) (\<lambda>key.
     rbind (rbind (jitem m ''posted_at'') fromisoformat) (\<lambda>posted.
     rbind (rbind (jitem m ''status'') status_of_json) (\<lambda>status.
     rbind (py_int (case map_of m ''attempt_count'' of None \<Rightarrow> JInt 0 | Some v \<Rightarrow> v)) (\<lambda>attempts.
     rbind (as_str_opt (jget m ''notes'')) (\<lambda>notes.
     rbind (rationale_opt_of_json (jget m ''completion_rationale'')) (\<lambda>rat.
     rbind (as_str_opt (jget m ''error_reason'')) (\<lambda>reason.
       Inr \<lparr>n_id = i, n_source = src, n_content = content, n_target = target, n_metadata = meta,
            n_rsvp_to = rsvp, n_external_key = key, n_posted_at = posted, n_status = status,
            n_attempt_count = attempts, n_notes = notes, n_rationale = rat,
            n_error_reason = reason\<rparr>))))))))))))))"

text \<open>The keyword arguments of \<open>with_updates\<close>, which \<open>dataclasses.replace\<close> applies all or
  none: an unknown name raises before a copy is made.\<close>

datatype field_update =
    SetId string
  | SetSource string
  | SetContent string
  | SetTarget address
  | SetMetadata json_object
  | SetRsvpTo "address option"
  | SetExternalKey "string option"
  | SetPostedAt timestamp
  | SetAttemptCount int
  | SetNotes "string option"
  | SetRationale "rationale option"
  | SetErrorReason "string option"
  | SetUnknown string

fun apply_update :: "field_update \<Rightarrow> notification \<Rightarrow> notification result" where
  "apply_update (SetId x) n = Inr (n\<lparr>n_id := x\<rparr>)"
| "apply_update (SetSource x) n = Inr (n\<lparr>n_source := x\<rparr>)"
| "apply_update (SetContent x) n = Inr (n\<lparr>n_content := x\<rparr>)"
| "apply_update (SetTarget x) n = Inr (n\<lparr>n_target := x\<rparr>)"
| "apply_update (SetMetadata x) n = Inr (n\<lparr>n_metadata := x\<rparr>)"
| "apply_update (SetRsvpTo x) n = Inr (n\<lparr>n_rsvp_to := x\<rparr>)"
| "apply_update (SetExternalKey x) n = Inr (n\<lparr>n_external_key := x\<rparr>)"
| "apply_update (SetPostedAt x) n = Inr (n\<lparr>n_posted_at := x\<rparr>)"
| "apply_update (SetAttemptCount x) n = Inr (n\<lparr>n_attempt_count := x\<rparr>)"
| "apply_update (SetNotes x) n = Inr (n\<lparr>n_notes := x\<rparr>)"
| "apply_update (SetRationale x) n = Inr (n\<lparr>n_rationale := x\<rparr>)"
| "apply_update (SetErrorReason x) n = Inr (n\<lparr>n_error_reason := x\<rparr>)"
| "apply_update (SetUnknown x) n = Inl (TypeError x)"

fun apply_updates :: "field_update list \<Rightarrow> notification \<Rightarrow> notification result" where
  "apply_updates [] n = Inr n"
| "apply_updates (u # us) n = rbind (apply_update u n) (apply_updates us)"

definition with_updates ::
    "notification_status option \<Rightarrow> field_update list \<Rightarrow> notification \<Rightarrow> notification result" where
  "with_updates status upds n =
     rbind (apply_updates upds n)
       (\<lambda>n'. Inr (case status of None \<Rightarrow> n' | Some s \<Rightarrow> n'\<lparr>n_status := s\<rparr>))"

section \<open>Round trips\<close>

definition valid_notification :: "notification \<Rightarrow> bool" where
  "valid_notification n \<longleftrightarrow>
     valid_address (n_target n) \<and> pred_option valid_address (n_rsvp_to n) \<and>
     valid_timestamp (n_posted_at n)"

definition valid_spec :: "notification_spec \<Rightarrow> bool" where
  "valid_spec sp \<longleftrightarrow>
     valid_address (sp_target sp) \<and> pred_option valid_address (sp_rsvp_to sp)"

interpretation address_codec: codec address_str address_parse valid_address
  by unfold_locales (rule parse_address_str)

lemma status_roundtrip [simp, codec_simps]:
  "status_of_json (JStr (status_value s)) = Inr s"
  unfolding status_of_json_def
proof (rule enum_from_value_of)
  show "inj_on status_value (set enum_class.enum)"
    by (auto simp: enum_notification_status_def)
  show "s \<in> set enum_class.enum" by (cases s) (simp_all add: enum_notification_status_def)
qed

lemma string_tuple_jstrs [simp, codec_simps]: "string_tuple (jstrs xs) = Inr xs"
  by (simp add: jstrs_def)

lemma string_tuple_or [codec_simps]:
  "jget m k = jstrs xs \<Longrightarrow> string_tuple (jget_or m k (JArr [])) = Inr xs"
  by (cases "xs = []") (simp_all add: jget_or_def jstrs_def)

lemma rationale_roundtrip [simp, codec_simps]:
  "rationale_from_json (rationale_to_json r) = Inr r"
  by (simp add: rationale_from_json_def rationale_to_json_def jitem_def jget_def
      string_tuple_or [where xs = "remaining_work r"]
      string_tuple_or [where xs = "external_follow_up r"])

interpretation rationale_codec: codec rationale_to_json rationale_from_json "\<lambda>_. True"
  by unfold_locales (rule rationale_roundtrip)

lemma address_str_not_Nil [simp]: "address_str a \<noteq> []"
  by (cases a) auto

lemma rsvp_roundtrip [simp, codec_simps]:
  "pred_option valid_address a \<Longrightarrow>
     rsvp_of_json (jstr_opt (map_option address_str a)) = Inr a"
  by (cases a) (auto simp: rsvp_of_json_def parse_address_str)

lemma rationale_opt_roundtrip [simp, codec_simps]:
  "rationale_opt_of_json (case r of None \<Rightarrow> JNull | Some x \<Rightarrow> rationale_to_json x) = Inr r"
proof (cases r)
  case (Some x)
  have "rationale_to_json x \<noteq> JNull" by (simp add: rationale_to_json_def)
  with Some show ?thesis by (simp add: rationale_opt_of_json_def)
qed (simp add: rationale_opt_of_json_def)

lemma metadata_roundtrip [simp, codec_simps]:
  "metadata_of_json (if truthy (JObj m) then JObj m else JObj []) = Inr m"
  by simp

lemma notification_roundtrip:
  assumes "valid_notification n"
  shows "notification_from_json (notification_to_json n) = Inr n"
  using assms
  by (simp add: valid_notification_def notification_from_json_def notification_to_json_def
      jitem_def jget_or_def jget_def parse_address_str iso_of_isoformat)

interpretation notification_codec:
  codec notification_to_json notification_from_json valid_notification
  by unfold_locales (rule notification_roundtrip)

text \<open>Reading back the JSON form of a notification gives the notification, with every
  field, the addresses, the timestamp and the nested rationale included.\<close>

theorem notification_json_roundtrip:
  assumes "valid_notification n"
  shows "notification_from_json (notification_to_json n) = Inr n"
  using assms by (rule notification_roundtrip)

theorem notification_json_roundtrip_witness:
  "\<exists>n. n_rsvp_to n = Some (ServiceAddress ''chat'') \<and> n_notes n = Some ''done'' \<and>
     notification_from_json (notification_to_json n) = Inr n"
proof -
  let ?n = "\<lparr>n_id = ''01'', n_source = ''poller'', n_content = [],
    n_target = SessionAddress ''ann'' (SessionKey [''cli'', ''x'']),
    n_metadata = [(''url'', JArr [JInt 3, JNull])], n_rsvp_to = Some (ServiceAddress ''chat''),
    n_external_key = None,
    n_posted_at = \<lparr>ts_year = 2024, ts_month = 2, ts_day = 29, ts_hour = 0, ts_minute = 5,
      ts_second = 59, ts_micro = 120\<rparr>,
    n_status = HANDLED, n_attempt_count = 2, n_notes = Some ''done'', n_rationale = None,
    n_error_reason = None\<rparr>"
  have "valid_notification ?n"
    by (simp add: valid_notification_def valid_session_key_def slash_def colon_def
        valid_timestamp_def days_in_month_def is_leap_def)
  then have "notification_from_json (notification_to_json ?n) = Inr ?n"
    by (rule notification_json_roundtrip)
  then show ?thesis by (intro exI [of _ ?n]) simp
qed

section \<open>Construction and updates\<close>

lemma from_spec_fields:
  assumes "from_spec tick sp st = (n, st')"
  shows "n_status n = PENDING \<and> n_id n = ulid_encode (ulid_value st') \<and>
    n_external_key n = sp_external_key sp \<and> n_target n = sp_target sp \<and>
    n_rsvp_to n = sp_rsvp_to sp \<and> n_attempt_count n = 0 \<and> n_error_reason n = None \<and>
    st' = ulid_step (tick_ms tick) (tick_rand tick) st"
  using assms by (auto simp: from_spec_def generate_ulid_def Let_def)

lemma valid_from_spec:
  "from_spec tick sp st = (n, st') \<Longrightarrow> valid_spec sp \<Longrightarrow> valid_timestamp (tick_now tick) \<Longrightarrow>
     valid_notification n"
  by (auto simp: from_spec_def valid_spec_def valid_notification_def split: prod.splits)

text \<open>The updates the lifecycle makes, which keep what came from the specification.\<close>

fun lifecycle_update :: "field_update \<Rightarrow> bool" where
  "lifecycle_update (SetAttemptCount _) = True"
| "lifecycle_update (SetNotes _) = True"
| "lifecycle_update (SetRationale _) = True"
| "lifecycle_update (SetErrorReason _) = True"
| "lifecycle_update _ = False"

definition origin :: "notification \<Rightarrow>
    string \<times> string \<times> string \<times> address \<times> json_object \<times> address option \<times> string option \<times> timestamp" where
  "origin n = (n_id n, n_source n, n_content n, n_target n, n_metadata n, n_rsvp_to n,
     n_external_key n, n_posted_at n)"

lemma apply_update_lifecycle:
  "lifecycle_update u \<Longrightarrow> \<exists>n'. apply_update u n = Inr n' \<and> origin n' = origin n"
  by (cases u) (simp_all add: origin_def)

lemma apply_updates_lifecycle:
  "\<forall>u \<in> set us. lifecycle_update u \<Longrightarrow> \<exists>n'. apply_updates us n = Inr n' \<and> origin n' = origin n"
proof (induction us arbitrary: n)
  case (Cons u us)
  then obtain n1 where "apply_update u n = Inr n1" "origin n1 = origin n"
    using apply_update_lifecycle [of u n] by auto
  with Cons.IH [of n1] Cons.prems show ?case by auto
qed simp

lemma with_updates_lifecycle:
  assumes "\<forall>u \<in> set us. lifecycle_update u"
  obtains n' where "with_updates (Some s) us n = Inr n'" "origin n' = origin n" "n_status n' = s"
proof -
  obtain n1 where "apply_updates us n = Inr n1" "origin n1 = origin n"
    using apply_updates_lifecycle [OF assms] by blast
  then show thesis
    by (intro that [of "n1\<lparr>n_status := s\<rparr>"]) (simp_all add: with_updates_def origin_def)
qed

lemma valid_notification_origin:
  "origin n' = origin n \<Longrightarrow> valid_notification n \<Longrightarrow> valid_notification n'"
  by (simp add: valid_notification_def origin_def)

text \<open>A rationale has no validation error exactly when it has a non-blank completed
  action, a non-blank covered request and a non-blank review, and none of its four lists has
  a blank item.\<close>

theorem validation_errors_complete:
  "validation_errors r = [] \<longleftrightarrow>
     completed_actions r \<noteq> [] \<and> request_coverage r \<noteq> [] \<and> py_strip (self_review r) \<noteq> [] \<and>
     list_all (\<lambda>e. py_strip e \<noteq> [])
       (completed_actions r @ request_coverage r @ remaining_work r @ external_follow_up r)"
proof -
  have blank: "blank_error (f, es) = [] \<longleftrightarrow> (\<forall>e \<in> set es. py_strip e \<noteq> [])" for f es
    by (simp add: blank_error_def list_ex_iff)
  have some: "has_meaningful_entry es \<longleftrightarrow> es \<noteq> []" if "\<forall>e \<in> set es. py_strip e \<noteq> []" for es
    using that by (cases es) (auto simp: has_meaningful_entry_def)
  have "validation_errors r = [] \<longleftrightarrow>
      has_meaningful_entry (completed_actions r) \<and> has_meaningful_entry (request_coverage r) \<and>
      py_strip (self_review r) \<noteq> [] \<and>
      (\<forall>es \<in> {completed_actions r, request_coverage r, remaining_work r, external_follow_up r}.
         \<forall>e \<in> set es. py_strip e \<noteq> [])"
    by (simp add: validation_errors_def blank)
  then show ?thesis by (auto simp: some list_all_iff)
qed

text \<open>A document that is JSON but not an object makes \<open>from_json\<close> raise an
  \<open>AttributeError\<close>, as does an object whose target is not a string.\<close>

theorem from_json_wrong_shape:
  "notification_from_json (JArr xs) = Inl (AttributeError ''get'') \<and>
   notification_from_json JNull = Inl (AttributeError ''get'') \<and>
   notification_from_json (JObj [(''id'', JStr i), (''source'', JStr a), (''content'', JStr b),
     (''target'', JNull)]) = Inl (AttributeError ''partition'')"
  by (simp add: notification_from_json_def jitem_def)

end
