(* ===== verification/Storage.thy ===== *)
theory Storage
  imports Paths Notifications
begin

text \<open>
  The world the queues act on: regular files and directories on disk, the in-memory index of
  in-flight keys (\<open>InFlightIndex\<close> in \<open>src/thorn/runtime/_in_flight_index.py\<close>) and the state
  of the identifier generator. An operation that changes the world is a list of atomic
  steps, so that what a crash leaves on disk is the world after a prefix of them. A crash
  in the middle of writing a file leaves a file that does not parse.
\<close>

record world =
  w_fs :: "(path \<times> file_content) list"
  w_dirs :: "path list"
  w_index :: "string set"
  w_ulid :: ulid_state

definition world_empty :: world where
  "world_empty = \<lparr>w_fs = [], w_dirs = [], w_index = {}, w_ulid = ulid_init\<rparr>"

datatype fs_step =
    MkDir path
  | WriteFile path file_content
  | Rename path path
  | Unlink path
  | IndexAdd string
  | IndexRemove string

definition mkdir_parents :: "path \<Rightarrow> path list \<Rightarrow> path list" where
  "mkdir_parents d dirs =
     fold (\<lambda>p ds. if p \<in> set ds then ds else ds @ [p]) (filter (\<lambda>p. p \<noteq> []) (prefixes d)) dirs"

definition fs_rename :: "path \<Rightarrow> path \<Rightarrow> (path \<times> file_content) list \<Rightarrow> (path \<times> file_content) list" where
  "fs_rename a b fs =
     (case map_of fs a of
        None \<Rightarrow> fs
      | Some c \<Rightarrow> if a = b then fs else dict_set b c (dict_del a fs))"

fun exec_step :: "fs_step \<Rightarrow> world \<Rightarrow> world" where
  "exec_step (MkDir d) w = w\<lparr>w_dirs := mkdir_parents d (w_dirs w)\<rparr>"
| "exec_step (WriteFile p c) w = w\<lparr>w_fs := dict_set p c (w_fs w)\<rparr>"
| "exec_step (Rename a b) w = w\<lparr>w_fs := fs_rename a b (w_fs w)\<rparr>"
| "exec_step (Unlink p) w = w\<lparr>w_fs := dict_del p (w_fs w)\<rparr>"
| "exec_step (IndexAdd k) w = w\<lparr>w_index := insert k (w_index w)\<rparr>"
| "exec_step (IndexRemove k) w = w\<lparr>w_index := w_index w - {k}\<rparr>"

definition exec_steps :: "fs_step list \<Rightarrow> world \<Rightarrow> world" where
  "exec_steps = fold exec_step"

text \<open>The worlds a crash during the steps can leave, the one after all steps last.\<close>

fun crash_points :: "fs_step list \<Rightarrow> world \<Rightarrow> world list" where
  "crash_points [] w = [w]"
| "crash_points (s # ss) w =
     w # (case s of WriteFile p c \<Rightarrow> [exec_step (WriteFile p Unparsable) w] | _ \<Rightarrow> []) @
     crash_points ss (exec_step s w)"

section \<open>The index of in-flight keys\<close>

definition index_add :: "string \<Rightarrow> (world, unit) eff" where
  "index_add k = eupdate (exec_step (IndexAdd k))"

definition index_remove :: "string \<Rightarrow> (world, unit) eff" where
  "index_remove k = eupdate (exec_step (IndexRemove k))"

definition index_contains :: "string \<Rightarrow> world \<Rightarrow> bool" where
  "index_contains k w \<longleftrightarrow> k \<in> w_index w"

definition index_clear :: "world \<Rightarrow> world" where
  "index_clear w = w\<lparr>w_index := {}\<rparr>"

definition index_bulk_add :: "string list \<Rightarrow> world \<Rightarrow> world" where
  "index_bulk_add ks w = w\<lparr>w_index := w_index w \<union> set ks\<rparr>"

definition index_size :: "world \<Rightarrow> nat" where
  "index_size w = card (w_index w)"

section \<open>Facts\<close>

lemma exec_steps_Nil [simp]: "exec_steps [] w = w"
  by (simp add: exec_steps_def)

lemma exec_steps_Cons [simp]: "exec_steps (s # ss) w = exec_steps ss (exec_step s w)"
  by (simp add: exec_steps_def)

lemma exec_steps_append [simp]: "exec_steps (ss @ ts) w = exec_steps ts (exec_steps ss w)"
  by (simp add: exec_steps_def)

lemma crash_points_last: "exec_steps ss w \<in> set (crash_points ss w)"
  by (induction ss arbitrary: w) auto

lemma map_of_fs_rename:
  "map_of (fs_rename a b fs) p =
     (case map_of fs a of
        None \<Rightarrow> map_of fs p
      | Some c \<Rightarrow> if p = b then Some c else if p = a then None else map_of fs p)"
  by (auto simp: fs_rename_def split: option.splits)

lemma mem_mkdir_parents:
  "p \<in> set (mkdir_parents d dirs) \<longleftrightarrow> p \<in> set dirs \<or> (p \<noteq> [] \<and> prefix p d)"
proof -
  have "p \<in> set (fold (\<lambda>p ds. if p \<in> set ds then ds else ds @ [p]) xs ds) \<longleftrightarrow>
      p \<in> set ds \<or> p \<in> set xs" for xs ds
    by (induction xs arbitrary: ds) auto
  then show ?thesis by (auto simp: mkdir_parents_def)
qed

lemma exec_steps_ulid [simp]: "w_ulid (exec_steps ss w) = w_ulid w"
proof (induction ss arbitrary: w)
  case (Cons s ss)
  then show ?case by (cases s) simp_all
qed simp

lemma distinct_fs_step:
  "distinct (map fst (w_fs w)) \<Longrightarrow> distinct (map fst (w_fs (exec_step s w)))"
  by (cases s) (auto simp: fs_rename_def split: option.splits)

lemma distinct_fs_steps:
  "distinct (map fst (w_fs w)) \<Longrightarrow> distinct (map fst (w_fs (exec_steps ss w)))"
  by (induction ss arbitrary: w) (auto simp: distinct_fs_step)

end
