(* ===== verification/Item_Store.thy ===== *)
theory Item_Store
  imports Notifications
begin

text \<open>
  The contract of a store of notifications kept in several queues, which the dispatcher, the
  inboxes, the service queues and the sweep rely on: storing an item, dropping it and moving
  it from one queue to another change exactly the entries they name and keep the store well
  formed. The clients' lemmas are proved here once, from the contract.
\<close>

text \<open>No item is in two queues.\<close>

definition placed_once :: "('r \<Rightarrow> string \<Rightarrow> notification option) \<Rightarrow> bool" where
  "placed_once view \<longleftrightarrow> (\<forall>i r t. view r i \<noteq> None \<and> view t i \<noteq> None \<longrightarrow> r = t)"

lemma placed_onceD: "placed_once v \<Longrightarrow> v r i = Some n \<Longrightarrow> v t i = Some m \<Longrightarrow> r = t"
  by (auto simp: placed_once_def)

locale item_store =
  fixes ok :: "'w \<Rightarrow> bool"
    and queue :: "'r \<Rightarrow> bool"
    and item_ok :: "notification \<Rightarrow> bool"
    and stored :: "'w \<Rightarrow> 'r \<Rightarrow> string \<Rightarrow> notification option"
    and put :: "'r \<Rightarrow> notification \<Rightarrow> 'w \<Rightarrow> 'w"
    and dropped :: "'r \<Rightarrow> string \<Rightarrow> 'w \<Rightarrow> 'w"
    and moved :: "'r \<Rightarrow> string \<Rightarrow> 'r \<Rightarrow> 'w \<Rightarrow> 'w"
  assumes stored_item: "ok w \<Longrightarrow> queue r \<Longrightarrow> stored w r i = Some n \<Longrightarrow> n_id n = i \<and> item_ok n"
    and ok_put: "ok w \<Longrightarrow> queue r \<Longrightarrow> item_ok n \<Longrightarrow> ok (put r n w)"
    and stored_put: "ok w \<Longrightarrow> queue r \<Longrightarrow> item_ok n \<Longrightarrow>
      stored (put r n w) = (\<lambda>r' i. if r' = r \<and> i = n_id n then Some n else stored w r' i)"
    and ok_dropped: "ok w \<Longrightarrow> queue r \<Longrightarrow> stored w r i = Some n \<Longrightarrow> ok (dropped r i w)"
    and stored_dropped: "ok w \<Longrightarrow> queue r \<Longrightarrow> stored w r i = Some n \<Longrightarrow>
      stored (dropped r i w) = (\<lambda>r' j. if r' = r \<and> j = i then None else stored w r' j)"
    and ok_moved: "ok w \<Longrightarrow> queue r \<Longrightarrow> queue t \<Longrightarrow> r \<noteq> t \<Longrightarrow> stored w r i = Some n \<Longrightarrow>
      ok (moved r i t w)"
    and stored_moved: "ok w \<Longrightarrow> queue r \<Longrightarrow> queue t \<Longrightarrow> r \<noteq> t \<Longrightarrow> stored w r i = Some n \<Longrightarrow>
      stored (moved r i t w) = (\<lambda>r' j. if j = i \<and> r' = t then Some n
         else if j = i \<and> r' = r then None else stored w r' j)"
begin

lemma put_new_placed:
  assumes "ok w" "queue r" "item_ok n" "placed_once (stored w)" "\<forall>t. stored w t (n_id n) = None"
  shows "placed_once (stored (put r n w))"
  using assms(4,5) unfolding stored_put [OF assms(1-3)] placed_once_def by auto

lemma put_again_placed:
  assumes "ok w" "queue r" "item_ok n" "placed_once (stored w)" "stored w r (n_id n) = Some m"
  shows "placed_once (stored (put r n w))"
  using assms(4,5) unfolding stored_put [OF assms(1-3)] placed_once_def
  by (metis option.distinct(1))

lemma dropped_placed:
  assumes "ok w" "queue r" "stored w r i = Some n" "placed_once (stored w)"
  shows "placed_once (stored (dropped r i w)) \<and> (\<forall>t. stored (dropped r i w) t i = None)"
proof -
  have "stored w t i = None" if "t \<noteq> r" for t
    using assms(3,4) that by (cases "stored w t i") (auto dest: placed_onceD)
  with assms(4) show ?thesis
    unfolding stored_dropped [OF assms(1-3)] by (auto simp: placed_once_def)
qed

lemma moved_placed:
  assumes "ok w" "queue r" "queue t" "r \<noteq> t" "stored w r i = Some n" "placed_once (stored w)"
  shows "placed_once (stored (moved r i t w))"
  using assms(5,6) unfolding stored_moved [OF assms(1-5)] placed_once_def
  by (metis option.distinct(1))

text \<open>An update in place followed by a move, or by a drop: what the two steps of the handling
  of an item leave.\<close>

lemma put_then_move:
  assumes "ok w" "queue r" "queue t" "r \<noteq> t" "item_ok n" "stored w r (n_id n) = Some m"
  shows "ok (moved r (n_id n) t (put r n w))"
    and "stored (moved r (n_id n) t (put r n w)) =
      (\<lambda>r' j. if j = n_id n \<and> r' = t then Some n
         else if j = n_id n \<and> r' = r then None else stored w r' j)"
proof -
  have p: "ok (put r n w)" "stored (put r n w) r (n_id n) = Some n"
    using assms ok_put stored_put by auto
  show "ok (moved r (n_id n) t (put r n w))" using ok_moved [OF p(1) assms(2-4) p(2)] .
  show "stored (moved r (n_id n) t (put r n w)) =
      (\<lambda>r' j. if j = n_id n \<and> r' = t then Some n
         else if j = n_id n \<and> r' = r then None else stored w r' j)"
    unfolding stored_moved [OF p(1) assms(2-4) p(2)] stored_put [OF assms(1,2,5)]
    by (auto simp: fun_eq_iff)
qed

lemma put_then_drop:
  assumes "ok w" "queue r" "item_ok n" "stored w r (n_id n) = Some m"
  shows "ok (dropped r (n_id n) (put r n w))"
    and "stored (dropped r (n_id n) (put r n w)) =
      (\<lambda>r' j. if r' = r \<and> j = n_id n then None else stored w r' j)"
proof -
  have p: "ok (put r n w)" "stored (put r n w) r (n_id n) = Some n"
    using assms ok_put stored_put by auto
  show "ok (dropped r (n_id n) (put r n w))" using ok_dropped [OF p(1) assms(2) p(2)] .
  show "stored (dropped r (n_id n) (put r n w)) =
      (\<lambda>r' j. if r' = r \<and> j = n_id n then None else stored w r' j)"
    unfolding stored_dropped [OF p(1) assms(2) p(2)] stored_put [OF assms(1-3)]
    by (auto simp: fun_eq_iff)
qed

end

end
