(* ===== verification/Queues.thy ===== *)
theory Queues
  imports Storage Item_Store
begin

text \<open>
  \<open>DurableQueue\<close> (\<open>src/thorn/runtime/_queue.py\<close>): one JSON file per notification under a
  root directory. Every operation acts on the world; those that write do so by lists of
  atomic steps, a sidecar first and then a rename.
\<close>

section \<open>Queues and the names of their files\<close>

text \<open>The classes of queues the runtime makes; the last two carry their address.\<close>

datatype queue_kind = PlainQueue | InboxQueue address | ServiceQueue address

record durable_queue =
  q_root :: path
  q_indexed :: bool
  q_kind :: queue_kind

definition live_suffix :: string where "live_suffix = ''.json''"
definition temp_prefix :: string where "temp_prefix = ''.tmp-''"

definition is_id_start :: "char \<Rightarrow> bool" where
  "is_id_start c \<longleftrightarrow>
     CHR ''A'' \<le> c \<and> c \<le> CHR ''Z'' \<or> CHR ''a'' \<le> c \<and> c \<le> CHR ''z'' \<or>
     CHR ''0'' \<le> c \<and> c \<le> CHR ''9'' \<or> c = CHR ''_'' \<or> c = CHR ''-''"

definition local_id :: "string \<Rightarrow> bool" where
  "local_id s \<longleftrightarrow> s \<noteq> [] \<and> is_id_start (hd s) \<and> list_all (\<lambda>c. is_id_start c \<or> c = CHR ''.'') (tl s)"

definition queue_local_id :: "string \<Rightarrow> string result" where
  "queue_local_id i = (if local_id i then Inr i else Inl (KeyError i))"

definition ensure_direct_child :: "durable_queue \<Rightarrow> path \<Rightarrow> string \<Rightarrow> unit result" where
  "ensure_direct_child q p i = (if butlast p \<noteq> q_root q then Inl (KeyError i) else Inr ())"

definition path_for :: "durable_queue \<Rightarrow> string \<Rightarrow> path result" where
  "path_for q i =
     rbind (queue_local_id i) (\<lambda>l.
       let p = q_root q @ [l @ live_suffix]
       in rbind (ensure_direct_child q p i) (\<lambda>_. Inr p))"

definition temp_path_for :: "durable_queue \<Rightarrow> string \<Rightarrow> path result" where
  "temp_path_for q i =
     rbind (queue_local_id i) (\<lambda>l.
       let p = q_root q @ [temp_prefix @ l @ live_suffix]
       in rbind (ensure_direct_child q p i) (\<lambda>_. Inr p))"

definition is_live_name :: "string \<Rightarrow> bool" where
  "is_live_name name \<longleftrightarrow> \<not> py_startswith name ''.'' \<and> py_endswith name live_suffix"

definition file_exists :: "world \<Rightarrow> path \<Rightarrow> bool" where
  "file_exists w p \<longleftrightarrow> map_of (w_fs w) p \<noteq> None"

definition load_item :: "world \<Rightarrow> path \<Rightarrow> notification result" where
  "load_item w p =
     (case map_of (w_fs w) p of
        None \<Rightarrow> Inl (OSError ''no such file'')
      | Some c \<Rightarrow> rbind (json_loads c) notification_from_json)"

section \<open>Operations\<close>

definition write_steps :: "path \<Rightarrow> path \<Rightarrow> notification \<Rightarrow> fs_step list" where
  "write_steps temp live n =
     [WriteFile temp (FileJson (notification_to_json n)), Rename temp live]"

definition write_atomic :: "durable_queue \<Rightarrow> notification \<Rightarrow> (world, unit) eff" where
  "write_atomic q n =
     ebind (eupdate (exec_step (MkDir (q_root q)))) (\<lambda>_.
     ebind (elift (temp_path_for q (n_id n))) (\<lambda>temp.
     ebind (elift (path_for q (n_id n))) (\<lambda>live.
       eupdate (exec_steps (write_steps temp live n)))))"

definition queue_post ::
    "durable_queue \<Rightarrow> post_tick \<Rightarrow> notification_spec \<Rightarrow> (world, notification) eff" where
  "queue_post q tick sp w =
     (let (n, u) = from_spec tick sp (w_ulid w) in
        ebind (write_atomic q n) (\<lambda>_.
        ebind (case n_external_key n of
                 Some k \<Rightarrow> if q_indexed q then index_add k else eret ()
               | None \<Rightarrow> eret ()) (\<lambda>_.
          eret n)) (w\<lparr>w_ulid := u\<rparr>))"

definition live_paths :: "path \<Rightarrow> (path \<times> file_content) list \<Rightarrow> path list" where
  "live_paths root fs =
     filter (\<lambda>p. p \<noteq> [] \<and> butlast p = root \<and> is_live_name (last p)) (map fst fs)"

definition queue_list ::
    "durable_queue \<Rightarrow> notification_status list option \<Rightarrow> world \<Rightarrow> notification list result" where
  "queue_list q allowed w =
     rbind (rmap_list (load_item w) (sort_key last (live_paths (q_root q) (w_fs w))))
       (\<lambda>ns. Inr (case allowed of
                     None \<Rightarrow> ns
                   | Some ss \<Rightarrow> filter (\<lambda>n. n_status n \<in> set ss) ns))"

definition queue_get :: "durable_queue \<Rightarrow> string \<Rightarrow> world \<Rightarrow> notification result" where
  "queue_get q i w =
     rbind (path_for q i) (\<lambda>p. if file_exists w p then load_item w p else Inl (KeyError i))"

definition queue_contains :: "durable_queue \<Rightarrow> string \<Rightarrow> world \<Rightarrow> bool" where
  "queue_contains q i w = (case path_for q i of Inl _ \<Rightarrow> False | Inr p \<Rightarrow> file_exists w p)"

definition update_status ::
    "durable_queue \<Rightarrow> string \<Rightarrow> notification_status \<Rightarrow> field_update list \<Rightarrow>
     (world, notification) eff" where
  "update_status q i status upds =
     ebind (eread (queue_get q i)) (\<lambda>current.
     ebind (elift (with_updates (Some status) upds current)) (\<lambda>updated.
     ebind (write_atomic q updated) (\<lambda>_.
       eret updated)))"

definition move_to :: "durable_queue \<Rightarrow> string \<Rightarrow> durable_queue \<Rightarrow> (world, notification) eff" where
  "move_to q i target =
     ebind (elift (path_for q i)) (\<lambda>src.
     ebind (eread (\<lambda>w. if file_exists w src then Inr () else Inl (KeyError i))) (\<lambda>_.
       if q_root target = q_root q then eread (\<lambda>w. load_item w src)
       else
         ebind (eupdate (exec_step (MkDir (q_root target)))) (\<lambda>_.
         ebind (elift (path_for target i)) (\<lambda>dst.
         ebind (eupdate (exec_step (Rename src dst))) (\<lambda>_.
           eread (\<lambda>w. load_item w dst))))))"

text \<open>The exceptions \<open>delete\<close> tolerates when it reads the key of the file to unlink.\<close>

fun tolerated :: "py_error \<Rightarrow> bool" where
  "tolerated (OSError _) = True"
| "tolerated (ValueError _) = True"
| "tolerated (KeyError _) = True"
| "tolerated _ = False"

definition key_of_file :: "durable_queue \<Rightarrow> path \<Rightarrow> world \<Rightarrow> string option result" where
  "key_of_file q p w =
     (if \<not> q_indexed q then Inr None
      else case load_item w p of
          Inr n \<Rightarrow> Inr (n_external_key n)
        | Inl e \<Rightarrow> if tolerated e then Inr None else Inl e)"

definition queue_delete :: "durable_queue \<Rightarrow> string \<Rightarrow> (world, unit) eff" where
  "queue_delete q i =
     ebind (elift (path_for q i)) (\<lambda>p.
     ebind (eread (\<lambda>w. if file_exists w p then Inr () else Inl (KeyError i))) (\<lambda>_.
     ebind (eread (key_of_file q p)) (\<lambda>key.
     ebind (eupdate (exec_step (Unlink p))) (\<lambda>_.
       case key of
         Some k \<Rightarrow> if q_indexed q then index_remove k else eret ()
       | None \<Rightarrow> eret ()))))"

definition temp_paths :: "path \<Rightarrow> (path \<times> file_content) list \<Rightarrow> path list" where
  "temp_paths root fs =
     filter (\<lambda>p. p \<noteq> [] \<and> butlast p = root \<and> py_startswith (last p) temp_prefix) (map fst fs)"

definition cleanup_temp_files :: "durable_queue \<Rightarrow> (world, nat) eff" where
  "cleanup_temp_files q =
     ebind (eread (\<lambda>w. Inr (temp_paths (q_root q) (w_fs w)))) (\<lambda>ps.
     ebind (eupdate (exec_steps (map Unlink ps))) (\<lambda>_.
       eret (length ps)))"

end
