(* ===== verification/Queue_Store.thy ===== *)
theory Queue_Store
  imports Queues
begin

text \<open>
  What the operations of \<open>DurableQueue\<close> promise: the store they implement, the order of a
  listing, and what a crash between two atomic steps leaves.
\<close>

section \<open>Names\<close>

definition live_path :: "path \<Rightarrow> string \<Rightarrow> path" where
  "live_path r i = r @ [i @ live_suffix]"

definition temp_path :: "path \<Rightarrow> string \<Rightarrow> path" where
  "temp_path r i = r @ [temp_prefix @ i @ live_suffix]"

lemma live_path_inject [simp]: "live_path r i = live_path t j \<longleftrightarrow> r = t \<and> i = j"
  by (simp add: live_path_def)

lemma live_name_starts: "is_live_name s \<Longrightarrow> \<exists>c t. s = c # t \<and> c \<noteq> CHR ''.''"
  by (cases s) (auto simp: is_live_name_def py_endswith_iff live_suffix_def)

lemma live_not_temp [simp]: "is_live_name (last p) \<Longrightarrow> p \<noteq> temp_path r i"
  by (auto simp: temp_path_def temp_prefix_def dest!: live_name_starts)

lemma local_id_live [simp]: "local_id i \<Longrightarrow> is_live_name (i @ live_suffix)"
proof -
  assume "local_id i"
  then obtain c t where i: "i = c # t" "is_id_start c" by (cases i) (auto simp: local_id_def)
  have "\<not> is_id_start CHR ''.''" by code_simp
  with i have "\<not> py_startswith (i @ live_suffix) ''.''" by auto
  then show ?thesis unfolding is_live_name_def by (simp only: py_endswith_append) simp
qed

lemma live_path_ends [simp]: "last (live_path r i) = i @ live_suffix" "butlast (live_path r i) = r"
  "live_path r i \<noteq> []"
  by (simp_all add: live_path_def)

lemma live_path_not_temp [simp]: "local_id i \<Longrightarrow> live_path r i \<noteq> temp_path t j"
  using live_not_temp [of "live_path r i"] by simp

lemma path_for_Inr [simp]: "local_id i \<Longrightarrow> path_for q i = Inr (live_path (q_root q) i)"
  by (simp add: path_for_def queue_local_id_def ensure_direct_child_def live_path_def Let_def)

lemma path_for_bad [simp]: "\<not> local_id i \<Longrightarrow> path_for q i = Inl (KeyError i)"
  by (simp add: path_for_def queue_local_id_def)

lemma temp_path_for_Inr [simp]: "local_id i \<Longrightarrow> temp_path_for q i = Inr (temp_path (q_root q) i)"
  by (simp add: temp_path_for_def queue_local_id_def ensure_direct_child_def temp_path_def Let_def)

lemma ulid_alphabet_id: "c \<in> set ulid_alphabet \<Longrightarrow> is_id_start c"
proof -
  have "list_all is_id_start ulid_alphabet" by code_simp
  then show "c \<in> set ulid_alphabet \<Longrightarrow> is_id_start c" by (simp add: list_all_iff)
qed

lemma local_id_ulid [simp]: "local_id (ulid_encode v)"
proof -
  have "ulid_encode v \<noteq> []" using length_ulid_encode [of v] by fastforce
  moreover have "list_all is_id_start (ulid_encode v)"
    using ulid_encode_chars [of v] ulid_alphabet_id by (auto simp: list_all_iff)
  ultimately show ?thesis by (cases "ulid_encode v") (auto simp: local_id_def list_all_iff)
qed

section \<open>The store on disk\<close>

definition item_ok :: "notification \<Rightarrow> bool" where
  "item_ok n \<longleftrightarrow> valid_notification n \<and> local_id (n_id n)"

definition item_file :: "path \<Rightarrow> file_content \<Rightarrow> bool" where
  "item_file p c \<longleftrightarrow>
     (case rbind (json_loads c) notification_from_json of
        Inl _ \<Rightarrow> False
      | Inr n \<Rightarrow> item_ok n \<and> last p = n_id n @ live_suffix)"

text \<open>Every live file of a queue of \<open>R\<close> holds a notification whose identifier is the stem.\<close>

definition store_ok :: "path set \<Rightarrow> world \<Rightarrow> bool" where
  "store_ok R w \<longleftrightarrow> distinct (map fst (w_fs w)) \<and>
     (\<forall>(p, c) \<in> set (w_fs w). p \<noteq> [] \<and> butlast p \<in> R \<and> is_live_name (last p) \<longrightarrow> item_file p c)"

definition stored :: "world \<Rightarrow> path \<Rightarrow> string \<Rightarrow> notification option" where
  "stored w r i =
     (if local_id i
      then (case load_item w (live_path r i) of Inl _ \<Rightarrow> None | Inr n \<Rightarrow> Some n)
      else None)"

definition put_item :: "path \<Rightarrow> notification \<Rightarrow> world \<Rightarrow> world" where
  "put_item r n =
     exec_steps (MkDir r # write_steps (temp_path r (n_id n)) (live_path r (n_id n)) n)"

definition drop_item :: "path \<Rightarrow> string \<Rightarrow> world \<Rightarrow> world" where
  "drop_item r i = exec_step (Unlink (live_path r i))"

definition move_item :: "path \<Rightarrow> string \<Rightarrow> path \<Rightarrow> world \<Rightarrow> world" where
  "move_item r i t = exec_steps [MkDir t, Rename (live_path r i) (live_path t i)]"

lemma store_okI:
  assumes "distinct (map fst (w_fs w))"
    and "\<And>p c. map_of (w_fs w) p = Some c \<Longrightarrow> p \<noteq> [] \<Longrightarrow> butlast p \<in> R \<Longrightarrow>
      is_live_name (last p) \<Longrightarrow> item_file p c"
  shows "store_ok R w"
  using assms by (auto simp: store_ok_def)

lemma store_ok_distinct: "store_ok R w \<Longrightarrow> distinct (map fst (w_fs w))"
  by (simp add: store_ok_def)

lemma store_ok_file:
  "store_ok R w \<Longrightarrow> map_of (w_fs w) p = Some c \<Longrightarrow> p \<noteq> [] \<Longrightarrow> butlast p \<in> R \<Longrightarrow>
     is_live_name (last p) \<Longrightarrow> item_file p c"
  by (auto simp: store_ok_def dest: map_of_SomeD)

lemma store_ok_irrelevant [simp]:
  "store_ok R (w\<lparr>w_dirs := d\<rparr>) = store_ok R w" "store_ok R (w\<lparr>w_index := k\<rparr>) = store_ok R w"
  "store_ok R (w\<lparr>w_ulid := u\<rparr>) = store_ok R w"
  by (simp_all add: store_ok_def)

lemma stored_irrelevant [simp]:
  "stored (w\<lparr>w_dirs := d\<rparr>) = stored w" "stored (w\<lparr>w_index := k\<rparr>) = stored w"
  "stored (w\<lparr>w_ulid := u\<rparr>) = stored w"
  by (simp_all add: stored_def load_item_def fun_eq_iff)

lemma stored_file:
  assumes "store_ok R w" "r \<in> R" "local_id i"
  shows "map_of (w_fs w) (live_path r i) = None \<and> stored w r i = None \<or>
    (\<exists>c n. map_of (w_fs w) (live_path r i) = Some c \<and> rbind (json_loads c) notification_from_json = Inr n \<and>
      stored w r i = Some n \<and> n_id n = i \<and> item_ok n)"
proof (cases "map_of (w_fs w) (live_path r i)")
  case None
  then show ?thesis by (simp add: stored_def load_item_def)
next
  case (Some c)
  then have "item_file (live_path r i) c"
    using assms by (intro store_ok_file [OF assms(1)]) auto
  with Some assms(3) show ?thesis
    by (auto simp: stored_def load_item_def item_file_def split: sum.splits)
qed

lemma stored_Some:
  assumes "store_ok R w" "r \<in> R" "stored w r i = Some n"
  shows "n_id n = i" "item_ok n" "local_id i" "file_exists w (live_path r i)"
    "load_item w (live_path r i) = Inr n"
proof -
  show l: "local_id i" using assms(3) by (auto simp: stored_def split: if_splits)
  show "n_id n = i" "item_ok n" "file_exists w (live_path r i)"
    using stored_file [OF assms(1,2) l] assms(3) by (auto simp: file_exists_def)
  show "load_item w (live_path r i) = Inr n"
    using assms(3) l by (auto simp: stored_def split: sum.splits)
qed

lemma stored_None:
  assumes "store_ok R w" "r \<in> R" "local_id i" "stored w r i = None"
  shows "\<not> file_exists w (live_path r i)"
  using stored_file [OF assms(1-3)] assms(4) by (auto simp: file_exists_def)

lemma stored_cong:
  "(\<And>r i. local_id i \<Longrightarrow> map_of (w_fs w) (live_path r i) = map_of (w_fs v) (live_path r i)) \<Longrightarrow>
     stored w = stored v"
  by (simp add: stored_def load_item_def fun_eq_iff)

section \<open>The steps change the store as they should\<close>

lemma map_of_put_item:
  assumes "local_id (n_id n)"
  shows "map_of (w_fs (put_item r n w)) p =
    (if p = live_path r (n_id n) then Some (FileJson (notification_to_json n))
     else if p = temp_path r (n_id n) then None else map_of (w_fs w) p)"
  using assms live_path_not_temp [OF assms, of r r "n_id n"]
  by (auto simp: put_item_def write_steps_def map_of_fs_rename)

lemma put_item_ok:
  assumes "store_ok R w" "item_ok n"
  shows "store_ok R (put_item r n w)"
proof (rule store_okI)
  show "distinct (map fst (w_fs (put_item r n w)))"
    unfolding put_item_def by (rule distinct_fs_steps) (rule store_ok_distinct [OF assms(1)])
  fix p c
  assume "map_of (w_fs (put_item r n w)) p = Some c" and p: "p \<noteq> []" "butlast p \<in> R" "is_live_name (last p)"
  then have "p = live_path r (n_id n) \<and> c = FileJson (notification_to_json n) \<or>
      map_of (w_fs w) p = Some c"
    using assms(2) by (auto simp: map_of_put_item item_ok_def split: if_splits)
  then show "item_file p c"
    using store_ok_file [OF assms(1) _ p] assms(2)
    by (auto simp: item_file_def item_ok_def notification_codec.dec_enc)
qed

lemma stored_put_item:
  assumes "item_ok n"
  shows "stored (put_item r n w) = (\<lambda>r' i. if r' = r \<and> i = n_id n then Some n else stored w r' i)"
proof (intro ext)
  fix r' i
  have l: "local_id (n_id n)" using assms by (simp add: item_ok_def)
  show "stored (put_item r n w) r' i = (if r' = r \<and> i = n_id n then Some n else stored w r' i)"
    using assms l
    by (auto simp: stored_def load_item_def map_of_put_item [OF l] item_ok_def
        notification_codec.dec_enc)
qed

lemma drop_item_ok:
  assumes "store_ok R w"
  shows "store_ok R (drop_item r i w)"
proof (rule store_okI)
  show "distinct (map fst (w_fs (drop_item r i w)))"
    unfolding drop_item_def by (rule distinct_fs_step) (rule store_ok_distinct [OF assms])
  fix p c
  assume "map_of (w_fs (drop_item r i w)) p = Some c" "p \<noteq> []" "butlast p \<in> R" "is_live_name (last p)"
  then show "item_file p c"
    using store_ok_file [OF assms] by (auto simp: drop_item_def split: if_splits)
qed

lemma stored_drop_item:
  "stored (drop_item r i w) = (\<lambda>r' j. if r' = r \<and> j = i then None else stored w r' j)"
  by (auto simp: stored_def load_item_def drop_item_def fun_eq_iff)

lemma map_of_move_item:
  assumes "map_of (w_fs w) (live_path r i) = Some c"
  shows "map_of (w_fs (move_item r i t w)) p =
    (if p = live_path t i then Some c else if p = live_path r i then None else map_of (w_fs w) p)"
  using assms by (auto simp: move_item_def map_of_fs_rename)

lemma move_item_ok:
  assumes "store_ok R w" "r \<in> R" "t \<in> R" "stored w r i = Some n"
  shows "store_ok R (move_item r i t w)"
proof (rule store_okI)
  note s = stored_Some [OF assms(1,2,4)]
  obtain c where c: "map_of (w_fs w) (live_path r i) = Some c"
    using s(4) by (auto simp: file_exists_def)
  show "distinct (map fst (w_fs (move_item r i t w)))"
    unfolding move_item_def by (rule distinct_fs_steps) (rule store_ok_distinct [OF assms(1)])
  fix p d
  assume d: "map_of (w_fs (move_item r i t w)) p = Some d"
    and p: "p \<noteq> []" "butlast p \<in> R" "is_live_name (last p)"
  have "item_file (live_path r i) c" using c s(3) assms(2) by (intro store_ok_file [OF assms(1)]) auto
  then have "item_file (live_path t i) c" by (simp only: item_file_def live_path_ends)
  then show "item_file p d"
    using d store_ok_file [OF assms(1) _ p] by (auto simp: map_of_move_item [OF c] split: if_splits)
qed

lemma stored_move_item:
  assumes "store_ok R w" "r \<in> R" "r \<noteq> t" "stored w r i = Some n"
  shows "stored (move_item r i t w) = (\<lambda>r' j. if j = i \<and> r' = t then Some n
     else if j = i \<and> r' = r then None else stored w r' j)"
proof (intro ext)
  note s = stored_Some [OF assms(1,2,4)]
  obtain c where c: "map_of (w_fs w) (live_path r i) = Some c"
    using s(4) by (auto simp: file_exists_def)
  have n: "rbind (json_loads c) notification_from_json = Inr n"
    using s(5) c by (simp add: load_item_def)
  fix r' j
  show "stored (move_item r i t w) r' j = (if j = i \<and> r' = t then Some n
     else if j = i \<and> r' = r then None else stored w r' j)"
    using s(3) assms(3) n by (auto simp: stored_def load_item_def map_of_move_item [OF c] simp del: rbind_eq_Inr)
qed

text \<open>The files on disk meet the contract of a store of notifications.\<close>

interpretation disk: item_store "store_ok R" "\<lambda>r. r \<in> R" item_ok stored put_item drop_item move_item
  for R
proof unfold_locales
  show "store_ok R w \<Longrightarrow> r \<in> R \<Longrightarrow> stored w r i = Some n \<Longrightarrow> n_id n = i \<and> item_ok n" for w r i n
    using stored_Some by blast
qed (simp_all add: put_item_ok stored_put_item drop_item_ok stored_drop_item move_item_ok
    stored_move_item)

section \<open>The operations on a well-formed store\<close>

definition note_posted :: "durable_queue \<Rightarrow> notification \<Rightarrow> world \<Rightarrow> world" where
  "note_posted q n w =
     (case n_external_key n of
        Some k \<Rightarrow> if q_indexed q then exec_step (IndexAdd k) w else w
      | None \<Rightarrow> w)"

definition note_deleted :: "durable_queue \<Rightarrow> notification \<Rightarrow> world \<Rightarrow> world" where
  "note_deleted q n w =
     (case n_external_key n of
        Some k \<Rightarrow> if q_indexed q then exec_step (IndexRemove k) w else w
      | None \<Rightarrow> w)"

lemma note_irrelevant [simp]:
  "stored (note_posted q n w) = stored w" "store_ok R (note_posted q n w) = store_ok R w"
  "stored (note_deleted q n w) = stored w" "store_ok R (note_deleted q n w) = store_ok R w"
  by (simp_all add: note_posted_def note_deleted_def split: option.splits)

lemma write_atomic_run:
  "local_id (n_id n) \<Longrightarrow> write_atomic q n w = (Inr (), put_item (q_root q) n w)"
  by (simp add: write_atomic_def ebind_def put_item_def)

lemma queue_post_run:
  assumes "from_spec tick sp (w_ulid w) = (n, u)"
  shows "queue_post q tick sp w = (Inr n, note_posted q n (put_item (q_root q) n (w\<lparr>w_ulid := u\<rparr>)))"
proof -
  have "local_id (n_id n)" using from_spec_fields [OF assms] by simp
  then show ?thesis
    using assms
    by (simp add: queue_post_def ebind_def write_atomic_run note_posted_def index_add_def
        split: option.splits)
qed

lemma queue_get_run:
  assumes "store_ok R w" "q_root q \<in> R"
  shows "queue_get q i w =
    (case stored w (q_root q) i of None \<Rightarrow> Inl (KeyError i) | Some n \<Rightarrow> Inr n)"
proof (cases "stored w (q_root q) i")
  case None
  then show ?thesis
    using stored_None [OF assms _ None] by (cases "local_id i") (auto simp: queue_get_def)
next
  case (Some n)
  with stored_Some [OF assms Some] show ?thesis by (simp add: queue_get_def)
qed

lemma queue_contains_run:
  assumes "store_ok R w" "q_root q \<in> R"
  shows "queue_contains q i w \<longleftrightarrow> stored w (q_root q) i \<noteq> None"
  using stored_None [OF assms, of i] stored_Some [OF assms, of i]
  by (cases "local_id i") (auto simp: queue_contains_def split: sum.splits, fastforce+)

lemma update_status_run:
  assumes "store_ok R w" "q_root q \<in> R" "stored w (q_root q) i = Some n"
    and "with_updates (Some st) us n = Inr m" "n_id m = i"
  shows "update_status q i st us w = (Inr m, put_item (q_root q) m w)"
  using assms stored_Some [OF assms(1-3)]
  by (simp add: update_status_def ebind_def queue_get_run [OF assms(1,2)] write_atomic_run)

lemma update_status_missing:
  assumes "store_ok R w" "q_root q \<in> R" "stored w (q_root q) i = None"
  shows "update_status q i st us w = (Inl (KeyError i), w)"
  using assms(3) by (simp add: update_status_def ebind_def queue_get_run [OF assms(1,2)])

lemma load_moved:
  assumes "store_ok R w" "r \<in> R" "r \<noteq> t" "stored w r i = Some n"
  shows "load_item (move_item r i t w) (live_path t i) = Inr n"
proof -
  note s = stored_Some [OF assms(1,2,4)]
  then obtain c where c: "map_of (w_fs w) (live_path r i) = Some c" by (auto simp: file_exists_def)
  with s(5) have "rbind (json_loads c) notification_from_json = Inr n" by (simp add: load_item_def)
  then show ?thesis by (simp add: load_item_def map_of_move_item [OF c] del: rbind_eq_Inr)
qed

lemma move_to_run:
  assumes "store_ok R w" "q_root q \<in> R" "q_root t \<noteq> q_root q" "stored w (q_root q) i = Some n"
  shows "move_to q i t w = (Inr n, move_item (q_root q) i (q_root t) w)"
  using assms stored_Some [OF assms(1,2,4)] load_moved [OF assms(1,2) _ assms(4), of "q_root t"]
  by (simp add: move_to_def ebind_def move_item_def)

lemma move_to_same:
  assumes "store_ok R w" "q_root q \<in> R" "q_root t = q_root q" "stored w (q_root q) i = Some n"
  shows "move_to q i t w = (Inr n, w)"
  using assms stored_Some [OF assms(1,2,4)] by (simp add: move_to_def ebind_def)

lemma move_to_missing:
  assumes "store_ok R w" "q_root q \<in> R" "stored w (q_root q) i = None"
  shows "move_to q i t w = (Inl (KeyError i), w)"
  using stored_None [OF assms(1,2) _ assms(3)]
  by (cases "local_id i") (auto simp: move_to_def ebind_def)

lemma queue_delete_run:
  assumes "store_ok R w" "q_root q \<in> R" "stored w (q_root q) i = Some n"
  shows "queue_delete q i w = (Inr (), note_deleted q n (drop_item (q_root q) i w))"
  using assms stored_Some [OF assms]
  by (simp add: queue_delete_def ebind_def key_of_file_def note_deleted_def drop_item_def
      index_remove_def split: option.splits)

lemma queue_delete_missing:
  assumes "store_ok R w" "q_root q \<in> R" "stored w (q_root q) i = None"
  shows "queue_delete q i w = (Inl (KeyError i), w)"
  using stored_None [OF assms(1,2) _ assms(3)]
  by (cases "local_id i") (auto simp: queue_delete_def ebind_def)

lemmas queue_runs = queue_get_run queue_contains_run update_status_run update_status_missing
  move_to_run move_to_same move_to_missing queue_delete_run queue_delete_missing

section \<open>Listings\<close>

text \<open>The names of the files, by which a listing sorts.\<close>

definition file_name :: "notification \<Rightarrow> string" where
  "file_name n = n_id n @ live_suffix"

lemma live_paths_load:
  assumes "store_ok R w" "r \<in> R" "p \<in> set (live_paths r (w_fs w))"
  obtains n where "load_item w p = Inr n" "p = live_path r (n_id n)" "item_ok n"
    "stored w r (n_id n) = Some n"
proof -
  from assms(3) obtain c where c: "(p, c) \<in> set (w_fs w)" "p \<noteq> []" "butlast p = r"
    "is_live_name (last p)" by (auto simp: live_paths_def)
  then have m: "map_of (w_fs w) p = Some c"
    using store_ok_distinct [OF assms(1)] by simp
  then have "item_file p c" using c assms(2) by (intro store_ok_file [OF assms(1) m]) auto
  then obtain n where n: "rbind (json_loads c) notification_from_json = Inr n" "item_ok n"
    "last p = n_id n @ live_suffix" by (auto simp: item_file_def split: sum.splits)
  have p: "p = live_path r (n_id n)"
    using n(3) c(2,3) append_butlast_last_id [OF c(2)] by (simp add: live_path_def)
  have l: "load_item w p = Inr n" using m n(1) by (simp add: load_item_def del: rbind_eq_Inr)
  then have "stored w r (n_id n) = Some n" using p n(2) by (simp add: stored_def item_ok_def)
  with that l p n(2) show thesis by blast
qed

lemma stored_live_paths:
  assumes "store_ok R w" "r \<in> R" "stored w r i = Some n"
  shows "live_path r i \<in> set (live_paths r (w_fs w))"
proof -
  note s = stored_Some [OF assms]
  then obtain c where "(live_path r i, c) \<in> set (w_fs w)"
    by (auto simp: file_exists_def dest: map_of_SomeD)
  with s(3) show ?thesis by (force simp: live_paths_def)
qed

lemma queue_list_all:
  assumes "store_ok R w" "q_root q \<in> R"
  obtains ns where "queue_list q None w = Inr ns" "sorted_wrt (<) (map file_name ns)"
    "\<And>n. n \<in> set ns \<longleftrightarrow> stored w (q_root q) (n_id n) = Some n"
proof -
  define r where "r = q_root q"
  define ps where "ps = sort_key last (live_paths r (w_fs w))"
  define g where "g p = (case load_item w p of Inr n \<Rightarrow> n | Inl _ \<Rightarrow> undefined)" for p
  have r: "r \<in> R" using assms(2) by (simp add: r_def)
  have set_ps: "set ps = set (live_paths r (w_fs w))" by (simp add: ps_def)
  have g: "load_item w p = Inr (g p)" "p = live_path r (n_id (g p))"
    "stored w r (n_id (g p)) = Some (g p)" if p: "p \<in> set ps" for p
  proof -
    obtain n where "load_item w p = Inr n" "p = live_path r (n_id n)" "stored w r (n_id n) = Some n"
      using live_paths_load [OF assms(1) r, of p] p set_ps by metis
    moreover from this(1) have "g p = n" by (simp add: g_def)
    ultimately show "load_item w p = Inr (g p)" "p = live_path r (n_id (g p))"
      "stored w r (n_id (g p)) = Some (g p)" by simp_all
  qed
  have run: "rmap_list (load_item w) ps = Inr (map g ps)"
    using g(1) by (rule rmap_list_all_Inr)
  have name: "file_name (g p) = last p" if "p \<in> set ps" for p
    using g(2) [OF that] live_path_ends(1) [of r "n_id (g p)"] by (simp add: file_name_def)
  then have names: "map file_name (map g ps) = map last ps" by simp
  have "distinct ps"
    using store_ok_distinct [OF assms(1)] by (simp add: ps_def live_paths_def)
  moreover have "inj_on last (set ps)"
  proof (rule inj_onI)
    fix p p' assume "p \<in> set ps" "p' \<in> set ps" "last p = last p'"
    then have "n_id (g p) = n_id (g p')" using name by (metis file_name_def append_same_eq)
    then show "p = p'" using g(2) \<open>p \<in> set ps\<close> \<open>p' \<in> set ps\<close> by metis
  qed
  ultimately have "distinct (map last ps)" by (simp add: distinct_map)
  moreover have "sorted (map last ps)" unfolding ps_def by (rule sorted_sort_key)
  ultimately have 1: "sorted_wrt (<) (map file_name (map g ps))"
    unfolding names strict_sorted_iff by blast
  have 2: "n \<in> set (map g ps) \<longleftrightarrow> stored w (q_root q) (n_id n) = Some n" for n
  proof
    assume s: "stored w (q_root q) (n_id n) = Some n"
    then have "live_path r (n_id n) \<in> set ps"
      using stored_live_paths [OF assms] by (simp add: set_ps r_def)
    moreover have "g (live_path r (n_id n)) = n"
      using stored_Some(5) [OF assms s] by (simp add: g_def r_def)
    ultimately show "n \<in> set (map g ps)" by force
  next
    assume "n \<in> set (map g ps)"
    then show "stored w (q_root q) (n_id n) = Some n" using g(3) by (auto simp: r_def)
  qed
  have "queue_list q None w = Inr (map g ps)" using run by (simp add: queue_list_def ps_def r_def)
  then show thesis using that 1 2 by blast
qed

lemma queue_list_filter:
  "queue_list q None w = Inr ns \<Longrightarrow>
     queue_list q (Some ss) w = Inr (filter (\<lambda>n. n_status n \<in> set ss) ns)"
  by (auto simp: queue_list_def)

text \<open>A listing is determined by what is stored.\<close>

lemma sorted_names_unique:
  assumes "sorted_wrt (<) (map file_name ns)" "sorted_wrt (<) (map file_name ms)" "set ns = set ms"
  shows "ns = ms"
proof -
  have "map file_name ns = map file_name ms"
    using assms by (intro strict_sorted_equal) auto
  moreover have "inj_on file_name (set ns \<union> set ms)"
  proof -
    have "distinct (map file_name ns)" using assms(1) by (simp add: strict_sorted_iff)
    then show ?thesis using assms(3) by (simp add: distinct_map)
  qed
  ultimately show ?thesis using map_inj_on by blast
qed

lemma queue_list_unique:
  assumes "store_ok R w" "q_root q \<in> R" "sorted_wrt (<) (map file_name ns)"
    and "\<And>n. n \<in> set ns \<longleftrightarrow> stored w (q_root q) (n_id n) = Some n"
  shows "queue_list q None w = Inr ns"
proof -
  obtain ms where ms: "queue_list q None w = Inr ms" "sorted_wrt (<) (map file_name ms)"
    "\<And>n. n \<in> set ms \<longleftrightarrow> stored w (q_root q) (n_id n) = Some n"
    using queue_list_all [OF assms(1,2)] by metis
  moreover have "set ns = set ms" using ms(3) assms(4) by auto
  ultimately show ?thesis using sorted_names_unique [OF assms(3) ms(2)] by simp
qed

section \<open>A store with one item\<close>

definition example_spec :: notification_spec where
  "example_spec = \<lparr>sp_source = ''poller'', sp_content = ''look'',
     sp_target = SessionAddress ''ann'' (SessionKey [''cli'']), sp_metadata = [(''url'', JStr ''u'')],
     sp_rsvp_to = Some (ServiceAddress ''chat''), sp_external_key = Some ''gitlab:todo:99''\<rparr>"

definition example_time :: timestamp where
  "example_time = \<lparr>ts_year = 2026, ts_month = 2, ts_day = 28, ts_hour = 23, ts_minute = 59,
     ts_second = 0, ts_micro = 50\<rparr>"

definition example_tick :: "nat \<Rightarrow> post_tick" where
  "example_tick ms = \<lparr>tick_ms = ms, tick_rand = 7, tick_now = example_time\<rparr>"

definition example_queue :: durable_queue where
  "example_queue = \<lparr>q_root = [''inbox''], q_indexed = True, q_kind = PlainQueue\<rparr>"

lemma example_valid [simp]:
  "valid_spec example_spec" "valid_timestamp (tick_now (example_tick ms))"
  "q_root example_queue = [''inbox'']" "store_ok R world_empty"
  by (simp_all add: valid_spec_def example_spec_def valid_session_key_def slash_def colon_def
      valid_timestamp_def example_tick_def example_time_def days_in_month_def is_leap_def
      example_queue_def store_ok_def world_empty_def)

lemma example_key: "sp_external_key example_spec = Some ''gitlab:todo:99''"
  by (simp add: example_spec_def)

definition example_item :: notification where
  "example_item = fst (from_spec (example_tick 5) example_spec ulid_init)"

definition example_world :: world where
  "example_world = snd (queue_post example_queue (example_tick 5) example_spec world_empty)"

lemma example_item_ok: "item_ok example_item"
proof -
  obtain n u where f: "from_spec (example_tick 5) example_spec ulid_init = (n, u)"
    by (cases "from_spec (example_tick 5) example_spec ulid_init")
  then show ?thesis
    using valid_from_spec [OF f] from_spec_fields [OF f] example_valid
    by (simp add: example_item_def item_ok_def)
qed

lemma example_fields [simp]:
  "n_status example_item = PENDING" "n_external_key example_item = Some ''gitlab:todo:99''"
  "n_target example_item = SessionAddress ''ann'' (SessionKey [''cli''])"
  "n_rsvp_to example_item = Some (ServiceAddress ''chat'')"
proof -
  obtain n u where "from_spec (example_tick 5) example_spec ulid_init = (n, u)"
    by (cases "from_spec (example_tick 5) example_spec ulid_init")
  from from_spec_fields [OF this] this show "n_status example_item = PENDING"
    "n_external_key example_item = Some ''gitlab:todo:99''"
    "n_target example_item = SessionAddress ''ann'' (SessionKey [''cli''])"
    "n_rsvp_to example_item = Some (ServiceAddress ''chat'')"
    by (simp_all add: example_item_def example_spec_def)
qed

lemma stored_world_empty [simp]: "stored world_empty = (\<lambda>_ _. None)"
  by (simp add: stored_def load_item_def world_empty_def fun_eq_iff)

lemma example_stored [simp]:
  "stored example_world =
     (\<lambda>r i. if r = [''inbox''] \<and> i = n_id example_item then Some example_item else None)"
  "store_ok R example_world"
proof -
  obtain n u where f: "from_spec (example_tick 5) example_spec (w_ulid world_empty) = (n, u)"
    by (cases "from_spec (example_tick 5) example_spec (w_ulid world_empty)")
  then have n: "n = example_item" by (simp add: example_item_def world_empty_def)
  have w: "example_world = note_posted example_queue n
      (put_item [''inbox''] n (world_empty\<lparr>w_ulid := u\<rparr>))"
    unfolding example_world_def queue_post_run [OF f] by simp
  show "stored example_world =
     (\<lambda>r i. if r = [''inbox''] \<and> i = n_id example_item then Some example_item else None)"
    using example_item_ok by (simp add: w n stored_put_item cong: if_cong)
  show "store_ok R example_world"
    using example_item_ok by (simp add: w n put_item_ok)
qed

end
