(* ===== verification/Queue_Laws.thy ===== *)
theory Queue_Laws
  imports Queue_Store
begin

text \<open>
  The durability properties of \<open>DurableQueue\<close>: the effect of each operation on the store,
  the order of listings, the worlds a crash can leave, and the bookkeeping of the in-flight
  index.
\<close>

section \<open>The steps of each operation\<close>

definition post_steps :: "durable_queue \<Rightarrow> notification \<Rightarrow> fs_step list" where
  "post_steps q n =
     MkDir (q_root q) #
     write_steps (temp_path (q_root q) (n_id n)) (live_path (q_root q) (n_id n)) n @
     (case n_external_key n of
        Some k \<Rightarrow> if q_indexed q then [IndexAdd k] else []
      | None \<Rightarrow> [])"

definition delete_steps :: "durable_queue \<Rightarrow> notification \<Rightarrow> fs_step list" where
  "delete_steps q n =
     Unlink (live_path (q_root q) (n_id n)) #
     (case n_external_key n of
        Some k \<Rightarrow> if q_indexed q then [IndexRemove k] else []
      | None \<Rightarrow> [])"

definition move_steps :: "durable_queue \<Rightarrow> string \<Rightarrow> durable_queue \<Rightarrow> fs_step list" where
  "move_steps q i t = [MkDir (q_root t), Rename (live_path (q_root q) i) (live_path (q_root t) i)]"

lemma exec_post_steps:
  "exec_steps (post_steps q n) w = note_posted q n (put_item (q_root q) n w)"
  by (simp add: post_steps_def note_posted_def put_item_def split: option.splits)

lemma exec_delete_steps:
  "exec_steps (delete_steps q n) w = note_deleted q n (drop_item (q_root q) (n_id n) w)"
  by (simp add: delete_steps_def note_deleted_def drop_item_def split: option.splits)

lemma exec_move_steps:
  "exec_steps (move_steps q i t) w = move_item (q_root q) i (q_root t) w"
  by (simp add: move_steps_def move_item_def)

section \<open>Crash points\<close>

text \<open>A step on a path that is not the live file of an identifier leaves the store as it is.\<close>

lemma write_crash_points:
  assumes "item_ok n" "store_ok R w"
    and "v \<in> set (crash_points (MkDir r # write_steps (temp_path r (n_id n)) (live_path r (n_id n)) n) w)"
  shows "store_ok R v \<and> (stored v = stored w \<or> stored v = stored (put_item r n w))"
proof -
  have l: "local_id (n_id n)" using assms(1) by (simp add: item_ok_def)
  define w1 where "w1 = exec_step (MkDir r) w"
  have temp: "stored (exec_step (WriteFile (temp_path r (n_id n)) c) w1) = stored w \<and>
      store_ok R (exec_step (WriteFile (temp_path r (n_id n)) c) w1)" for c
  proof
    show "stored (exec_step (WriteFile (temp_path r (n_id n)) c) w1) = stored w"
      by (rule stored_cong) (simp add: w1_def)
    show "store_ok R (exec_step (WriteFile (temp_path r (n_id n)) c) w1)"
      using store_ok_file [OF assms(2)] store_ok_distinct [OF assms(2)]
      by (intro store_okI) (auto simp: w1_def split: if_splits)
  qed
  have w1: "stored w1 = stored w" "store_ok R w1" using assms(2) by (simp_all add: w1_def)
  from assms(3) consider "v = w" | "v = w1"
    | c where "v = exec_step (WriteFile (temp_path r (n_id n)) c) w1" | "v = put_item r n w"
    by (auto simp: write_steps_def put_item_def w1_def)
  then show ?thesis
    using w1 temp assms put_item_ok [OF assms(2,1)] by cases auto
qed

lemma crash_points_append_index:
  assumes "v \<in> set (crash_points (ss @ ts) w)"
    and "\<And>u. v \<in> set (crash_points ts u) \<Longrightarrow> stored v = stored u \<and> (store_ok R v \<longleftrightarrow> store_ok R u)"
  shows "v \<in> set (crash_points ss w) \<or>
    (stored v = stored (exec_steps ss w) \<and> (store_ok R v \<longleftrightarrow> store_ok R (exec_steps ss w)))"
  using assms by (induction ss arbitrary: w) (auto split: fs_step.splits)

lemma post_crash_points:
  assumes "item_ok n" "store_ok R w" "v \<in> set (crash_points (post_steps q n) w)"
  shows "store_ok R v \<and> (stored v = stored w \<or> stored v = stored (put_item (q_root q) n w))"
proof -
  let ?ss = "MkDir (q_root q) #
    write_steps (temp_path (q_root q) (n_id n)) (live_path (q_root q) (n_id n)) n"
  let ?ts = "case n_external_key n of Some k \<Rightarrow> if q_indexed q then [IndexAdd k] else [] | None \<Rightarrow> []"
  have "v \<in> set (crash_points (?ss @ ?ts) w)" using assms(3) by (simp add: post_steps_def)
  moreover have "stored v = stored u \<and> (store_ok R v \<longleftrightarrow> store_ok R u)"
    if "v \<in> set (crash_points ?ts u)" for u
    using that by (auto split: option.splits if_splits)
  ultimately have "v \<in> set (crash_points ?ss w) \<or>
      (stored v = stored (exec_steps ?ss w) \<and> (store_ok R v \<longleftrightarrow> store_ok R (exec_steps ?ss w)))"
    by (rule crash_points_append_index)
  then show ?thesis
    using write_crash_points [OF assms(1,2), of v "q_root q"] put_item_ok [OF assms(2,1), of "q_root q"]
    unfolding put_item_def by blast
qed

lemma move_crash_points:
  assumes "store_ok R w" "q_root q \<in> R" "q_root t \<in> R" "stored w (q_root q) i = Some n"
    and "v \<in> set (crash_points (move_steps q i t) w)"
  shows "store_ok R v \<and> (stored v = stored w \<or> stored v = stored (move_item (q_root q) i (q_root t) w))"
proof -
  from assms(5) consider "v = w" | "v = exec_step (MkDir (q_root t)) w"
    | "v = move_item (q_root q) i (q_root t) w"
    by (auto simp: move_steps_def move_item_def)
  then show ?thesis
    using assms(1) move_item_ok [OF assms(1-4)] by cases simp_all
qed

lemma delete_crash_points:
  assumes "store_ok R w" "v \<in> set (crash_points (delete_steps q n) w)"
  shows "store_ok R v \<and> (stored v = stored w \<or> stored v = stored (drop_item (q_root q) (n_id n) w))"
  using assms drop_item_ok [OF assms(1), of "q_root q" "n_id n"]
  by (auto simp: delete_steps_def drop_item_def split: option.splits if_splits)

section \<open>Properties\<close>

text \<open>A post stores exactly the new notification, as pending and under its identifier, and
  keeps the store well formed; the world it returns is the end of its steps, and a crash
  before any of them, or in the middle of the write, leaves the store as it was before or as
  it is after.\<close>

theorem post_is_durable:
  assumes "store_ok R w" "q_root q \<in> R" "valid_spec sp" "valid_timestamp (tick_now tick)"
  shows "\<exists>n u. queue_post q tick sp w = (Inr n, exec_steps (post_steps q n) (w\<lparr>w_ulid := u\<rparr>)) \<and>
    n_status n = PENDING \<and> n_external_key n = sp_external_key sp \<and>
    stored (snd (queue_post q tick sp w)) =
      (\<lambda>r i. if r = q_root q \<and> i = n_id n then Some n else stored w r i) \<and>
    (\<forall>v \<in> set (crash_points (post_steps q n) (w\<lparr>w_ulid := u\<rparr>)).
       store_ok R v \<and> (stored v = stored w \<or> stored v = stored (snd (queue_post q tick sp w))))"
proof -
  obtain n u where f: "from_spec tick sp (w_ulid w) = (n, u)" by (cases "from_spec tick sp (w_ulid w)")
  note run = queue_post_run [OF f, of q]
  have ok: "item_ok n"
    using valid_from_spec [OF f assms(3,4)] from_spec_fields [OF f] by (simp add: item_ok_def)
  have w: "store_ok R (w\<lparr>w_ulid := u\<rparr>)" using assms(1) by simp
  show ?thesis
  proof (intro exI [of _ n] exI [of _ u] conjI ballI)
    show "queue_post q tick sp w = (Inr n, exec_steps (post_steps q n) (w\<lparr>w_ulid := u\<rparr>))"
      using run by (simp add: exec_post_steps)
    show "n_status n = PENDING" "n_external_key n = sp_external_key sp"
      using from_spec_fields [OF f] by simp_all
    show s: "stored (snd (queue_post q tick sp w)) =
        (\<lambda>r i. if r = q_root q \<and> i = n_id n then Some n else stored w r i)"
      using ok by (simp add: run stored_put_item cong: if_cong)
    fix v assume "v \<in> set (crash_points (post_steps q n) (w\<lparr>w_ulid := u\<rparr>))"
    then show "store_ok R v" "stored v = stored w \<or> stored v = stored (snd (queue_post q tick sp w))"
      using post_crash_points [OF ok w] by (simp_all add: run)
  qed
qed

theorem post_is_durable_witness:
  "\<exists>n. fst (queue_post example_queue (example_tick 5) example_spec world_empty) = Inr n \<and>
     n_external_key n = Some ''gitlab:todo:99''"
  using post_is_durable [of "{[''inbox'']}" world_empty example_queue example_spec "example_tick 5"]
    example_valid example_key by fastforce

text \<open>A listing returns exactly the notifications stored in the queue, in the strict order
  of their file names, and a listing with a status filter the ones among them whose status is
  asked for, in the same order.\<close>

theorem listing_is_sorted_store:
  assumes "store_ok R w" "q_root q \<in> R"
  shows "\<exists>ns. queue_list q None w = Inr ns \<and>
    sorted_wrt (<) (map (\<lambda>n. n_id n @ live_suffix) ns) \<and>
    (\<forall>n. n \<in> set ns \<longleftrightarrow> stored w (q_root q) (n_id n) = Some n) \<and>
    (\<forall>ss. queue_list q (Some ss) w = Inr (filter (\<lambda>n. n_status n \<in> set ss) ns))"
proof -
  have "file_name = (\<lambda>n. n_id n @ live_suffix)" by (simp add: fun_eq_iff file_name_def)
  then show ?thesis using queue_list_all [OF assms] queue_list_filter by metis
qed

theorem listing_is_sorted_store_witness:
  "\<exists>ns. queue_list example_queue None world_empty = Inr ns \<and>
    sorted_wrt (<) (map (\<lambda>n. n_id n @ live_suffix) ns)"
  using listing_is_sorted_store [of "{[''inbox'']}" world_empty example_queue] by auto

text \<open>A move is all or nothing: at every crash point the item is in exactly one of the two
  queues, with the same content, and every other item is where it was; the completed move
  returns the item and leaves it in the target.\<close>

theorem move_keeps_one_copy:
  assumes "store_ok R w" "q_root q \<in> R" "q_root t \<in> R" "q_root t \<noteq> q_root q"
    and "stored w (q_root q) i = Some n" "stored w (q_root t) i = None"
  shows "move_to q i t w = (Inr n, exec_steps (move_steps q i t) w) \<and>
    stored (exec_steps (move_steps q i t) w) (q_root t) i = Some n \<and>
    (\<forall>v \<in> set (crash_points (move_steps q i t) w).
       (stored v (q_root q) i = Some n) \<noteq> (stored v (q_root t) i = Some n) \<and>
       (\<forall>r j. (r, j) \<notin> {(q_root q, i), (q_root t, i)} \<longrightarrow> stored v r j = stored w r j))"
proof -
  have m: "stored (move_item (q_root q) i (q_root t) w) = (\<lambda>r j. if j = i \<and> r = q_root t then Some n
      else if j = i \<and> r = q_root q then None else stored w r j)"
    using stored_move_item [OF assms(1,2) _ assms(5)] assms(4) by metis
  have "(stored v (q_root q) i = Some n) \<noteq> (stored v (q_root t) i = Some n) \<and>
      (\<forall>r j. (r, j) \<notin> {(q_root q, i), (q_root t, i)} \<longrightarrow> stored v r j = stored w r j)"
    if "v \<in> set (crash_points (move_steps q i t) w)" for v
    using move_crash_points [OF assms(1-3,5) that] m assms(4-6) by auto
  then show ?thesis
    using move_to_run [OF assms(1,2,4,5)] m by (simp add: exec_move_steps)
qed

text \<open>An update of a stored item with lifecycle fields returns the item with the new
  status, everything that came from its specification unchanged, and stores exactly it; a
  crash leaves the old version or the new one.\<close>

theorem update_is_atomic:
  assumes "store_ok R w" "q_root q \<in> R" "stored w (q_root q) i = Some n"
    and "\<forall>u \<in> set us. lifecycle_update u"
  shows "\<exists>m w'. update_status q i st us w = (Inr m, w') \<and> n_status m = st \<and> origin m = origin n \<and>
    store_ok R w' \<and>
    stored w' = (\<lambda>r j. if r = q_root q \<and> j = i then Some m else stored w r j) \<and>
    (\<forall>v \<in> set (crash_points (MkDir (q_root q) #
        write_steps (temp_path (q_root q) i) (live_path (q_root q) i) m) w).
       stored v = stored w \<or> stored v = stored w')"
proof -
  note s = stored_Some [OF assms(1-3)]
  obtain m where m: "with_updates (Some st) us n = Inr m" "origin m = origin n" "n_status m = st"
    using with_updates_lifecycle [OF assms(4)] by blast
  have id: "n_id m = i" using m(2) s(1) by (simp add: origin_def)
  have ok: "item_ok m"
    using valid_notification_origin [OF m(2)] s id by (simp add: item_ok_def)
  note run = update_status_run [OF assms(1-3) m(1) id]
  show ?thesis
    using run m(2,3) put_item_ok [OF assms(1) ok] stored_put_item [OF ok] id
      write_crash_points [OF ok assms(1), of _ "q_root q"]
    by (intro exI [of _ m] exI [of _ "put_item (q_root q) m w"]) auto
qed

text \<open>Deleting a stored item removes exactly it; a crash leaves it stored or gone, and the
  key leaves the in-flight index last.\<close>

theorem delete_is_atomic:
  assumes "store_ok R w" "q_root q \<in> R" "stored w (q_root q) i = Some n"
  shows "queue_delete q i w = (Inr (), exec_steps (delete_steps q n) w) \<and>
    stored (exec_steps (delete_steps q n) w) =
      (\<lambda>r j. if r = q_root q \<and> j = i then None else stored w r j) \<and>
    w_index (exec_steps (delete_steps q n) w) =
      (if q_indexed q then w_index w - set_option (n_external_key n) else w_index w) \<and>
    (\<forall>v \<in> set (crash_points (delete_steps q n) w). store_ok R v \<and>
       (stored v = stored w \<or> stored v = stored (exec_steps (delete_steps q n) w)))"
proof -
  have i: "n_id n = i" using stored_Some(1) [OF assms] .
  have d: "stored (exec_steps (delete_steps q n) w) = stored (drop_item (q_root q) i w)"
    by (simp add: exec_delete_steps i)
  have "w_index (exec_steps (delete_steps q n) w) =
      (if q_indexed q then w_index w - set_option (n_external_key n) else w_index w)"
    by (simp add: delete_steps_def split: option.splits)
  then show ?thesis
    using queue_delete_run [OF assms] delete_crash_points [OF assms(1), of _ q n] d
    by (simp add: exec_delete_steps i stored_drop_item)
qed

text \<open>The queue the example moves items to.\<close>

definition example_target :: durable_queue where
  "example_target = \<lparr>q_root = [''queue''], q_indexed = True, q_kind = PlainQueue\<rparr>"

theorem move_keeps_one_copy_witness:
  "stored (exec_steps (move_steps example_queue (n_id example_item) example_target) example_world)
     [''queue''] (n_id example_item) = Some example_item"
  using move_keeps_one_copy [of UNIV example_world example_queue example_target
      "n_id example_item" example_item]
  by (simp add: example_stored example_target_def)

theorem update_is_atomic_witness:
  "\<exists>m w'. update_status example_queue (n_id example_item) IN_PROGRESS [SetNotes (Some ''on it'')]
     example_world = (Inr m, w') \<and> n_status m = IN_PROGRESS \<and> origin m = origin example_item"
  using update_is_atomic [of UNIV example_world example_queue "n_id example_item" example_item
      "[SetNotes (Some ''on it'')]" IN_PROGRESS]
  by (auto simp: example_stored)

theorem delete_is_atomic_witness:
  "stored (exec_steps (delete_steps example_queue example_item) example_world) [''inbox'']
     (n_id example_item) = None"
  using delete_is_atomic [of UNIV example_world example_queue "n_id example_item" example_item]
  by (simp add: example_stored)

section \<open>Post order\<close>

text \<open>Identifiers of the generator compare as the file names made of them.\<close>

lemma ulid_names_ordered:
  "v < x \<Longrightarrow> x < 2 ^ 128 \<Longrightarrow> ulid_encode v @ live_suffix < ulid_encode x @ live_suffix"
  by (intro less_append_same_length ulid_encode_mono) simp_all

text \<open>Every item of the queue has an identifier the generator has already issued.\<close>

definition ids_issued :: "world \<Rightarrow> path \<Rightarrow> bool" where
  "ids_issued w r \<longleftrightarrow> (\<forall>i. stored w r i \<noteq> None \<longrightarrow>
     (\<exists>v. i = ulid_encode v \<and> v \<le> ulid_value (w_ulid w)))"

text \<open>A post appends to the listing: items are listed in the order they were posted in,
  when the identifiers in the queue were issued before and the counter is not exhausted.\<close>

theorem post_appends_to_listing:
  assumes "store_ok R w" "q_root q \<in> R" "valid_spec sp" "valid_timestamp (tick_now tick)"
    and "ids_issued w (q_root q)" "ulid_ok (w_ulid w)"
    and "ulid_inputs_ok [(tick_ms tick, tick_rand tick)] (w_ulid w)"
    and "queue_list q None w = Inr ns" "queue_post q tick sp w = (Inr n, w')"
  shows "queue_list q None w' = Inr (ns @ [n]) \<and> ids_issued w' (q_root q)"
proof -
  let ?r = "q_root q" and ?st = "w_ulid w"
  obtain m u where f: "from_spec tick sp ?st = (m, u)" by (cases "from_spec tick sp ?st")
  note run = queue_post_run [OF f, of q] and ff = from_spec_fields [OF f]
  have n: "m = n" "w' = note_posted q n (put_item ?r n (w\<lparr>w_ulid := u\<rparr>))"
    using run assms(9) by auto
  have ok: "item_ok n" using valid_from_spec [OF f assms(3,4)] ff n by (simp add: item_ok_def)
  have u: "ulid_value ?st < ulid_value u" "ulid_value u < 2 ^ 128"
    using ulid_step_increases ulid_step_ok ulid_value_bound assms(6,7) ff by auto
  have id: "n_id n = ulid_encode (ulid_value u)" using ff n by simp
  have before: "file_name m' < file_name n" if "stored w ?r (n_id m') = Some m'" for m'
  proof -
    have "stored w ?r (n_id m') \<noteq> None" using that by simp
    then obtain v where "n_id m' = ulid_encode v" "v \<le> ulid_value ?st"
      using assms(5) unfolding ids_issued_def by blast
    then show ?thesis using ulid_names_ordered [of v "ulid_value u"] u id by (simp add: file_name_def)
  qed
  have new: "stored w ?r (n_id n) \<noteq> Some m'" for m'
    using before [of m'] stored_Some(1) [OF assms(1,2), of "n_id n" m'] by (auto simp: file_name_def)
  obtain ns' where ns': "queue_list q None w = Inr ns'" "sorted_wrt (<) (map file_name ns')"
    "\<And>x. x \<in> set ns' \<longleftrightarrow> stored w ?r (n_id x) = Some x"
    using queue_list_all [OF assms(1,2)] by metis
  then have ns: "ns' = ns" using assms(8) by simp
  have st: "stored w' = (\<lambda>r i. if r = ?r \<and> i = n_id n then Some n else stored w r i)"
    using n(2) ok by (simp add: stored_put_item cong: if_cong)
  have ok': "store_ok R w'" using n(2) assms(1) ok by (simp add: put_item_ok)
  have "queue_list q None w' = Inr (ns @ [n])"
  proof (rule queue_list_unique [OF ok' assms(2)])
    show "sorted_wrt (<) (map file_name (ns @ [n]))"
      using ns'(2,3) before by (simp add: sorted_wrt_append ns)
    show "x \<in> set (ns @ [n]) \<longleftrightarrow> stored w' ?r (n_id x) = Some x" for x
      using ns'(3) [of x] new by (auto simp: st ns)
  qed
  moreover have "ids_issued w' ?r"
    unfolding ids_issued_def
  proof (intro allI impI)
    fix i assume s: "stored w' ?r i \<noteq> None"
    have wu: "w_ulid w' = u" by (simp add: n(2) note_posted_def put_item_def split: option.splits)
    show "\<exists>v. i = ulid_encode v \<and> v \<le> ulid_value (w_ulid w')"
    proof (cases "i = n_id n")
      case True
      then show ?thesis using id wu by auto
    next
      case False
      with s have "stored w ?r i \<noteq> None" by (simp add: st)
      then obtain v where "i = ulid_encode v" "v \<le> ulid_value ?st"
        using assms(5) unfolding ids_issued_def by blast
      then show ?thesis using u(1) wu by (intro exI [of _ v]) simp
    qed
  qed
  ultimately show ?thesis by blast
qed

lemma example_post:
  "queue_post example_queue (example_tick 5) example_spec world_empty = (Inr example_item, example_world)"
  "w_ulid example_world = \<lparr>last_ms = 5, last_rand = 7\<rparr>"
proof -
  obtain n u where f: "from_spec (example_tick 5) example_spec (w_ulid world_empty) = (n, u)"
    by (cases "from_spec (example_tick 5) example_spec (w_ulid world_empty)")
  then have n: "n = example_item" by (simp add: example_item_def world_empty_def)
  note run = queue_post_run [OF f, of example_queue]
  show "queue_post example_queue (example_tick 5) example_spec world_empty = (Inr example_item, example_world)"
    using run by (simp add: example_world_def n)
  have "u = \<lparr>last_ms = 5, last_rand = 7\<rparr>"
    using from_spec_fields [OF f]
    by (simp add: example_tick_def world_empty_def ulid_step_def ulid_init_def)
  then show "w_ulid example_world = \<lparr>last_ms = 5, last_rand = 7\<rparr>"
    by (simp add: example_world_def run note_posted_def put_item_def split: option.splits)
qed

theorem post_appends_to_listing_witness:
  "\<exists>n w'. queue_post example_queue (example_tick 5) example_spec example_world = (Inr n, w') \<and>
     queue_list example_queue None w' = Inr [example_item, n]"
proof -
  have st: "w_ulid world_empty = \<lparr>last_ms = 0, last_rand = 0\<rparr>"
    by (simp add: world_empty_def ulid_init_def)
  have e: "queue_list example_queue None world_empty = Inr []"
    by (simp add: queue_list_def live_paths_def world_empty_def)
  have t: "tick_ms (example_tick 5) = 5" "tick_rand (example_tick 5) = 7"
    by (simp_all add: example_tick_def)
  have 1: "queue_list example_queue None example_world = Inr ([] @ [example_item]) \<and>
      ids_issued example_world (q_root example_queue)"
    by (rule post_appends_to_listing [OF _ _ _ _ _ _ _ e example_post(1), where R = UNIV])
      (simp_all add: t st ids_issued_def ulid_ok_def example_valid)
  have "\<exists>n w'. queue_post example_queue (example_tick 5) example_spec example_world = (Inr n, w')"
    using post_is_durable [of UNIV example_world example_queue example_spec "example_tick 5"]
      example_valid example_stored by auto
  then obtain n w' where
    p: "queue_post example_queue (example_tick 5) example_spec example_world = (Inr n, w')" by blast
  have "queue_list example_queue None w' = Inr ([example_item] @ [n])"
    by (rule conjunct1, rule post_appends_to_listing [OF _ _ _ _ _ _ _ _ p, where R = UNIV])
      (use 1 in \<open>simp_all add: t example_post(2) ulid_ok_def ulid_exhausted_def ulid_rand_mask_eq
        example_valid\<close>)
  with p show ?thesis by auto
qed

section \<open>Sidecars\<close>

lemma exec_unlinks:
  "map_of (w_fs (exec_steps (map Unlink ps) w)) p = (if p \<in> set ps then None else map_of (w_fs w) p)"
  by (induction ps arbitrary: w) auto

lemma temp_paths_member:
  "p \<in> set (temp_paths r fs) \<longleftrightarrow> map_of fs p \<noteq> None \<and> p \<noteq> [] \<and> butlast p = r \<and>
     py_startswith (last p) temp_prefix"
  by (auto simp: temp_paths_def map_of_eq_None_iff)

text \<open>The clean-up removes the sidecars of the queue and nothing else, whatever a crashed
  write left in them: every stored item stays, the number it returns is the number of
  sidecars there were, and a second clean-up finds none.\<close>

theorem cleanup_removes_sidecars:
  "fst (cleanup_temp_files q w) = Inr (length (temp_paths (q_root q) (w_fs w))) \<and>
   temp_paths (q_root q) (w_fs (snd (cleanup_temp_files q w))) = [] \<and>
   stored (snd (cleanup_temp_files q w)) = stored w \<and>
   fst (cleanup_temp_files q (snd (cleanup_temp_files q w))) = Inr 0"
proof -
  let ?ps = "temp_paths (q_root q) (w_fs w)" and ?v = "snd (cleanup_temp_files q w)"
  have v: "?v = exec_steps (map Unlink ?ps) w" by (simp add: cleanup_temp_files_def ebind_def)
  have gone: "temp_paths (q_root q) (w_fs ?v) = []"
  proof -
    have "p \<notin> set (temp_paths (q_root q) (w_fs ?v))" for p
      unfolding v temp_paths_member exec_unlinks by (auto simp: temp_paths_member)
    then show ?thesis by (metis list.set_intros(1) neq_Nil_conv)
  qed
  have "stored ?v = stored w"
  proof (rule stored_cong)
    fix r i assume "local_id i"
    then have "live_path r i \<notin> set ?ps"
      using local_id_live live_name_starts [of "i @ live_suffix"]
      by (auto simp: temp_paths_member temp_prefix_def py_startswith_iff)
    then show "map_of (w_fs ?v) (live_path r i) = map_of (w_fs w) (live_path r i)"
      by (simp add: v exec_unlinks)
  qed
  moreover have "fst (cleanup_temp_files q w') = Inr (length (temp_paths (q_root q) (w_fs w')))" for w'
    by (simp add: cleanup_temp_files_def ebind_def)
  ultimately show ?thesis using gone by simp
qed

section \<open>The index against the disk\<close>

text \<open>Between the rename and the update of the index a post leaves a stored item whose key
  the index does not have, and between the unlink and the update a delete leaves a key in
  the index without an item.\<close>

theorem index_lags_behind_disk:
  assumes "store_ok R w" "q_root q \<in> R" "q_indexed q" "item_ok n" "n_external_key n = Some k"
  shows "(k \<notin> w_index w \<longrightarrow>
      (\<exists>v \<in> set (crash_points (post_steps q n) w). stored v (q_root q) (n_id n) = Some n \<and> k \<notin> w_index v)) \<and>
    (k \<in> w_index w \<longrightarrow>
      (\<exists>v \<in> set (crash_points (delete_steps q n) w). stored v (q_root q) (n_id n) = None \<and> k \<in> w_index v))"
proof -
  let ?p = "put_item (q_root q) n w" and ?d = "drop_item (q_root q) (n_id n) w"
  have "?p \<in> set (crash_points (post_steps q n) w)"
    using assms(3,5) by (simp add: post_steps_def write_steps_def put_item_def)
  moreover have "stored ?p (q_root q) (n_id n) = Some n" using assms(4) by (simp add: stored_put_item)
  moreover have "w_index ?p = w_index w" by (simp add: put_item_def write_steps_def)
  moreover have "?d \<in> set (crash_points (delete_steps q n) w)"
    using assms(3,5) by (simp add: delete_steps_def drop_item_def)
  moreover have "stored ?d (q_root q) (n_id n) = None" "w_index ?d = w_index w"
    by (simp_all add: stored_drop_item) (simp add: drop_item_def)
  ultimately show ?thesis by metis
qed

theorem index_lags_behind_disk_witness:
  "\<exists>v \<in> set (crash_points (post_steps example_queue example_item) world_empty).
     stored v [''inbox''] (n_id example_item) = Some example_item \<and> ''gitlab:todo:99'' \<notin> w_index v"
  using index_lags_behind_disk [of UNIV world_empty example_queue example_item "''gitlab:todo:99''"]
    example_valid example_item_ok
  by (auto simp: example_queue_def world_empty_def example_item_def example_spec_def from_spec_def
      split: prod.splits)

text \<open>An indexed queue cannot delete a file that is JSON but not an object: the exception
  the decoder raises is not among the tolerated ones, so the unlink does not happen, while
  the same file without JSON in it is deleted.\<close>

theorem delete_stops_at_wrong_shape:
  assumes "q_indexed q" "local_id i" "map_of (w_fs w) (live_path (q_root q) i) = Some c"
  shows "(c = FileJson (JArr xs) \<longrightarrow> queue_delete q i w = (Inl (AttributeError ''get''), w)) \<and>
    (c = Unparsable \<longrightarrow> queue_delete q i w = (Inr (), drop_item (q_root q) i w))"
  using assms
  by (simp add: queue_delete_def ebind_def key_of_file_def load_item_def file_exists_def
      notification_from_json_def drop_item_def)

theorem delete_stops_at_wrong_shape_witness:
  "queue_delete example_queue ''x'' (world_empty\<lparr>w_fs := [([''inbox'', ''x.json''], FileJson (JArr []))]\<rparr>) =
     (Inl (AttributeError ''get''),
      world_empty\<lparr>w_fs := [([''inbox'', ''x.json''], FileJson (JArr []))]\<rparr>)"
  using delete_stops_at_wrong_shape [of example_queue "''x''"
      "world_empty\<lparr>w_fs := [([''inbox'', ''x.json''], FileJson (JArr []))]\<rparr>" "FileJson (JArr [])" "[]"]
  by (simp add: example_queue_def local_id_def is_id_start_def live_path_def live_suffix_def
      less_eq_char_def)

end
