(* ===== verification/In_Flight.thy ===== *)
theory In_Flight
  imports Queue_Laws
begin

text \<open>
  The reconstruction of the in-flight index from disk (\<open>rebuild_in_flight_index\<close> in
  \<open>src/thorn/runtime/_in_flight_index.py\<close>). Each queue directory is walked recursively, so
  that the \<open>errored\<close> directory below it is found in the same pass. A generator that raises
  after some directories is read up to the exception, which then ends the rebuild.
\<close>

definition keys_of_path :: "world \<Rightarrow> path \<Rightarrow> string list result" where
  "keys_of_path w p =
     (case load_item w p of
        Inr n \<Rightarrow> Inr (case n_external_key n of None \<Rightarrow> [] | Some k \<Rightarrow> [k])
      | Inl e \<Rightarrow> if tolerated e then Inr [] else Inl e)"

text \<open>\<open>root.rglob(''*.json'')\<close> without the names that begin with a dot.\<close>

definition notification_paths :: "path \<Rightarrow> (path \<times> file_content) list \<Rightarrow> path list" where
  "notification_paths root fs =
     filter (\<lambda>p. strict_prefix root p \<and> is_live_name (last p)) (map fst fs)"

definition keys_in_queue_dir :: "world \<Rightarrow> path \<Rightarrow> string list result" where
  "keys_in_queue_dir w root =
     rbind (rmap_list (keys_of_path w) (notification_paths root (w_fs w))) (\<lambda>ks. Inr (concat ks))"

definition keys_in_agency :: "agency_paths \<Rightarrow> world \<Rightarrow> string list result" where
  "keys_in_agency p w =
     (case iter_session_inbox_dirs p (w_dirs w) of (inboxes, e) \<Rightarrow>
        rbind (rmap_list (keys_in_queue_dir w) inboxes) (\<lambda>ks.
          case e of
            Some err \<Rightarrow> Inl err
          | None \<Rightarrow>
              rbind (rmap_list (keys_in_queue_dir w) (iter_service_queue_dirs p (w_dirs w)))
                (\<lambda>ls. Inr (concat ks @ concat ls))))"

definition rebuild_in_flight_index :: "agency_paths \<Rightarrow> world \<Rightarrow> world result" where
  "rebuild_in_flight_index p w =
     rbind (keys_in_agency p w) (\<lambda>ks. Inr (index_bulk_add ks (index_clear w)))"

section \<open>The rebuilt index\<close>

text \<open>The keys of the items stored in a directory or below it.\<close>

definition keys_below :: "world \<Rightarrow> path \<Rightarrow> string set" where
  "keys_below w d =
     {k. \<exists>r i n. prefix d r \<and> stored w r i = Some n \<and> n_external_key n = Some k}"

definition queue_dirs :: "agency_paths \<Rightarrow> path list \<Rightarrow> path list" where
  "queue_dirs p dirs = fst (iter_session_inbox_dirs p dirs) @ iter_service_queue_dirs p dirs"

lemma strict_prefix_butlast: "strict_prefix d p \<Longrightarrow> prefix d (butlast p)"
  by (cases p rule: rev_cases) (auto simp: strict_prefix_def)

lemma live_paths_load_ex:
  assumes "store_ok R w" "r \<in> R" "p \<in> set (live_paths r (w_fs w))"
  shows "\<exists>n. load_item w p = Inr n \<and> p = live_path r (n_id n) \<and> stored w r (n_id n) = Some n"
  by (rule live_paths_load [OF assms]) blast

lemma notification_paths_live:
  assumes "store_ok {r. prefix d r} w" "p \<in> set (notification_paths d (w_fs w))"
  obtains r n where "p = live_path r (n_id n)" "prefix d r" "load_item w p = Inr n"
    "stored w r (n_id n) = Some n"
proof -
  have p: "p \<in> fst ` set (w_fs w)" "strict_prefix d p" "is_live_name (last p)"
    using assms(2) by (simp_all add: notification_paths_def)
  then have ne: "p \<noteq> []" by auto
  have r: "prefix d (butlast p)" using p(2) by (rule strict_prefix_butlast)
  have "p \<in> set (live_paths (butlast p) (w_fs w))" using p ne by (simp add: live_paths_def)
  moreover have "butlast p \<in> {r. prefix d r}" using r by simp
  ultimately have "\<exists>n. load_item w p = Inr n \<and> p = live_path (butlast p) (n_id n) \<and>
      stored w (butlast p) (n_id n) = Some n"
    by (rule live_paths_load_ex [OF assms(1), rotated])
  with r show thesis using that by blast
qed

lemma keys_in_queue_dir_run:
  assumes ok: "store_ok {r. prefix d r} w"
  shows "\<exists>ks. keys_in_queue_dir w d = Inr ks \<and> set ks = keys_below w d"
proof -
  define g where "g p = (case keys_of_path w p of Inr ks \<Rightarrow> ks | Inl _ \<Rightarrow> [])" for p
  have load: "keys_of_path w p = Inr (g p)" if "p \<in> set (notification_paths d (w_fs w))" for p
    by (rule notification_paths_live [OF ok that]) (simp add: g_def keys_of_path_def)
  then have run: "rmap_list (keys_of_path w) (notification_paths d (w_fs w)) =
      Inr (map g (notification_paths d (w_fs w)))" by (rule rmap_list_all_Inr)
  have "set (concat (map g (notification_paths d (w_fs w)))) = keys_below w d"
  proof (intro set_eqI iffI)
    fix k assume "k \<in> set (concat (map g (notification_paths d (w_fs w))))"
    then obtain p where p: "p \<in> set (notification_paths d (w_fs w))" "k \<in> set (g p)" by auto
    obtain r n where n: "prefix d r" "load_item w p = Inr n" "stored w r (n_id n) = Some n"
      by (rule notification_paths_live [OF ok p(1)])
    with p(2) show "k \<in> keys_below w d"
      by (auto simp: keys_below_def g_def keys_of_path_def split: option.splits)
  next
    fix k assume "k \<in> keys_below w d"
    then obtain r i n where n: "prefix d r" "stored w r i = Some n" "n_external_key n = Some k"
      by (auto simp: keys_below_def)
    have r: "r \<in> {r. prefix d r}" using n(1) by simp
    note s = stored_Some [OF ok r n(2)]
    have "live_path r i \<in> set (live_paths r (w_fs w))" by (rule stored_live_paths [OF ok r n(2)])
    moreover have "strict_prefix d (live_path r i)"
      using n(1) by (auto simp: live_path_def strict_prefix_def prefix_def)
    ultimately have "live_path r i \<in> set (notification_paths d (w_fs w))"
      by (simp add: live_paths_def notification_paths_def)
    moreover have "k \<in> set (g (live_path r i))"
      using s(5) n(3) by (simp add: g_def keys_of_path_def)
    ultimately show "k \<in> set (concat (map g (notification_paths d (w_fs w))))" by auto
  qed
  then show ?thesis using run by (simp add: keys_in_queue_dir_def)
qed

lemma store_ok_mono: "store_ok R w \<Longrightarrow> S \<subseteq> R \<Longrightarrow> store_ok S w"
  by (auto simp: store_ok_def)

lemma rmap_list_keys:
  assumes "\<And>d. d \<in> set ds \<Longrightarrow> store_ok {r. prefix d r} w"
  shows "\<exists>kss. rmap_list (keys_in_queue_dir w) ds = Inr kss \<and>
    set (concat kss) = (\<Union>d \<in> set ds. keys_below w d)"
  using assms
proof (induction ds)
  case (Cons d ds)
  then obtain kss where k: "rmap_list (keys_in_queue_dir w) ds = Inr kss"
    "set (concat kss) = (\<Union>d \<in> set ds. keys_below w d)" by auto
  obtain ks where "keys_in_queue_dir w d = Inr ks" "set ks = keys_below w d"
    using keys_in_queue_dir_run Cons.prems by (metis list.set_intros(1))
  with k show ?case by simp
qed simp

text \<open>After a rebuild the index holds exactly the external keys of the notifications stored
  in the queue directories and below them, whatever it held before.\<close>

theorem rebuild_is_exact:
  assumes "store_ok {r. \<exists>d \<in> set (queue_dirs p (w_dirs w)). prefix d r} w"
    and "snd (iter_session_inbox_dirs p (w_dirs w)) = None"
  shows "\<exists>w'. rebuild_in_flight_index p w = Inr w' \<and> stored w' = stored w \<and>
    w_index w' = (\<Union>d \<in> set (queue_dirs p (w_dirs w)). keys_below w d)"
proof -
  obtain inboxes where i: "iter_session_inbox_dirs p (w_dirs w) = (inboxes, None)"
    using assms(2) by (metis prod.collapse)
  have ok: "store_ok {r. prefix d r} w" if "d \<in> set (queue_dirs p (w_dirs w))" for d
    using that by (intro store_ok_mono [OF assms(1)]) auto
  obtain ks where ks: "rmap_list (keys_in_queue_dir w) inboxes = Inr ks"
    "set (concat ks) = (\<Union>d \<in> set inboxes. keys_below w d)"
    using rmap_list_keys [of inboxes w] ok i by (auto simp: queue_dirs_def)
  obtain ls where ls: "rmap_list (keys_in_queue_dir w) (iter_service_queue_dirs p (w_dirs w)) = Inr ls"
    "set (concat ls) = (\<Union>d \<in> set (iter_service_queue_dirs p (w_dirs w)). keys_below w d)"
    using rmap_list_keys [of "iter_service_queue_dirs p (w_dirs w)" w] ok
    by (auto simp: queue_dirs_def)
  have "keys_in_agency p w = Inr (concat ks @ concat ls)"
    by (simp add: keys_in_agency_def i ks(1) ls(1))
  then show ?thesis
    using ks(2) ls(2) i
    by (simp add: rebuild_in_flight_index_def index_bulk_add_def index_clear_def queue_dirs_def
        UN_Un del: set_concat)
qed

definition example_agency :: agency_paths where
  "example_agency = paths_for_gateway [] [''w'']"

definition example_dirs :: "path list" where
  "example_dirs = [[''services''], [''services'', ''chat''], [''services'', ''chat'', ''queue'']]"

definition example_service_queue :: durable_queue where
  "example_service_queue = \<lparr>q_root = [''services'', ''chat'', ''queue''], q_indexed = False,
     q_kind = ServiceQueue (ServiceAddress ''chat'')\<rparr>"

lemma example_queue_dirs:
  "iter_session_inbox_dirs example_agency example_dirs = ([], None)"
  "iter_service_queue_dirs example_agency example_dirs = [[''services'', ''chat'', ''queue'']]"
  "queue_dirs example_agency example_dirs = [[''services'', ''chat'', ''queue'']]"
  "snd (iter_session_inbox_dirs example_agency example_dirs) = None"
  by code_simp+

theorem rebuild_is_exact_witness:
  "\<exists>w w'. rebuild_in_flight_index example_agency w = Inr w' \<and>
     w_index w' = (\<Union>d \<in> {[''services'', ''chat'', ''queue'']}. keys_below w d)"
proof -
  let ?w = "example_world\<lparr>w_dirs := example_dirs\<rparr>"
  have q: "queue_dirs example_agency (w_dirs ?w) = [[''services'', ''chat'', ''queue'']]"
    by (simp add: example_queue_dirs)
  have e: "snd (iter_session_inbox_dirs example_agency (w_dirs ?w)) = None"
    by (simp add: example_queue_dirs)
  have "store_ok R ?w" for R using example_stored(2) by simp
  from rebuild_is_exact [OF this e, unfolded q] show ?thesis by auto
qed

text \<open>One file in a queue directory that is JSON but not an object ends the rebuild with an
  exception.\<close>

theorem rebuild_stops_at_wrong_shape:
  "rebuild_in_flight_index example_agency
     (world_empty\<lparr>w_dirs := example_dirs,
        w_fs := [([''services'', ''chat'', ''queue'', ''x.json''], FileJson (JArr []))]\<rparr>) =
   Inl (AttributeError ''get'')"
proof -
  have "is_live_name ''x.json''" by code_simp
  then show ?thesis
    by (simp add: rebuild_in_flight_index_def keys_in_agency_def example_queue_dirs
        keys_in_queue_dir_def notification_paths_def keys_of_path_def load_item_def
        notification_from_json_def)
qed

end
