(* ===== verification/Inboxes.thy ===== *)
theory Inboxes
  imports Queue_Laws
begin

text \<open>
  Session inboxes (\<open>src/thorn/runtime/_inbox.py\<close>): the views of an inbox by lifecycle
  status and the operator's parking and requeueing of items.
\<close>

section \<open>Views\<close>

definition prompt_pending :: "durable_queue \<Rightarrow> world \<Rightarrow> notification list result" where
  "prompt_pending q = queue_list q (Some [PENDING, IN_PROGRESS])"

definition awaiting_dispatch :: "durable_queue \<Rightarrow> world \<Rightarrow> notification list result" where
  "awaiting_dispatch q = queue_list q (Some [HANDLED, ERRORED])"

definition awaiting_cleanup :: "durable_queue \<Rightarrow> world \<Rightarrow> notification list result" where
  "awaiting_cleanup q = queue_list q (Some [CONFIRMED])"

section \<open>Operator recovery\<close>

definition errored_queue :: "durable_queue \<Rightarrow> durable_queue" where
  "errored_queue q =
     \<lparr>q_root = q_root q @ [''errored''], q_indexed = False, q_kind = PlainQueue\<rparr>"

definition errored_items :: "durable_queue \<Rightarrow> world \<Rightarrow> notification list result" where
  "errored_items q = queue_list (errored_queue q) None"

definition requeue_errored :: "durable_queue \<Rightarrow> string \<Rightarrow> (world, notification) eff" where
  "requeue_errored q i =
     ebind (update_status (errored_queue q) i PENDING
              [SetNotes None, SetRationale None, SetErrorReason None]) (\<lambda>_.
       move_to (errored_queue q) i q)"

definition park_live :: "durable_queue \<Rightarrow> string \<Rightarrow> string \<Rightarrow> (world, notification) eff" where
  "park_live q i reason =
     ebind (eread (queue_get q i)) (\<lambda>n.
       if n_status n \<notin> {PENDING, IN_PROGRESS}
       then eraise (ValueError ''Only live pending or in_progress inbox items can be parked.'')
       else
         ebind (update_status q i ERRORED [SetErrorReason (Some reason)]) (\<lambda>_.
           move_to q i (errored_queue q)))"

lemma errored_root [simp]: "q_root (errored_queue q) = q_root q @ [''errored'']"
  by (simp add: errored_queue_def)

section \<open>An update followed by a move\<close>

text \<open>What \<open>park_live\<close> and \<open>requeue_errored\<close> do to the store, from the contract of the store.\<close>

lemma update_then_move:
  assumes "store_ok R w" "q_root q \<in> R" "q_root t \<in> R" "q_root t \<noteq> q_root q"
    and "stored w (q_root q) i = Some n" "with_updates (Some st) us n = Inr m" "n_id m = i" "item_ok m"
  shows "\<exists>w'. ebind (update_status q i st us) (\<lambda>_. move_to q i t) w = (Inr m, w') \<and>
    store_ok R w' \<and> w_index w' = w_index w \<and>
    stored w' = (\<lambda>r j. if j = i \<and> r = q_root t then Some m
       else if j = i \<and> r = q_root q then None else stored w r j)"
proof -
  let ?v = "put_item (q_root q) m w"
  have s: "stored w (q_root q) (n_id m) = Some n" using assms(5,7) by simp
  have v: "store_ok R ?v" "stored ?v (q_root q) i = Some m"
    using put_item_ok [OF assms(1,8)] stored_put_item [OF assms(8)] assms(7) by simp_all
  note run = update_status_run [OF assms(1,2,5-7)] move_to_run [OF v(1) assms(2,4) v(2)]
  note laws = disk.put_then_move [OF assms(1-3) assms(4) [symmetric] assms(8) s]
  have ix: "w_index (move_item r j d u) = w_index u" for r j d u by (simp add: move_item_def)
  have ip: "w_index (put_item r x u) = w_index u" for r x u
    by (simp add: put_item_def write_steps_def)
  show ?thesis
    using run laws [unfolded assms(7)] by (simp add: ebind_def ix ip)
qed

text \<open>Parking a pending or claimed item moves it, as errored and with the reason, to the
  errored directory, and requeueing it brings it back as pending with its notes, rationale
  and error reason cleared; nothing else in the store or the index changes, and what came
  from its specification and its attempt count are as they were.\<close>

theorem park_then_requeue:
  assumes "store_ok R w" "q_root q \<in> R" "q_root q @ [''errored''] \<in> R"
    and "stored w (q_root q) i = Some n" "n_status n = PENDING \<or> n_status n = IN_PROGRESS"
    and "stored w (q_root q @ [''errored'']) i = None"
  shows "\<exists>m v m' w'. park_live q i reason w = (Inr m, v) \<and>
    m = n\<lparr>n_status := ERRORED, n_error_reason := Some reason\<rparr> \<and>
    stored v (q_root q) i = None \<and> stored v (q_root q @ [''errored'']) i = Some m \<and>
    requeue_errored q i v = (Inr m', w') \<and>
    m' = n\<lparr>n_status := PENDING, n_notes := None, n_rationale := None, n_error_reason := None\<rparr> \<and>
    stored w' = (\<lambda>r j. if r = q_root q \<and> j = i then Some m' else stored w r j) \<and>
    w_index w' = w_index w"
proof -
  let ?e = "errored_queue q"
  let ?m = "n\<lparr>n_status := ERRORED, n_error_reason := Some reason\<rparr>"
  let ?m' = "n\<lparr>n_status := PENDING, n_notes := None, n_rationale := None, n_error_reason := None\<rparr>"
  note s = stored_Some [OF assms(1,2,4)]
  have e: "q_root ?e \<in> R" "q_root ?e \<noteq> q_root q" using assms(3) by simp_all
  have ok: "item_ok ?m" "item_ok ?m'" "n_id ?m = i" "n_id ?m' = i"
    using s by (simp_all add: item_ok_def valid_notification_def)
  have u: "with_updates (Some ERRORED) [SetErrorReason (Some reason)] n = Inr ?m"
    by (simp add: with_updates_def)
  obtain v where v: "ebind (update_status q i ERRORED [SetErrorReason (Some reason)])
      (\<lambda>_. move_to q i ?e) w = (Inr ?m, v)" "store_ok R v" "w_index v = w_index w"
    "stored v = (\<lambda>r j. if j = i \<and> r = q_root ?e then Some ?m
       else if j = i \<and> r = q_root q then None else stored w r j)"
    using update_then_move [OF assms(1,2) e assms(4) u ok(3,1)] by blast
  have park: "park_live q i reason w = (Inr ?m, v)"
    using v(1) assms(4,5)
    by (auto simp: park_live_def ebind_def queue_get_run [OF assms(1,2)] split: prod.splits)
  have sv: "stored v (q_root ?e) i = Some ?m" by (simp add: v(4))
  have u': "with_updates (Some PENDING) [SetNotes None, SetRationale None, SetErrorReason None] ?m =
      Inr ?m'" by (simp add: with_updates_def)
  obtain w' where w': "requeue_errored q i v = (Inr ?m', w')" "w_index w' = w_index v"
    "stored w' = (\<lambda>r j. if j = i \<and> r = q_root q then Some ?m'
       else if j = i \<and> r = q_root ?e then None else stored v r j)"
    using update_then_move [OF v(2) e(1) assms(2) e(2) [symmetric] sv u' ok(4,2)]
    unfolding requeue_errored_def by blast
  have "stored w' = (\<lambda>r j. if r = q_root q \<and> j = i then Some ?m' else stored w r j)"
    using assms(6) by (auto simp: w'(3) v(4) fun_eq_iff)
  then show ?thesis using park v w' by (simp add: sv)
qed

lemma example_stored_here:
  "stored example_world (q_root example_queue) (n_id example_item) = Some example_item"
  "stored example_world (q_root example_queue @ [''errored'']) (n_id example_item) = None"
  by simp_all

theorem park_then_requeue_witness:
  "\<exists>m v m' w'. park_live example_queue (n_id example_item) ''stuck'' example_world = (Inr m, v) \<and>
    requeue_errored example_queue (n_id example_item) v = (Inr m', w') \<and>
    m' = example_item\<lparr>n_status := PENDING, n_notes := None, n_rationale := None, n_error_reason := None\<rparr> \<and>
    stored w' = (\<lambda>r j. if r = q_root example_queue \<and> j = n_id example_item then Some m'
       else stored example_world r j)"
  by (use park_then_requeue [OF example_stored(2) UNIV_I UNIV_I example_stored_here(1)
        disjI1 [OF example_fields(1)] example_stored_here(2), of "''stuck''"] in \<open>elim exE conjE\<close>)
    (intro exI conjI, assumption+)

text \<open>The three lifecycle views of an inbox partition its listing: every stored item is in
  exactly one of them, and each view keeps the listing's order.\<close>

theorem views_partition:
  assumes "store_ok R w" "q_root q \<in> R"
  shows "\<exists>ns pp ad ac. queue_list q None w = Inr ns \<and> prompt_pending q w = Inr pp \<and>
    awaiting_dispatch q w = Inr ad \<and> awaiting_cleanup q w = Inr ac \<and>
    set ns = set pp \<union> set ad \<union> set ac \<and> length ns = length pp + length ad + length ac \<and>
    set pp \<inter> set ad = {} \<and> set pp \<inter> set ac = {} \<and> set ad \<inter> set ac = {}"
proof -
  obtain ns where ns: "queue_list q None w = Inr ns" by (rule queue_list_all [OF assms])
  let ?pp = "filter (\<lambda>n. n_status n \<in> set [PENDING, IN_PROGRESS]) ns"
  let ?ad = "filter (\<lambda>n. n_status n \<in> set [HANDLED, ERRORED]) ns"
  let ?ac = "filter (\<lambda>n. n_status n \<in> set [CONFIRMED]) ns"
  have "length xs = length (filter (\<lambda>n. n_status n \<in> set [PENDING, IN_PROGRESS]) xs) +
      length (filter (\<lambda>n. n_status n \<in> set [HANDLED, ERRORED]) xs) +
      length (filter (\<lambda>n. n_status n \<in> set [CONFIRMED]) xs)" for xs
  proof (induction xs)
    case (Cons n xs)
    then show ?case by (cases "n_status n") simp_all
  qed simp
  moreover have "set ns = set ?pp \<union> set ?ad \<union> set ?ac"
  proof (intro set_eqI)
    show "n \<in> set ns \<longleftrightarrow> n \<in> set ?pp \<union> set ?ad \<union> set ?ac" for n
      by (cases "n_status n") simp_all
  qed
  moreover have "set ?pp \<inter> set ?ad = {}" "set ?pp \<inter> set ?ac = {}" "set ?ad \<inter> set ?ac = {}"
    by auto
  moreover note queue_list_filter [OF ns]
  ultimately show ?thesis
    unfolding prompt_pending_def awaiting_dispatch_def awaiting_cleanup_def
    by (intro exI [of _ ns] exI [of _ ?pp] exI [of _ ?ad] exI [of _ ?ac]) (simp only: ns simp_thms)
qed

theorem views_partition_witness:
  "\<exists>pp ad. prompt_pending example_queue example_world = Inr pp \<and>
     awaiting_dispatch example_queue example_world = Inr ad \<and> set pp \<inter> set ad = {}"
  using views_partition [of UNIV example_world example_queue] example_stored(2) by auto

end
