(* ===== verification/Dispatch.thy ===== *)
theory Dispatch
  imports Inboxes
begin

text \<open>
  The two-step handling of inbox items (\<open>src/thorn/runtime/_dispatch.py\<close>): step 1 updates
  the item in place, step 2 moves or deletes it. The address book maps addresses to queues.
  Step 2 is also what the startup sweep runs on items a crash left between the steps.
\<close>

type_synonym book = "durable_queue address_book"

definition terminal_statuses :: "notification_status list" where
  "terminal_statuses = [HANDLED, ERRORED]"

definition agent_visible_transitions :: "notification_status list" where
  "agent_visible_transitions = [IN_PROGRESS, HANDLED, ERRORED]"

text \<open>The checks of \<open>apply_handling_transition\<close> on its arguments, in the order of the code.\<close>

definition check_transition ::
    "notification_status \<Rightarrow> string option \<Rightarrow> rationale option \<Rightarrow> string option \<Rightarrow> unit result" where
  "check_transition status notes rat reason =
     (if status \<notin> set agent_visible_transitions
      then Inl (ValueError ''apply_handling_transition does not accept this status'')
      else if status = ERRORED then
        (if reason = None \<or> reason = Some []
         then Inl (ValueError ''error_reason is required when transitioning to ERRORED'')
         else if notes \<noteq> None
         then Inl (ValueError ''Pass error explanation via error_reason, not notes'')
         else if rat \<noteq> None
         then Inl (ValueError ''completion_rationale is only valid for HANDLED transitions'')
         else Inr ())
      else if reason \<noteq> None
      then Inl (ValueError ''error_reason is only valid for ERRORED'')
      else if status = HANDLED \<and> rat = None
      then Inl (ValueError ''completion_rationale is required when transitioning to HANDLED'')
      else if status \<noteq> HANDLED \<and> rat \<noteq> None
      then Inl (ValueError ''completion_rationale is only valid for HANDLED transitions'')
      else (case rat of
          None \<Rightarrow> Inr ()
        | Some r \<Rightarrow>
            if validation_errors r \<noteq> []
            then Inl (ValueError (''completion_rationale is incomplete: '' @
                   py_join ''; '' (validation_errors r)))
            else Inr ()))"

definition transition_updates ::
    "notification_status \<Rightarrow> string option \<Rightarrow> rationale option \<Rightarrow> string option \<Rightarrow> field_update list" where
  "transition_updates status notes rat reason =
     (if status = ERRORED then [SetErrorReason reason]
      else (case notes of None \<Rightarrow> [] | Some x \<Rightarrow> [SetNotes (Some x)]) @
           (case rat of None \<Rightarrow> [] | Some r \<Rightarrow> [SetRationale (Some r)]))"

definition dispatch_step_two :: "durable_queue \<Rightarrow> notification \<Rightarrow> book \<Rightarrow> (world, unit) eff" where
  "dispatch_step_two inbox n book =
     (if n_status n \<notin> set terminal_statuses
      then eraise (ValueError ''dispatch_step_two requires a terminal status'')
      else (case n_rsvp_to n of
          Some a \<Rightarrow>
            (case book_get book a of
               None \<Rightarrow> eraise (DispatchError (n_id n))
             | Some target \<Rightarrow> ebind (move_to inbox (n_id n) target) (\<lambda>_. eret ()))
        | None \<Rightarrow>
            if n_status n = HANDLED then queue_delete inbox (n_id n)
            else ebind (move_to inbox (n_id n) (errored_queue inbox)) (\<lambda>_. eret ())))"

definition apply_handling_transition ::
    "durable_queue \<Rightarrow> string \<Rightarrow> notification_status \<Rightarrow> book \<Rightarrow> string option \<Rightarrow>
     rationale option \<Rightarrow> string option \<Rightarrow> (world, notification) eff" where
  "apply_handling_transition inbox i status book notes rat reason =
     ebind (elift (check_transition status notes rat reason)) (\<lambda>_.
     ebind (eread (queue_get inbox i)) (\<lambda>current.
       if n_status current \<in> set terminal_statuses
       then eraise (ValueError ''already in terminal status'')
       else if n_status current = CONFIRMED
       then eraise (ValueError ''already confirmed'')
       else
         ebind (update_status inbox i status (transition_updates status notes rat reason)) (\<lambda>updated.
           if status \<notin> set terminal_statuses then eret updated
           else ebind (dispatch_step_two inbox updated book) (\<lambda>_. eret updated))))"

section \<open>The abstract effect of step 2\<close>

datatype destination = Deleted | MovedTo path | Unresolved

definition step_two_destination :: "durable_queue \<Rightarrow> book \<Rightarrow> notification \<Rightarrow> destination" where
  "step_two_destination q book n =
     (case n_rsvp_to n of
        Some a \<Rightarrow> (case book_get book a of None \<Rightarrow> Unresolved | Some t \<Rightarrow> MovedTo (q_root t))
      | None \<Rightarrow> if n_status n = HANDLED then Deleted else MovedTo (q_root q @ [''errored'']))"

type_synonym view = "path \<Rightarrow> string \<Rightarrow> notification option"

fun settle :: "destination \<Rightarrow> path \<Rightarrow> notification \<Rightarrow> view \<Rightarrow> view" where
  "settle Deleted r n v = (\<lambda>r' j. if r' = r \<and> j = n_id n then None else v r' j)"
| "settle (MovedTo t) r n v =
     (if t = r then v
      else (\<lambda>r' j. if j = n_id n \<and> r' = t then Some n else if j = n_id n \<and> r' = r then None else v r' j))"
| "settle Unresolved r n v = v"

fun destination_ok :: "path set \<Rightarrow> destination \<Rightarrow> bool" where
  "destination_ok R (MovedTo t) \<longleftrightarrow> t \<in> R"
| "destination_ok R _ = True"

definition reindexed :: "durable_queue \<Rightarrow> destination \<Rightarrow> notification \<Rightarrow> string set \<Rightarrow> string set" where
  "reindexed q d n keys =
     (if d = Deleted \<and> q_indexed q then keys - set_option (n_external_key n) else keys)"

lemma index_of_steps [simp]:
  "w_index (put_item r n w) = w_index w" "w_index (drop_item r i w) = w_index w"
  "w_index (move_item r i t w) = w_index w"
  by (simp_all add: put_item_def write_steps_def drop_item_def move_item_def)

lemma index_note_deleted:
  "w_index (note_deleted q n w) =
     (if q_indexed q then w_index w - set_option (n_external_key n) else w_index w)"
  by (simp add: note_deleted_def split: option.splits)

lemma move_or_stay:
  assumes "store_ok R w" "q_root q \<in> R" "q_root t \<in> R" "stored w (q_root q) (n_id n) = Some n"
  shows "\<exists>w'. move_to q (n_id n) t w = (Inr n, w') \<and> store_ok R w' \<and> w_index w' = w_index w \<and>
    stored w' = settle (MovedTo (q_root t)) (q_root q) n (stored w)"
proof (cases "q_root t = q_root q")
  case True
  then show ?thesis using move_to_same [OF assms(1,2) True assms(4)] assms(1) by simp
next
  case False
  then show ?thesis
    using move_to_run [OF assms(1,2) False assms(4)] move_item_ok [OF assms]
      stored_move_item [OF assms(1,2) not_sym [OF False] assms(4)]
    by simp
qed

lemma dispatch_step_two_effect:
  assumes "store_ok R w" "q_root q \<in> R" "stored w (q_root q) (n_id n) = Some n"
    and "n_status n \<in> {HANDLED, ERRORED}" "destination_ok R (step_two_destination q book n)"
  shows "\<exists>w'. dispatch_step_two q n book w =
      (if step_two_destination q book n = Unresolved then Inl (DispatchError (n_id n)) else Inr (), w') \<and>
    store_ok R w' \<and> stored w' = settle (step_two_destination q book n) (q_root q) n (stored w) \<and>
    w_index w' = reindexed q (step_two_destination q book n) n (w_index w)"
proof (cases "n_rsvp_to n")
  case None
  show ?thesis
  proof (cases "n_status n = HANDLED")
    case True
    then show ?thesis
      using None queue_delete_run [OF assms(1-3)] assms(1)
      by (simp add: dispatch_step_two_def terminal_statuses_def step_two_destination_def
          stored_drop_item drop_item_ok reindexed_def index_note_deleted)
  next
    case False
    with None assms(5) have e: "q_root (errored_queue q) \<in> R" by (simp add: step_two_destination_def)
    obtain w' where "move_to q (n_id n) (errored_queue q) w = (Inr n, w')" "store_ok R w'"
      "w_index w' = w_index w"
      "stored w' = settle (MovedTo (q_root (errored_queue q))) (q_root q) n (stored w)"
      using move_or_stay [OF assms(1,2) e assms(3)] by blast
    with None False assms(4) show ?thesis
      by (simp add: dispatch_step_two_def terminal_statuses_def step_two_destination_def
          ebind_def reindexed_def)
  qed
next
  case (Some a)
  show ?thesis
  proof (cases "book_get book a")
    case None
    with Some assms(1,4) show ?thesis
      by (simp add: dispatch_step_two_def terminal_statuses_def step_two_destination_def reindexed_def)
  next
    case t: (Some t)
    with Some assms(5) have e: "q_root t \<in> R" by (simp add: step_two_destination_def)
    obtain w' where "move_to q (n_id n) t w = (Inr n, w')" "store_ok R w'"
      "w_index w' = w_index w" "stored w' = settle (MovedTo (q_root t)) (q_root q) n (stored w)"
      using move_or_stay [OF assms(1,2) e assms(3)] by blast
    with Some t assms(4) show ?thesis
      by (simp add: dispatch_step_two_def terminal_statuses_def step_two_destination_def
          ebind_def reindexed_def)
  qed
qed

text \<open>The queues a dispatch may use are among those that are well formed.\<close>

definition dispatch_targets_ok :: "path set \<Rightarrow> durable_queue \<Rightarrow> book \<Rightarrow> bool" where
  "dispatch_targets_ok R q book \<longleftrightarrow> q_root q \<in> R \<and> q_root q @ [''errored''] \<in> R \<and>
     (\<forall>a t. book_get book a = Some t \<longrightarrow> q_root t \<in> R)"

lemma dispatch_target:
  "dispatch_targets_ok R q book \<Longrightarrow> destination_ok R (step_two_destination q book n)"
  by (auto simp: dispatch_targets_ok_def step_two_destination_def split: option.splits)

lemma settle_placed:
  assumes "placed_once v" "v r (n_id n) = Some n"
  shows "placed_once (settle d r n v)"
proof -
  have elsewhere: "v t (n_id n) = None" if "t \<noteq> r" for t
    using assms that by (cases "v t (n_id n)") (auto dest: placed_onceD)
  show ?thesis
    by (cases d) (use assms(1) elsewhere in \<open>auto simp: placed_once_def\<close>)
qed

lemma transition_updates_lifecycle: "\<forall>u \<in> set (transition_updates s a b c). lifecycle_update u"
  by (auto simp: transition_updates_def split: option.splits)

section \<open>The whole handling\<close>

text \<open>The store after the whole handling of the item \<open>m\<close> in the queue with root \<open>r\<close>.\<close>

definition handled_view :: "durable_queue \<Rightarrow> book \<Rightarrow> notification \<Rightarrow> view \<Rightarrow> view" where
  "handled_view q book m v =
     (let v1 = (\<lambda>r j. if r = q_root q \<and> j = n_id m then Some m else v r j) in
        if n_status m \<in> {HANDLED, ERRORED}
        then settle (step_two_destination q book m) (q_root q) m v1 else v1)"

lemma step_two_destination_cong:
  "origin m = origin n \<Longrightarrow> step_two_destination q book m =
     step_two_destination q book (n\<lparr>n_status := n_status m\<rparr>)"
  by (simp add: step_two_destination_def origin_def split: option.splits)

lemma handling_effect:
  assumes "store_ok R w" "q_root q \<in> R" "stored w (q_root q) i = Some n"
    and "n_status n \<in> {PENDING, IN_PROGRESS}" "check_transition st notes rat reason = Inr ()"
    and "destination_ok R (step_two_destination q book (n\<lparr>n_status := st\<rparr>))"
  obtains m w' where "with_updates (Some st) (transition_updates st notes rat reason) n = Inr m"
    "n_status m = st" "origin m = origin n" "n_id m = i" "item_ok m"
    "apply_handling_transition q i st book notes rat reason w =
       (if st \<in> {HANDLED, ERRORED} \<and> step_two_destination q book m = Unresolved
        then Inl (DispatchError i) else Inr m, w')"
    "store_ok R w'" "stored w' = handled_view q book m (stored w)"
    "w_index w' = (if st \<in> {HANDLED, ERRORED}
       then reindexed q (step_two_destination q book m) m (w_index w) else w_index w)"
proof -
  note s = stored_Some [OF assms(1-3)]
  obtain m where m: "with_updates (Some st) (transition_updates st notes rat reason) n = Inr m"
    "origin m = origin n" "n_status m = st"
    using with_updates_lifecycle [OF transition_updates_lifecycle] by blast
  have id: "n_id m = i" using m(2) s(1) by (simp add: origin_def)
  have ok: "item_ok m" using valid_notification_origin [OF m(2)] s id by (simp add: item_ok_def)
  let ?v = "put_item (q_root q) m w"
  have v: "store_ok R ?v" "stored ?v (q_root q) (n_id m) = Some m"
    using put_item_ok [OF assms(1) ok] stored_put_item [OF ok] by simp_all
  have put: "stored ?v = (\<lambda>r j. if r = q_root q \<and> j = n_id m then Some m else stored w r j)"
    using stored_put_item [OF ok] by simp
  have run: "apply_handling_transition q i st book notes rat reason w =
      (if st \<in> {HANDLED, ERRORED}
       then ebind (dispatch_step_two q m book) (\<lambda>_. eret m) ?v else (Inr m, ?v))"
    using assms(3-5) update_status_run [OF assms(1-3) m(1) id]
    by (auto simp: apply_handling_transition_def ebind_def queue_get_run [OF assms(1,2)]
        terminal_statuses_def)
  show thesis
  proof (cases "st \<in> {HANDLED, ERRORED}")
    case False
    then show thesis
      using that [OF m(1,3,2) id ok, of ?v] run v(1) put m(3) by (simp add: handled_view_def)
  next
    case True
    have d: "destination_ok R (step_two_destination q book m)"
      using assms(6) step_two_destination_cong [OF m(2)] m(3) by simp
    have t: "n_status m \<in> {HANDLED, ERRORED}" using True m(3) by simp
    obtain w' where w': "dispatch_step_two q m book ?v =
        (if step_two_destination q book m = Unresolved then Inl (DispatchError (n_id m)) else Inr (), w')"
      "store_ok R w'" "stored w' = settle (step_two_destination q book m) (q_root q) m (stored ?v)"
      "w_index w' = reindexed q (step_two_destination q book m) m (w_index ?v)"
      using dispatch_step_two_effect [OF v(1) assms(2) v(2) t d] by blast
    have "stored w' = handled_view q book m (stored w)"
      using True m(3) by (simp add: handled_view_def Let_def w'(3) put)
    then show thesis
      using that [OF m(1,3,2) id ok, of w'] run w' True id by (simp add: ebind_def)
  qed
qed

lemma refused_handling:
  assumes "store_ok R w" "q_root q \<in> R"
    and "check_transition st notes rat reason \<noteq> Inr () \<or> stored w (q_root q) i = None \<or>
      (\<exists>n. stored w (q_root q) i = Some n \<and> n_status n \<in> {HANDLED, ERRORED, CONFIRMED})"
  shows "\<exists>e. apply_handling_transition q i st book notes rat reason w = (Inl e, w) \<and>
    (\<forall>d. e \<noteq> DispatchError d)"
proof (cases "check_transition st notes rat reason")
  case (Inl e)
  then have "\<forall>d. e \<noteq> DispatchError d"
    by (auto simp: check_transition_def split: if_splits option.splits)
  with Inl show ?thesis by (simp add: apply_handling_transition_def)
next
  case (Inr u)
  with assms(3) show ?thesis
    by (auto simp: apply_handling_transition_def ebind_def queue_get_run [OF assms(1,2)]
        terminal_statuses_def)
qed

text \<open>Every call is refused and changes nothing, or has the effect above.\<close>

lemma handling_total:
  assumes "store_ok R w" "dispatch_targets_ok R q book"
  obtains (refused) e where "apply_handling_transition q i st book memo rat reason w = (Inl e, w)"
      "\<forall>d. e \<noteq> DispatchError d"
  | (handled) n m w' where "stored w (q_root q) i = Some n" "n_status n \<in> {PENDING, IN_PROGRESS}"
      "with_updates (Some st) (transition_updates st memo rat reason) n = Inr m" "n_status m = st" "n_id m = i"
      "apply_handling_transition q i st book memo rat reason w =
         (if st \<in> {HANDLED, ERRORED} \<and> step_two_destination q book m = Unresolved
          then Inl (DispatchError i) else Inr m, w')"
      "store_ok R w'" "stored w' = handled_view q book m (stored w)" "origin m = origin n"
      "w_index w' = (if st \<in> {HANDLED, ERRORED}
         then reindexed q (step_two_destination q book m) m (w_index w) else w_index w)"
proof -
  have q: "q_root q \<in> R" using assms(2) by (simp add: dispatch_targets_ok_def)
  show thesis
  proof (cases "check_transition st memo rat reason = Inr () \<and>
      (\<exists>n. stored w (q_root q) i = Some n \<and> n_status n \<in> {PENDING, IN_PROGRESS})")
    case True
    then obtain n where c: "check_transition st memo rat reason = Inr ()"
      and n: "stored w (q_root q) i = Some n" "n_status n \<in> {PENDING, IN_PROGRESS}" by blast
    show thesis
      by (rule handling_effect [OF assms(1) q n c dispatch_target [OF assms(2)]])
        (rule handled [OF n])
  next
    case False
    have "check_transition st memo rat reason \<noteq> Inr () \<or> stored w (q_root q) i = None \<or>
        (\<exists>n. stored w (q_root q) i = Some n \<and> n_status n \<in> {HANDLED, ERRORED, CONFIRMED})"
    proof (cases "stored w (q_root q) i")
      case (Some n)
      with False show ?thesis by (cases "n_status n") auto
    qed simp
    with refused_handling [OF assms(1) q] refused show thesis by blast
  qed
qed

section \<open>Properties\<close>

text \<open>The arguments of a transition are accepted exactly for a claim without rationale or
  reason, for a handling with a rationale that has no validation error and no reason, and for
  an error with a non-empty reason and neither notes nor rationale.\<close>

theorem check_transition_accepts:
  "check_transition st notes rat reason = Inr () \<longleftrightarrow>
     (st = IN_PROGRESS \<and> rat = None \<and> reason = None) \<or>
     (st = HANDLED \<and> reason = None \<and> (\<exists>r. rat = Some r \<and> validation_errors r = [])) \<or>
     (st = ERRORED \<and> notes = None \<and> rat = None \<and> (\<exists>c cs. reason = Some (c # cs)))"
proof (cases st)
  case ERRORED
  then show ?thesis
    by (cases reason) (auto simp: check_transition_def agent_visible_transitions_def neq_Nil_conv)
qed (auto simp: check_transition_def agent_visible_transitions_def split: option.splits)


lemma example_dispatch:
  "check_transition ERRORED None None (Some ''no access'') = Inr ()"
  "destination_ok UNIV d"
  "q_root example_queue \<in> UNIV"
  "stored example_world (q_root example_queue) (n_id example_item) = Some example_item"
  "n_status example_item \<in> {PENDING, IN_PROGRESS}"
  by (cases d; simp add: check_transition_def agent_visible_transitions_def)+


text \<open>When the transition is refused, because of its arguments, because the item is not in
  the inbox or because it is already handled, errored or confirmed, nothing changes.\<close>

theorem refused_handling_changes_nothing:
  assumes "store_ok R w" "q_root q \<in> R"
    and "check_transition st notes rat reason \<noteq> Inr () \<or> stored w (q_root q) i = None \<or>
      (\<exists>n. stored w (q_root q) i = Some n \<and> n_status n \<in> {HANDLED, ERRORED, CONFIRMED})"
  shows "\<exists>e. apply_handling_transition q i st book notes rat reason w = (Inl e, w)"
  using refused_handling [OF assms] by blast

theorem refused_handling_changes_nothing_witness:
  "\<exists>e. apply_handling_transition example_queue ''nope'' IN_PROGRESS [] None None None example_world =
     (Inl e, example_world)"
proof (rule refused_handling_changes_nothing [of UNIV])
  have "n_id example_item \<noteq> ''nope''"
  proof -
    obtain n u where "from_spec (example_tick 5) example_spec ulid_init = (n, u)"
      by (cases "from_spec (example_tick 5) example_spec ulid_init")
    from from_spec_fields [OF this] this have "length (n_id example_item) = 26"
      by (simp add: example_item_def)
    then show ?thesis by auto
  qed
  then show "check_transition IN_PROGRESS None None None \<noteq> Inr () \<or>
      stored example_world (q_root example_queue) ''nope'' = None \<or>
      (\<exists>n. stored example_world (q_root example_queue) ''nope'' = Some n \<and>
        n_status n \<in> {HANDLED, ERRORED, CONFIRMED})" by auto
qed simp_all

text \<open>C7: handling never duplicates an item, and loses it only when it deletes an item handled
  without an RSVP address: otherwise it ends in exactly one queue.\<close>

theorem handling_keeps_item:
  assumes "store_ok R w" "q_root q \<in> R" "stored w (q_root q) i = Some n"
    and "n_status n \<in> {PENDING, IN_PROGRESS}" "check_transition st notes rat reason = Inr ()"
    and "destination_ok R (step_two_destination q book (n\<lparr>n_status := st\<rparr>))"
    and "placed_once (stored w)"
  shows "placed_once (stored (snd (apply_handling_transition q i st book notes rat reason w))) \<and>
    ((\<exists>r. stored (snd (apply_handling_transition q i st book notes rat reason w)) r i \<noteq> None) \<longleftrightarrow>
      st \<noteq> HANDLED \<or> n_rsvp_to n \<noteq> None)"
proof -
  obtain m w' where m: "n_status m = st" "origin m = origin n" "n_id m = i" "item_ok m"
    "snd (apply_handling_transition q i st book notes rat reason w) = w'"
    "stored w' = handled_view q book m (stored w)"
    by (rule handling_effect [OF assms(1-6)]) (rule that, assumption+, simp_all)
  let ?v = "\<lambda>r j. if r = q_root q \<and> j = n_id m then Some m else stored w r j"
  have p: "placed_once ?v"
    using disk.put_again_placed [OF assms(1,2) m(4) assms(7)] assms(3) m(3) stored_put_item [OF m(4)]
    by metis
  then have "placed_once (handled_view q book m (stored w))"
    unfolding handled_view_def Let_def by (auto intro: settle_placed)
  moreover have rsvp: "n_rsvp_to m = n_rsvp_to n" using m(2) by (simp add: origin_def)
  have other: "stored w r i = None" if "r \<noteq> q_root q" for r
    using assms(3,7) that by (cases "stored w r i") (auto dest: placed_onceD)
  have "(\<exists>r. handled_view q book m (stored w) r i \<noteq> None) \<longleftrightarrow> st \<noteq> HANDLED \<or> n_rsvp_to n \<noteq> None"
  proof (cases "st \<in> {HANDLED, ERRORED}")
    case False
    then show ?thesis using m by (auto simp: handled_view_def)
  next
    case True
    show ?thesis
    proof (cases "step_two_destination q book m")
      case Deleted
      then have "st = HANDLED \<and> n_rsvp_to n = None"
        using m(1) rsvp by (auto simp: step_two_destination_def split: option.splits if_splits)
      with Deleted m(1,3) other show ?thesis by (auto simp: handled_view_def)
    next
      case (MovedTo t)
      then have "st \<noteq> HANDLED \<or> n_rsvp_to n \<noteq> None"
        using m(1) rsvp by (auto simp: step_two_destination_def split: option.splits)
      moreover have "handled_view q book m (stored w) t i \<noteq> None"
        using MovedTo True m(1,3) by (simp add: handled_view_def)
      ultimately show ?thesis by blast
    next
      case Unresolved
      then have "n_rsvp_to n \<noteq> None"
        using rsvp by (auto simp: step_two_destination_def split: option.splits if_splits)
      moreover have "handled_view q book m (stored w) (q_root q) i \<noteq> None"
        using Unresolved True m(1,3) by (simp add: handled_view_def)
      ultimately show ?thesis by blast
    qed
  qed
  ultimately show ?thesis using m(5,6) by simp
qed

theorem handling_keeps_item_witness:
  "\<exists>r. stored (snd (apply_handling_transition example_queue (n_id example_item) ERRORED [] None None
      (Some ''no access'') example_world)) r (n_id example_item) \<noteq> None"
proof -
  have "placed_once (stored example_world)" by (simp add: placed_once_def)
  from handling_keeps_item [OF example_stored(2) example_dispatch(3,4,5,1,2) this, of "[]"]
  show ?thesis by simp
qed

end
