(* ===== verification/Notification_Queues.thy ===== *)
theory Notification_Queues
  imports Queue_Laws
begin

text \<open>
  Service queues drained by registered handlers
  (\<open>src/thorn/runtime/_notification_queue.py\<close>). A handler is a computation on the world that
  returns or raises; what it does is a parameter of the model.
\<close>

type_synonym handler = "notification \<Rightarrow> (world, unit) eff"

record notification_queue =
  nq_queue :: durable_queue
  nq_address :: address
  nq_fresh :: "handler option"
  nq_rsvp :: "handler option"

datatype arrival_kind = FRESH | RSVP

datatype drain_result = HANDLED_OUT | RECOVERED | HANDLER_FAILED | NO_HANDLER

record drain_outcome =
  out_id :: string
  out_kind :: arrival_kind
  out_result :: drain_result
  out_error :: "py_error option"

section \<open>Handlers\<close>

definition new_notification_queue :: "path \<Rightarrow> address \<Rightarrow> bool \<Rightarrow> notification_queue" where
  "new_notification_queue root a indexed =
     \<lparr>nq_queue = \<lparr>q_root = root, q_indexed = indexed, q_kind = ServiceQueue a\<rparr>,
      nq_address = a, nq_fresh = None, nq_rsvp = None\<rparr>"

definition on_fresh :: "handler \<Rightarrow> notification_queue \<Rightarrow> notification_queue result" where
  "on_fresh h nq =
     (if nq_fresh nq \<noteq> None then Inl (ValueError ''Fresh handler already registered'')
      else Inr (nq\<lparr>nq_fresh := Some h\<rparr>))"

definition on_rsvp :: "handler \<Rightarrow> notification_queue \<Rightarrow> notification_queue result" where
  "on_rsvp h nq =
     (if nq_rsvp nq \<noteq> None then Inl (ValueError ''RSVP handler already registered'')
      else Inr (nq\<lparr>nq_rsvp := Some h\<rparr>))"

definition clear_handlers :: "notification_queue \<Rightarrow> notification_queue" where
  "clear_handlers nq = nq\<lparr>nq_fresh := None, nq_rsvp := None\<rparr>"

section \<open>Draining\<close>

definition classify :: "notification_queue \<Rightarrow> notification \<Rightarrow> arrival_kind result" where
  "classify nq n =
     (if n_status n = CONFIRMED then Inl (ValueError ''already confirmed'')
      else if n_target n = nq_address nq then Inr FRESH
      else if n_rsvp_to n = Some (nq_address nq) then Inr RSVP
      else Inl (ValueError ''neither addressed nor sent back here''))"

definition outcome :: "notification \<Rightarrow> arrival_kind \<Rightarrow> drain_result \<Rightarrow> py_error option \<Rightarrow> drain_outcome" where
  "outcome n k r e = \<lparr>out_id = n_id n, out_kind = k, out_result = r, out_error = e\<rparr>"

definition handler_for :: "notification_queue \<Rightarrow> arrival_kind \<Rightarrow> handler option" where
  "handler_for nq k = (case k of FRESH \<Rightarrow> nq_fresh nq | RSVP \<Rightarrow> nq_rsvp nq)"

definition complete_two_steps ::
    "notification_queue \<Rightarrow> notification \<Rightarrow> arrival_kind \<Rightarrow> (world, drain_outcome) eff" where
  "complete_two_steps nq n k =
     ebind (update_status (nq_queue nq) (n_id n) CONFIRMED []) (\<lambda>_.
     ebind (queue_delete (nq_queue nq) (n_id n)) (\<lambda>_.
       eret (outcome n k HANDLED_OUT None)))"

definition drain_one :: "notification_queue \<Rightarrow> notification \<Rightarrow> (world, drain_outcome) eff" where
  "drain_one nq n =
     (if n_status n = CONFIRMED then
        ebind (queue_delete (nq_queue nq) (n_id n)) (\<lambda>_.
          eret (outcome n (if n_rsvp_to n = Some (nq_address nq) then RSVP else FRESH) RECOVERED None))
      else
        ebind (elift (classify nq n)) (\<lambda>k.
          case handler_for nq k of
            None \<Rightarrow> eret (outcome n k NO_HANDLER None)
          | Some h \<Rightarrow> (\<lambda>w. case h n w of
                (Inl e, w') \<Rightarrow> (Inr (outcome n k HANDLER_FAILED (Some e)), w')
              | (Inr _, w') \<Rightarrow> complete_two_steps nq n k w')))"

fun drain_items :: "notification_queue \<Rightarrow> notification list \<Rightarrow> (world, drain_outcome list) eff" where
  "drain_items nq [] = eret []"
| "drain_items nq (n # ns) =
     (if n_status n = IN_PROGRESS then drain_items nq ns
      else ebind (drain_one nq n) (\<lambda>out. ebind (drain_items nq ns) (\<lambda>outs. eret (out # outs))))"

definition drain :: "notification_queue \<Rightarrow> (world, drain_outcome list) eff" where
  "drain nq = ebind (eread (queue_list (nq_queue nq) None)) (drain_items nq)"

section \<open>What a drain does\<close>

text \<open>A handler that leaves the items \<open>ids\<close> of the queue alone: it may post new items and act
  on other queues, and may fail.\<close>

definition handler_safe :: "path set \<Rightarrow> path \<Rightarrow> string set \<Rightarrow> handler \<Rightarrow> bool" where
  "handler_safe R root ids h \<longleftrightarrow>
     (\<forall>n w. store_ok R w \<longrightarrow> store_ok R (snd (h n w)) \<and>
        (\<forall>j \<in> ids. stored (snd (h n w)) root j = stored w root j))"

definition handlers_safe :: "path set \<Rightarrow> string set \<Rightarrow> notification_queue \<Rightarrow> bool" where
  "handlers_safe R ids nq \<longleftrightarrow>
     pred_option (handler_safe R (q_root (nq_queue nq)) ids) (nq_fresh nq) \<and>
     pred_option (handler_safe R (q_root (nq_queue nq)) ids) (nq_rsvp nq)"

definition routable :: "notification_queue \<Rightarrow> notification \<Rightarrow> bool" where
  "routable nq n \<longleftrightarrow> n_status n = CONFIRMED \<or> n_target n = nq_address nq \<or>
     n_rsvp_to n = Some (nq_address nq)"

definition removed :: "drain_outcome \<Rightarrow> bool" where
  "removed out \<longleftrightarrow> out_result out = HANDLED_OUT \<or> out_result out = RECOVERED"

text \<open>The effect of one step on the items \<open>ids\<close> of the queue.\<close>

definition drains_to ::
    "path set \<Rightarrow> path \<Rightarrow> string set \<Rightarrow> notification \<Rightarrow> world \<Rightarrow> drain_outcome \<Rightarrow> world \<Rightarrow> bool" where
  "drains_to R root ids n w out w' \<longleftrightarrow>
     out_id out = n_id n \<and> store_ok R w' \<and>
     stored w' root (n_id n) = (if removed out then None else Some n) \<and>
     (\<forall>j \<in> ids - {n_id n}. stored w' root j = stored w root j)"

lemma delete_drains:
  assumes "store_ok R w" "q_root q \<in> R" "stored w (q_root q) (n_id n) = Some m"
    and "out_id out = n_id n" "removed out"
  shows "\<exists>w'. queue_delete q (n_id n) w = (Inr (), w') \<and> drains_to R (q_root q) ids n w out w'"
  using queue_delete_run [OF assms(1-3)] assms(1,4,5)
  by (simp add: drains_to_def drop_item_ok stored_drop_item)

lemma complete_drains:
  assumes "store_ok R w" "q_root (nq_queue nq) \<in> R"
    and "stored w (q_root (nq_queue nq)) (n_id n) = Some n"
  shows "\<exists>w'. complete_two_steps nq n k w = (Inr (outcome n k HANDLED_OUT None), w') \<and>
    drains_to R (q_root (nq_queue nq)) ids n w (outcome n k HANDLED_OUT None) w'"
proof -
  let ?q = "nq_queue nq" and ?m = "n\<lparr>n_status := CONFIRMED\<rparr>"
  let ?out = "outcome n k HANDLED_OUT None"
  note s = stored_Some [OF assms]
  have ok: "item_ok ?m" using s by (simp add: item_ok_def valid_notification_def)
  have up: "with_updates (Some CONFIRMED) [] n = Inr ?m" by (simp add: with_updates_def)
  have run: "update_status ?q (n_id n) CONFIRMED [] w = (Inr ?m, put_item (q_root ?q) ?m w)"
    using update_status_run [OF assms up] by simp
  let ?v = "put_item (q_root ?q) ?m w"
  have v: "store_ok R ?v" "stored ?v (q_root ?q) (n_id n) = Some ?m"
    using put_item_ok [OF assms(1) ok] stored_put_item [OF ok] by simp_all
  have "\<exists>w'. queue_delete ?q (n_id n) ?v = (Inr (), w') \<and> drains_to R (q_root ?q) ids n ?v ?out w'"
    by (rule delete_drains [OF v(1) assms(2) v(2)]) (simp_all add: outcome_def removed_def)
  then obtain w' where w': "queue_delete ?q (n_id n) ?v = (Inr (), w')"
    "drains_to R (q_root ?q) ids n ?v ?out w'" by blast
  have "drains_to R (q_root ?q) ids n w ?out w'"
    using w'(2) by (simp add: drains_to_def stored_put_item [OF ok])
  then show ?thesis
    using run w'(1) by (simp add: complete_two_steps_def ebind_def)
qed

lemma drain_one_effect:
  assumes "store_ok R w" "q_root (nq_queue nq) \<in> R" "handlers_safe R ids nq" "routable nq n"
    and "stored w (q_root (nq_queue nq)) (n_id n) = Some n" "n_id n \<in> ids"
  shows "\<exists>out w'. drain_one nq n w = (Inr out, w') \<and> drains_to R (q_root (nq_queue nq)) ids n w out w'"
proof (cases "n_status n = CONFIRMED")
  case True
  let ?out = "outcome n (if n_rsvp_to n = Some (nq_address nq) then RSVP else FRESH) RECOVERED None"
  have "\<exists>w'. queue_delete (nq_queue nq) (n_id n) w = (Inr (), w') \<and>
      drains_to R (q_root (nq_queue nq)) ids n w ?out w'"
    by (rule delete_drains [OF assms(1,2,5)]) (simp_all add: outcome_def removed_def)
  with True show ?thesis by (auto simp: drain_one_def ebind_def)
next
  case False
  with assms(4) have "\<exists>k. classify nq n = Inr k" by (auto simp: routable_def classify_def)
  then obtain k where k: "classify nq n = Inr k" by blast
  show ?thesis
  proof (cases "handler_for nq k")
    case None
    with False k assms(1,5) show ?thesis
      by (simp add: drain_one_def ebind_def drains_to_def outcome_def removed_def)
  next
    case (Some h)
    then have safe: "handler_safe R (q_root (nq_queue nq)) ids h"
      using assms(3) by (cases k) (simp_all add: handler_for_def handlers_safe_def)
    obtain r v where h: "h n w = (r, v)" by (cases "h n w")
    then have v: "store_ok R v" "\<forall>j \<in> ids. stored v (q_root (nq_queue nq)) j = stored w (q_root (nq_queue nq)) j"
      using safe [unfolded handler_safe_def, rule_format, OF assms(1), of n] by auto
    have vn: "stored v (q_root (nq_queue nq)) (n_id n) = Some n" using v(2) assms(5,6) by simp
    show ?thesis
    proof (cases r)
      case (Inl e)
      with False k Some h v vn show ?thesis
        by (simp add: drain_one_def ebind_def drains_to_def outcome_def removed_def)
    next
      case (Inr u)
      obtain w' where w': "complete_two_steps nq n k v = (Inr (outcome n k HANDLED_OUT None), w')"
        "drains_to R (q_root (nq_queue nq)) ids n v (outcome n k HANDLED_OUT None) w'"
        using complete_drains [OF v(1) assms(2) vn] by blast
      from w'(2) v(2) have "drains_to R (q_root (nq_queue nq)) ids n w (outcome n k HANDLED_OUT None) w'"
        by (simp add: drains_to_def)
      with False k Some h Inr w'(1) show ?thesis by (simp add: drain_one_def ebind_def)
    qed
  qed
qed

text \<open>The outcomes of a pass over the items \<open>ns\<close>, and where it leaves them.\<close>

definition drained ::
    "path set \<Rightarrow> path \<Rightarrow> string set \<Rightarrow> notification list \<Rightarrow> world \<Rightarrow> drain_outcome list \<Rightarrow> world \<Rightarrow> bool" where
  "drained R root ids ns w outs w' \<longleftrightarrow>
     map out_id outs = map n_id (filter (\<lambda>n. n_status n \<noteq> IN_PROGRESS) ns) \<and> store_ok R w' \<and>
     (\<forall>n \<in> set ns. stored w' root (n_id n) =
        (if \<exists>out \<in> set outs. out_id out = n_id n \<and> removed out then None else Some n)) \<and>
     (\<forall>j \<in> ids - n_id ` set ns. stored w' root j = stored w root j)"

lemma drained_skip:
  assumes "drained R root ids ns w outs w'" "n_status n = IN_PROGRESS"
    and "stored w root (n_id n) = Some n" "n_id n \<in> ids" "n_id n \<notin> n_id ` set ns"
  shows "drained R root ids (n # ns) w outs w'"
proof -
  have "out_id out \<noteq> n_id n" if "out \<in> set outs" for out
  proof -
    have "out_id out \<in> set (map out_id outs)" using that by simp
    then have "out_id out \<in> n_id ` set ns" using assms(1) unfolding drained_def by auto
    with assms(5) show ?thesis by auto
  qed
  then have "\<not> (\<exists>out \<in> set outs. out_id out = n_id n \<and> removed out)" by auto
  moreover have "stored w' root (n_id n) = Some n"
    using assms(1,3-5) unfolding drained_def by auto
  ultimately show ?thesis using assms(1,2) unfolding drained_def by auto
qed

lemma drained_step:
  assumes "drains_to R root ids n w out v" "drained R root ids ns v outs w'"
    and "n_status n \<noteq> IN_PROGRESS" "n_id n \<in> ids" "n_id n \<notin> n_id ` set ns"
  shows "drained R root ids (n # ns) w (out # outs) w'"
proof -
  have oid: "out_id out = n_id n" using assms(1) by (simp add: drains_to_def)
  have other: "out_id o' \<noteq> n_id n" if "o' \<in> set outs" for o'
  proof -
    have "out_id o' \<in> set (map out_id outs)" using that by simp
    then have "out_id o' \<in> n_id ` set ns" using assms(2) unfolding drained_def by auto
    with assms(5) show ?thesis by auto
  qed
  have "stored w' root (n_id n) = stored v root (n_id n)"
    using assms(2,4,5) unfolding drained_def by auto
  then have first: "stored w' root (n_id n) =
      (if \<exists>o' \<in> set (out # outs). out_id o' = n_id n \<and> removed o' then None else Some n)"
    using assms(1) oid other by (auto simp: drains_to_def)
  have rest: "(\<exists>o' \<in> set (out # outs). out_id o' = n_id m \<and> removed o') \<longleftrightarrow>
      (\<exists>o' \<in> set outs. out_id o' = n_id m \<and> removed o')" if "m \<in> set ns" for m
    using that assms(5) oid by (metis image_eqI set_ConsD list.set_intros(2))
  show ?thesis
    unfolding drained_def
  proof (intro conjI ballI)
    show "map out_id (out # outs) = map n_id (filter (\<lambda>n. n_status n \<noteq> IN_PROGRESS) (n # ns))"
      using assms(2,3) oid by (simp add: drained_def)
    show "store_ok R w'" using assms(2) by (simp add: drained_def)
    show "stored w' root (n_id m) =
        (if \<exists>o' \<in> set (out # outs). out_id o' = n_id m \<and> removed o' then None else Some m)"
      if "m \<in> set (n # ns)" for m
    proof (cases "m = n")
      case True
      with first show ?thesis by simp
    next
      case False
      with that have "m \<in> set ns" by simp
      with rest [OF this] assms(2) show ?thesis by (simp add: drained_def)
    qed
    show "stored w' root j = stored w root j" if "j \<in> ids - n_id ` set (n # ns)" for j
      using that assms(1,2) by (simp add: drained_def drains_to_def)
  qed
qed

lemma drain_items_effect:
  assumes "store_ok R w" "q_root (nq_queue nq) \<in> R" "handlers_safe R ids nq" "\<forall>n \<in> set ns. routable nq n"
    and "\<forall>n \<in> set ns. stored w (q_root (nq_queue nq)) (n_id n) = Some n" "distinct (map n_id ns)"
    and "n_id ` set ns \<subseteq> ids"
  shows "\<exists>outs w'. drain_items nq ns w = (Inr outs, w') \<and> drained R (q_root (nq_queue nq)) ids ns w outs w'"
  using assms(1,4-7)
proof (induction ns arbitrary: w)
  case Nil
  then show ?case by (simp add: drained_def)
next
  case (Cons n ns)
  let ?r = "q_root (nq_queue nq)"
  have n: "n_id n \<in> ids" "n_id n \<notin> n_id ` set ns" "stored w ?r (n_id n) = Some n" "routable nq n"
    using Cons.prems by auto
  have tail: "\<forall>n \<in> set ns. routable nq n" "distinct (map n_id ns)" "n_id ` set ns \<subseteq> ids"
    using Cons.prems by auto
  show ?case
  proof (cases "n_status n = IN_PROGRESS")
    case True
    have "\<forall>n \<in> set ns. stored w ?r (n_id n) = Some n" using Cons.prems by simp
    then obtain outs w' where r: "drain_items nq ns w = (Inr outs, w')" "drained R ?r ids ns w outs w'"
      using Cons.IH [OF Cons.prems(1) tail(1) _ tail(2,3)] by blast
    then show ?thesis using True drained_skip [OF r(2) True n(3,1,2)] by auto
  next
    case False
    obtain out v where o: "drain_one nq n w = (Inr out, v)" "drains_to R ?r ids n w out v"
      using drain_one_effect [OF Cons.prems(1) assms(2,3) n(4,3,1)] by blast
    have "n_id m \<in> ids - {n_id n}" if "m \<in> set ns" for m
      using that distinct_map_ConsD [OF Cons.prems(4)] tail(3) by auto
    then have v: "store_ok R v" "\<forall>m \<in> set ns. stored v ?r (n_id m) = Some m"
      using o(2) Cons.prems(3) by (simp_all add: drains_to_def)
    obtain outs w' where r: "drain_items nq ns v = (Inr outs, w')" "drained R ?r ids ns v outs w'"
      using Cons.IH [OF v(1) tail(1) v(2) tail(2,3)] by blast
    then show ?thesis
      using False o(1) drained_step [OF o(2) r(2) False n(1,2)] by (auto simp: ebind_def)
  qed
qed

section \<open>Properties\<close>

text \<open>When the handlers leave the listed items alone and every item is addressed to the
  queue or returns to it, a drain reports one outcome per item that is not in progress, in
  listing order, and afterwards an item is gone exactly if its outcome says it was handled or
  recovered; every other item is stored unchanged, whatever its handler did.\<close>

theorem drain_outcomes_are_true:
  assumes "store_ok R w" "q_root (nq_queue nq) \<in> R" "queue_list (nq_queue nq) None w = Inr ns"
    and "handlers_safe R (n_id ` set ns) nq" "\<forall>n \<in> set ns. routable nq n"
  shows "\<exists>outs w'. drain nq w = (Inr outs, w') \<and>
    map out_id outs = map n_id (filter (\<lambda>n. n_status n \<noteq> IN_PROGRESS) ns) \<and>
    (\<forall>n \<in> set ns. stored w' (q_root (nq_queue nq)) (n_id n) =
       (if \<exists>out \<in> set outs. out_id out = n_id n \<and> removed out then None else Some n))"
proof -
  obtain ms where ms: "queue_list (nq_queue nq) None w = Inr ms" "sorted_wrt (<) (map file_name ms)"
    "\<And>n. n \<in> set ms \<longleftrightarrow> stored w (q_root (nq_queue nq)) (n_id n) = Some n"
    by (rule queue_list_all [OF assms(1,2)]) (rule that)
  with assms(3) have ns: "ms = ns" by simp
  have "distinct (map file_name ns)" using ms(2) ns by (simp add: strict_sorted_iff)
  then have "distinct (map n_id ns)"
    by (auto simp: distinct_map file_name_def inj_on_def)
  then obtain outs w' where "drain_items nq ns w = (Inr outs, w')"
    "drained R (q_root (nq_queue nq)) (n_id ` set ns) ns w outs w'"
    using drain_items_effect [OF assms(1,2,4,5), of] ms(3) ns by blast
  then show ?thesis using assms(3) by (auto simp: drain_def ebind_def drained_def)
qed

definition example_nq :: notification_queue where
  "example_nq = \<lparr>nq_queue = example_queue, nq_address = SessionAddress ''ann'' (SessionKey [''cli'']),
     nq_fresh = Some (\<lambda>n. eret ()), nq_rsvp = None\<rparr>"

lemma example_listing: "queue_list example_queue None example_world = Inr [example_item]"
proof (rule queue_list_unique [of UNIV])
  show "n \<in> set [example_item] \<longleftrightarrow> stored example_world (q_root example_queue) (n_id n) = Some n" for n
    by auto
qed (simp_all add: example_stored)

theorem drain_outcomes_are_true_witness:
  "\<exists>outs w'. drain example_nq example_world = (Inr outs, w') \<and> map out_id outs = [n_id example_item]"
proof -
  have l: "queue_list (nq_queue example_nq) None example_world = Inr [example_item]"
    by (simp add: example_nq_def example_listing)
  have h: "handlers_safe UNIV (n_id ` set [example_item]) example_nq"
    by (simp add: handlers_safe_def handler_safe_def example_nq_def)
  have r: "\<forall>n \<in> set [example_item]. routable example_nq n"
    by (simp add: routable_def example_nq_def)
  obtain outs w' where "drain example_nq example_world = (Inr outs, w')"
    "map out_id outs = map n_id (filter (\<lambda>n. n_status n \<noteq> IN_PROGRESS) [example_item])"
    using drain_outcomes_are_true [OF example_stored(2) UNIV_I l h r] by blast
  then show ?thesis by simp
qed

text \<open>An item whose first completion step landed before a crash is finished by the next
  drain without its handlers: the outcome is recovered and the item is gone.\<close>

theorem confirmed_items_are_not_rehandled:
  assumes "store_ok R w" "q_root (nq_queue nq) \<in> R"
    and "stored w (q_root (nq_queue nq)) (n_id n) = Some n" "n_status n = CONFIRMED"
  shows "\<exists>out w'. drain_one (nq\<lparr>nq_fresh := f, nq_rsvp := g\<rparr>) n w = (Inr out, w') \<and>
    out_result out = RECOVERED \<and>
    stored w' = (\<lambda>r j. if r = q_root (nq_queue nq) \<and> j = n_id n then None else stored w r j)"
  using queue_delete_run [OF assms(1-3)] assms(4)
  by (simp add: drain_one_def ebind_def stored_drop_item outcome_def)

theorem confirmed_items_are_not_rehandled_witness:
  "\<exists>out w'. drain_one (example_nq\<lparr>nq_fresh := None, nq_rsvp := None\<rparr>) (example_item\<lparr>n_status := CONFIRMED\<rparr>)
     (put_item [''inbox''] (example_item\<lparr>n_status := CONFIRMED\<rparr>) world_empty) = (Inr out, w') \<and>
     out_result out = RECOVERED"
proof -
  let ?n = "example_item\<lparr>n_status := CONFIRMED\<rparr>"
  have ok: "item_ok ?n" using example_item_ok by (simp add: item_ok_def valid_notification_def)
  have r: "q_root (nq_queue example_nq) = [''inbox'']" by (simp add: example_nq_def)
  have s: "store_ok UNIV (put_item [''inbox''] ?n world_empty)"
    "stored (put_item [''inbox''] ?n world_empty) (q_root (nq_queue example_nq)) (n_id ?n) = Some ?n"
    using put_item_ok [OF _ ok] stored_put_item [OF ok] by (simp_all add: example_valid r)
  show ?thesis
    using confirmed_items_are_not_rehandled [OF s(1) UNIV_I s(2), of None None] by auto
qed

text \<open>Registering a handler twice for the same kind is refused, and after a clear both
  kinds can be registered again.\<close>

lemma handler_registration:
  assumes "on_fresh h nq = Inr nq'"
  shows "on_fresh g nq' = Inl (ValueError ''Fresh handler already registered'') \<and>
    handler_for nq' FRESH = Some h \<and> handler_for nq' RSVP = handler_for nq RSVP \<and>
    on_fresh g (clear_handlers nq') = Inr ((clear_handlers nq')\<lparr>nq_fresh := Some g\<rparr>)"
  using assms by (auto simp: on_fresh_def clear_handlers_def handler_for_def split: if_splits)

end
