(* ===== verification/Sweep.thy ===== *)
theory Sweep
  imports Dispatch Notification_Queues
begin

text \<open>
  The startup sweep (\<open>src/thorn/runtime/_sweep.py\<close>) over every session inbox and service queue
  found on disk. The directories are listed when a pass begins; a generator that raises
  ends the pass after what it has yielded.
\<close>

record sweep_report =
  temp_files_removed :: nat
  session_handled_dispatched :: nat
  session_errored_dispatched :: nat
  session_confirmed_cleaned :: nat
  service_in_progress_reverted :: nat
  service_confirmed_cleaned :: nat
  service_misplaced :: nat
  dispatch_skipped_unresolved :: "string list"

definition empty_report :: sweep_report where
  "empty_report = \<lparr>temp_files_removed = 0, session_handled_dispatched = 0,
     session_errored_dispatched = 0, session_confirmed_cleaned = 0,
     service_in_progress_reverted = 0, service_confirmed_cleaned = 0, service_misplaced = 0,
     dispatch_skipped_unresolved = []\<rparr>"

section \<open>Session inboxes\<close>

definition count_dispatched :: "notification_status \<Rightarrow> sweep_report \<Rightarrow> sweep_report" where
  "count_dispatched st rep =
     (if st = HANDLED
      then rep\<lparr>session_handled_dispatched := session_handled_dispatched rep + 1\<rparr>
      else rep\<lparr>session_errored_dispatched := session_errored_dispatched rep + 1\<rparr>)"

definition sweep_session_item ::
    "durable_queue \<Rightarrow> book \<Rightarrow> notification \<Rightarrow> sweep_report \<Rightarrow> (world, sweep_report) eff" where
  "sweep_session_item inbox book n rep =
     (if n_status n = IN_PROGRESS then eret rep
      else if n_status n \<in> {HANDLED, ERRORED} then
        (\<lambda>w. case dispatch_step_two inbox n book w of
            (Inr _, w') \<Rightarrow> (Inr (count_dispatched (n_status n) rep), w')
          | (Inl e, w') \<Rightarrow>
              (case e of
                 DispatchError _ \<Rightarrow>
                   (Inr (rep\<lparr>dispatch_skipped_unresolved := dispatch_skipped_unresolved rep @ [n_id n]\<rparr>), w')
               | _ \<Rightarrow> (Inl e, w')))
      else if n_status n = CONFIRMED then
        ebind (queue_delete inbox (n_id n)) (\<lambda>_.
          eret (rep\<lparr>session_confirmed_cleaned := session_confirmed_cleaned rep + 1\<rparr>))
      else eret rep)"

definition sweep_inbox :: "durable_queue \<Rightarrow> book \<Rightarrow> sweep_report \<Rightarrow> (world, sweep_report) eff" where
  "sweep_inbox inbox book rep =
     ebind (cleanup_temp_files inbox) (\<lambda>removed.
     ebind (eread (queue_list inbox None)) (\<lambda>ns.
       efold (sweep_session_item inbox book) ns
         (rep\<lparr>temp_files_removed := temp_files_removed rep + removed\<rparr>)))"

text \<open>What follows the last element of a generator: its exception, if it has one.\<close>

definition gen_end :: "py_error option \<Rightarrow> 'a \<Rightarrow> ('s, 'a) eff" where
  "gen_end e x = (case e of None \<Rightarrow> eret x | Some err \<Rightarrow> eraise err)"

definition sweep_session_location ::
    "bool \<Rightarrow> book \<Rightarrow> agent_id \<times> session_key \<times> path \<Rightarrow> sweep_report \<Rightarrow> (world, sweep_report) eff" where
  "sweep_session_location indexed book loc rep =
     (case loc of (a, k, dir) \<Rightarrow>
        ebind (elift (mk_session_address a k)) (\<lambda>addr.
          sweep_inbox \<lparr>q_root = dir, q_indexed = indexed, q_kind = InboxQueue addr\<rparr> book rep))"

definition sweep_session_inboxes ::
    "agency_paths \<Rightarrow> book \<Rightarrow> bool \<Rightarrow> sweep_report \<Rightarrow> (world, sweep_report) eff" where
  "sweep_session_inboxes p book indexed rep w =
     (case iter_session_inbox_locations p (w_dirs w) of (locs, e) \<Rightarrow>
        ebind (efold (sweep_session_location indexed book) locs rep) (gen_end e) w)"

section \<open>Service queues\<close>

definition sweep_service_item ::
    "durable_queue \<Rightarrow> notification \<Rightarrow> sweep_report \<Rightarrow> (world, sweep_report) eff" where
  "sweep_service_item q n rep =
     (if n_status n = IN_PROGRESS then
        ebind (update_status q (n_id n) PENDING []) (\<lambda>_.
          eret (rep\<lparr>service_in_progress_reverted := service_in_progress_reverted rep + 1\<rparr>))
      else if n_status n = CONFIRMED then
        ebind (queue_delete q (n_id n)) (\<lambda>_.
          eret (rep\<lparr>service_confirmed_cleaned := service_confirmed_cleaned rep + 1\<rparr>))
      else if n_status n \<in> {HANDLED, ERRORED} then
        eret (rep\<lparr>service_misplaced := service_misplaced rep + 1\<rparr>)
      else eret rep)"

definition sweep_service_queue :: "durable_queue \<Rightarrow> sweep_report \<Rightarrow> (world, sweep_report) eff" where
  "sweep_service_queue q rep =
     ebind (cleanup_temp_files q) (\<lambda>removed.
     ebind (eread (queue_list q None)) (\<lambda>ns.
       efold (sweep_service_item q) ns
         (rep\<lparr>temp_files_removed := temp_files_removed rep + removed\<rparr>)))"

text \<open>The registered queue is used when it is a notification queue.\<close>

definition service_queue_for :: "book \<Rightarrow> bool \<Rightarrow> address \<Rightarrow> path \<Rightarrow> durable_queue" where
  "service_queue_for book indexed addr dir =
     (case book_get book addr of
        Some q \<Rightarrow> (case q_kind q of
            ServiceQueue _ \<Rightarrow> q
          | _ \<Rightarrow> \<lparr>q_root = dir, q_indexed = indexed, q_kind = ServiceQueue addr\<rparr>)
      | None \<Rightarrow> \<lparr>q_root = dir, q_indexed = indexed, q_kind = ServiceQueue addr\<rparr>)"

definition sweep_service_location ::
    "bool \<Rightarrow> book \<Rightarrow> string \<times> path \<Rightarrow> sweep_report \<Rightarrow> (world, sweep_report) eff" where
  "sweep_service_location indexed book loc rep =
     (case loc of (name, dir) \<Rightarrow>
        ebind (elift (mk_service_address name)) (\<lambda>addr.
          sweep_service_queue (service_queue_for book indexed addr dir) rep))"

definition sweep_service_queues ::
    "agency_paths \<Rightarrow> book \<Rightarrow> bool \<Rightarrow> sweep_report \<Rightarrow> (world, sweep_report) eff" where
  "sweep_service_queues p book indexed rep w =
     (case iter_service_queue_locations p (w_dirs w) of (locs, e) \<Rightarrow>
        ebind (efold (sweep_service_location indexed book) locs rep) (gen_end e) w)"

definition run_startup_sweep :: "agency_paths \<Rightarrow> book \<Rightarrow> bool \<Rightarrow> (world, sweep_report) eff" where
  "run_startup_sweep p book indexed =
     ebind (sweep_session_inboxes p book indexed empty_report)
       (sweep_service_queues p book indexed)"

section \<open>One inbox\<close>

text \<open>The items the sweep takes out of an inbox, and those it leaves.\<close>

definition leaves_inbox :: "durable_queue \<Rightarrow> book \<Rightarrow> notification \<Rightarrow> bool" where
  "leaves_inbox q book n \<longleftrightarrow> n_status n = CONFIRMED \<or>
     n_status n \<in> {HANDLED, ERRORED} \<and>
     (case step_two_destination q book n of
        Deleted \<Rightarrow> True | MovedTo t \<Rightarrow> t \<noteq> q_root q | Unresolved \<Rightarrow> False)"

definition sweep_dest_ok :: "path set \<Rightarrow> durable_queue \<Rightarrow> book \<Rightarrow> notification \<Rightarrow> bool" where
  "sweep_dest_ok R q book n \<longleftrightarrow>
     (n_status n \<in> {HANDLED, ERRORED} \<longrightarrow> destination_ok R (step_two_destination q book n))"

lemma settle_root:
  "settle d r n v r j = (if j = n_id n \<and> (case d of Deleted \<Rightarrow> True | MovedTo t \<Rightarrow> t \<noteq> r | Unresolved \<Rightarrow> False)
     then None else v r j)"
  by (cases d) auto

lemma sweep_session_item_effect:
  assumes "store_ok R w" "q_root q \<in> R" "stored w (q_root q) (n_id n) = Some n" "sweep_dest_ok R q book n"
  shows "\<exists>rep' w'. sweep_session_item q book n rep w = (Inr rep', w') \<and> store_ok R w' \<and>
    (\<forall>j. stored w' (q_root q) j =
       (if j = n_id n \<and> leaves_inbox q book n then None else stored w (q_root q) j))"
proof (cases "n_status n")
  case PENDING
  with assms(1) show ?thesis by (simp add: sweep_session_item_def leaves_inbox_def)
next
  case IN_PROGRESS
  with assms(1) show ?thesis by (simp add: sweep_session_item_def leaves_inbox_def)
next
  case CONFIRMED
  then show ?thesis
    using queue_delete_run [OF assms(1-3)] assms(1)
    by (simp add: sweep_session_item_def ebind_def leaves_inbox_def stored_drop_item drop_item_ok)
next
  case HANDLED
  then have t: "n_status n \<in> {HANDLED, ERRORED}" by simp
  have d: "destination_ok R (step_two_destination q book n)"
    using assms(4) t unfolding sweep_dest_ok_def by blast
  obtain w' where w': "dispatch_step_two q n book w =
      (if step_two_destination q book n = Unresolved then Inl (DispatchError (n_id n)) else Inr (), w')"
    "store_ok R w'" "stored w' = settle (step_two_destination q book n) (q_root q) n (stored w)"
    using dispatch_step_two_effect [OF assms(1-3) t d] by blast
  then show ?thesis
    using HANDLED by (simp add: sweep_session_item_def leaves_inbox_def settle_root)
next
  case ERRORED
  then have t: "n_status n \<in> {HANDLED, ERRORED}" by simp
  have d: "destination_ok R (step_two_destination q book n)"
    using assms(4) t unfolding sweep_dest_ok_def by blast
  obtain w' where w': "dispatch_step_two q n book w =
      (if step_two_destination q book n = Unresolved then Inl (DispatchError (n_id n)) else Inr (), w')"
    "store_ok R w'" "stored w' = settle (step_two_destination q book n) (q_root q) n (stored w)"
    using dispatch_step_two_effect [OF assms(1-3) t d] by blast
  then show ?thesis
    using ERRORED by (simp add: sweep_session_item_def leaves_inbox_def settle_root)
qed

lemma sweep_session_items_effect:
  assumes "store_ok R w" "q_root q \<in> R" "\<forall>n \<in> set ns. stored w (q_root q) (n_id n) = Some n"
    and "\<forall>n \<in> set ns. sweep_dest_ok R q book n" "distinct (map n_id ns)"
  shows "\<exists>rep' w'. efold (sweep_session_item q book) ns rep w = (Inr rep', w') \<and> store_ok R w' \<and>
    (\<forall>j. stored w' (q_root q) j =
       (if \<exists>n \<in> set ns. n_id n = j \<and> leaves_inbox q book n then None else stored w (q_root q) j))"
  using assms(1,3-5)
proof (induction ns arbitrary: w rep)
  case Nil
  then show ?case by simp
next
  case (Cons n ns)
  obtain rep1 w1 where 1: "sweep_session_item q book n rep w = (Inr rep1, w1)" "store_ok R w1"
    "\<forall>j. stored w1 (q_root q) j =
       (if j = n_id n \<and> leaves_inbox q book n then None else stored w (q_root q) j)"
    using sweep_session_item_effect [OF Cons.prems(1) assms(2), of n book rep] Cons.prems by auto
  have tail: "\<forall>n \<in> set ns. sweep_dest_ok R q book n" "distinct (map n_id ns)"
    using Cons.prems by simp_all
  have "n_id m \<noteq> n_id n" if "m \<in> set ns" for m
    using that by (rule distinct_map_ConsD [OF Cons.prems(4)])
  then have "\<forall>m \<in> set ns. stored w1 (q_root q) (n_id m) = Some m" using 1(3) Cons.prems(2) by simp
  then obtain rep2 w2 where 2: "efold (sweep_session_item q book) ns rep1 w1 = (Inr rep2, w2)"
    "store_ok R w2" "\<forall>j. stored w2 (q_root q) j =
       (if \<exists>n \<in> set ns. n_id n = j \<and> leaves_inbox q book n then None else stored w1 (q_root q) j)"
    using Cons.IH [OF 1(2) _ tail, of rep1] by blast
  then show ?case using 1 by (auto simp: ebind_def)
qed

lemma cleanup_store_ok:
  assumes "store_ok R w"
  shows "store_ok R (snd (cleanup_temp_files q w))"
proof -
  have "snd (cleanup_temp_files q w) = exec_steps (map Unlink (temp_paths (q_root q) (w_fs w))) w"
    by (simp add: cleanup_temp_files_def ebind_def)
  then show ?thesis
    using store_ok_file [OF assms] distinct_fs_steps [OF store_ok_distinct [OF assms]]
    by (intro store_okI) (auto simp: exec_unlinks split: if_splits)
qed

lemma cleanup_stored: "stored (snd (cleanup_temp_files q w)) = stored w"
proof -
  have v: "snd (cleanup_temp_files q w) = exec_steps (map Unlink (temp_paths (q_root q) (w_fs w))) w"
    by (simp add: cleanup_temp_files_def ebind_def)
  show ?thesis
  proof (rule stored_cong)
    fix r i assume "local_id i"
    then have "live_path r i \<notin> set (temp_paths (q_root q) (w_fs w))"
      using local_id_live live_name_starts [of "i @ live_suffix"]
      by (auto simp: temp_paths_member temp_prefix_def py_startswith_iff)
    then show "map_of (w_fs (snd (cleanup_temp_files q w))) (live_path r i) =
        map_of (w_fs w) (live_path r i)"
      by (simp add: v exec_unlinks)
  qed
qed

lemma queue_listing:
  assumes "store_ok R w" "q_root q \<in> R"
  shows "\<exists>ns. queue_list q None w = Inr ns \<and> distinct (map n_id ns) \<and>
    (\<forall>n. n \<in> set ns \<longleftrightarrow> stored w (q_root q) (n_id n) = Some n)"
proof -
  obtain ns where ns: "queue_list q None w = Inr ns" "sorted_wrt (<) (map file_name ns)"
    "\<And>n. n \<in> set ns \<longleftrightarrow> stored w (q_root q) (n_id n) = Some n"
    by (rule queue_list_all [OF assms]) (rule that)
  have "distinct (map file_name ns)" using ns(2) by (simp add: strict_sorted_iff)
  then have "distinct (map n_id ns)" by (auto simp: distinct_map file_name_def inj_on_def)
  with ns show ?thesis by blast
qed

lemma sweep_inbox_effect:
  assumes "store_ok R w" "q_root q \<in> R"
    and "\<And>n. stored w (q_root q) (n_id n) = Some n \<Longrightarrow> sweep_dest_ok R q book n"
  shows "\<exists>rep' w'. sweep_inbox q book rep w = (Inr rep', w') \<and> store_ok R w' \<and>
    (\<forall>n. stored w' (q_root q) (n_id n) = Some n \<longleftrightarrow>
       stored w (q_root q) (n_id n) = Some n \<and> \<not> leaves_inbox q book n)"
proof -
  define v where "v = snd (cleanup_temp_files q w)"
  have c: "cleanup_temp_files q w = (Inr (length (temp_paths (q_root q) (w_fs w))), v)"
    by (simp add: v_def cleanup_temp_files_def ebind_def)
  have v: "store_ok R v" "stored v = stored w"
    using cleanup_store_ok [OF assms(1)] cleanup_stored by (simp_all add: v_def)
  obtain ns where ns: "queue_list q None v = Inr ns" "distinct (map n_id ns)"
    "\<forall>n. n \<in> set ns \<longleftrightarrow> stored w (q_root q) (n_id n) = Some n"
    using queue_listing [OF v(1) assms(2)] unfolding v(2) by blast
  have h: "\<forall>n \<in> set ns. stored v (q_root q) (n_id n) = Some n"
    "\<forall>n \<in> set ns. sweep_dest_ok R q book n"
    unfolding v(2) using ns(3) assms(3) by blast+
  let ?rep = "rep\<lparr>temp_files_removed := temp_files_removed rep + length (temp_paths (q_root q) (w_fs w))\<rparr>"
  obtain rep' w' where e: "efold (sweep_session_item q book) ns ?rep v = (Inr rep', w')" "store_ok R w'"
    "\<forall>j. stored w' (q_root q) j =
       (if \<exists>n \<in> set ns. n_id n = j \<and> leaves_inbox q book n then None else stored w (q_root q) j)"
    using sweep_session_items_effect [OF v(1) assms(2) h ns(2), of ?rep] unfolding v(2) by blast
  have run: "sweep_inbox q book rep w = (Inr rep', w')"
    using ns(1) e(1) by (simp add: sweep_inbox_def ebind_def c)
  have "stored w' (q_root q) (n_id n) = Some n \<longleftrightarrow>
      stored w (q_root q) (n_id n) = Some n \<and> \<not> leaves_inbox q book n" for n
  proof (cases "n \<in> set ns")
    case True
    then have "(\<exists>m \<in> set ns. n_id m = n_id n \<and> leaves_inbox q book m) \<longleftrightarrow> leaves_inbox q book n"
      using ns(2) by (auto simp: distinct_map inj_on_def)
    with True e(3) ns(3) show ?thesis by simp
  next
    case False
    then have "stored w (q_root q) (n_id n) \<noteq> Some n" using ns(3) by blast
    with e(3) show ?thesis by simp
  qed
  with run e(2) show ?thesis by blast
qed

text \<open>An inbox in which nothing is left to do except items whose address does not resolve.\<close>

definition settled_item :: "durable_queue \<Rightarrow> book \<Rightarrow> notification \<Rightarrow> bool" where
  "settled_item q book n \<longleftrightarrow> n_status n \<in> {PENDING, IN_PROGRESS} \<or>
     n_status n \<in> {HANDLED, ERRORED} \<and> step_two_destination q book n = Unresolved"

definition unresolved_ids :: "notification list \<Rightarrow> string list" where
  "unresolved_ids ns = map n_id (filter (\<lambda>n. n_status n \<in> {HANDLED, ERRORED}) ns)"

lemma sweep_settled_item:
  "settled_item q book n \<Longrightarrow> sweep_session_item q book n rep w =
     (Inr (rep\<lparr>dispatch_skipped_unresolved := dispatch_skipped_unresolved rep @ unresolved_ids [n]\<rparr>), w)"
  by (auto simp: settled_item_def sweep_session_item_def unresolved_ids_def dispatch_step_two_def
      terminal_statuses_def step_two_destination_def split: option.splits if_splits)

lemma sweep_settled_items:
  "\<forall>n \<in> set ns. settled_item q book n \<Longrightarrow> efold (sweep_session_item q book) ns rep w =
     (Inr (rep\<lparr>dispatch_skipped_unresolved := dispatch_skipped_unresolved rep @ unresolved_ids ns\<rparr>), w)"
proof (induction ns arbitrary: rep)
  case Nil
  then show ?case by (simp add: unresolved_ids_def)
next
  case (Cons n ns)
  have "unresolved_ids (n # ns) = unresolved_ids [n] @ unresolved_ids ns"
    by (simp add: unresolved_ids_def)
  with Cons show ?case by (simp add: ebind_def sweep_settled_item)
qed

lemma stays_settled:
  "\<not> leaves_inbox q book n \<Longrightarrow> step_two_destination q book n \<noteq> MovedTo (q_root q) \<Longrightarrow>
     settled_item q book n"
  by (cases "n_status n"; cases "step_two_destination q book n")
    (auto simp: leaves_inbox_def settled_item_def)

section \<open>No sidecar comes back\<close>

definition temp_free :: "path \<Rightarrow> world \<Rightarrow> bool" where
  "temp_free r w \<longleftrightarrow> temp_paths r (w_fs w) = []"

lemma temp_free_mono:
  assumes "temp_free r w" "\<And>p. map_of (w_fs v) p \<noteq> None \<Longrightarrow> map_of (w_fs w) p \<noteq> None \<or> is_live_name (last p)"
  shows "temp_free r v"
proof -
  have "p \<notin> set (temp_paths r (w_fs v))" for p
  proof
    assume p: "p \<in> set (temp_paths r (w_fs v))"
    then have "\<not> is_live_name (last p)"
      using live_name_starts [of "last p"] by (auto simp: temp_paths_member temp_prefix_def py_startswith_iff)
    then have "p \<in> set (temp_paths r (w_fs w))" using p assms(2) [of p] by (simp add: temp_paths_member)
    with assms(1) show False by (simp add: temp_free_def)
  qed
  then show ?thesis by (metis list.set_intros(1) neq_Nil_conv temp_free_def)
qed

lemma temp_free_move:
  assumes "temp_free r w"
  shows "temp_free r (snd (move_to q i t w))"
proof (cases "local_id i \<and> file_exists w (live_path (q_root q) i) \<and> q_root t \<noteq> q_root q")
  case True
  then have "snd (move_to q i t w) =
      exec_steps [MkDir (q_root t), Rename (live_path (q_root q) i) (live_path (q_root t) i)] w"
    by (simp add: move_to_def ebind_def)
  then show ?thesis
    using True by (intro temp_free_mono [OF assms])
      (auto simp: map_of_fs_rename split: option.splits if_splits)
next
  case False
  then have "snd (move_to q i t w) = w"
    by (cases "local_id i") (auto simp: move_to_def ebind_def)
  with assms show ?thesis by simp
qed

lemma temp_free_delete:
  assumes "temp_free r w"
  shows "temp_free r (snd (queue_delete q i w))"
proof (cases "local_id i")
  case True
  show ?thesis
    using True by (intro temp_free_mono [OF assms])
      (auto simp: queue_delete_def ebind_def index_remove_def split: option.splits if_splits sum.splits)
qed (simp add: queue_delete_def ebind_def assms)

lemma temp_free_dispatch:
  "temp_free r w \<Longrightarrow> temp_free r (snd (dispatch_step_two q n book w))"
  using temp_free_move [of r w q "n_id n"] temp_free_delete [of r w q "n_id n"]
  by (auto simp: dispatch_step_two_def ebind_def split: option.splits prod.splits sum.splits)
    (metis snd_conv)+

lemma temp_free_sweep_item:
  "temp_free r w \<Longrightarrow> temp_free r (snd (sweep_session_item q book n rep w))"
  using temp_free_dispatch [of r w q n book] temp_free_delete [of r w q "n_id n"]
  by (auto simp: sweep_session_item_def ebind_def split: prod.splits sum.splits py_error.splits)

lemma temp_free_cleanup: "temp_free (q_root q) (snd (cleanup_temp_files q w))"
proof -
  have "p \<notin> set (temp_paths (q_root q) (w_fs (snd (cleanup_temp_files q w))))" for p
    by (auto simp: cleanup_temp_files_def ebind_def temp_paths_member exec_unlinks)
  then show ?thesis by (metis list.set_intros(1) neq_Nil_conv temp_free_def)
qed

lemma temp_free_sweep_inbox:
  assumes "sweep_inbox q book rep w = (Inr rep', w')"
  shows "temp_free (q_root q) w'"
proof -
  let ?v = "snd (cleanup_temp_files q w)"
  obtain ns where "efold (sweep_session_item q book) ns
      (rep\<lparr>temp_files_removed := temp_files_removed rep + length (temp_paths (q_root q) (w_fs w))\<rparr>) ?v =
      (Inr rep', w')"
    using assms by (cases "queue_list q None ?v")
      (simp_all add: sweep_inbox_def ebind_def cleanup_temp_files_def)
  moreover have "temp_free (q_root q) (snd (efold (sweep_session_item q book) ns acc ?v))" for acc
    by (rule efold_invariant [OF temp_free_sweep_item temp_free_cleanup])
  ultimately show ?thesis by (metis snd_conv)
qed

section \<open>Properties\<close>


definition example_handled :: notification where
  "example_handled = example_item\<lparr>n_status := HANDLED\<rparr>"

definition example_crashed :: world where
  "example_crashed = put_item [''inbox''] example_handled world_empty"

definition example_book :: book where
  "example_book = [(ServiceAddress ''chat'', example_target)]"

lemma example_crashed:
  "store_ok R example_crashed"
  "stored example_crashed = (\<lambda>r i. if r = [''inbox''] \<and> i = n_id example_handled
     then Some example_handled else None)"
  "temp_free r example_crashed"
proof -
  have ok: "item_ok example_handled"
    using example_item_ok by (simp add: example_handled_def item_ok_def valid_notification_def)
  show "store_ok R example_crashed"
    using put_item_ok [OF _ ok] by (simp add: example_crashed_def example_valid)
  show "stored example_crashed = (\<lambda>r i. if r = [''inbox''] \<and> i = n_id example_handled
     then Some example_handled else None)"
    by (simp add: example_crashed_def stored_put_item [OF ok] cong: if_cong)
  have "temp_free r world_empty" by (simp add: temp_free_def temp_paths_def world_empty_def)
  then show "temp_free r example_crashed"
  proof (rule temp_free_mono)
    fix p assume "map_of (w_fs example_crashed) p \<noteq> None"
    then show "map_of (w_fs world_empty) p \<noteq> None \<or> is_live_name (last p)"
      using ok by (auto simp: example_crashed_def map_of_put_item item_ok_def split: if_splits)
  qed
qed


text \<open>C6: a crash between the two steps of a handling is repaired: the interrupted world stores
  the item with its terminal status, and the sweep of that item ends in the world the
  uninterrupted operation would have ended in.\<close>

theorem sweep_completes_handling:
  assumes "store_ok R w" "q_root q \<in> R" "stored w (q_root q) i = Some n"
    and "n_status n \<in> {PENDING, IN_PROGRESS}" "check_transition st notes rat reason = Inr ()"
    and "st \<in> {HANDLED, ERRORED}"
    and "destination_ok R (step_two_destination q book (n\<lparr>n_status := st\<rparr>))"
  shows "\<exists>m v. update_status q i st (transition_updates st notes rat reason) w = (Inr m, v) \<and>
    stored v (q_root q) i = Some m \<and>
    snd (sweep_session_item q book m rep v) =
      snd (apply_handling_transition q i st book notes rat reason w)"
proof -
  note s = stored_Some [OF assms(1-3)]
  obtain m where m: "with_updates (Some st) (transition_updates st notes rat reason) n = Inr m"
    "origin m = origin n" "n_status m = st"
    using with_updates_lifecycle [OF transition_updates_lifecycle] by blast
  have id: "n_id m = i" using m(2) s(1) by (simp add: origin_def)
  have ok: "item_ok m" using valid_notification_origin [OF m(2)] s id by (simp add: item_ok_def)
  let ?v = "put_item (q_root q) m w"
  note up = update_status_run [OF assms(1-3) m(1) id]
  have v: "store_ok R ?v" "stored ?v (q_root q) (n_id m) = Some m"
    using put_item_ok [OF assms(1) ok] stored_put_item [OF ok] by simp_all
  have t: "n_status m \<in> {HANDLED, ERRORED}" using assms(6) m(3) by simp
  have d: "destination_ok R (step_two_destination q book m)"
    using assms(7) step_two_destination_cong [OF m(2)] m(3) by simp
  obtain w' where w': "dispatch_step_two q m book ?v =
      (if step_two_destination q book m = Unresolved then Inl (DispatchError (n_id m)) else Inr (), w')"
    using dispatch_step_two_effect [OF v(1) assms(2) v(2) t d] by blast
  have "snd (apply_handling_transition q i st book notes rat reason w) = w'"
    using assms(3-6) up w'
    by (auto simp: apply_handling_transition_def ebind_def queue_get_run [OF assms(1,2)]
        terminal_statuses_def)
  moreover have "snd (sweep_session_item q book m rep ?v) = w'"
    using t w' by (auto simp: sweep_session_item_def)
  ultimately show ?thesis using up v(2) id by auto
qed

theorem sweep_completes_handling_witness:
  "\<exists>m v. update_status example_queue (n_id example_item) ERRORED
       (transition_updates ERRORED None None (Some ''no access'')) example_world = (Inr m, v) \<and>
     snd (sweep_session_item example_queue example_book m empty_report v) =
       snd (apply_handling_transition example_queue (n_id example_item) ERRORED example_book None None
         (Some ''no access'') example_world)"
  using sweep_completes_handling [OF example_stored(2) example_dispatch(3,4,5,1) _ example_dispatch(2),
      of example_book empty_report] by blast

text \<open>An item that has come back to a service queue by RSVP, which a drain would give to the
  RSVP handler, is counted by the sweep among the items that should not be there.\<close>

theorem rsvp_arrival_counts_as_misplaced:
  assumes "n_status n = HANDLED \<or> n_status n = ERRORED"
    and "n_rsvp_to n = Some (nq_address nq)" "n_target n \<noteq> nq_address nq"
  shows "classify nq n = Inr RSVP \<and>
    sweep_service_item (nq_queue nq) n rep w =
      (Inr (rep\<lparr>service_misplaced := service_misplaced rep + 1\<rparr>), w)"
  using assms by (auto simp: classify_def sweep_service_item_def)

theorem rsvp_arrival_counts_as_misplaced_witness:
  "sweep_service_item (nq_queue (example_nq\<lparr>nq_address := ServiceAddress ''chat''\<rparr>)) example_handled
     empty_report world_empty = (Inr (empty_report\<lparr>service_misplaced := 1\<rparr>), world_empty)"
  using rsvp_arrival_counts_as_misplaced [of example_handled "example_nq\<lparr>nq_address := ServiceAddress ''chat''\<rparr>"
      empty_report world_empty]
  by (simp add: example_handled_def example_nq_def empty_report_def)

section \<open>Service queues after a sweep\<close>

text \<open>What the sweep makes of one item of a service queue.\<close>

definition service_swept :: "notification \<Rightarrow> notification option" where
  "service_swept n =
     (case n_status n of
        IN_PROGRESS \<Rightarrow> Some (n\<lparr>n_status := PENDING\<rparr>)
      | CONFIRMED \<Rightarrow> None
      | _ \<Rightarrow> Some n)"

definition count_service :: "notification list \<Rightarrow> sweep_report \<Rightarrow> sweep_report" where
  "count_service ns rep = rep\<lparr>
     service_in_progress_reverted := service_in_progress_reverted rep +
       length (filter (\<lambda>n. n_status n = IN_PROGRESS) ns),
     service_confirmed_cleaned := service_confirmed_cleaned rep +
       length (filter (\<lambda>n. n_status n = CONFIRMED) ns),
     service_misplaced := service_misplaced rep +
       length (filter (\<lambda>n. n_status n = HANDLED \<or> n_status n = ERRORED) ns)\<rparr>"

lemma sweep_service_item_effect:
  assumes "store_ok R w" "q_root q \<in> R" "stored w (q_root q) (n_id n) = Some n"
  shows "\<exists>w'. sweep_service_item q n rep w = (Inr (count_service [n] rep), w') \<and> store_ok R w' \<and>
    (\<forall>j. stored w' (q_root q) j = (if j = n_id n then service_swept n else stored w (q_root q) j))"
proof (cases "n_status n")
  case IN_PROGRESS
  let ?m = "n\<lparr>n_status := PENDING\<rparr>"
  have up: "with_updates (Some PENDING) [] n = Inr ?m" by (simp add: with_updates_def)
  have ok: "item_ok ?m"
    using stored_Some(2) [OF assms] by (simp add: item_ok_def valid_notification_def)
  have "update_status q (n_id n) PENDING [] w = (Inr ?m, put_item (q_root q) ?m w)"
    using update_status_run [OF assms up] by simp
  with IN_PROGRESS show ?thesis
    by (simp add: sweep_service_item_def ebind_def count_service_def service_swept_def
        put_item_ok [OF assms(1) ok] stored_put_item [OF ok])
next
  case CONFIRMED
  then show ?thesis
    using queue_delete_run [OF assms] assms(1)
    by (simp add: sweep_service_item_def ebind_def count_service_def service_swept_def
        stored_drop_item drop_item_ok)
qed (use assms in \<open>simp_all add: sweep_service_item_def count_service_def service_swept_def\<close>)

lemma count_service_Cons: "count_service ns (count_service [n] rep) = count_service (n # ns) rep"
  by (cases "n_status n") (simp_all add: count_service_def)

lemma sweep_service_items_effect:
  assumes "store_ok R w" "q_root q \<in> R" "\<forall>n \<in> set ns. stored w (q_root q) (n_id n) = Some n"
    and "distinct (map n_id ns)"
  shows "\<exists>w'. efold (sweep_service_item q) ns rep w = (Inr (count_service ns rep), w') \<and> store_ok R w' \<and>
    (\<forall>n \<in> set ns. stored w' (q_root q) (n_id n) = service_swept n) \<and>
    (\<forall>j. j \<notin> n_id ` set ns \<longrightarrow> stored w' (q_root q) j = stored w (q_root q) j)"
  using assms(1,3,4)
proof (induction ns arbitrary: w rep)
  case Nil
  then show ?case by (simp add: count_service_def)
next
  case (Cons n ns)
  obtain w1 where 1: "sweep_service_item q n rep w = (Inr (count_service [n] rep), w1)" "store_ok R w1"
    "\<forall>j. stored w1 (q_root q) j = (if j = n_id n then service_swept n else stored w (q_root q) j)"
    using sweep_service_item_effect [OF Cons.prems(1) assms(2)] Cons.prems(2) by fastforce
  have "n_id m \<noteq> n_id n" if "m \<in> set ns" for m
    using that by (rule distinct_map_ConsD [OF Cons.prems(3)])
  then have st: "\<forall>m \<in> set ns. stored w1 (q_root q) (n_id m) = Some m" using 1(3) Cons.prems(2) by simp
  have dis: "distinct (map n_id ns)" "n_id n \<notin> n_id ` set ns" using Cons.prems(3) by simp_all
  obtain w2 where 2: "efold (sweep_service_item q) ns (count_service [n] rep) w1 =
      (Inr (count_service ns (count_service [n] rep)), w2)" "store_ok R w2"
    "\<forall>n \<in> set ns. stored w2 (q_root q) (n_id n) = service_swept n"
    "\<forall>j. j \<notin> n_id ` set ns \<longrightarrow> stored w2 (q_root q) j = stored w1 (q_root q) j"
    using Cons.IH [OF 1(2) st dis(1), of "count_service [n] rep"] by blast
  then show ?case using 1 dis(2) by (auto simp: ebind_def count_service_Cons)
qed

text \<open>The sweep of a service queue turns claimed items back to pending, removes confirmed
  ones and leaves every other item as it is, and its counters say how many of each there
  were.\<close>

theorem service_sweep_repairs:
  assumes "store_ok R w" "q_root q \<in> R" "temp_free (q_root q) w" "queue_list q None w = Inr ns"
  shows "\<exists>w'. sweep_service_queue q rep w = (Inr (count_service ns rep), w') \<and> store_ok R w' \<and>
    (\<forall>n \<in> set ns. stored w' (q_root q) (n_id n) = service_swept n) \<and>
    (\<forall>j. j \<notin> n_id ` set ns \<longrightarrow> stored w' (q_root q) j = None)"
proof -
  have l: "distinct (map n_id ns)" "\<forall>n. n \<in> set ns \<longleftrightarrow> stored w (q_root q) (n_id n) = Some n"
    using queue_listing [OF assms(1,2)] assms(4) by auto
  have h: "\<forall>n \<in> set ns. stored w (q_root q) (n_id n) = Some n" using l(2) by blast
  obtain w' where w': "efold (sweep_service_item q) ns rep w = (Inr (count_service ns rep), w')"
    "store_ok R w'" "\<forall>n \<in> set ns. stored w' (q_root q) (n_id n) = service_swept n"
    "\<forall>j. j \<notin> n_id ` set ns \<longrightarrow> stored w' (q_root q) j = stored w (q_root q) j"
    using sweep_service_items_effect [OF assms(1,2) h l(1), of rep] by blast
  have none: "stored w (q_root q) j = None" if "j \<notin> n_id ` set ns" for j
  proof (cases "stored w (q_root q) j")
    case (Some n)
    then have "n_id n = j" by (rule stored_Some(1) [OF assms(1,2)])
    with Some l(2) that show ?thesis by auto
  qed
  have "sweep_service_queue q rep w = (Inr (count_service ns rep), w')"
    using assms(3,4) w'(1)
    by (simp add: sweep_service_queue_def ebind_def cleanup_temp_files_def temp_free_def)
  with w' none show ?thesis by auto
qed

theorem service_sweep_repairs_witness:
  "\<exists>ns w'. sweep_service_queue example_queue empty_report example_crashed =
     (Inr (count_service ns empty_report), w') \<and> queue_list example_queue None example_crashed = Inr ns"
proof -
  obtain ns where ns: "queue_list example_queue None example_crashed = Inr ns"
    using queue_listing [OF example_crashed(1) UNIV_I] by blast
  show ?thesis
    using service_sweep_repairs [OF example_crashed(1) UNIV_I example_crashed(3) ns, of empty_report] ns
    by blast
qed

end
