(* ===== verification/Provider_Health.thy ===== *)
theory Provider_Health
  imports PyString Complex_Main
begin

text \<open>
  The circuit breaker around the model provider
  (\<open>src/thorn/runtime/_provider_health.py\<close>). Times are real numbers in place of floats; the
  clock reading and the random jitter of a call are inputs. A coroutine method holds the lock
  for its whole body, so each of its passes is one step. The wake event is a generation
  number: replacing the event sets the old generation and makes a new one, so generation
  \<open>e\<close> is set when \<open>e < m_event\<close>, and the current one only at the start.
\<close>

datatype health_state = HEALTHY | DEGRADED

record monitor =
  m_threshold :: int
  m_window :: real
  m_base :: real
  m_max :: real
  m_jitter :: real
  m_state :: health_state
  m_failures :: "real list"
  m_cooldown_until :: real
  m_probe_failures :: nat
  m_probe_in_flight :: bool
  m_event :: nat
  m_event_set :: bool

section \<open>Construction and reading\<close>

definition new_monitor :: "int \<Rightarrow> real \<Rightarrow> real \<Rightarrow> real \<Rightarrow> real \<Rightarrow> monitor result" where
  "new_monitor threshold window base maxi jitter =
     (if threshold < 1 then Inl (ValueError ''failure_threshold must be >= 1'')
      else if window \<le> 0 then Inl (ValueError ''failure_window_seconds must be > 0'')
      else if base < 0 then Inl (ValueError ''base_cooldown_seconds must be >= 0'')
      else if maxi < base
      then Inl (ValueError ''max_cooldown_seconds must be >= base_cooldown_seconds'')
      else if jitter < 0 then Inl (ValueError ''cooldown_jitter_seconds must be >= 0'')
      else Inr \<lparr>m_threshold = threshold, m_window = window, m_base = base, m_max = maxi,
                m_jitter = jitter, m_state = HEALTHY, m_failures = [],
                m_cooldown_until = 0, m_probe_failures = 0, m_probe_in_flight = False,
                m_event = 0, m_event_set = True\<rparr>)"

definition is_healthy :: "monitor \<Rightarrow> bool" where
  "is_healthy m \<longleftrightarrow> m_state m = HEALTHY"

record health_snapshot =
  snap_state :: health_state
  snap_failure_count :: nat
  snap_until_probe :: real
  snap_probe_in_flight :: bool
  snap_probe_failures :: nat

definition snapshot :: "real \<Rightarrow> monitor \<Rightarrow> health_snapshot" where
  "snapshot now m =
     \<lparr>snap_state = m_state m, snap_failure_count = length (m_failures m),
      snap_until_probe =
        (if m_state m = HEALTHY then 0 else max 0 (m_cooldown_until m - now)),
      snap_probe_in_flight = m_probe_in_flight m, snap_probe_failures = m_probe_failures m\<rparr>"

section \<open>The gate\<close>

text \<open>One pass of the loop of \<open>wait_until_healthy\<close>: the caller is admitted, as a probe or not,
  or waits for an event, with the time at which it gives up waiting.\<close>

datatype gate_answer = Admit bool | Block nat "real option"

definition gate_check :: "real \<Rightarrow> monitor \<Rightarrow> gate_answer \<times> monitor" where
  "gate_check now m =
     (if m_state m = HEALTHY then (Admit False, m)
      else if \<not> m_probe_in_flight m \<and> m_cooldown_until m \<le> now
      then (Admit True, m\<lparr>m_probe_in_flight := True\<rparr>)
      else (Block (m_event m)
              (if m_probe_in_flight m then None
               else Some (now + max 0 (m_cooldown_until m - now))), m))"

definition event_is_set :: "monitor \<Rightarrow> nat \<Rightarrow> bool" where
  "event_is_set m e \<longleftrightarrow> e < m_event m \<or> e = m_event m \<and> m_event_set m"

definition replace_wake_event :: "monitor \<Rightarrow> monitor" where
  "replace_wake_event m = m\<lparr>m_event := m_event m + 1, m_event_set := False\<rparr>"

section \<open>Reports\<close>

definition evict_failures :: "real \<Rightarrow> monitor \<Rightarrow> monitor" where
  "evict_failures cutoff m = m\<lparr>m_failures := dropWhile (\<lambda>t. t < cutoff) (m_failures m)\<rparr>"

text \<open>\<open>base * (2 ** attempt)\<close> converts the integer to a float, which raises from
  \<open>2 ** 1024\<close> on.\<close>

definition compute_cooldown :: "nat \<Rightarrow> real \<Rightarrow> monitor \<Rightarrow> real result" where
  "compute_cooldown attempt jitter m =
     (if 1024 \<le> attempt then Inl (OverflowError ''int too large to convert to float'')
      else Inr (max 0 (min (m_base m * 2 ^ attempt) (m_max m)) +
                (if 0 < m_jitter m then jitter else 0)))"

definition report_success :: "(monitor, unit) eff" where
  "report_success = eupdate (\<lambda>m.
     replace_wake_event
       (let m1 = m\<lparr>m_failures := [], m_probe_in_flight := False\<rparr> in
          if m_state m = DEGRADED
          then m1\<lparr>m_state := HEALTHY, m_probe_failures := 0, m_cooldown_until := 0\<rparr>
          else m1))"

definition note_failure :: "real \<Rightarrow> monitor \<Rightarrow> monitor" where
  "note_failure now m =
     (evict_failures (now - m_window m) (m\<lparr>m_failures := m_failures m @ [now]\<rparr>))
       \<lparr>m_probe_in_flight := False\<rparr>"

definition report_failure :: "real \<Rightarrow> real \<Rightarrow> (monitor, unit) eff" where
  "report_failure now jitter m =
     (let m1 = note_failure now m in
        if m_state m = HEALTHY then
          (if m_threshold m \<le> int (length (m_failures m1)) then
             (let m2 = m1\<lparr>m_state := DEGRADED, m_probe_failures := 0\<rparr> in
                ebind (elift (compute_cooldown 0 jitter m2))
                  (\<lambda>c. eupdate (\<lambda>m. replace_wake_event (m\<lparr>m_cooldown_until := now + c\<rparr>))) m2)
           else (Inr (), replace_wake_event m1))
        else
          (let m2 = m1\<lparr>m_probe_failures := m_probe_failures m + 1\<rparr> in
             ebind (elift (compute_cooldown (m_probe_failures m2) jitter m2))
               (\<lambda>c. eupdate (\<lambda>m. replace_wake_event (m\<lparr>m_cooldown_until := now + c\<rparr>))) m2))"

section \<open>Sessions at the gate\<close>

text \<open>
  The sessions that share a monitor: one is idle, waits at the gate, or runs a round, as a
  probe or not. A round ends by a report of success or failure, or without a report (another
  exception, or cancellation).
\<close>

datatype gate_session = Idle | Waiting nat "real option" | Running bool

record gate_system =
  g_monitor :: monitor
  g_now :: real
  g_sessions :: "nat \<Rightarrow> gate_session"

definition pass_gate :: "nat \<Rightarrow> gate_system \<Rightarrow> gate_system" where
  "pass_gate i g =
     (case gate_check (g_now g) (g_monitor g) of
        (Admit p, m) \<Rightarrow> g\<lparr>g_monitor := m, g_sessions := (g_sessions g)(i := Running p)\<rparr>
      | (Block e d, m) \<Rightarrow> g\<lparr>g_monitor := m, g_sessions := (g_sessions g)(i := Waiting e d)\<rparr>)"

definition may_resume :: "gate_system \<Rightarrow> nat \<Rightarrow> bool" where
  "may_resume g i \<longleftrightarrow>
     (case g_sessions g i of
        Waiting e d \<Rightarrow> event_is_set (g_monitor g) e \<or>
          (case d of None \<Rightarrow> False | Some t \<Rightarrow> t \<le> g_now g)
      | _ \<Rightarrow> False)"

definition end_round :: "nat \<Rightarrow> monitor \<Rightarrow> gate_system \<Rightarrow> gate_system" where
  "end_round i m g = g\<lparr>g_monitor := m, g_sessions := (g_sessions g)(i := Idle)\<rparr>"

datatype gate_action =
    Enter nat | Resume nat | GiveUp nat | Succeed nat | Fail nat real | NoReport nat | Tick real

inductive gate_step :: "gate_system \<Rightarrow> gate_action \<Rightarrow> gate_system \<Rightarrow> bool" where
  enter: "g_sessions g i = Idle \<Longrightarrow> gate_step g (Enter i) (pass_gate i g)"
| resume: "may_resume g i \<Longrightarrow> gate_step g (Resume i) (pass_gate i g)"
| give_up: "g_sessions g i = Waiting e d \<Longrightarrow> gate_step g (GiveUp i) (end_round i (g_monitor g) g)"
| succeed: "g_sessions g i = Running p \<Longrightarrow>
    gate_step g (Succeed i) (end_round i (snd (report_success (g_monitor g))) g)"
| failed: "g_sessions g i = Running p \<Longrightarrow> 0 \<le> j \<Longrightarrow> j \<le> m_jitter (g_monitor g) \<Longrightarrow>
    gate_step g (Fail i j) (end_round i (snd (report_failure (g_now g) j (g_monitor g))) g)"
| no_report: "g_sessions g i = Running p \<Longrightarrow>
    gate_step g (NoReport i) (end_round i (g_monitor g) g)"
| tick: "0 \<le> t \<Longrightarrow> gate_step g (Tick t) (g\<lparr>g_now := g_now g + t\<rparr>)"

inductive_cases gate_stepE: "gate_step g a g'"

inductive gate_run :: "gate_system \<Rightarrow> gate_action list \<Rightarrow> gate_system \<Rightarrow> bool" where
  run_nil: "gate_run g [] g"
| run_step: "gate_run g as h \<Longrightarrow> gate_step h a k \<Longrightarrow> gate_run g (as @ [a]) k"

text \<open>The same steps as a function of the action, for evaluating a schedule.\<close>

fun gate_exec :: "gate_system \<Rightarrow> gate_action \<Rightarrow> gate_system option" where
  "gate_exec g (Enter i) = (if g_sessions g i = Idle then Some (pass_gate i g) else None)"
| "gate_exec g (Resume i) = (if may_resume g i then Some (pass_gate i g) else None)"
| "gate_exec g (GiveUp i) =
     (case g_sessions g i of Waiting e d \<Rightarrow> Some (end_round i (g_monitor g) g) | _ \<Rightarrow> None)"
| "gate_exec g (Succeed i) =
     (case g_sessions g i of
        Running p \<Rightarrow> Some (end_round i (snd (report_success (g_monitor g))) g) | _ \<Rightarrow> None)"
| "gate_exec g (Fail i j) =
     (case g_sessions g i of
        Running p \<Rightarrow>
          (if 0 \<le> j \<and> j \<le> m_jitter (g_monitor g)
           then Some (end_round i (snd (report_failure (g_now g) j (g_monitor g))) g) else None)
      | _ \<Rightarrow> None)"
| "gate_exec g (NoReport i) =
     (case g_sessions g i of Running p \<Rightarrow> Some (end_round i (g_monitor g) g) | _ \<Rightarrow> None)"
| "gate_exec g (Tick t) = (if 0 \<le> t then Some (g\<lparr>g_now := g_now g + t\<rparr>) else None)"

fun gate_schedule :: "gate_system \<Rightarrow> gate_action list \<Rightarrow> gate_system option" where
  "gate_schedule g [] = Some g"
| "gate_schedule g (a # as) =
     (case gate_exec g a of None \<Rightarrow> None | Some h \<Rightarrow> gate_schedule h as)"

lemma gate_step_iff_exec: "gate_step g a h \<longleftrightarrow> gate_exec g a = Some h"
proof
  show "gate_step g a h \<Longrightarrow> gate_exec g a = Some h" by (cases rule: gate_step.cases) auto
  show "gate_exec g a = Some h \<Longrightarrow> gate_step g a h"
    by (cases a) (auto intro: gate_step.intros split: if_splits gate_session.splits)
qed

lemma gate_run_cons: "gate_run h as k \<Longrightarrow> gate_step g a h \<Longrightarrow> gate_run g (a # as) k"
proof (induction rule: gate_run.induct)
  case (run_nil h)
  then show ?case using gate_run.run_step [OF gate_run.run_nil, of g a h] by simp
next
  case (run_step h as l b k)
  then show ?case using gate_run.run_step [of g "a # as" l b k] by simp
qed

lemma gate_schedule_run: "gate_schedule g as = Some g' \<Longrightarrow> gate_run g as g'"
proof (induction as arbitrary: g)
  case Nil
  then show ?case by (simp add: run_nil)
next
  case (Cons a as)
  then obtain h where h: "gate_exec g a = Some h" "gate_schedule h as = Some g'"
    by (auto split: option.splits)
  show ?case
    by (rule gate_run_cons [OF Cons.IH [OF h(2)]]) (simp add: gate_step_iff_exec h(1))
qed

definition gate_start :: "monitor \<Rightarrow> gate_system" where
  "gate_start m = \<lparr>g_monitor = m, g_now = 0, g_sessions = (\<lambda>_. Idle)\<rparr>"

section \<open>The invariant of the shared monitor\<close>

definition monitor_ok :: "monitor \<Rightarrow> bool" where
  "monitor_ok m \<longleftrightarrow>
     1 \<le> m_threshold m \<and> 0 < m_window m \<and> 0 \<le> m_base m \<and> m_base m \<le> m_max m \<and> 0 \<le> m_jitter m \<and>
     (m_probe_in_flight m \<longrightarrow> m_state m = DEGRADED) \<and> (m_event_set m \<longrightarrow> m_state m = HEALTHY) \<and>
     (m_state m = HEALTHY \<longrightarrow> int (length (m_failures m)) < m_threshold m)"

definition waiter_ok :: "monitor \<Rightarrow> nat \<Rightarrow> real option \<Rightarrow> bool" where
  "waiter_ok m e d \<longleftrightarrow> e \<le> m_event m \<and>
     (e = m_event m \<longrightarrow> m_state m = DEGRADED \<and>
        (case d of
           None \<Rightarrow> m_probe_in_flight m \<or> 1024 \<le> m_probe_failures m
         | Some t \<Rightarrow> t \<le> m_cooldown_until m))"

definition gate_ok :: "gate_system \<Rightarrow> bool" where
  "gate_ok g \<longleftrightarrow> monitor_ok (g_monitor g) \<and>
     (m_state (g_monitor g) = DEGRADED \<longrightarrow>
        m_cooldown_until (g_monitor g) \<le> g_now g + m_max (g_monitor g) + m_jitter (g_monitor g)) \<and>
     (\<forall>i e d. g_sessions g i = Waiting e d \<longrightarrow> waiter_ok (g_monitor g) e d)"

lemma new_monitor_ok: "new_monitor k w b x j = Inr m \<Longrightarrow> monitor_ok m"
  by (auto simp: new_monitor_def monitor_ok_def split: if_splits)

lemma gate_start_ok:
  "new_monitor k w b x j = Inr m \<Longrightarrow> gate_ok (gate_start m)"
  using new_monitor_ok [of k w b x j m]
  by (auto simp: gate_ok_def gate_start_def new_monitor_def split: if_splits)

lemma gate_check_ok:
  assumes "monitor_ok m" "gate_check now m = (a, m')"
  shows "monitor_ok m' \<and> m' = m\<lparr>m_probe_in_flight := m_probe_in_flight m'\<rparr> \<and>
    (m_probe_in_flight m \<longrightarrow> m_probe_in_flight m') \<and>
    (case a of Block e d \<Rightarrow> waiter_ok m' e d | Admit _ \<Rightarrow> True)"
proof (cases "m_state m")
  case HEALTHY
  with assms show ?thesis by (auto simp: gate_check_def)
next
  case DEGRADED
  with assms show ?thesis
    by (auto simp: gate_check_def monitor_ok_def waiter_ok_def max_def split: if_splits)
qed

lemma waiter_ok_mono:
  "waiter_ok m e d \<Longrightarrow> m' = m\<lparr>m_probe_in_flight := b\<rparr> \<Longrightarrow> (m_probe_in_flight m \<longrightarrow> b) \<Longrightarrow>
     waiter_ok m' e d"
  by (auto simp: waiter_ok_def split: option.splits)

lemma pass_gate_ok:
  assumes "gate_ok g"
  shows "gate_ok (pass_gate i g)"
proof -
  let ?m = "g_monitor g"
  obtain a m' where c: "gate_check (g_now g) ?m = (a, m')" by (cases "gate_check (g_now g) ?m")
  have ok: "monitor_ok ?m" using assms by (simp add: gate_ok_def)
  note r = gate_check_ok [OF ok c]
  have old: "waiter_ok m' e d" if "g_sessions g j = Waiting e d" for j e d
    using assms that r waiter_ok_mono [of ?m e d m' "m_probe_in_flight m'"] by (auto simp: gate_ok_def)
  have same: "m_state m' = m_state ?m" "m_cooldown_until m' = m_cooldown_until ?m"
    "m_max m' = m_max ?m" "m_jitter m' = m_jitter ?m"
    using r by (metis monitor.ext_inject monitor.surjective monitor.update_convs(10))+
  show ?thesis
  proof (cases a)
    case (Admit p)
    then show ?thesis using assms r old same c by (auto simp: gate_ok_def pass_gate_def)
  next
    case (Block e d)
    then show ?thesis using assms r old same c by (auto simp: gate_ok_def pass_gate_def)
  qed
qed

lemma compute_cooldown_bounds:
  assumes "monitor_ok m" "compute_cooldown k j m = Inr c" "0 \<le> j" "j \<le> m_jitter m"
  shows "min (m_base m * 2 ^ k) (m_max m) \<le> c \<and> c \<le> m_max m + m_jitter m \<and> k < 1024 \<and> 0 \<le> c"
  using assms by (auto simp: compute_cooldown_def monitor_ok_def split: if_splits)

lemma compute_cooldown_params [simp]:
  "compute_cooldown k j (note_failure now m) = compute_cooldown k j m"
  "compute_cooldown k j (m\<lparr>m_state := s, m_probe_failures := f\<rparr>) = compute_cooldown k j m"
  "compute_cooldown k j (m\<lparr>m_probe_failures := f\<rparr>) = compute_cooldown k j m"
  "compute_cooldown k j (m\<lparr>m_state := s\<rparr>) = compute_cooldown k j m"
  by (simp_all add: compute_cooldown_def note_failure_def evict_failures_def)

lemma note_failure_simps [simp]:
  "m_threshold (note_failure now m) = m_threshold m" "m_window (note_failure now m) = m_window m"
  "m_base (note_failure now m) = m_base m" "m_max (note_failure now m) = m_max m"
  "m_jitter (note_failure now m) = m_jitter m" "m_state (note_failure now m) = m_state m"
  "m_cooldown_until (note_failure now m) = m_cooldown_until m"
  "m_probe_failures (note_failure now m) = m_probe_failures m"
  "m_probe_in_flight (note_failure now m) = False" "m_event (note_failure now m) = m_event m"
  "m_event_set (note_failure now m) = m_event_set m"
  "m_failures (note_failure now m) = dropWhile (\<lambda>t. t < now - m_window m) (m_failures m @ [now])"
  by (simp_all add: note_failure_def evict_failures_def)

text \<open>The branches of a reported failure: below the threshold, the trip, a longer cooldown, and
  the overflow of the exponential.\<close>

lemma report_failure_cases:
  assumes "monitor_ok m" "0 \<le> j" "j \<le> m_jitter m"
  obtains
    (counted) "m_state m = HEALTHY" "int (length (m_failures (note_failure now m))) < m_threshold m"
      "report_failure now j m = (Inr (), replace_wake_event (note_failure now m))"
  | (tripped) c where "m_state m = HEALTHY"
      "m_threshold m \<le> int (length (m_failures (note_failure now m)))"
      "min (m_base m) (m_max m) \<le> c" "c \<le> m_max m + m_jitter m"
      "report_failure now j m = (Inr (), replace_wake_event ((note_failure now m)
         \<lparr>m_state := DEGRADED, m_probe_failures := 0, m_cooldown_until := now + c\<rparr>))"
  | (extended) c where "m_state m = DEGRADED" "m_probe_failures m + 1 < 1024"
      "min (m_base m * 2 ^ (m_probe_failures m + 1)) (m_max m) \<le> c" "c \<le> m_max m + m_jitter m"
      "report_failure now j m = (Inr (), replace_wake_event ((note_failure now m)
         \<lparr>m_probe_failures := m_probe_failures m + 1, m_cooldown_until := now + c\<rparr>))"
  | (overflow) "m_state m = DEGRADED" "1024 \<le> m_probe_failures m + 1"
      "report_failure now j m = (Inl (OverflowError ''int too large to convert to float''),
         (note_failure now m)\<lparr>m_probe_failures := m_probe_failures m + 1\<rparr>)"
proof (cases "m_state m")
  case HEALTHY
  show thesis
  proof (cases "m_threshold m \<le> int (length (m_failures (note_failure now m)))")
    case True
    obtain c where c: "compute_cooldown 0 j m = Inr c" by (simp add: compute_cooldown_def)
    with HEALTHY True have run: "report_failure now j m = (Inr (), replace_wake_event ((note_failure now m)
         \<lparr>m_state := DEGRADED, m_probe_failures := 0, m_cooldown_until := now + c\<rparr>))"
      by (simp add: report_failure_def Let_def ebind_def)
    show thesis
      using tripped [OF HEALTHY True _ _ run] compute_cooldown_bounds [OF assms(1) c assms(2,3)] by simp
  next
    case False
    with HEALTHY counted show thesis by (simp add: report_failure_def Let_def)
  qed
next
  case DEGRADED
  show thesis
  proof (cases "m_probe_failures m + 1 < 1024")
    case True
    then obtain c where c: "compute_cooldown (m_probe_failures m + 1) j m = Inr c"
      by (simp add: compute_cooldown_def)
    with DEGRADED have run: "report_failure now j m = (Inr (), replace_wake_event ((note_failure now m)
         \<lparr>m_probe_failures := m_probe_failures m + 1, m_cooldown_until := now + c\<rparr>))"
      by (simp add: report_failure_def Let_def ebind_def)
    show thesis
      using extended [OF DEGRADED True _ _ run] compute_cooldown_bounds [OF assms(1) c assms(2,3)]
      by simp
  next
    case False
    then have "compute_cooldown (m_probe_failures m + 1) j m =
        Inl (OverflowError ''int too large to convert to float'')"
      by (simp add: compute_cooldown_def)
    with DEGRADED have "report_failure now j m = (Inl (OverflowError ''int too large to convert to float''),
         (note_failure now m)\<lparr>m_probe_failures := m_probe_failures m + 1\<rparr>)"
      by (simp add: report_failure_def Let_def ebind_def)
    with overflow DEGRADED False show thesis by simp
  qed
qed

lemma end_round_ok:
  assumes "gate_ok g" "monitor_ok m" "m_max m = m_max (g_monitor g)" "m_jitter m = m_jitter (g_monitor g)"
    and "m_state m = DEGRADED \<Longrightarrow> m_cooldown_until m \<le> g_now g + m_max m + m_jitter m"
    and "\<And>e d. waiter_ok (g_monitor g) e d \<Longrightarrow> waiter_ok m e d"
  shows "gate_ok (end_round i m g)"
  using assms by (auto simp: gate_ok_def end_round_def split: if_splits)

lemma report_success_run:
  "report_success m = (Inr (), m\<lparr>m_failures := [], m_probe_in_flight := False, m_state := HEALTHY,
     m_probe_failures := (if m_state m = DEGRADED then 0 else m_probe_failures m),
     m_cooldown_until := (if m_state m = DEGRADED then 0 else m_cooldown_until m),
     m_event := m_event m + 1, m_event_set := False\<rparr>)"
  by (cases "m_state m") (simp_all add: report_success_def replace_wake_event_def)

lemma report_success_ok:
  assumes "gate_ok g"
  shows "gate_ok (end_round i (snd (report_success (g_monitor g))) g)"
  using assms
  by (intro end_round_ok [OF assms]) (simp_all add: report_success_run gate_ok_def monitor_ok_def waiter_ok_def)

lemma report_failure_ok:
  assumes "gate_ok g" "0 \<le> j" "j \<le> m_jitter (g_monitor g)"
  shows "gate_ok (end_round i (snd (report_failure (g_now g) j (g_monitor g))) g)"
proof -
  let ?m = "g_monitor g"
  have ok: "monitor_ok ?m" using assms(1) by (simp add: gate_ok_def)
  from ok assms(2,3) show ?thesis
  proof (cases rule: report_failure_cases [where now = "g_now g"])
    case counted
    then show ?thesis
      using ok by (intro end_round_ok [OF assms(1)])
        (auto simp: monitor_ok_def replace_wake_event_def waiter_ok_def)
  next
    case (tripped c)
    then show ?thesis
      using ok by (intro end_round_ok [OF assms(1)])
        (auto simp: monitor_ok_def replace_wake_event_def waiter_ok_def)
  next
    case (extended c)
    then show ?thesis
      using ok by (intro end_round_ok [OF assms(1)])
        (auto simp: monitor_ok_def replace_wake_event_def waiter_ok_def)
  next
    case overflow
    then show ?thesis
      using ok assms(1) by (intro end_round_ok [OF assms(1)])
        (auto simp: monitor_ok_def waiter_ok_def gate_ok_def split: option.splits)
  qed
qed

lemma end_round_unreported: "gate_ok g \<Longrightarrow> gate_ok (end_round i (g_monitor g) g)"
  by (auto simp: gate_ok_def end_round_def split: if_splits)

lemma gate_tick_ok: "gate_ok g \<Longrightarrow> 0 \<le> t \<Longrightarrow> gate_ok (g\<lparr>g_now := g_now g + t\<rparr>)"
  by (auto simp: gate_ok_def)

lemma gate_step_ok:
  assumes "gate_step g a g'" "gate_ok g"
  shows "gate_ok g'"
  using assms(1)
  by (cases rule: gate_step.cases)
    (simp_all add: assms(2) pass_gate_ok report_success_ok report_failure_ok end_round_unreported
      gate_tick_ok)

lemma gate_run_ok: "gate_run g as g' \<Longrightarrow> gate_ok g \<Longrightarrow> gate_ok g'"
  by (induction rule: gate_run.induct) (auto intro: gate_step_ok)

section \<open>The contract of a circuit breaker\<close>

text \<open>What the sessions rely on: a healthy breaker admits, an unhealthy one admits nobody while
  it is probing and at most starts a probe otherwise, and a success makes it healthy.\<close>

fun arrivals :: "(real \<Rightarrow> 'm \<Rightarrow> gate_answer \<times> 'm) \<Rightarrow> real list \<Rightarrow> 'm \<Rightarrow> gate_answer list" where
  "arrivals ask [] m = []"
| "arrivals ask (t # ts) m = (case ask t m of (a, m') \<Rightarrow> a # arrivals ask ts m')"

fun is_admitted :: "gate_answer \<Rightarrow> bool" where
  "is_admitted (Admit _) = True"
| "is_admitted (Block _ _) = False"

locale circuit_breaker =
  fixes healthy :: "'m \<Rightarrow> bool"
    and probing :: "'m \<Rightarrow> bool"
    and ask :: "real \<Rightarrow> 'm \<Rightarrow> gate_answer \<times> 'm"
    and success :: "'m \<Rightarrow> 'm"
  assumes ask_healthy: "healthy m \<Longrightarrow> ask t m = (Admit False, m)"
    and ask_probing: "\<not> healthy m \<Longrightarrow> probing m \<Longrightarrow> \<exists>e d. ask t m = (Block e d, m)"
    and ask_degraded: "\<not> healthy m \<Longrightarrow> \<not> probing m \<Longrightarrow> (\<exists>e d. ask t m = (Block e d, m)) \<or>
      (\<exists>m'. ask t m = (Admit True, m') \<and> \<not> healthy m' \<and> probing m')"
    and success_healthy: "healthy (success m)"
begin

lemma probing_admits_nobody:
  "\<not> healthy m \<Longrightarrow> probing m \<Longrightarrow> filter is_admitted (arrivals ask ts m) = []"
proof (induction ts)
  case (Cons t ts)
  then obtain e d where "ask t m = (Block e d, m)" using ask_probing by blast
  with Cons show ?case by simp
qed simp

lemma degraded_admits_one:
  "\<not> healthy m \<Longrightarrow> length (filter is_admitted (arrivals ask ts m)) \<le> 1"
proof (induction ts)
  case (Cons t ts)
  show ?case
  proof (cases "probing m")
    case True
    then show ?thesis using probing_admits_nobody [OF Cons.prems True, of "t # ts"] by simp
  next
    case False
    from ask_degraded [OF Cons.prems False, of t] show ?thesis
    proof (elim disjE exE conjE)
      fix e d assume "ask t m = (Block e d, m)"
      with Cons show ?thesis by simp
    next
      fix m' assume "ask t m = (Admit True, m')" "\<not> healthy m'" "probing m'"
      then show ?thesis using probing_admits_nobody [of m' ts] by simp
    qed
  qed
qed simp

lemma success_admits_all: "arrivals ask ts (success m) = map (\<lambda>_. Admit False) ts"
proof -
  have "healthy k \<Longrightarrow> arrivals ask ts k = map (\<lambda>_. Admit False) ts" for k
    by (induction ts) (simp_all add: ask_healthy)
  then show ?thesis using success_healthy by blast
qed

end

interpretation breaker: circuit_breaker is_healthy m_probe_in_flight gate_check
  "\<lambda>m. snd (report_success m)"
proof unfold_locales
  show "is_healthy m \<Longrightarrow> gate_check t m = (Admit False, m)" for m t
    by (simp add: is_healthy_def gate_check_def)
  show "\<not> is_healthy m \<Longrightarrow> m_probe_in_flight m \<Longrightarrow> \<exists>e d. gate_check t m = (Block e d, m)" for m t
    by (simp add: is_healthy_def gate_check_def)
  show "\<not> is_healthy m \<Longrightarrow> \<not> m_probe_in_flight m \<Longrightarrow> (\<exists>e d. gate_check t m = (Block e d, m)) \<or>
      (\<exists>m'. gate_check t m = (Admit True, m') \<and> \<not> is_healthy m' \<and> m_probe_in_flight m')" for m t
    by (simp add: is_healthy_def gate_check_def)
  show "is_healthy (snd (report_success m))" for m
    by (simp add: is_healthy_def report_success_run)
qed

section \<open>Properties\<close>

text \<open>Of any number of sessions that ask one after the other while the provider is degraded
  and nothing is reported, at most one is admitted; after a reported success all are.\<close>

theorem degraded_gate_admits_one_probe:
  assumes "m_state m = DEGRADED"
  shows "length (filter is_admitted (arrivals gate_check ts m)) \<le> 1 \<and>
    arrivals gate_check us (snd (report_success m)) = map (\<lambda>_. Admit False) us"
  using breaker.degraded_admits_one [of m ts] breaker.success_admits_all [of us m] assms
  by (simp add: is_healthy_def)

definition example_monitor :: monitor where
  "example_monitor = \<lparr>m_threshold = 1, m_window = 120, m_base = 30, m_max = 300, m_jitter = 0,
     m_state = HEALTHY, m_failures = [], m_cooldown_until = 0, m_probe_failures = 0,
     m_probe_in_flight = False, m_event = 0, m_event_set = True\<rparr>"

lemma example_monitor: "new_monitor 1 120 30 300 0 = Inr example_monitor"
  by (simp add: new_monitor_def example_monitor_def)

lemma example_tripped:
  "snd (report_failure t 0 example_monitor) = example_monitor\<lparr>m_failures := [t], m_state := DEGRADED,
     m_cooldown_until := t + 30, m_event := 1, m_event_set := False\<rparr>"
  by (simp add: report_failure_def example_monitor_def note_failure_def evict_failures_def
      compute_cooldown_def replace_wake_event_def)

theorem degraded_gate_admits_one_probe_witness:
  "length (filter is_admitted (arrivals gate_check [0, 40, 50] (snd (report_failure 0 0 example_monitor)))) \<le> 1"
  using degraded_gate_admits_one_probe [of "snd (report_failure 0 0 example_monitor)" "[0, 40, 50]" "[]"]
  by (simp add: example_tripped)

text \<open>No wake-up is lost: in every reachable state a session that waits at the gate can go
  on as soon as no probe is in flight and the cooldown is over, which is at most the maximal
  cooldown plus the jitter away, and it is then admitted.\<close>

theorem waiting_session_is_admitted:
  assumes "new_monitor k w b x j = Inr m" "gate_run (gate_start m) as g"
    and "g_sessions g i = Waiting e d" "\<not> m_probe_in_flight (g_monitor g)"
    and "m_probe_failures (g_monitor g) < 1024"
  shows "\<exists>t p g'. 0 \<le> t \<and> t \<le> m_max (g_monitor g) + m_jitter (g_monitor g) \<and>
    gate_run g [Tick t, Resume i] g' \<and> g_sessions g' i = Running p"
proof -
  let ?m = "g_monitor g"
  have ok: "gate_ok g" using gate_run_ok [OF assms(2)] gate_start_ok [OF assms(1)] by blast
  then have w: "waiter_ok ?m e d" and m: "monitor_ok ?m" using assms(3) by (simp_all add: gate_ok_def)
  define t where "t = (if m_state ?m = DEGRADED then max 0 (m_cooldown_until ?m - g_now g) else 0)"
  have t: "0 \<le> t" "t \<le> m_max ?m + m_jitter ?m"
    using ok m by (auto simp: t_def gate_ok_def monitor_ok_def)
  let ?h = "g\<lparr>g_now := g_now g + t\<rparr>"
  have resume: "may_resume ?h i"
    using w assms(3-5) by (auto simp: may_resume_def waiter_ok_def event_is_set_def t_def
        split: option.splits)
  have "\<exists>p. g_sessions (pass_gate i ?h) i = Running p"
  proof (cases "m_state ?m")
    case HEALTHY
    then have "g_sessions (pass_gate i ?h) i = Running False" by (simp add: pass_gate_def gate_check_def)
    then show ?thesis by blast
  next
    case DEGRADED
    then have "m_cooldown_until ?m \<le> g_now g + t" by (simp add: t_def)
    with DEGRADED assms(4) have "g_sessions (pass_gate i ?h) i = Running True"
      by (simp add: pass_gate_def gate_check_def)
    then show ?thesis by blast
  qed
  moreover have "gate_run g [Tick t, Resume i] (pass_gate i ?h)"
    using run_step [OF run_step [OF run_nil tick [OF t(1)]] gate_step.resume [OF resume]] by simp
  ultimately show ?thesis using t by blast
qed

text \<open>One session fails and comes back: it waits for the end of the cooldown.\<close>

lemma example_waiting:
  "\<exists>g. gate_schedule (gate_start example_monitor) [Enter 0, Fail 0 0, Enter 0] = Some g \<and>
     g_sessions g 0 = Waiting 1 (Some 30) \<and>
     g_monitor g = snd (report_failure 0 0 example_monitor)"
  by (simp add: gate_start_def pass_gate_def gate_check_def end_round_def example_tripped)
    (simp add: example_monitor_def)

theorem waiting_session_is_admitted_witness:
  "\<exists>g t p g'. gate_run (gate_start example_monitor) [Enter 0, Fail 0 0, Enter 0] g \<and> t \<le> 300 \<and>
     gate_run g [Tick t, Resume 0] g' \<and> g_sessions g' 0 = Running p"
proof -
  obtain g where s: "gate_schedule (gate_start example_monitor) [Enter 0, Fail 0 0, Enter 0] = Some g"
    and w: "g_sessions g 0 = Waiting 1 (Some 30)"
    and m: "g_monitor g = snd (report_failure 0 0 example_monitor)"
    using example_waiting by blast
  have r: "gate_run (gate_start example_monitor) [Enter 0, Fail 0 0, Enter 0] g"
    by (rule gate_schedule_run [OF s])
  have "\<not> m_probe_in_flight (g_monitor g)" "m_probe_failures (g_monitor g) < 1024"
    "m_max (g_monitor g) + m_jitter (g_monitor g) = 300"
    by (simp_all add: m example_tripped) (simp_all add: example_monitor_def)
  with waiting_session_is_admitted [OF example_monitor r w] r show ?thesis by metis
qed

text \<open>The slot of a probe that ends without a report is never given back: once no session is
  running and the slot is taken, no session is ever admitted again, whatever happens.\<close>

theorem unreported_probe_blocks_everyone:
  assumes "m_probe_in_flight (g_monitor g)" "m_state (g_monitor g) = DEGRADED"
    and "\<forall>i p. g_sessions g i \<noteq> Running p" "gate_run g as g'"
  shows "m_probe_in_flight (g_monitor g') \<and> (\<forall>i p. g_sessions g' i \<noteq> Running p)"
proof -
  have "m_probe_in_flight (g_monitor g') \<and> m_state (g_monitor g') = DEGRADED \<and>
      (\<forall>i p. g_sessions g' i \<noteq> Running p)"
    using assms(4,1-3)
  proof (induction rule: gate_run.induct)
    case (run_step g as h a k)
    then have h: "m_probe_in_flight (g_monitor h)" "m_state (g_monitor h) = DEGRADED"
      "\<forall>i p. g_sessions h i \<noteq> Running p" by simp_all
    from run_step(2) show ?case
      by (cases rule: gate_step.cases)
        (use h in \<open>auto simp: pass_gate_def gate_check_def end_round_def\<close>)
  qed simp
  then show ?thesis by blast
qed

lemma example_leak:
  "\<exists>g. gate_schedule (gate_start example_monitor)
      [Enter 0, Fail 0 0, Tick 30, Enter 0, NoReport 0] = Some g \<and>
    m_probe_in_flight (g_monitor g) \<and> m_state (g_monitor g) = DEGRADED \<and>
    (\<forall>i. g_sessions g i = Idle)"
  by (simp add: gate_start_def pass_gate_def gate_check_def end_round_def example_tripped)
    (simp add: example_monitor_def)

theorem unreported_probe_blocks_everyone_witness:
  "\<exists>g. gate_run (gate_start example_monitor) [Enter 0, Fail 0 0, Tick 30, Enter 0, NoReport 0] g \<and>
     (\<forall>as g' i p. \<not> (gate_run g as g' \<and> g_sessions g' i = Running p))"
proof -
  obtain g where s: "gate_schedule (gate_start example_monitor)
      [Enter 0, Fail 0 0, Tick 30, Enter 0, NoReport 0] = Some g"
    and m: "m_probe_in_flight (g_monitor g)" "m_state (g_monitor g) = DEGRADED"
    and idle: "\<forall>i. g_sessions g i = Idle"
    using example_leak by blast
  have "\<not> (gate_run g as g' \<and> g_sessions g' i = Running p)" for as g' i p
    using unreported_probe_blocks_everyone [OF m, of as g'] idle by auto
  with gate_schedule_run [OF s] show ?thesis by blast
qed

text \<open>A reported failure on a healthy monitor trips the breaker exactly when the failures of
  the window reach the threshold, and the cooldown it then sets, or a failed probe sets, lies
  between the exponential delay (capped) and the cap plus the jitter; every failed probe doubles
  the delay; only the 1024th failed probe overflows, and it leaves the cooldown as it was and
  wakes nobody.\<close>

theorem failure_report_semantics:
  assumes "monitor_ok m" "0 \<le> j" "j \<le> m_jitter m"
  shows "(case report_failure now j m of (r, m') \<Rightarrow>
    (let recent = dropWhile (\<lambda>t. t < now - m_window m) (m_failures m @ [now]) in
     m_failures m' = recent \<and> \<not> m_probe_in_flight m' \<and>
     (if m_state m = HEALTHY \<and> int (length recent) < m_threshold m
      then r = Inr () \<and> m_state m' = HEALTHY \<and> m_cooldown_until m' = m_cooldown_until m
      else m_state m' = DEGRADED \<and>
        m_probe_failures m' = (if m_state m = HEALTHY then 0 else m_probe_failures m + 1) \<and>
        (if m_probe_failures m' < 1024
         then r = Inr () \<and> m_event m' = m_event m + 1 \<and>
           now + min (m_base m * 2 ^ m_probe_failures m') (m_max m) \<le> m_cooldown_until m' \<and>
           m_cooldown_until m' \<le> now + m_max m + m_jitter m
         else r = Inl (OverflowError ''int too large to convert to float'') \<and>
           m_event m' = m_event m \<and> m_cooldown_until m' = m_cooldown_until m))))"
  using assms
proof (cases rule: report_failure_cases [where now = now])
  case counted
  then show ?thesis by (simp add: replace_wake_event_def Let_def)
next
  case (tripped c)
  then show ?thesis by (simp add: replace_wake_event_def Let_def)
next
  case (extended c)
  then show ?thesis by (simp add: replace_wake_event_def Let_def)
next
  case overflow
  then show ?thesis by (simp add: Let_def)
qed

theorem failure_report_semantics_witness:
  "m_state (snd (report_failure 5 0 example_monitor)) = DEGRADED \<and>
   35 \<le> m_cooldown_until (snd (report_failure 5 0 example_monitor))"
proof -
  obtain r m' where e: "report_failure 5 0 example_monitor = (r, m')" by force
  have "monitor_ok example_monitor" "(0::real) \<le> 0" "0 \<le> m_jitter example_monitor"
    by (simp_all add: monitor_ok_def example_monitor_def)
  from failure_report_semantics [OF this, of 5] e show ?thesis
    by (auto simp: example_monitor_def Let_def)
qed

text \<open>A round admitted while the provider was healthy may report its failure while a probe
  runs; the report frees the slot of that probe, so that after the next cooldown a second probe
  is admitted beside the first one.\<close>

theorem late_failure_admits_second_probe:
  "\<exists>g. gate_run (gate_start example_monitor)
      [Enter 0, Enter 1, Fail 0 0, Tick 30, Enter 2, Fail 1 0, Tick 60, Enter 3] g \<and>
    g_sessions g 2 = Running True \<and> g_sessions g 3 = Running True"
proof -
  have "\<exists>g. gate_schedule (gate_start example_monitor)
      [Enter 0, Enter 1, Fail 0 0, Tick 30, Enter 2, Fail 1 0, Tick 60, Enter 3] = Some g \<and>
    g_sessions g 2 = Running True \<and> g_sessions g 3 = Running True"
    by (simp add: gate_start_def pass_gate_def gate_check_def end_round_def example_tripped)
      (simp add: example_monitor_def report_failure_def note_failure_def evict_failures_def
        compute_cooldown_def replace_wake_event_def Let_def ebind_def)
  then show ?thesis using gate_schedule_run by blast
qed

end
