(* ===== verification/Scheduler.thy ===== *)
theory Scheduler
  imports Dispatch Provider_Health
begin

text \<open>
  The scheduler of one agent (\<open>src/thorn/runtime/_scheduler.py\<close>): the rounds of a session
  with their strike counter, and the drivers of the sessions that share the agent's
  concurrency cap. asyncio runs one task at a time and switches only at an \<open>await\<close> that
  blocks, so a step is what a task does between two of them. The dispatcher, the saver and
  the evictor are parameters, as they are in the code; what a dispatcher (and every other
  task meanwhile) does to the inboxes and the monitor is the state it returns.
\<close>

section \<open>A round\<close>

datatype round_outcome =
    Returned
  | ProviderUnavailable int string
  | LoopNoProgress
  | RaisedOther
  | WasCancelled

record outage_note =
  on_recorded_at :: timestamp
  on_attempts :: int
  on_reason :: string
  on_health :: "health_snapshot option"

text \<open>What a round works on: the stored notifications, the shared monitor, the strike counter of
  the driver, and the entry \<open>provider_unavailable\<close> of the session's metadata.\<close>

record turn =
  t_world :: world
  t_monitor :: "monitor option"
  t_stall :: nat
  t_note :: "outage_note option"

type_synonym evictor = "durable_queue \<Rightarrow> (turn, unit) eff"

record sched_config =
  sc_strikes :: nat
  sc_evictor :: "evictor option"
  sc_save :: "(outage_note option \<Rightarrow> (world, unit) eff) option"

definition pending_ids :: "durable_queue \<Rightarrow> world \<Rightarrow> string set result" where
  "pending_ids q w = rbind (prompt_pending q w) (\<lambda>ns. Inr (n_id ` set ns))"

text \<open>The strike counter after the dispatcher, from the identifiers pending before and after.\<close>

definition count_strike :: "nat \<Rightarrow> round_outcome \<Rightarrow> string set \<Rightarrow> string set \<Rightarrow> nat \<Rightarrow> nat" where
  "count_strike strikes outcome before after stall =
     (if before - after \<noteq> {} then 0
      else (case outcome of
          ProviderUnavailable _ _ \<Rightarrow> stall
        | LoopNoProgress \<Rightarrow> max (stall + 1) strikes
        | _ \<Rightarrow> stall + 1))"

text \<open>\<open>except Exception\<close>: logged, unless it is the cancellation.\<close>

definition swallowed :: "('s, unit) eff \<Rightarrow> ('s, bool) eff" where
  "swallowed m s =
     (case m s of
        (Inr _, s') \<Rightarrow> (Inr True, s')
      | (Inl e, s') \<Rightarrow> (if e = CancelledError then (Inl e, s') else (Inr False, s')))"

definition maybe_evict :: "sched_config \<Rightarrow> durable_queue \<Rightarrow> (turn, unit) eff" where
  "maybe_evict cfg q t =
     (case sc_evictor cfg of
        None \<Rightarrow> (Inr (), t)
      | Some ev \<Rightarrow>
          if sc_strikes cfg = 0 \<or> t_stall t < sc_strikes cfg then (Inr (), t)
          else ebind (swallowed (ev q)) (\<lambda>done.
                 if done then eupdate (\<lambda>t. t\<lparr>t_stall := 0\<rparr>) else eret ()) t)"

text \<open>What follows the dispatcher while the slot is still held.\<close>

definition end_dispatch ::
    "sched_config \<Rightarrow> durable_queue \<Rightarrow> round_outcome \<Rightarrow> string set \<Rightarrow> (turn, unit) eff" where
  "end_dispatch cfg q outcome before =
     (if outcome = WasCancelled then eraise CancelledError
      else ebind (eread (\<lambda>t. pending_ids q (t_world t))) (\<lambda>after.
        ebind (eupdate (\<lambda>t. t\<lparr>t_stall :=
            count_strike (sc_strikes cfg) outcome before after (t_stall t)\<rparr>)) (\<lambda>_.
          maybe_evict cfg q)))"

definition save_session :: "sched_config \<Rightarrow> (turn, unit) eff" where
  "save_session cfg t =
     (case sc_save cfg of
        None \<Rightarrow> (Inr (), t)
      | Some save \<Rightarrow>
          (case swallowed (save (t_note t)) (t_world t) of
             (Inl e, w) \<Rightarrow> (Inl e, t\<lparr>t_world := w\<rparr>)
           | (Inr _, w) \<Rightarrow> (Inr (), t\<lparr>t_world := w\<rparr>)))"

record round_clock =
  rc_now :: real
  rc_jitter :: real
  rc_snapshot :: real
  rc_recorded_at :: timestamp

definition report_outcome :: "round_clock \<Rightarrow> round_outcome \<Rightarrow> (turn, unit) eff" where
  "report_outcome c outcome t =
     (case t_monitor t of
        None \<Rightarrow> (Inr (), t)
      | Some m \<Rightarrow>
          (case outcome of
             ProviderUnavailable _ _ \<Rightarrow>
               (case report_failure (rc_now c) (rc_jitter c) m of
                  (r, m') \<Rightarrow> (r, t\<lparr>t_monitor := Some m'\<rparr>))
           | Returned \<Rightarrow>
               (case report_success m of (r, m') \<Rightarrow> (r, t\<lparr>t_monitor := Some m'\<rparr>))
           | _ \<Rightarrow> (Inr (), t)))"

definition clear_note :: "turn \<Rightarrow> turn" where
  "clear_note t = t\<lparr>t_note := None\<rparr>"

definition record_note :: "round_clock \<Rightarrow> int \<Rightarrow> string \<Rightarrow> turn \<Rightarrow> turn" where
  "record_note c attempts reason t =
     t\<lparr>t_note := Some \<lparr>on_recorded_at = rc_recorded_at c, on_attempts = attempts,
         on_reason = reason, on_health = map_option (snapshot (rc_snapshot c)) (t_monitor t)\<rparr>\<rparr>"

text \<open>What follows after the slot is released: the metadata, the saver, and the report.\<close>

definition wrap_up :: "sched_config \<Rightarrow> round_clock \<Rightarrow> round_outcome \<Rightarrow> (turn, unit) eff" where
  "wrap_up cfg c outcome =
     ebind (if outcome = Returned
            then ebind (eupdate clear_note) (\<lambda>_. save_session cfg) else eret ()) (\<lambda>_.
     ebind (report_outcome c outcome) (\<lambda>_.
       case outcome of
         ProviderUnavailable attempts reason \<Rightarrow>
           ebind (eupdate (record_note c attempts reason)) (\<lambda>_. save_session cfg)
       | _ \<Rightarrow> eret ()))"

text \<open>The body of the semaphore block, when no other task interferes but through the dispatcher.\<close>

type_synonym dispatcher = "world \<Rightarrow> monitor option \<Rightarrow> round_outcome \<times> world \<times> monitor option"

definition dispatch_round ::
    "sched_config \<Rightarrow> durable_queue \<Rightarrow> dispatcher \<Rightarrow> (turn, round_outcome) eff" where
  "dispatch_round cfg q disp =
     ebind (eread (\<lambda>t. pending_ids q (t_world t))) (\<lambda>before t.
       (case disp (t_world t) (t_monitor t) of
          (outcome, w, m) \<Rightarrow>
            ebind (end_dispatch cfg q outcome before) (\<lambda>_. eret outcome)
              (t\<lparr>t_world := w, t_monitor := m\<rparr>)))"

text \<open>The whole round, with the gate before it: it returns nothing while the gate blocks.\<close>

definition pass_monitor :: "real \<Rightarrow> monitor option \<Rightarrow> monitor option option" where
  "pass_monitor now mo =
     (case mo of
        None \<Rightarrow> Some None
      | Some m \<Rightarrow> (case gate_check now m of
          (Admit _, m') \<Rightarrow> Some (Some m') | (Block _ _, _) \<Rightarrow> None))"

definition run_one_round ::
    "sched_config \<Rightarrow> durable_queue \<Rightarrow> dispatcher \<Rightarrow> round_clock \<Rightarrow> (turn, round_outcome option) eff" where
  "run_one_round cfg q disp c t =
     (case pass_monitor (rc_now c) (t_monitor t) of
        None \<Rightarrow> (Inr None, t)
      | Some mo \<Rightarrow>
          ebind (dispatch_round cfg q disp) (\<lambda>outcome.
            ebind (wrap_up cfg c outcome) (\<lambda>_. eret (Some outcome))) (t\<lparr>t_monitor := mo\<rparr>))"

text \<open>The loop of a driver nobody stops, for as many rounds as there are dispatcher calls.\<close>

fun drain_rounds ::
    "sched_config \<Rightarrow> durable_queue \<Rightarrow> (dispatcher \<times> round_clock) list \<Rightarrow> (turn, unit) eff" where
  "drain_rounds cfg q [] = eret ()"
| "drain_rounds cfg q ((disp, c) # ds) =
     ebind (eread (\<lambda>t. prompt_pending q (t_world t))) (\<lambda>pending.
       if pending = [] then eret ()
       else ebind (run_one_round cfg q disp c) (\<lambda>_. drain_rounds cfg q ds))"

section \<open>The default evictor\<close>

definition eviction_reason :: string where
  "eviction_reason =
     ''Evicted by progress guarantee: this session did not close out any '' @
     ''inbox items across multiple prompt rounds.''"

text \<open>The flag says whether the evictor was built with the shared monitor.\<close>

definition default_progress_evictor :: "book \<Rightarrow> bool \<Rightarrow> evictor" where
  "default_progress_evictor book watched q t =
     (if watched \<and> (\<exists>m. t_monitor t = Some m \<and> \<not> is_healthy m) then (Inr (), t)
      else (case prompt_pending q (t_world t) of
          Inl e \<Rightarrow> (Inl e, t)
        | Inr [] \<Rightarrow> (Inr (), t)
        | Inr (oldest # _) \<Rightarrow>
            (case apply_handling_transition q (n_id oldest) ERRORED book None None
                (Some eviction_reason) (t_world t) of
               (Inr _, w) \<Rightarrow> (Inr (), t\<lparr>t_world := w\<rparr>)
             | (Inl (DispatchError _), w) \<Rightarrow> (Inr (), t\<lparr>t_world := w\<rparr>)
             | (Inl e, w) \<Rightarrow> (Inl e, t\<lparr>t_world := w\<rparr>))))"

section \<open>Drivers\<close>

text \<open>
  Where the task of a driver is: not yet (or again) at the top of the loop, in the yield at
  its start, asleep on the wake event, at the gate of the monitor, in the queue for a slot of
  the agent, in the dispatcher, after it, in the backoff of an outage, or ended (returned,
  crashed or cancelled).
\<close>

datatype phase =
    AtTop
  | Yielding
  | Asleep
  | AtGate
  | WantsSlot
  | Prompting "string set"
  | WrappingUp round_outcome
  | BackingOff
  | Ended

record driver =
  d_inbox :: durable_queue
  d_stall :: nat
  d_wake :: bool
  d_stop :: bool
  d_phase :: phase

record scheduler =
  s_config :: sched_config
  s_slots :: nat
  s_drivers :: "(session_key \<times> driver) list"
  s_closed :: bool
  s_world :: world
  s_monitor :: "monitor option"
  s_notes :: "session_key \<Rightarrow> outage_note option"

definition new_scheduler ::
    "int \<Rightarrow> int \<Rightarrow> evictor option \<Rightarrow> (outage_note option \<Rightarrow> (world, unit) eff) option \<Rightarrow>
     monitor option \<Rightarrow> world \<Rightarrow> scheduler result" where
  "new_scheduler concurrency strikes ev save monitor w =
     (if concurrency < 1 then Inl (ValueError ''AgentScheduler concurrency must be >= 1'')
      else if strikes < 0 then Inl (ValueError ''AgentScheduler progress_strikes must be >= 0'')
      else Inr \<lparr>s_config = \<lparr>sc_strikes = nat strikes, sc_evictor = ev, sc_save = save\<rparr>,
                s_slots = nat concurrency, s_drivers = [], s_closed = False, s_world = w,
                s_monitor = monitor, s_notes = (\<lambda>_. None)\<rparr>)"

definition new_driver :: "durable_queue \<Rightarrow> driver" where
  "new_driver q = \<lparr>d_inbox = q, d_stall = 0, d_wake = False, d_stop = False,
     d_phase = AtTop\<rparr>"

definition driver_of :: "scheduler \<Rightarrow> session_key \<Rightarrow> driver option" where
  "driver_of s k = map_of (s_drivers s) k"

definition put_driver :: "session_key \<Rightarrow> driver \<Rightarrow> scheduler \<Rightarrow> scheduler" where
  "put_driver k d s = s\<lparr>s_drivers := dict_set k d (s_drivers s)\<rparr>"

definition session_keys :: "scheduler \<Rightarrow> session_key list" where
  "session_keys s = map fst (s_drivers s)"

definition kick :: "driver \<Rightarrow> driver" where
  "kick d = d\<lparr>d_wake := True\<rparr>"

definition request_stop :: "driver \<Rightarrow> driver" where
  "request_stop d = d\<lparr>d_stop := True, d_wake := True\<rparr>"

definition submit :: "session_key option \<Rightarrow> durable_queue \<Rightarrow> (scheduler, unit) eff" where
  "submit key q s =
     (if s_closed s then (Inl (RuntimeError ''AgentScheduler is closed; cannot submit new work''), s)
      else (case key of
          None \<Rightarrow> (Inl (ValueError ''Cannot submit a session without a key to the scheduler''), s)
        | Some k \<Rightarrow>
            (let d = (case driver_of s k of
                 Some d \<Rightarrow> if d_phase d = Ended then new_driver q else d
               | None \<Rightarrow> new_driver q)
             in (Inr (), put_driver k (kick d) s))))"

text \<open>\<open>shutdown\<close> up to its wait for the tasks; the cancellation that follows a timeout is a step
  of its own.\<close>

definition begin_shutdown :: "scheduler \<Rightarrow> scheduler" where
  "begin_shutdown s =
     (if s_closed s then s
      else s\<lparr>s_closed := True, s_drivers := map (\<lambda>(k, d). (k, request_stop d)) (s_drivers s)\<rparr>)"

section \<open>The steps of the tasks\<close>

datatype sched_action =
    Submitted session_key durable_queue
  | ShutdownBegun
  | OthersActed world "monitor option"
  | LoopTop session_key
  | CheckInbox session_key
  | PassGate session_key real
  | TakeSlot session_key
  | DispatcherEnded session_key round_outcome world "monitor option"
  | WrappedUp session_key round_clock
  | BackoffOver session_key
  | WokeUp session_key
  | Cancelled session_key

definition turn_of :: "session_key \<Rightarrow> driver \<Rightarrow> scheduler \<Rightarrow> turn" where
  "turn_of k d s =
     \<lparr>t_world = s_world s, t_monitor = s_monitor s, t_stall = d_stall d, t_note = s_notes s k\<rparr>"

definition take_turn :: "session_key \<Rightarrow> driver \<Rightarrow> phase \<Rightarrow> turn \<Rightarrow> scheduler \<Rightarrow> scheduler" where
  "take_turn k d ph t s =
     put_driver k (d\<lparr>d_stall := t_stall t, d_phase := ph\<rparr>)
       (s\<lparr>s_world := t_world t, s_monitor := t_monitor t, s_notes := (s_notes s)(k := t_note t)\<rparr>)"

definition release_slot :: "scheduler \<Rightarrow> scheduler" where
  "release_slot s = s\<lparr>s_slots := s_slots s + 1\<rparr>"

text \<open>One step of the driver of \<open>k\<close>: the segments of \<open>_drain_loop\<close> and \<open>_run_one_round\<close>
  between two awaits.\<close>

definition loop_top :: "driver \<Rightarrow> driver" where
  "loop_top d = d\<lparr>d_phase := (if d_stop d then Ended else Yielding)\<rparr>"

definition check_inbox :: "world \<Rightarrow> driver \<Rightarrow> driver" where
  "check_inbox w d =
     d\<lparr>d_wake := False,
       d_phase := (case prompt_pending (d_inbox d) w of
           Inl e \<Rightarrow> Ended | Inr [] \<Rightarrow> Asleep | Inr (_ # _) \<Rightarrow> AtGate)\<rparr>"

definition take_slot :: "session_key \<Rightarrow> driver \<Rightarrow> scheduler \<Rightarrow> scheduler" where
  "take_slot k d s =
     (case pending_ids (d_inbox d) (s_world s) of
        Inl e \<Rightarrow> put_driver k (d\<lparr>d_phase := Ended\<rparr>) s
      | Inr ids \<Rightarrow> put_driver k (d\<lparr>d_phase := Prompting ids\<rparr>) (s\<lparr>s_slots := s_slots s - 1\<rparr>))"

definition dispatcher_ended ::
    "session_key \<Rightarrow> driver \<Rightarrow> string set \<Rightarrow> round_outcome \<Rightarrow> world \<Rightarrow> monitor option \<Rightarrow> scheduler \<Rightarrow> scheduler" where
  "dispatcher_ended k d before outcome w mo s =
     (case end_dispatch (s_config s) (d_inbox d) outcome before
         ((turn_of k d s)\<lparr>t_world := w, t_monitor := mo\<rparr>) of
        (Inl _, t) \<Rightarrow> release_slot (take_turn k d Ended t s)
      | (Inr _, t) \<Rightarrow> release_slot (take_turn k d (WrappingUp outcome) t s))"

definition backs_off :: "round_outcome \<Rightarrow> monitor option \<Rightarrow> bool" where
  "backs_off outcome mo \<longleftrightarrow>
     mo = None \<and> (case outcome of ProviderUnavailable _ _ \<Rightarrow> True | _ \<Rightarrow> False)"

definition wrapped_up ::
    "session_key \<Rightarrow> driver \<Rightarrow> round_outcome \<Rightarrow> round_clock \<Rightarrow> scheduler \<Rightarrow> scheduler" where
  "wrapped_up k d outcome c s =
     (case wrap_up (s_config s) c outcome (turn_of k d s) of
        (Inl _, t) \<Rightarrow> take_turn k d Ended t s
      | (Inr _, t) \<Rightarrow>
          take_turn k d (if backs_off outcome (s_monitor s) then BackingOff else AtTop) t s)"

definition cancel :: "session_key \<Rightarrow> driver \<Rightarrow> scheduler \<Rightarrow> scheduler" where
  "cancel k d s =
     (case d_phase d of
        Prompting _ \<Rightarrow> release_slot (put_driver k (d\<lparr>d_phase := Ended\<rparr>) s)
      | _ \<Rightarrow> put_driver k (d\<lparr>d_phase := Ended\<rparr>) s)"

text \<open>Which step the driver takes for an action, if the action can happen in its phase.\<close>

fun driver_step :: "sched_action \<Rightarrow> session_key \<Rightarrow> driver \<Rightarrow> scheduler \<Rightarrow> scheduler option" where
  "driver_step (LoopTop _) k d s =
     (if d_phase d = AtTop then Some (put_driver k (loop_top d) s) else None)"
| "driver_step (CheckInbox _) k d s =
     (if d_phase d = Yielding then Some (put_driver k (check_inbox (s_world s) d) s) else None)"
| "driver_step (PassGate _ now) k d s =
     (if d_phase d = AtGate
      then map_option (\<lambda>mo. put_driver k (d\<lparr>d_phase := WantsSlot\<rparr>) (s\<lparr>s_monitor := mo\<rparr>))
             (pass_monitor now (s_monitor s))
      else None)"
| "driver_step (TakeSlot _) k d s =
     (if d_phase d = WantsSlot \<and> 0 < s_slots s then Some (take_slot k d s) else None)"
| "driver_step (DispatcherEnded _ outcome w mo) k d s =
     (case d_phase d of
        Prompting before \<Rightarrow>
          (if (mo = None) = (s_monitor s = None)
           then Some (dispatcher_ended k d before outcome w mo s) else None)
      | _ \<Rightarrow> None)"
| "driver_step (WrappedUp _ c) k d s =
     (case d_phase d of WrappingUp outcome \<Rightarrow> Some (wrapped_up k d outcome c s) | _ \<Rightarrow> None)"
| "driver_step (BackoffOver _) k d s =
     (if d_phase d = BackingOff then Some (put_driver k (d\<lparr>d_phase := AtTop\<rparr>) s) else None)"
| "driver_step (WokeUp _) k d s =
     (if d_phase d = Asleep \<and> d_wake d then Some (put_driver k (d\<lparr>d_phase := AtTop\<rparr>) s) else None)"
| "driver_step (Cancelled _) k d s =
     (if s_closed s \<and> d_phase d \<noteq> Ended then Some (cancel k d s) else None)"
| "driver_step _ k d s = None"

fun acting_driver :: "sched_action \<Rightarrow> session_key option" where
  "acting_driver (LoopTop k) = Some k"
| "acting_driver (CheckInbox k) = Some k"
| "acting_driver (PassGate k _) = Some k"
| "acting_driver (TakeSlot k) = Some k"
| "acting_driver (DispatcherEnded k _ _ _) = Some k"
| "acting_driver (WrappedUp k _) = Some k"
| "acting_driver (BackoffOver k) = Some k"
| "acting_driver (WokeUp k) = Some k"
| "acting_driver (Cancelled k) = Some k"
| "acting_driver _ = None"

definition sched_do :: "sched_action \<Rightarrow> scheduler \<Rightarrow> scheduler option" where
  "sched_do a s =
     (case a of
        Submitted k q \<Rightarrow> (case submit (Some k) q s of (Inr _, s') \<Rightarrow> Some s' | (Inl _, _) \<Rightarrow> None)
      | ShutdownBegun \<Rightarrow> Some (begin_shutdown s)
      | OthersActed w mo \<Rightarrow>
          (if (mo = None) = (s_monitor s = None)
           then Some (s\<lparr>s_world := w, s_monitor := mo\<rparr>) else None)
      | _ \<Rightarrow>
          (case acting_driver a of
             None \<Rightarrow> None
           | Some k \<Rightarrow> (case driver_of s k of None \<Rightarrow> None | Some d \<Rightarrow> driver_step a k d s)))"

fun sched_runs :: "sched_action list \<Rightarrow> scheduler \<Rightarrow> scheduler option" where
  "sched_runs [] s = Some s"
| "sched_runs (a # as) s = (case sched_do a s of None \<Rightarrow> None | Some s' \<Rightarrow> sched_runs as s')"

section \<open>What a step changes\<close>

definition prompting :: "driver \<Rightarrow> nat" where
  "prompting d = (case d_phase d of Prompting _ \<Rightarrow> 1 | _ \<Rightarrow> 0)"

definition in_flight :: "(session_key \<times> driver) list \<Rightarrow> nat" where
  "in_flight ds = sum_list (map (\<lambda>(k, d). prompting d) ds)"

lemma put_driver_fields [simp]:
  "s_drivers (put_driver k d s) = dict_set k d (s_drivers s)"
  "s_slots (put_driver k d s) = s_slots s" "s_closed (put_driver k d s) = s_closed s"
  "s_world (put_driver k d s) = s_world s" "s_monitor (put_driver k d s) = s_monitor s"
  by (simp_all add: put_driver_def)

lemma take_turn_fields [simp]:
  "s_drivers (take_turn k d ph t s) = dict_set k (d\<lparr>d_stall := t_stall t, d_phase := ph\<rparr>) (s_drivers s)"
  "s_slots (take_turn k d ph t s) = s_slots s" "s_closed (take_turn k d ph t s) = s_closed s"
  by (simp_all add: take_turn_def)

lemma release_slot_fields [simp]:
  "s_drivers (release_slot s) = s_drivers s" "s_slots (release_slot s) = s_slots s + 1"
  "s_closed (release_slot s) = s_closed s"
  by (simp_all add: release_slot_def)

lemma driver_step_effect:
  assumes "driver_step a k d s = Some s'"
  obtains d' where "s_drivers s' = dict_set k d' (s_drivers s)" "s_closed s' = s_closed s"
    "d_stop d' = d_stop d" "s_slots s' + prompting d' = s_slots s + prompting d"
    "\<forall>j. a \<noteq> CheckInbox j \<Longrightarrow> d_wake d' = d_wake d \<and> d_phase d' \<noteq> Asleep"
    "d_phase d = Asleep \<Longrightarrow> d_wake d \<or> s_closed s"
proof (cases a)
  case (LoopTop j)
  with assms show thesis
    by (intro that [of "loop_top d"]) (auto simp: loop_top_def prompting_def split: if_splits)
next
  case (CheckInbox j)
  with assms show thesis
    by (intro that [of "check_inbox (s_world s) d"])
      (auto simp: check_inbox_def prompting_def split: if_splits sum.splits list.splits)
next
  case (PassGate j now)
  with assms show thesis
    by (intro that [of "d\<lparr>d_phase := WantsSlot\<rparr>"]) (auto simp: prompting_def split: if_splits)
next
  case (TakeSlot j)
  with assms show thesis
    by (cases "pending_ids (d_inbox d) (s_world s)")
      (auto simp: prompting_def take_slot_def intro!: that split: if_splits)
next
  case (DispatcherEnded j outcome w mo)
  with assms obtain before where b: "d_phase d = Prompting before"
    "s' = dispatcher_ended k d before outcome w mo s"
    by (auto split: phase.splits if_splits)
  show thesis
  proof (cases "end_dispatch (s_config s) (d_inbox d) outcome before
      ((turn_of k d s)\<lparr>t_world := w, t_monitor := mo\<rparr>)")
    case (Pair r t)
    then show thesis using b DispatcherEnded
      by (cases r) (auto simp: prompting_def dispatcher_ended_def intro!: that)
  qed
next
  case (WrappedUp j c)
  with assms obtain outcome where o: "d_phase d = WrappingUp outcome" "s' = wrapped_up k d outcome c s"
    by (auto split: phase.splits)
  show thesis
  proof (cases "wrap_up (s_config s) c outcome (turn_of k d s)")
    case (Pair r t)
    then show thesis using o WrappedUp
      by (cases r) (auto simp: prompting_def wrapped_up_def intro!: that split: if_splits)
  qed
next
  case (BackoffOver j)
  with assms show thesis
    by (intro that [of "d\<lparr>d_phase := AtTop\<rparr>"]) (auto simp: prompting_def split: if_splits)
next
  case (WokeUp j)
  with assms show thesis
    by (intro that [of "d\<lparr>d_phase := AtTop\<rparr>"]) (auto simp: prompting_def split: if_splits)
next
  case (Cancelled j)
  with assms show thesis
    by (intro that [of "d\<lparr>d_phase := Ended\<rparr>"])
      (auto simp: prompting_def cancel_def split: if_splits phase.splits)
qed (use assms in simp_all)

lemma in_flight_dict_set:
  "distinct (map fst ds) \<Longrightarrow> in_flight (dict_set k d' ds) +
     (case map_of ds k of None \<Rightarrow> 0 | Some d \<Rightarrow> prompting d) = in_flight ds + prompting d'"
proof (induction ds)
  case (Cons p ds)
  obtain j e where p: "p = (j, e)" by (cases p)
  show ?case
  proof (cases "j = k")
    case False
    then show ?thesis using Cons p by (simp add: in_flight_def)
  next
    case True
    then show ?thesis using p by (simp add: in_flight_def)
  qed
qed (simp add: in_flight_def)

text \<open>The actions as the code performs them: a submission, the shutdown, other tasks, or a step of
  one driver.\<close>

lemma sched_do_cases:
  assumes "sched_do a s = Some s'"
  obtains (submitted) k q where "a = Submitted k q" "submit (Some k) q s = (Inr (), s')"
  | (closed) "a = ShutdownBegun" "s' = begin_shutdown s"
  | (others) w mo where "a = OthersActed w mo" "s' = s\<lparr>s_world := w, s_monitor := mo\<rparr>"
  | (driver) k d where "acting_driver a = Some k" "driver_of s k = Some d" "driver_step a k d s = Some s'"
proof (cases "acting_driver a")
  case None
  then show thesis
    using assms submitted closed others
    by (cases a) (auto simp: sched_do_def split: prod.splits sum.splits if_splits)
next
  case (Some k)
  with assms have "(case driver_of s k of None \<Rightarrow> None | Some d \<Rightarrow> driver_step a k d s) = Some s'"
    by (cases a) (auto simp: sched_do_def simp del: driver_step.simps)
  with Some driver show thesis by (auto split: option.splits)
qed

section \<open>The concurrency cap\<close>

definition sched_ok :: "nat \<Rightarrow> scheduler \<Rightarrow> bool" where
  "sched_ok n s \<longleftrightarrow> distinct (session_keys s) \<and> s_slots s + in_flight (s_drivers s) = n"

lemma submit_ok:
  assumes "submit (Some k) q s = (Inr (), s')" "sched_ok n s"
  shows "sched_ok n s'"
proof -
  obtain d where d: "s_drivers s' = dict_set k d (s_drivers s)" "s_slots s' = s_slots s"
    "prompting d = (case driver_of s k of None \<Rightarrow> 0 | Some e \<Rightarrow> prompting e)"
    using assms(1)
    by (auto simp: submit_def Let_def kick_def new_driver_def prompting_def split: if_splits option.splits)
  show ?thesis
    using assms(2) d in_flight_dict_set [of "s_drivers s" k d]
    by (auto simp: sched_ok_def session_keys_def driver_of_def)
qed

lemma begin_shutdown_ok: "sched_ok n s \<Longrightarrow> sched_ok n (begin_shutdown s)"
proof -
  have "map fst (map (\<lambda>(k, d). (k, request_stop d)) ds) = map fst ds" for ds :: "(session_key \<times> driver) list"
    by (induction ds) auto
  moreover have "in_flight (map (\<lambda>(k, d). (k, request_stop d)) ds) = in_flight ds" for ds
    by (induction ds) (auto simp: in_flight_def prompting_def request_stop_def)
  ultimately show "sched_ok n s \<Longrightarrow> sched_ok n (begin_shutdown s)"
    by (simp add: sched_ok_def begin_shutdown_def session_keys_def del: map_map)
qed

lemma sched_do_ok:
  assumes "sched_do a s = Some s'" "sched_ok n s"
  shows "sched_ok n s'"
  using assms(1)
proof (cases rule: sched_do_cases)
  case (submitted k q)
  then show ?thesis using submit_ok assms(2) by blast
next
  case closed
  then show ?thesis using begin_shutdown_ok assms(2) by simp
next
  case (others w mo)
  then show ?thesis using assms(2) by (simp add: sched_ok_def session_keys_def)
next
  case (driver k d)
  obtain d' where d': "s_drivers s' = dict_set k d' (s_drivers s)"
    "s_slots s' + prompting d' = s_slots s + prompting d"
    by (rule driver_step_effect [OF driver(3)]) (rule that)
  show ?thesis
    using assms(2) d' driver(2) in_flight_dict_set [of "s_drivers s" k d']
    by (auto simp: sched_ok_def session_keys_def driver_of_def)
qed

lemma sched_runs_ok: "sched_runs as s = Some s' \<Longrightarrow> sched_ok n s \<Longrightarrow> sched_ok n s'"
  by (induction as arbitrary: s) (auto split: option.splits dest: sched_do_ok)

text \<open>C38: the scheduler keeps the agent's cap: whatever is submitted, and however the tasks
  interleave, the rounds in flight and the free slots add up to the concurrency it was built
  with, and every session has one driver, hence at most one round in flight.\<close>

theorem concurrency_cap_holds:
  assumes "new_scheduler n strikes ev save mo w = Inr s0" "sched_runs as s0 = Some s"
  shows "s_slots s + in_flight (s_drivers s) = nat n \<and> distinct (session_keys s)"
proof -
  have "sched_ok (nat n) s0"
    using assms(1) by (auto simp: new_scheduler_def sched_ok_def session_keys_def in_flight_def
        split: if_splits)
  from sched_runs_ok [OF assms(2) this] show ?thesis by (simp add: sched_ok_def)
qed

definition example_scheduler :: scheduler where
  "example_scheduler =
     \<lparr>s_config = \<lparr>sc_strikes = 3, sc_evictor = Some (default_progress_evictor [] True), sc_save = None\<rparr>,
      s_slots = 1, s_drivers = [], s_closed = False, s_world = world_empty, s_monitor = None,
      s_notes = (\<lambda>_. None)\<rparr>"

lemma example_scheduler:
  "new_scheduler 1 3 (Some (default_progress_evictor [] True)) None None world_empty =
     Inr example_scheduler"
  by (simp add: new_scheduler_def example_scheduler_def)

lemma prompt_pending_empty [simp]: "prompt_pending q world_empty = Inr []"
  by (simp add: prompt_pending_def queue_list_def world_empty_def live_paths_def)

definition example_key :: session_key where
  "example_key = SessionKey [''cli'']"

theorem concurrency_cap_holds_witness:
  "\<exists>s. sched_runs [Submitted example_key example_queue, LoopTop example_key] example_scheduler = Some s \<and>
     s_slots s + in_flight (s_drivers s) = 1"
proof -
  obtain s where s: "sched_runs [Submitted example_key example_queue, LoopTop example_key]
      example_scheduler = Some s"
    by (simp add: sched_do_def submit_def driver_of_def example_scheduler_def new_driver_def kick_def)
  with concurrency_cap_holds [OF example_scheduler s] show ?thesis by simp
qed

section \<open>Wake-ups\<close>

definition attentive :: "session_key \<Rightarrow> scheduler \<Rightarrow> bool" where
  "attentive k s \<longleftrightarrow> (\<exists>d. driver_of s k = Some d \<and> (d_phase d = Asleep \<longrightarrow> d_wake d))"

lemma submit_attentive: "submit (Some k) q s = (Inr (), s') \<Longrightarrow> attentive k s'"
  by (auto simp: submit_def Let_def attentive_def driver_of_def kick_def split: if_splits)

lemma begin_shutdown_driver:
  "driver_of (begin_shutdown s) k =
     (if s_closed s then driver_of s k else map_option request_stop (driver_of s k))"
proof -
  have "map_of (map (\<lambda>(k, d). (k, request_stop d)) ds) k = map_option request_stop (map_of ds k)" for ds
    by (induction ds) auto
  then show ?thesis by (simp add: begin_shutdown_def driver_of_def)
qed

lemma submit_other:
  assumes "submit (Some j) q s = (Inr (), s')" "attentive k s"
  shows "attentive k s'"
  using assms by (auto simp: submit_def Let_def attentive_def driver_of_def kick_def
      split: if_splits)

lemma sched_do_attentive:
  assumes "sched_do a s = Some s'" "a \<noteq> CheckInbox k" "attentive k s"
  shows "attentive k s'"
  using assms(1)
proof (cases rule: sched_do_cases)
  case (submitted j q)
  then show ?thesis using submit_other assms(3) by blast
next
  case closed
  then show ?thesis
    using assms(3) by (auto simp: attentive_def begin_shutdown_driver request_stop_def)
next
  case (others w mo)
  then show ?thesis using assms(3) by (simp add: attentive_def driver_of_def)
next
  case (driver j d)
  obtain d' where d': "s_drivers s' = dict_set j d' (s_drivers s)"
    "\<forall>j. a \<noteq> CheckInbox j \<Longrightarrow> d_wake d' = d_wake d \<and> d_phase d' \<noteq> Asleep"
    by (rule driver_step_effect [OF driver(3)]) (rule that)
  show ?thesis
  proof (cases "j = k")
    case True
    have "\<forall>i. a \<noteq> CheckInbox i"
    proof
      show "a \<noteq> CheckInbox i" for i using assms(2) driver(1) True by (cases "i = k") auto
    qed
    with d' True show ?thesis by (auto simp: attentive_def driver_of_def)
  next
    case False
    with d'(1) assms(3) show ?thesis by (simp add: attentive_def driver_of_def)
  qed
qed

text \<open>No wake-up is lost: from a submission for a session until its driver next reads the
  inbox, whatever other tasks do in between, the driver is never asleep without a pending
  wake-up, so what was stored before the submission is seen.\<close>

theorem submission_is_noticed:
  assumes "submit (Some k) q s = (Inr (), s0)" "sched_runs as s0 = Some s1" "CheckInbox k \<notin> set as"
  shows "\<exists>d. driver_of s1 k = Some d \<and> (d_phase d \<noteq> Asleep \<or> d_wake d)"
proof -
  have "attentive k s1" using submit_attentive [OF assms(1)] assms(2,3)
  proof (induction as arbitrary: s0)
    case (Cons a as)
    from Cons.prems obtain s' where s': "sched_do a s0 = Some s'" "sched_runs as s' = Some s1"
      by (auto split: option.splits)
    show ?case
      by (rule Cons.IH [OF sched_do_attentive [OF s'(1) _ Cons.prems(1)] s'(2)])
        (use Cons.prems(3) in auto)
  qed simp
  then show ?thesis by (auto simp: attentive_def)
qed

theorem submission_is_noticed_witness:
  "\<exists>s0 s1 d. submit (Some example_key) example_queue example_scheduler = (Inr (), s0) \<and>
     sched_runs [LoopTop example_key] s0 = Some s1 \<and> driver_of s1 example_key = Some d \<and>
     (d_phase d \<noteq> Asleep \<or> d_wake d)"
proof -
  obtain s0 s1 where s: "submit (Some example_key) example_queue example_scheduler = (Inr (), s0)"
    "sched_runs [LoopTop example_key] s0 = Some s1"
    by (simp add: sched_do_def submit_def driver_of_def example_scheduler_def new_driver_def kick_def)
  with submission_is_noticed [OF s] show ?thesis by auto
qed

lemma stuck_stays:
  assumes "sched_do a s = Some s'" "a \<noteq> Cancelled k" "s_closed s" "driver_of s k = Some d"
    and "d_phase d = Asleep" "\<not> d_wake d"
  shows "s_closed s' \<and> driver_of s' k = Some d"
  using assms(1)
proof (cases rule: sched_do_cases)
  case (submitted j q)
  then show ?thesis using assms(3) by (simp add: submit_def)
next
  case closed
  then show ?thesis using assms(3,4) by (simp add: begin_shutdown_def)
next
  case (others w mo)
  then show ?thesis using assms(3,4) by (simp add: driver_of_def)
next
  case (driver j e)
  have "j \<noteq> k"
  proof
    assume "j = k"
    with driver assms(2,4-6) show False
      by (cases a) (auto split: phase.splits)
  qed
  moreover obtain d' where "s_drivers s' = dict_set j d' (s_drivers s)" "s_closed s' = s_closed s"
    by (rule driver_step_effect [OF driver(3)]) (rule that)
  ultimately show ?thesis using assms(3,4) by (simp add: driver_of_def)
qed

text \<open>A stop can be lost: when the shutdown begins while a driver is in the yield at the start
  of its loop, the driver then clears the wake-up it was sent; with an empty inbox it falls
  asleep with the stop requested, and no step of any task but the cancellation after the grace
  period ever ends it.\<close>

theorem stop_request_can_be_lost:
  "\<exists>s d. sched_runs [Submitted example_key example_queue, LoopTop example_key, ShutdownBegun,
        CheckInbox example_key] example_scheduler = Some s \<and>
     driver_of s example_key = Some d \<and> d_stop d \<and> d_phase d = Asleep \<and>
     (\<forall>as s'. \<not> (sched_runs as s = Some s' \<and> Cancelled example_key \<notin> set as \<and>
        driver_of s' example_key \<noteq> Some d))"
proof -
  obtain s d where s: "sched_runs [Submitted example_key example_queue, LoopTop example_key,
        ShutdownBegun, CheckInbox example_key] example_scheduler = Some s"
    "driver_of s example_key = Some d" "d_stop d" "d_phase d = Asleep" "\<not> d_wake d" "s_closed s"
    by (simp add: sched_do_def submit_def driver_of_def example_scheduler_def new_driver_def kick_def
        loop_top_def check_inbox_def begin_shutdown_def request_stop_def)
  have "s_closed s' \<and> driver_of s' example_key = Some d"
    if "sched_runs as s = Some s'" "Cancelled example_key \<notin> set as" for as s'
    using that s(2,6)
  proof (induction as arbitrary: s)
    case (Cons a as)
    from Cons.prems obtain u where u: "sched_do a s = Some u" "sched_runs as u = Some s'"
      by (auto split: option.splits)
    have "s_closed u \<and> driver_of u example_key = Some d"
      using Cons.prems by (intro stuck_stays [OF u(1) _ _ _ s(4,5)]) auto
    with Cons.IH [OF u(2)] Cons.prems(2) show ?case by simp
  qed simp
  with s(1-4) show ?thesis by blast
qed

section \<open>The progress guarantee\<close>

definition live_here :: "path \<Rightarrow> world \<Rightarrow> notification \<Rightarrow> bool" where
  "live_here r w n \<longleftrightarrow> stored w r (n_id n) = Some n \<and> n_status n \<in> {PENDING, IN_PROGRESS}"

lemma prompt_pending_run:
  assumes "store_ok R w" "q_root q \<in> R"
  obtains ps where "prompt_pending q w = Inr ps" "sorted_wrt (<) (map file_name ps)"
    "\<And>n. n \<in> set ps \<longleftrightarrow> live_here (q_root q) w n"
proof -
  obtain ns where ns: "queue_list q None w = Inr ns" "sorted_wrt (<) (map file_name ns)"
    "\<And>n. n \<in> set ns \<longleftrightarrow> stored w (q_root q) (n_id n) = Some n"
    using queue_list_all [OF assms] by metis
  let ?ps = "filter (\<lambda>n. n_status n \<in> set [PENDING, IN_PROGRESS]) ns"
  have "sorted_wrt (<) (map file_name ?ps)"
    using ns(2) by (simp add: sorted_wrt_map sorted_wrt_filter)
  moreover have "prompt_pending q w = Inr ?ps"
    unfolding prompt_pending_def by (rule queue_list_filter [OF ns(1)])
  moreover have "n \<in> set ?ps \<longleftrightarrow> live_here (q_root q) w n" for n
    using ns(3) by (auto simp: live_here_def)
  ultimately show thesis using that by blast
qed

lemma prompt_pending_unique:
  assumes "store_ok R w" "q_root q \<in> R" "sorted_wrt (<) (map file_name ps)"
    and "\<And>n. n \<in> set ps \<longleftrightarrow> live_here (q_root q) w n"
  shows "prompt_pending q w = Inr ps"
proof -
  obtain qs where qs: "prompt_pending q w = Inr qs" "sorted_wrt (<) (map file_name qs)"
    "\<And>n. n \<in> set qs \<longleftrightarrow> live_here (q_root q) w n"
    using prompt_pending_run [OF assms(1,2)] by metis
  have "set ps = set qs" using qs(3) assms(4) by blast
  then show ?thesis using qs(1) sorted_names_unique [OF assms(3) qs(2)] by simp
qed

lemma check_eviction: "check_transition ERRORED None None (Some eviction_reason) = Inr ()"
  by (simp add: check_transition_def agent_visible_transitions_def eviction_reason_def)

text \<open>What the handling of an item leaves in its own queue.\<close>

lemma handled_view_here:
  assumes "n_status m = ERRORED"
  shows "handled_view q book m v (q_root q) j =
    (if j = n_id m
     then (case step_two_destination q book m of
         Deleted \<Rightarrow> None | MovedTo t \<Rightarrow> if t = q_root q then Some m else None | Unresolved \<Rightarrow> Some m)
     else v (q_root q) j)"
  using assms by (auto simp: handled_view_def Let_def split: destination.splits)

definition watching_healthy :: "bool \<Rightarrow> turn \<Rightarrow> bool" where
  "watching_healthy watched t \<longleftrightarrow> \<not> watched \<or> (\<forall>m. t_monitor t = Some m \<longrightarrow> is_healthy m)"

text \<open>The default evictor takes exactly the oldest item out of the pending view, whatever becomes
  of its RSVP.\<close>

lemma default_evictor_run:
  assumes "store_ok R (t_world t)" "dispatch_targets_ok R q book" "watching_healthy watched t"
    and "prompt_pending q (t_world t) = Inr (oldest # rest)"
  shows "\<exists>w'. default_progress_evictor book watched q t = (Inr (), t\<lparr>t_world := w'\<rparr>) \<and>
    store_ok R w' \<and> prompt_pending q w' = Inr rest"
proof -
  let ?w = "t_world t" and ?i = "n_id oldest"
  have q: "q_root q \<in> R" using assms(2) by (simp add: dispatch_targets_ok_def)
  have sorted: "sorted_wrt (<) (map file_name (oldest # rest))"
    and mem: "n \<in> set (oldest # rest) \<longleftrightarrow> live_here (q_root q) ?w n" for n
  proof -
    obtain ps where "prompt_pending q ?w = Inr ps" "sorted_wrt (<) (map file_name ps)"
      "\<And>n. n \<in> set ps \<longleftrightarrow> live_here (q_root q) ?w n"
      using prompt_pending_run [OF assms(1) q] by metis
    with assms(4) show "sorted_wrt (<) (map file_name (oldest # rest))"
      "n \<in> set (oldest # rest) \<longleftrightarrow> live_here (q_root q) ?w n" by simp_all
  qed
  have old: "stored ?w (q_root q) ?i = Some oldest" "n_status oldest \<in> {PENDING, IN_PROGRESS}"
    using mem [of oldest] by (simp_all add: live_here_def)
  obtain m w' where m: "n_status m = ERRORED" "n_id m = ?i"
    and run: "apply_handling_transition q ?i ERRORED book None None (Some eviction_reason) ?w =
      (if step_two_destination q book m = Unresolved then Inl (DispatchError ?i) else Inr m, w')"
    and w': "store_ok R w'" "stored w' = handled_view q book m (stored ?w)"
    by (rule handling_effect [OF assms(1) q old check_eviction dispatch_target [OF assms(2)]])
      (rule that, assumption+, simp_all)
  have "prompt_pending q w' = Inr rest"
  proof (rule prompt_pending_unique [OF w'(1) q])
    show "sorted_wrt (<) (map file_name rest)" using sorted by simp
    fix n
    have "n_id n \<noteq> ?i" if "n \<in> set rest"
      using sorted that by (auto simp: file_name_def)
    moreover have "live_here (q_root q) w' n \<longleftrightarrow> live_here (q_root q) ?w n \<and> n_id n \<noteq> ?i"
      using m by (auto simp: live_here_def w'(2) handled_view_here split: destination.splits)
    moreover have "n = oldest" if "live_here (q_root q) ?w n" "n_id n = ?i"
      using that old by (simp add: live_here_def)
    ultimately show "n \<in> set rest \<longleftrightarrow> live_here (q_root q) w' n" using mem [of n] by auto
  qed
  moreover have "default_progress_evictor book watched q t = (Inr (), t\<lparr>t_world := w'\<rparr>)"
    using assms(3,4) run by (auto simp: default_progress_evictor_def watching_healthy_def)
  ultimately show ?thesis using w'(1) by blast
qed

lemma default_evictor_total:
  assumes "store_ok R (t_world t)" "dispatch_targets_ok R q book"
  shows "\<exists>w'. default_progress_evictor book watched q t = (Inr (), t\<lparr>t_world := w'\<rparr>) \<and> store_ok R w' \<and>
    (watching_healthy watched t \<longrightarrow>
      (\<forall>ps. prompt_pending q (t_world t) = Inr ps \<longrightarrow> prompt_pending q w' = Inr (tl ps)))"
proof -
  have q: "q_root q \<in> R" using assms(2) by (simp add: dispatch_targets_ok_def)
  obtain ps where ps: "prompt_pending q (t_world t) = Inr ps"
    using prompt_pending_run [OF assms(1) q] by metis
  have stay: "t = t\<lparr>t_world := t_world t\<rparr>" by simp
  show ?thesis
  proof (cases "watching_healthy watched t")
    case False
    then have "default_progress_evictor book watched q t = (Inr (), t)"
      by (auto simp: default_progress_evictor_def watching_healthy_def)
    with False assms(1) stay show ?thesis by metis
  next
    case True
    show ?thesis
    proof (cases ps)
      case Nil
      then have "default_progress_evictor book watched q t = (Inr (), t)"
        using ps by (simp add: default_progress_evictor_def)
      with Nil ps assms(1) stay show ?thesis by (metis list.sel(2) sum.inject(2))
    next
      case (Cons oldest rest)
      then show ?thesis using default_evictor_run [OF assms True] ps by fastforce
    qed
  qed
qed

lemma maybe_evict_default:
  assumes "store_ok R (t_world t)" "dispatch_targets_ok R q book"
    and "sc_evictor cfg = Some (default_progress_evictor book watched)"
  shows "\<exists>w' k. maybe_evict cfg q t = (Inr (), t\<lparr>t_world := w', t_stall := k\<rparr>) \<and> store_ok R w' \<and>
    (sc_strikes cfg = 0 \<or> k < sc_strikes cfg) \<and>
    (if sc_strikes cfg = 0 \<or> t_stall t < sc_strikes cfg then w' = t_world t \<and> k = t_stall t
     else k = 0 \<and> (watching_healthy watched t \<longrightarrow>
       (\<forall>ps. prompt_pending q (t_world t) = Inr ps \<longrightarrow> prompt_pending q w' = Inr (tl ps))))"
proof (cases "sc_strikes cfg = 0 \<or> t_stall t < sc_strikes cfg")
  case True
  then have "maybe_evict cfg q t = (Inr (), t\<lparr>t_world := t_world t, t_stall := t_stall t\<rparr>)"
    by (simp add: maybe_evict_def assms(3))
  with True assms(1) show ?thesis by auto
next
  case False
  obtain w' where w': "default_progress_evictor book watched q t = (Inr (), t\<lparr>t_world := w'\<rparr>)"
    "store_ok R w'" "watching_healthy watched t \<longrightarrow>
      (\<forall>ps. prompt_pending q (t_world t) = Inr ps \<longrightarrow> prompt_pending q w' = Inr (tl ps))"
    using default_evictor_total [OF assms(1,2)] by blast
  have "maybe_evict cfg q t = (Inr (), t\<lparr>t_world := w', t_stall := 0\<rparr>)"
    using False by (simp add: maybe_evict_def assms(3) swallowed_def ebind_def w'(1))
  with False w' show ?thesis by auto
qed

lemma pending_ids_run:
  assumes "store_ok R w" "q_root q \<in> R"
  obtains ps where "prompt_pending q w = Inr ps" "pending_ids q w = Inr (n_id ` set ps)"
    "card (n_id ` set ps) = length ps"
proof -
  obtain ps where ps: "prompt_pending q w = Inr ps" "sorted_wrt (<) (map file_name ps)"
    using prompt_pending_run [OF assms] by metis
  have "distinct (map file_name ps)" using ps(2) by (simp add: strict_sorted_iff)
  moreover have "map file_name ps = map (\<lambda>i. i @ live_suffix) (map n_id ps)"
    by (simp add: file_name_def)
  ultimately have "distinct (map n_id ps)" by (metis distinct_map)
  then have "card (set (map n_id ps)) = length ps" by (metis distinct_card length_map)
  with ps(1) that show thesis by (simp add: pending_ids_def)
qed

text \<open>A round up to the release of the slot, with the default evictor.\<close>

lemma dispatch_round_default:
  assumes "store_ok R (t_world t)" "dispatch_targets_ok R q book"
    and "sc_evictor cfg = Some (default_progress_evictor book watched)"
    and "disp (t_world t) (t_monitor t) = (outcome, w, mo)" "store_ok R w" "outcome \<noteq> WasCancelled"
    and "prompt_pending q (t_world t) = Inr ps" "prompt_pending q w = Inr qs"
  shows "\<exists>w' k. dispatch_round cfg q disp t =
      (Inr outcome, t\<lparr>t_world := w', t_monitor := mo, t_stall := k\<rparr>) \<and> store_ok R w' \<and>
    (sc_strikes cfg = 0 \<or> k < sc_strikes cfg) \<and>
    (let c = count_strike (sc_strikes cfg) outcome (n_id ` set ps) (n_id ` set qs) (t_stall t) in
     if sc_strikes cfg = 0 \<or> c < sc_strikes cfg then w' = w \<and> k = c
     else k = 0 \<and> (watching_healthy watched (t\<lparr>t_monitor := mo\<rparr>) \<longrightarrow>
       prompt_pending q w' = Inr (tl qs)))"
proof -
  let ?c = "count_strike (sc_strikes cfg) outcome (n_id ` set ps) (n_id ` set qs) (t_stall t)"
  let ?t = "t\<lparr>t_world := w, t_monitor := mo, t_stall := ?c\<rparr>"
  have "store_ok R (t_world ?t)" using assms(5) by simp
  then obtain w' k where e: "maybe_evict cfg q ?t = (Inr (), ?t\<lparr>t_world := w', t_stall := k\<rparr>)"
    "store_ok R w'" "sc_strikes cfg = 0 \<or> k < sc_strikes cfg"
    "if sc_strikes cfg = 0 \<or> ?c < sc_strikes cfg then w' = w \<and> k = ?c
     else k = 0 \<and> (watching_healthy watched ?t \<longrightarrow>
       (\<forall>ps. prompt_pending q w = Inr ps \<longrightarrow> prompt_pending q w' = Inr (tl ps)))"
    using maybe_evict_default [of R ?t q book cfg watched, OF _ assms(2,3)] by auto
  have ids: "pending_ids q (t_world t) = Inr (n_id ` set ps)" "pending_ids q w = Inr (n_id ` set qs)"
    using assms(7,8) by (simp_all add: pending_ids_def)
  have "dispatch_round cfg q disp t =
      (Inr outcome, t\<lparr>t_world := w', t_monitor := mo, t_stall := k\<rparr>)"
    by (simp add: dispatch_round_def ebind_def assms(4,6) ids end_dispatch_def e(1))
  then show ?thesis using e assms(8) by (auto simp: Let_def watching_healthy_def split: if_splits)
qed

section \<open>Outages and stalled sessions\<close>

definition keeps_store :: "path set \<Rightarrow> dispatcher \<Rightarrow> bool" where
  "keeps_store R disp \<longleftrightarrow> (\<forall>w mo. store_ok R w \<longrightarrow> store_ok R (fst (snd (disp w mo))))"

lemma dispatch_round_ends:
  assumes "store_ok R (t_world t)" "dispatch_targets_ok R q book"
    and "sc_evictor cfg = Some (default_progress_evictor book watched)"
    and "keeps_store R disp" "dispatch_round cfg q disp t = (Inr outcome, t')"
  shows "store_ok R (t_world t') \<and> (sc_strikes cfg = 0 \<or> t_stall t' < sc_strikes cfg)"
proof -
  have q: "q_root q \<in> R" using assms(2) by (simp add: dispatch_targets_ok_def)
  obtain o' w mo where d: "disp (t_world t) (t_monitor t) = (o', w, mo)"
    by (cases "disp (t_world t) (t_monitor t)") auto
  have w: "store_ok R w" using assms(1,4) d unfolding keeps_store_def by (metis fst_conv snd_conv)
  obtain ps where ps: "prompt_pending q (t_world t) = Inr ps"
    using prompt_pending_run [OF assms(1) q] by metis
  obtain qs where qs: "prompt_pending q w = Inr qs" using prompt_pending_run [OF w q] by metis
  have c: "o' \<noteq> WasCancelled"
    using assms(5) d ps
    by (auto simp: dispatch_round_def ebind_def pending_ids_def end_dispatch_def)
  show ?thesis
    using dispatch_round_default [where disp = disp, OF assms(1-3) d w c ps qs] assms(5) by auto
qed

definition rounds :: "sched_config \<Rightarrow> durable_queue \<Rightarrow> dispatcher list \<Rightarrow> (turn, unit) eff" where
  "rounds cfg q disps =
     efold (\<lambda>disp _. ebind (dispatch_round cfg q disp) (\<lambda>_. eret ())) disps ()"

lemma rounds_end:
  assumes "dispatch_targets_ok R q book"
    and "sc_evictor cfg = Some (default_progress_evictor book watched)"
    and "store_ok R (t_world t)" "sc_strikes cfg = 0 \<or> t_stall t < sc_strikes cfg"
    and "\<forall>disp \<in> set disps. keeps_store R disp" "rounds cfg q disps t = (Inr (), t')"
  shows "store_ok R (t_world t') \<and> (sc_strikes cfg = 0 \<or> t_stall t' < sc_strikes cfg)"
  using assms(3-6)
proof (induction disps arbitrary: t)
  case Nil
  then show ?case by (simp add: rounds_def)
next
  case (Cons disp disps)
  from Cons.prems(4) obtain outcome u where u: "dispatch_round cfg q disp t = (Inr outcome, u)"
    "rounds cfg q disps u = (Inr (), t')"
    by (auto simp: rounds_def ebind_eq_Inr)
  have "keeps_store R disp" using Cons.prems(3) by simp
  note e = dispatch_round_ends [OF Cons.prems(1) assms(1,2) this u(1)]
  then show ?case using Cons.IH [of u] Cons.prems(3) u(2) by simp
qed

text \<open>C35: an outage of the provider never costs a session an item: after any rounds of any
  dispatchers, with the default evictor, a round that ends with ProviderUnavailableError leaves
  the inbox as the dispatcher left it, and the strike counter as it was or, when an item was
  closed in it, at zero.\<close>

theorem outage_never_evicts:
  assumes "dispatch_targets_ok R q book" "store_ok R (t_world t0)" "t_stall t0 = 0"
    and "sc_evictor cfg = Some (default_progress_evictor book watched)"
    and "\<forall>disp \<in> set disps. keeps_store R disp" "rounds cfg q disps t0 = (Inr (), t)"
    and "disp (t_world t) (t_monitor t) = (ProviderUnavailable attempts reason, w, mo)" "store_ok R w"
  shows "\<exists>k. dispatch_round cfg q disp t =
      (Inr (ProviderUnavailable attempts reason), t\<lparr>t_world := w, t_monitor := mo, t_stall := k\<rparr>) \<and>
    (k = t_stall t \<or> k = 0)"
proof -
  have q: "q_root q \<in> R" using assms(1) by (simp add: dispatch_targets_ok_def)
  have ok: "store_ok R (t_world t)" "sc_strikes cfg = 0 \<or> t_stall t < sc_strikes cfg"
    using rounds_end [OF assms(1,4,2) _ assms(5,6)] assms(3) by auto
  obtain ps where ps: "prompt_pending q (t_world t) = Inr ps"
    using prompt_pending_run [OF ok(1) q] by metis
  obtain qs where qs: "prompt_pending q w = Inr qs" using prompt_pending_run [OF assms(8) q] by metis
  have "ProviderUnavailable attempts reason \<noteq> WasCancelled" by simp
  then obtain w' k where d: "dispatch_round cfg q disp t =
      (Inr (ProviderUnavailable attempts reason), t\<lparr>t_world := w', t_monitor := mo, t_stall := k\<rparr>)"
    and c: "(let c = count_strike (sc_strikes cfg) (ProviderUnavailable attempts reason)
        (n_id ` set ps) (n_id ` set qs) (t_stall t) in
     if sc_strikes cfg = 0 \<or> c < sc_strikes cfg then w' = w \<and> k = c
     else k = 0 \<and> (watching_healthy watched (t\<lparr>t_monitor := mo\<rparr>) \<longrightarrow>
       prompt_pending q w' = Inr (tl qs)))"
    using dispatch_round_default [where disp = disp, OF ok(1) assms(1,4,7,8) _ ps qs] by blast
  have "count_strike (sc_strikes cfg) (ProviderUnavailable attempts reason)
      (n_id ` set ps) (n_id ` set qs) (t_stall t) \<in> {0, t_stall t}"
    by (simp add: count_strike_def)
  with c ok(2) have "w' = w \<and> (k = t_stall t \<or> k = 0)" by (auto simp: Let_def split: if_splits)
  with d show ?thesis by blast
qed

definition example_turn :: turn where
  "example_turn = \<lparr>t_world = example_world, t_monitor = None, t_stall = 0, t_note = None\<rparr>"

definition example_config :: "book \<Rightarrow> sched_config" where
  "example_config book = \<lparr>sc_strikes = 3, sc_evictor = Some (default_progress_evictor book True),
     sc_save = None\<rparr>"

lemma example_config [simp]:
  "sc_strikes (example_config book) = 3" "sc_save (example_config book) = None"
  "sc_evictor (example_config book) = Some (default_progress_evictor book True)"
  "t_world example_turn = example_world" "t_monitor example_turn = None" "t_stall example_turn = 0"
  "dispatch_targets_ok UNIV q book"
  by (simp_all add: example_config_def example_turn_def dispatch_targets_ok_def)

definition example_outage :: dispatcher where
  "example_outage w mo = (ProviderUnavailable 5 ''503'', w, mo)"

theorem outage_never_evicts_witness:
  "\<exists>k. dispatch_round (example_config []) example_queue example_outage example_turn =
     (Inr (ProviderUnavailable 5 ''503''), example_turn\<lparr>t_world := example_world, t_monitor := None,
        t_stall := k\<rparr>) \<and> (k = t_stall example_turn \<or> k = 0)"
  by (rule outage_never_evicts [of UNIV example_queue "[]" example_turn "example_config []" True "[]"])
    (simp_all add: rounds_def example_outage_def)

text \<open>A dispatcher that works on the session: it neither reports an outage nor is cancelled, adds
  nothing to the inbox, and does not trip the breaker.\<close>

definition healthy_now :: "monitor option \<Rightarrow> bool" where
  "healthy_now mo \<longleftrightarrow> (\<forall>m. mo = Some m \<longrightarrow> is_healthy m)"

definition attempts_session :: "path set \<Rightarrow> durable_queue \<Rightarrow> dispatcher \<Rightarrow> bool" where
  "attempts_session R q disp \<longleftrightarrow> (\<forall>w mo outcome w' mo'. store_ok R w \<longrightarrow>
     disp w mo = (outcome, w', mo') \<longrightarrow> store_ok R w' \<and> outcome \<noteq> WasCancelled \<and>
       (\<forall>a r. outcome \<noteq> ProviderUnavailable a r) \<and> (healthy_now mo \<longrightarrow> healthy_now mo') \<and>
       (\<forall>ids ids'. pending_ids q w = Inr ids \<longrightarrow> pending_ids q w' = Inr ids' \<longrightarrow> ids' \<subseteq> ids))"

lemma attempts_sessionD:
  assumes "attempts_session R q disp" "store_ok R w" "disp w mo = (outcome, w', mo')"
  shows "store_ok R w'" "outcome \<noteq> WasCancelled" "outcome \<noteq> ProviderUnavailable a r"
    "healthy_now mo \<Longrightarrow> healthy_now mo'"
    "pending_ids q w = Inr ids \<Longrightarrow> pending_ids q w' = Inr ids' \<Longrightarrow> ids' \<subseteq> ids"
  using assms unfolding attempts_session_def by blast+

lemma healthy_gate: "healthy_now mo \<Longrightarrow> pass_monitor now mo = Some mo"
  by (auto simp: pass_monitor_def healthy_now_def gate_check_def is_healthy_def split: option.splits)

lemma wrap_up_no_outage:
  assumes "sc_save cfg = None" "\<And>a r. outcome \<noteq> ProviderUnavailable a r" "healthy_now (t_monitor t)"
  shows "\<exists>t'. wrap_up cfg c outcome t = (Inr (), t') \<and> t_world t' = t_world t \<and>
    t_stall t' = t_stall t \<and> healthy_now (t_monitor t')"
proof (cases outcome)
  case Returned
  have "is_healthy (snd (report_success m))" for m by (simp add: is_healthy_def report_success_run)
  then show ?thesis using Returned assms(1)
    by (cases "t_monitor t")
      (auto simp: wrap_up_def save_session_def report_outcome_def clear_note_def ebind_def
        healthy_now_def report_success_run)
next
  case (ProviderUnavailable a r)
  then show ?thesis using assms(2) by blast
qed (use assms(3) in \<open>auto simp: wrap_up_def report_outcome_def ebind_def split: option.splits\<close>)

lemma round_makes_progress:
  assumes "store_ok R (t_world t)" "dispatch_targets_ok R q book"
    and "sc_evictor cfg = Some (default_progress_evictor book watched)" "sc_save cfg = None"
    and "attempts_session R q disp" "healthy_now (t_monitor t)" "t_stall t < sc_strikes cfg"
    and "prompt_pending q (t_world t) = Inr ps" "ps \<noteq> []"
  obtains outcome t' qs where "run_one_round cfg q disp c t = (Inr (Some outcome), t')"
    "store_ok R (t_world t')" "healthy_now (t_monitor t')" "t_stall t' < sc_strikes cfg"
    "prompt_pending q (t_world t') = Inr qs"
    "sc_strikes cfg * length qs + t_stall t < sc_strikes cfg * length ps + t_stall t'"
proof -
  have q: "q_root q \<in> R" using assms(2) by (simp add: dispatch_targets_ok_def)
  obtain outcome w mo where d: "disp (t_world t) (t_monitor t) = (outcome, w, mo)"
    by (rule prod_cases3)
  note a = attempts_sessionD [OF assms(5,1) d]
  obtain ps' where "prompt_pending q (t_world t) = Inr ps'"
    "pending_ids q (t_world t) = Inr (n_id ` set ps')" "card (n_id ` set ps') = length ps'"
    by (rule pending_ids_run [OF assms(1) q]) (rule that)
  then have ps: "pending_ids q (t_world t) = Inr (n_id ` set ps)" "card (n_id ` set ps) = length ps"
    using assms(8) by simp_all
  obtain qs where qs: "prompt_pending q w = Inr qs" "pending_ids q w = Inr (n_id ` set qs)"
    "card (n_id ` set qs) = length qs"
    by (rule pending_ids_run [OF a(1) q]) (rule that)
  have sub: "n_id ` set qs \<subseteq> n_id ` set ps" using a(5) [OF ps(1) qs(2)] .
  then have le: "length qs \<le> length ps"
    using card_mono [of "n_id ` set ps" "n_id ` set qs"] ps(2) qs(3) by simp
  have hm: "healthy_now mo" by (rule a(4) [OF assms(6)])
  then have h: "watching_healthy watched (t\<lparr>t_monitor := mo\<rparr>)"
    by (simp add: watching_healthy_def healthy_now_def)
  define c' where "c' = count_strike (sc_strikes cfg) outcome (n_id ` set ps) (n_id ` set qs) (t_stall t)"
  obtain w' k where r: "dispatch_round cfg q disp t =
      (Inr outcome, t\<lparr>t_world := w', t_monitor := mo, t_stall := k\<rparr>)" "store_ok R w'"
    and k: "sc_strikes cfg = 0 \<or> k < sc_strikes cfg"
    and e: "if sc_strikes cfg = 0 \<or> c' < sc_strikes cfg then w' = w \<and> k = c'
      else k = 0 \<and> (watching_healthy watched (t\<lparr>t_monitor := mo\<rparr>) \<longrightarrow>
        prompt_pending q w' = Inr (tl qs))"
    using dispatch_round_default [where disp = disp, OF assms(1-3) d a(1,2) assms(8) qs(1)]
    unfolding Let_def c'_def by blast
  have k': "k < sc_strikes cfg" using k assms(7) by simp
  have e': "if c' < sc_strikes cfg then w' = w \<and> k = c' else k = 0 \<and> prompt_pending q w' = Inr (tl qs)"
    using e h assms(7) by (simp split: if_splits)
  let ?t = "t\<lparr>t_world := w', t_monitor := mo, t_stall := k\<rparr>"
  have "healthy_now (t_monitor ?t)" using hm by simp
  then obtain t' where wrap: "wrap_up cfg c outcome ?t = (Inr (), t')" "t_world t' = w'"
    "t_stall t' = k" "healthy_now (t_monitor t')"
    using wrap_up_no_outage [OF assms(4) a(3), of ?t c] by auto
  have "\<exists>rs. prompt_pending q w' = Inr rs \<and>
      sc_strikes cfg * length rs + t_stall t < sc_strikes cfg * length ps + k"
  proof (cases "n_id ` set ps - n_id ` set qs = {}")
    case True
    then have eq: "length qs = length ps" using sub ps(2) qs(3) by (simp add: subset_antisym)
    have c: "t_stall t < c'" using True a(3) by (auto simp: c'_def count_strike_def split: round_outcome.splits)
    show ?thesis
    proof (cases "c' < sc_strikes cfg")
      case True
      with e' qs(1) c eq show ?thesis by simp
    next
      case False
      obtain l where l: "length ps = Suc l" using assms(9) by (cases ps) auto
      with False e' assms(7) eq show ?thesis by simp
    qed
  next
    case False
    then have "c' = 0" by (simp add: c'_def count_strike_def)
    then have r': "w' = w" "k = 0" using e' assms(7) by simp_all
    have "n_id ` set qs \<subset> n_id ` set ps" using False sub by blast
    then have "length qs < length ps"
      using psubset_card_mono [of "n_id ` set ps" "n_id ` set qs"] ps(2) qs(3) by simp
    then have "sc_strikes cfg * Suc (length qs) \<le> sc_strikes cfg * length ps"
      by (intro mult_le_mono2) simp
    with r' qs(1) assms(7) show ?thesis by auto
  qed
  then obtain rs where rs: "prompt_pending q w' = Inr rs"
    "sc_strikes cfg * length rs + t_stall t < sc_strikes cfg * length ps + k" by blast
  have "run_one_round cfg q disp c t = (Inr (Some outcome), t')"
    using healthy_gate [OF assms(6), of "rc_now c"] r(1) wrap(1)
    by (simp add: run_one_round_def ebind_def)
  then show thesis by (rule that) (use r(2) k' wrap rs in simp_all)
qed


definition example_stall :: dispatcher where
  "example_stall w mo = (RaisedOther, w, mo)"

definition example_clock :: round_clock where
  "example_clock = \<lparr>rc_now = 0, rc_jitter = 0, rc_snapshot = 0, rc_recorded_at = example_time\<rparr>"

lemma example_pending: "prompt_pending example_queue example_world = Inr [example_item]"
  by (rule prompt_pending_unique [OF example_stored(2), of _ UNIV]) (auto simp: live_here_def)


text \<open>An eviction takes exactly the oldest pending item out of the pending view, whether its
  RSVP target exists or not, and an evictor that watches a degraded monitor does nothing.\<close>

theorem eviction_takes_the_oldest:
  assumes "store_ok R (t_world t)" "dispatch_targets_ok R q book"
    and "prompt_pending q (t_world t) = Inr ps"
  shows "\<exists>w'. default_progress_evictor book watched q t = (Inr (), t\<lparr>t_world := w'\<rparr>) \<and> store_ok R w' \<and>
    prompt_pending q w' = Inr (if watched \<and> \<not> healthy_now (t_monitor t) then ps else tl ps)"
proof (cases "watching_healthy watched t")
  case True
  then show ?thesis
    using default_evictor_total [OF assms(1,2), of watched] assms(3)
    by (auto simp: watching_healthy_def healthy_now_def)
next
  case False
  then have "default_progress_evictor book watched q t = (Inr (), t\<lparr>t_world := t_world t\<rparr>)"
    by (auto simp: default_progress_evictor_def watching_healthy_def)
  moreover have "watched \<and> \<not> healthy_now (t_monitor t)"
    using False by (simp add: watching_healthy_def healthy_now_def)
  ultimately show ?thesis using assms(1,3) by (intro exI [of _ "t_world t"]) simp
qed

theorem eviction_takes_the_oldest_witness:
  "\<exists>w'. default_progress_evictor [] True example_queue example_turn =
     (Inr (), example_turn\<lparr>t_world := w'\<rparr>) \<and> prompt_pending example_queue w' = Inr []"
  using eviction_takes_the_oldest [of UNIV example_turn example_queue "[]" "[example_item]" True]
  by (auto simp: example_pending healthy_now_def)

section \<open>A probe whose round fails for another reason\<close>

text \<open>When the round admitted as the probe ends with an exception other than an outage, the
  round completes but reports nothing, and from then on the gate admits no round at any time.\<close>

theorem failing_probe_round_closes_the_gate:
  assumes "dispatch_targets_ok R q book" "sc_evictor cfg = Some (default_progress_evictor book watched)"
    and "store_ok R (t_world t)" "t_monitor t = Some m" "m_state m = DEGRADED"
    and "\<not> m_probe_in_flight m" "m_cooldown_until m \<le> rc_now c"
    and "outcome = RaisedOther \<or> outcome = LoopNoProgress" "store_ok R w"
    and "\<forall>mo. disp (t_world t) mo = (outcome, w, mo)"
  shows "\<exists>t'. run_one_round cfg q disp c t = (Inr (Some outcome), t') \<and>
    (\<forall>now. pass_monitor now (t_monitor t') = None)"
proof -
  let ?m = "m\<lparr>m_probe_in_flight := True\<rparr>"
  let ?t = "t\<lparr>t_monitor := Some ?m\<rparr>"
  have q: "q_root q \<in> R" using assms(1) by (simp add: dispatch_targets_ok_def)
  have gate: "pass_monitor (rc_now c) (t_monitor t) = Some (Some ?m)"
    using assms(4-7) by (simp add: pass_monitor_def gate_check_def)
  have w: "store_ok R (t_world ?t)" "outcome \<noteq> WasCancelled" using assms(3,8) by auto
  have d: "disp (t_world ?t) (t_monitor ?t) = (outcome, w, Some ?m)" using assms(10) by simp
  obtain ps where ps: "prompt_pending q (t_world ?t) = Inr ps"
    using prompt_pending_run [OF w(1) q] by metis
  obtain qs where qs: "prompt_pending q w = Inr qs" using prompt_pending_run [OF assms(9) q] by metis
  obtain w' k where r: "dispatch_round cfg q disp ?t =
      (Inr outcome, ?t\<lparr>t_world := w', t_monitor := Some ?m, t_stall := k\<rparr>)"
    using dispatch_round_default [where disp = disp, OF w(1) assms(1,2) d assms(9) w(2) ps qs] by blast
  let ?u = "?t\<lparr>t_world := w', t_monitor := Some ?m, t_stall := k\<rparr>"
  have "wrap_up cfg c outcome ?u = (Inr (), ?u)"
    using assms(8) by (auto simp: wrap_up_def report_outcome_def ebind_def)
  then have "run_one_round cfg q disp c t = (Inr (Some outcome), ?u)"
    using gate r by (simp add: run_one_round_def ebind_def)
  moreover have "pass_monitor now (t_monitor ?u) = None" for now
    using assms(5) by (simp add: pass_monitor_def gate_check_def)
  ultimately show ?thesis by blast
qed

theorem failing_probe_round_closes_the_gate_witness:
  "\<exists>t'. run_one_round (example_config []) example_queue example_stall (example_clock\<lparr>rc_now := 40\<rparr>)
      (example_turn\<lparr>t_monitor := Some (snd (report_failure 0 0 example_monitor))\<rparr>) = (Inr (Some RaisedOther), t') \<and>
    pass_monitor 1000 (t_monitor t') = None"
proof -
  let ?t = "example_turn\<lparr>t_monitor := Some (snd (report_failure 0 0 example_monitor))\<rparr>"
  have "\<exists>t'. run_one_round (example_config []) example_queue example_stall
      (example_clock\<lparr>rc_now := 40\<rparr>) ?t = (Inr (Some RaisedOther), t') \<and>
    (\<forall>now. pass_monitor now (t_monitor t') = None)"
  proof (rule failing_probe_round_closes_the_gate [of UNIV _ "[]" _ True _ _ _ _ example_world])
    show "t_monitor ?t = Some (snd (report_failure 0 0 example_monitor))" by simp
  qed (simp_all add: example_tripped example_stall_def example_clock_def,
      simp_all add: example_monitor_def)
  then show ?thesis by blast
qed

end
