(* ===== verification/Todos.thy ===== *)
theory Todos
  imports Timestamps
begin

text \<open>
  The TODO list of a session (\<open>src/thorn/runtime/_todo.py\<close>): its items, the operations of
  \<open>SessionTodoList\<close> on the file, and the summaries per inbox item. The YAML library is a
  parameter, a loader and a dumper. The file is its text, or absent; it is replaced
  atomically. The random tokens of a creation are a list, the draws in order.
\<close>

section \<open>Items\<close>

datatype todo_status = OPEN | COMPLETED | ABANDONED

fun todo_status_value :: "todo_status \<Rightarrow> string" where
  "todo_status_value OPEN = ''open''"
| "todo_status_value COMPLETED = ''completed''"
| "todo_status_value ABANDONED = ''abandoned''"

definition todo_statuses :: "todo_status list" where
  "todo_statuses = [OPEN, COMPLETED, ABANDONED]"

definition is_resolved :: "todo_status \<Rightarrow> bool" where
  "is_resolved s \<longleftrightarrow> s \<in> {COMPLETED, ABANDONED}"

record todo =
  td_id :: string
  td_title :: string
  td_status :: todo_status
  td_links :: "string list"
  td_notes :: "string option"
  td_rationale :: "string option"
  td_created :: timestamp
  td_updated :: timestamp

definition required_text :: "string \<Rightarrow> string \<Rightarrow> string result" where
  "required_text value field =
     (if py_strip value = [] then Inl (ValueError (field @ '' must not be empty''))
      else Inr (py_strip value))"

definition validated_title :: "string \<Rightarrow> string result" where
  "validated_title title = required_text title ''title''"

text \<open>\<open>_optional_text\<close> on an optional text, and on a value of the file.\<close>

definition optional_text :: "string option \<Rightarrow> string option" where
  "optional_text v =
     (case v of None \<Rightarrow> None | Some s \<Rightarrow> if py_strip s = [] then None else Some (py_strip s))"

definition optional_text_of :: "json \<Rightarrow> string option result" where
  "optional_text_of j =
     (if j = JNull then Inr None else rbind (py_str j) (\<lambda>s. Inr (optional_text (Some s))))"

definition todo_create ::
    "string \<Rightarrow> string \<Rightarrow> string option \<Rightarrow> string option \<Rightarrow> timestamp \<Rightarrow> todo result" where
  "todo_create i title link notes now =
     rbind (validated_title title) (\<lambda>t.
       Inr \<lparr>td_id = i, td_title = t, td_status = OPEN,
            td_links = (case link of None \<Rightarrow> [] | Some l \<Rightarrow> [l]), td_notes = optional_text notes,
            td_rationale = None, td_created = now, td_updated = now\<rparr>)"

definition todo_with_updates ::
    "string option \<Rightarrow> string option \<Rightarrow> string list option \<Rightarrow> timestamp \<Rightarrow> todo \<Rightarrow> todo result" where
  "todo_with_updates title notes links now d =
     rbind (case title of None \<Rightarrow> Inr (td_title d) | Some t \<Rightarrow> validated_title t) (\<lambda>t.
       Inr (d\<lparr>td_title := t,
              td_notes := (case notes of None \<Rightarrow> td_notes d | Some n \<Rightarrow> optional_text (Some n)),
              td_links := (case links of None \<Rightarrow> td_links d | Some ls \<Rightarrow> ls),
              td_updated := now\<rparr>))"

definition todo_resolve :: "todo_status \<Rightarrow> string \<Rightarrow> timestamp \<Rightarrow> todo \<Rightarrow> todo result" where
  "todo_resolve status why now d =
     (if \<not> is_resolved status then Inl (ValueError ''Cannot resolve a TODO with this status'')
      else rbind (required_text why ''rationale'') (\<lambda>r.
        Inr (d\<lparr>td_status := status, td_rationale := Some r, td_updated := now\<rparr>)))"

definition todo_to_data :: "todo \<Rightarrow> json" where
  "todo_to_data d = JObj
     [(''id'', JStr (td_id d)),
      (''title'', JStr (td_title d)),
      (''status'', JStr (todo_status_value (td_status d))),
      (''linked_inbox_item_ids'', JArr (map JStr (td_links d))),
      (''notes'', jstr_opt (td_notes d)),
      (''resolution_rationale'', jstr_opt (td_rationale d)),
      (''created_at'', JStr (isoformat (td_created d))),
      (''updated_at'', JStr (isoformat (td_updated d)))]"

text \<open>\<open>tuple(str(x) for x in value or ())\<close>: a text iterates over its characters.\<close>

fun link_tuple :: "json \<Rightarrow> string list result" where
  "link_tuple (JStr s) = Inr (map (\<lambda>c. [c]) s)"
| "link_tuple (JArr xs) = rmap_list py_str xs"
| "link_tuple (JObj m) = Inr (map fst m)"
| "link_tuple j = (if truthy j then Inl (TypeError ''not iterable'') else Inr [])"

definition datetime_from_data :: "json \<Rightarrow> timestamp result" where
  "datetime_from_data j = rbind (py_str j) (\<lambda>s. fromisoformat (JStr s))"

definition todo_status_of :: "json \<Rightarrow> todo_status result" where
  "todo_status_of j =
     rbind (py_str j) (\<lambda>s. enum_from_value todo_status_value todo_statuses (JStr s))"

definition todo_from_data :: "json \<Rightarrow> todo result" where
  "todo_from_data j =
     rbind (jmapping j) (\<lambda>m.
     rbind (rbind (jitem m ''id'') py_str) (\<lambda>i.
     rbind (rbind (rbind (jitem m ''title'') py_str) validated_title) (\<lambda>title.
     rbind (rbind (jitem m ''status'') todo_status_of) (\<lambda>status.
     rbind (link_tuple (jget m ''linked_inbox_item_ids'')) (\<lambda>links.
     rbind (optional_text_of (jget m ''notes'')) (\<lambda>notes.
     rbind (optional_text_of (jget m ''resolution_rationale'')) (\<lambda>why.
     rbind (rbind (jitem m ''created_at'') datetime_from_data) (\<lambda>created.
     rbind (rbind (jitem m ''updated_at'') datetime_from_data) (\<lambda>updated.
       Inr \<lparr>td_id = i, td_title = title, td_status = status, td_links = links, td_notes = notes,
            td_rationale = why, td_created = created, td_updated = updated\<rparr>)))))))))"

section \<open>The file\<close>

record yaml_library =
  y_load :: "string \<Rightarrow> json result"
  y_dump :: "json \<Rightarrow> string"

definition newline :: char where "newline = CHR 0x0A"

text \<open>\<open>str.find\<close>: the position of the first occurrence.\<close>

fun find_sub :: "string \<Rightarrow> string \<Rightarrow> nat option" where
  "find_sub pat s =
     (if py_startswith s pat then Some 0
      else (case s of [] \<Rightarrow> None | _ # t \<Rightarrow> map_option Suc (find_sub pat t)))"

declare find_sub.simps [simp del]

definition delimiter_line :: string where "delimiter_line = ''---'' @ [newline]"
definition closing_marker :: string where "closing_marker = [newline] @ delimiter_line"

definition load_front_matter :: "yaml_library \<Rightarrow> string \<Rightarrow> json_object result" where
  "load_front_matter y text0 =
     (if \<not> py_startswith text0 delimiter_line
      then Inl (ValueError ''TODO.md must start with YAML front matter'')
      else
        (let body = drop (length delimiter_line) text0 in
           case find_sub closing_marker body of
             None \<Rightarrow> Inl (ValueError ''TODO.md front matter is missing its closing delimiter'')
           | Some k \<Rightarrow>
               rbind (y_load y (take k body)) (\<lambda>v.
                 case (if truthy v then v else JObj []) of
                   JObj m \<Rightarrow> Inr m
                 | _ \<Rightarrow> Inl (ValueError ''TODO.md front matter must be a mapping''))))"

fun as_value_error :: "'a result \<Rightarrow> 'a result" where
  "as_value_error (Inl (KeyError e)) = Inl (ValueError ''TODO front matter contains an invalid item'')"
| "as_value_error (Inl (TypeError e)) = Inl (ValueError ''TODO front matter contains an invalid item'')"
| "as_value_error (Inl (ValueError e)) = Inl (ValueError ''TODO front matter contains an invalid item'')"
| "as_value_error r = r"

text \<open>\<open>data.get(''items'') or ()\<close>: a missing or an empty list becomes the empty tuple, which is
  not a list.\<close>

definition raw_items :: "json_object \<Rightarrow> json list result" where
  "raw_items m =
     (case jget m ''items'' of
        JArr (x # xs) \<Rightarrow> Inr (x # xs)
      | _ \<Rightarrow> Inl (ValueError ''TODO front matter field items must be a list''))"

definition load_items :: "yaml_library \<Rightarrow> string option \<Rightarrow> todo list result" where
  "load_items y file =
     (case file of
        None \<Rightarrow> Inr []
      | Some text0 \<Rightarrow>
          rbind (load_front_matter y text0) (\<lambda>m.
          rbind (raw_items m) (\<lambda>items. as_value_error (rmap_list todo_from_data items))))"

definition one_line :: "string \<Rightarrow> string" where
  "one_line value = py_strip (py_join '' '' (py_splitlines value))"

definition todo_lines :: "todo \<Rightarrow> string list" where
  "todo_lines d =
     [''- ['' @ (if td_status d = OPEN then '' '' else ''x'') @ ''] `'' @ td_id d @ ''` '' @
        one_line (td_title d)] @
     (if td_links d = [] then []
      else [''  - Linked inbox: '' @ py_join '', '' (map (\<lambda>l. ''`'' @ l @ ''`'') (td_links d))]) @
     (case td_notes d of
        None \<Rightarrow> [] | Some n \<Rightarrow> if n = [] then [] else [''  - Notes: '' @ one_line n]) @
     (case td_rationale d of
        None \<Rightarrow> [] | Some r \<Rightarrow> if r = [] then [] else [''  - Rationale: '' @ one_line r])"

definition todo_section :: "string \<Rightarrow> todo list \<Rightarrow> string list" where
  "todo_section heading items =
     [''## '' @ heading, []] @
     (if items = [] then [''- None'', []] else concat (map todo_lines items) @ [[]])"

definition markdown_body :: "todo list \<Rightarrow> string" where
  "markdown_body items =
     py_rstrip (py_join [newline]
       ([''# Session TODOs'', [],
         ''Edit the YAML front matter above if the structured tools are too narrow.'',
         ''The summary below is regenerated by Thorn.'', []] @
        todo_section ''Open'' (filter (\<lambda>d. td_status d = OPEN) items) @
        todo_section ''Completed'' (filter (\<lambda>d. td_status d = COMPLETED) items) @
        todo_section ''Abandoned'' (filter (\<lambda>d. td_status d = ABANDONED) items))) @ [newline]"

definition todo_payload :: "todo list \<Rightarrow> json" where
  "todo_payload items = JObj [(''version'', JInt 1), (''items'', JArr (map todo_to_data items))]"

definition todo_text :: "yaml_library \<Rightarrow> todo list \<Rightarrow> string" where
  "todo_text y items =
     delimiter_line @ y_dump y (todo_payload items) @ delimiter_line @ [newline] @ markdown_body items"

type_synonym todo_file = "string option"

definition write_items :: "yaml_library \<Rightarrow> todo list \<Rightarrow> (todo_file, unit) eff" where
  "write_items y items = eupdate (\<lambda>_. Some (todo_text y items))"

section \<open>Operations\<close>

definition index_for :: "todo list \<Rightarrow> string \<Rightarrow> nat result" where
  "index_for items i =
     (case find (\<lambda>k. td_id (items ! k) = i) [0..<length items] of
        None \<Rightarrow> Inl (KeyError i) | Some k \<Rightarrow> Inr k)"

text \<open>The loop draws until a token is fresh; the model stops when the given draws are used up.\<close>

definition generate_todo_id :: "string list \<Rightarrow> string list \<Rightarrow> string result" where
  "generate_todo_id draws existing =
     (case find (\<lambda>t. ''todo-'' @ t \<notin> set existing) draws of
        None \<Rightarrow> Inl (UntypedValue ''no more draws'') | Some t \<Rightarrow> Inr (''todo-'' @ t))"

definition list_create ::
    "yaml_library \<Rightarrow> string list \<Rightarrow> timestamp \<Rightarrow> string \<Rightarrow> string option \<Rightarrow> string option \<Rightarrow>
     (todo_file, todo) eff" where
  "list_create y draws now title link notes =
     ebind (eread (load_items y)) (\<lambda>items.
     ebind (elift (generate_todo_id draws (map td_id items))) (\<lambda>i.
     ebind (elift (todo_create i title link notes now)) (\<lambda>item.
     ebind (write_items y (items @ [item])) (\<lambda>_. eret item))))"

text \<open>Loading, changing one item in place, and writing all items back.\<close>

definition list_change ::
    "yaml_library \<Rightarrow> string \<Rightarrow> (todo \<Rightarrow> todo result) \<Rightarrow> (todo_file, todo) eff" where
  "list_change y i f =
     ebind (eread (load_items y)) (\<lambda>items.
     ebind (elift (index_for items i)) (\<lambda>k.
     ebind (elift (f (items ! k))) (\<lambda>d.
     ebind (write_items y (items[k := d])) (\<lambda>_. eret d))))"

definition list_update ::
    "yaml_library \<Rightarrow> timestamp \<Rightarrow> string \<Rightarrow> string option \<Rightarrow> string option \<Rightarrow> string list option \<Rightarrow>
     (todo_file, todo) eff" where
  "list_update y now i title notes links = list_change y i (todo_with_updates title notes links now)"

definition list_complete :: "yaml_library \<Rightarrow> timestamp \<Rightarrow> string \<Rightarrow> string \<Rightarrow> (todo_file, todo) eff" where
  "list_complete y now i why = list_change y i (todo_resolve COMPLETED why now)"

definition list_abandon :: "yaml_library \<Rightarrow> timestamp \<Rightarrow> string \<Rightarrow> string \<Rightarrow> (todo_file, todo) eff" where
  "list_abandon y now i why = list_change y i (todo_resolve ABANDONED why now)"

definition open_linked :: "string \<Rightarrow> todo list \<Rightarrow> todo list" where
  "open_linked i = filter (\<lambda>d. td_status d = OPEN \<and> i \<in> set (td_links d))"

definition unresolved_linked_to :: "yaml_library \<Rightarrow> string \<Rightarrow> todo_file \<Rightarrow> todo list result" where
  "unresolved_linked_to y i file = rbind (load_items y file) (\<lambda>items. Inr (open_linked i items))"

section \<open>Summaries\<close>

record todo_summary =
  ts_open :: nat
  ts_resolved :: nat
  ts_titles :: "string list"

definition empty_summary :: todo_summary where
  "empty_summary = \<lparr>ts_open = 0, ts_resolved = 0, ts_titles = []\<rparr>"

definition ts_total :: "todo_summary \<Rightarrow> nat" where
  "ts_total s = ts_open s + ts_resolved s"

definition summary_add :: "todo \<Rightarrow> todo_summary \<Rightarrow> todo_summary" where
  "summary_add d s =
     (if td_status d = OPEN
      then s\<lparr>ts_open := ts_open s + 1, ts_titles := ts_titles s @ [td_title d]\<rparr>
      else if is_resolved (td_status d) then s\<lparr>ts_resolved := ts_resolved s + 1\<rparr> else s)"

definition summarize_link ::
    "todo \<Rightarrow> string \<Rightarrow> (string \<times> todo_summary) list \<Rightarrow> (string \<times> todo_summary) list" where
  "summarize_link d i m =
     dict_set i (summary_add d (case map_of m i of None \<Rightarrow> empty_summary | Some s \<Rightarrow> s)) m"

definition linked_summaries :: "todo list \<Rightarrow> (string \<times> todo_summary) list" where
  "linked_summaries items = fold (\<lambda>d. fold (summarize_link d) (td_links d)) items []"

definition linked_summary_by_inbox_item ::
    "yaml_library \<Rightarrow> todo_file \<Rightarrow> (string \<times> todo_summary) list result" where
  "linked_summary_by_inbox_item y file =
     rbind (load_items y file) (\<lambda>items. Inr (linked_summaries items))"

section \<open>Reading back the file\<close>

definition plain_text :: "string \<Rightarrow> bool" where
  "plain_text s \<longleftrightarrow> s \<noteq> [] \<and> py_strip s = s"

definition valid_todo :: "todo \<Rightarrow> bool" where
  "valid_todo d \<longleftrightarrow>
     plain_text (td_title d) \<and> pred_option plain_text (td_notes d) \<and>
     pred_option plain_text (td_rationale d) \<and>
     valid_timestamp (td_created d) \<and> valid_timestamp (td_updated d)"

lemma optional_text_plain [simp]: "pred_option plain_text (optional_text v)"
  by (auto simp: optional_text_def plain_text_def split: option.splits)

lemma optional_text_of_plain [simp]:
  "pred_option plain_text v \<Longrightarrow> optional_text_of (jstr_opt v) = Inr v"
  by (cases v) (auto simp: optional_text_of_def optional_text_def plain_text_def)

lemma required_text_Inr: "required_text v f = Inr t \<Longrightarrow> plain_text t"
  by (auto simp: required_text_def plain_text_def split: if_splits)

lemma validated_title_plain [simp]: "plain_text t \<Longrightarrow> validated_title t = Inr t"
  by (simp add: validated_title_def required_text_def plain_text_def)

lemma todo_status_of_value [simp]: "todo_status_of (JStr (todo_status_value s)) = Inr s"
proof -
  have "inj_on todo_status_value (set todo_statuses)" by (auto simp: todo_statuses_def)
  moreover have "s \<in> set todo_statuses" by (cases s) (simp_all add: todo_statuses_def)
  ultimately show ?thesis by (simp add: todo_status_of_def enum_from_value_of)
qed

lemma link_tuple_strings [simp]: "link_tuple (JArr (map JStr xs)) = Inr xs"
  by (induction xs) simp_all

lemma datetime_roundtrip [simp]: "valid_timestamp t \<Longrightarrow> datetime_from_data (JStr (isoformat t)) = Inr t"
  unfolding datetime_from_data_def by (simp only: py_str.simps rbind.simps fromisoformat_isoformat)

interpretation todo_codec: codec todo_to_data todo_from_data valid_todo
proof
  show "valid_todo d \<Longrightarrow> todo_from_data (todo_to_data d) = Inr d" for d
    by (simp add: valid_todo_def todo_to_data_def todo_from_data_def jitem_def jget_def)
qed

text \<open>The closing delimiter is the first line that consists of three dashes.\<close>

lemma startswith_line:
  "newline \<notin> set l \<Longrightarrow> py_startswith (d @ newline # x) (l @ [newline]) \<Longrightarrow> hd (py_split newline d) = l"
proof (induction l arbitrary: d)
  case Nil
  then show ?case by (cases d) (auto split: list.splits)
next
  case (Cons a l)
  then obtain d' where "d = a # d'" by (cases d) auto
  with Cons have "hd (py_split newline d') = l" by simp
  with \<open>d = a # d'\<close> Cons.prems(1) show ?case
    by (cases "py_split newline d'") auto
qed

lemma find_closing:
  "''---'' \<notin> set (tl (py_split newline d)) \<Longrightarrow>
     find_sub closing_marker (d @ newline # delimiter_line @ x) = Some (length d)"
proof (induction d)
  case Nil
  show ?case by (subst find_sub.simps) (simp add: closing_marker_def)
next
  case (Cons c d)
  let ?s = "(c # d) @ newline # delimiter_line @ x"
  obtain w ws where w: "py_split newline d = w # ws" by (cases "py_split newline d") auto
  have "\<not> py_startswith ?s closing_marker"
  proof (cases "c = newline")
    case False
    then show ?thesis by (simp add: closing_marker_def)
  next
    case True
    then have "w \<noteq> ''---''" using Cons.prems w by auto
    moreover have "newline \<notin> set ''---''" by (simp add: newline_def)
    ultimately have "\<not> py_startswith (d @ newline # delimiter_line @ x) (''---'' @ [newline])"
      using startswith_line [of "''---''" d "delimiter_line @ x"] w by (metis list.sel(1))
    then show ?thesis by (simp add: closing_marker_def delimiter_line_def)
  qed
  moreover have "''---'' \<notin> set (tl (py_split newline d))"
    using Cons.prems w by (simp split: if_splits)
  ultimately show ?case using Cons.IH by (subst find_sub.simps) simp
qed

text \<open>What the code relies on of the YAML library for a document: the dump ends with a line
  break, has no line of three dashes, and loads, without its final line break, as the document.\<close>

definition yaml_reads_back :: "yaml_library \<Rightarrow> json \<Rightarrow> bool" where
  "yaml_reads_back y p \<longleftrightarrow>
     (\<exists>d. y_dump y p = d @ [newline] \<and> ''---'' \<notin> set (py_split newline d) \<and> y_load y d = Inr p)"

lemma load_written:
  assumes "yaml_reads_back y (todo_payload items)"
  shows "load_front_matter y (todo_text y items) = Inr [(''version'', JInt 1), (''items'', JArr (map todo_to_data items))]"
proof -
  obtain d where d: "y_dump y (todo_payload items) = d @ [newline]"
    "''---'' \<notin> set (py_split newline d)" "y_load y d = Inr (todo_payload items)"
    using assms by (auto simp: yaml_reads_back_def)
  have "''---'' \<notin> set (tl (py_split newline d))" using d(2) by (cases "py_split newline d") simp_all
  then have "find_sub closing_marker (d @ newline # delimiter_line @ [newline] @ markdown_body items) =
      Some (length d)" by (rule find_closing)
  moreover have "todo_text y items =
      delimiter_line @ d @ newline # delimiter_line @ [newline] @ markdown_body items"
    by (simp add: todo_text_def d(1))
  ultimately show ?thesis using d(3) by (simp add: load_front_matter_def todo_payload_def)
qed

lemma written_file_loads:
  assumes "items \<noteq> []" "list_all valid_todo items" "yaml_reads_back y (todo_payload items)"
  shows "load_items y (Some (todo_text y items)) = Inr items"
proof -
  have "raw_items [(''version'', JInt 1), (''items'', JArr (map todo_to_data items))] =
      Inr (map todo_to_data items)"
    using assms(1) by (cases items) (simp_all add: raw_items_def jget_def)
  moreover have "rmap_list todo_from_data (map todo_to_data items) = Inr items"
    by (rule todo_codec.dec_enc_list) (use assms(2) in \<open>simp add: list_all_iff\<close>)
  ultimately show ?thesis by (simp add: load_items_def load_written [OF assms(3)])
qed

text \<open>An item list written empty, or a file whose list a person emptied, cannot be loaded.\<close>

lemma empty_todo_file_is_refused:
  "load_items y (Some (todo_text y [])) =
     Inl (ValueError ''TODO front matter field items must be a list'')"
  if "yaml_reads_back y (todo_payload [])"
  by (simp add: load_items_def load_written [OF that] raw_items_def jget_def)

text \<open>C34: what the list writes it reads back: the file written for items with trimmed non-empty
  texts loads as exactly these items, in order, wherever dashes occur in them; only the file
  of an empty list is refused.\<close>

theorem todo_file_roundtrip:
  assumes "list_all valid_todo items" "yaml_reads_back y (todo_payload items)"
  shows "load_items y (Some (todo_text y items)) =
    (if items = [] then Inl (ValueError ''TODO front matter field items must be a list'') else Inr items)"
  using written_file_loads [OF _ assms] empty_todo_file_is_refused [of y] assms(2) by auto

definition example_todo :: todo where
  "example_todo = \<lparr>td_id = ''todo-a1'', td_title = ''---'', td_status = OPEN,
     td_links = [''item''], td_notes = None, td_rationale = None,
     td_created = \<lparr>ts_year = 2026, ts_month = 2, ts_day = 28, ts_hour = 0, ts_minute = 0,
       ts_second = 0, ts_micro = 0\<rparr>,
     td_updated = \<lparr>ts_year = 2026, ts_month = 2, ts_day = 28, ts_hour = 0, ts_minute = 0,
       ts_second = 0, ts_micro = 0\<rparr>\<rparr>"

text \<open>A library that knows one document.\<close>

definition one_document :: "json \<Rightarrow> yaml_library" where
  "one_document p = \<lparr>y_load = (\<lambda>_. Inr p), y_dump = (\<lambda>_. ''version: 1'' @ [newline])\<rparr>"

lemma one_document_reads_back [simp]: "yaml_reads_back (one_document p) p"
proof -
  have "''---'' \<notin> set (py_split newline ''version: 1'')" by code_simp
  then show ?thesis by (auto simp: yaml_reads_back_def one_document_def)
qed

lemma example_todo_valid [simp]: "valid_todo example_todo"
proof -
  have "plain_text ''---''" by code_simp
  then show ?thesis
    by (simp add: valid_todo_def example_todo_def valid_timestamp_def days_in_month_def is_leap_def)
qed

theorem todo_file_roundtrip_witness:
  "load_items (one_document (todo_payload [example_todo]))
     (Some (todo_text (one_document (todo_payload [example_todo])) [example_todo])) = Inr [example_todo]"
  using todo_file_roundtrip [of "[example_todo]" "one_document (todo_payload [example_todo])"] by simp

section \<open>Operations on the list\<close>

definition todo_list_ok :: "todo list \<Rightarrow> bool" where
  "todo_list_ok items \<longleftrightarrow> distinct (map td_id items) \<and> list_all valid_todo items"

lemma todo_create_Inr:
  "todo_create i title link notes now = Inr d \<Longrightarrow> valid_timestamp now \<Longrightarrow>
     valid_todo d \<and> td_id d = i \<and> td_status d = OPEN \<and> td_links d = (case link of None \<Rightarrow> [] | Some l \<Rightarrow> [l])"
  by (auto simp: todo_create_def valid_todo_def validated_title_def dest: required_text_Inr)

lemma todo_with_updates_Inr:
  "todo_with_updates title notes links now d = Inr e \<Longrightarrow> valid_timestamp now \<Longrightarrow> valid_todo d \<Longrightarrow>
     valid_todo e \<and> td_id e = td_id d \<and> td_status e = td_status d"
  by (auto simp: todo_with_updates_def valid_todo_def validated_title_def
      dest: required_text_Inr split: option.splits)

lemma todo_resolve_Inr:
  "todo_resolve st why now d = Inr e \<Longrightarrow> valid_timestamp now \<Longrightarrow> valid_todo d \<Longrightarrow>
     valid_todo e \<and> td_id e = td_id d \<and> td_status e = st \<and> is_resolved st"
  by (auto simp: todo_resolve_def valid_todo_def dest: required_text_Inr split: if_splits)

lemma generate_todo_id_fresh: "generate_todo_id draws ids = Inr i \<Longrightarrow> i \<notin> set ids"
  by (auto simp: generate_todo_id_def find_Some_iff split: option.splits)

text \<open>Draws that are not all taken give an identifier.\<close>

lemma generate_todo_id_terminates:
  "t \<in> set draws \<Longrightarrow> ''todo-'' @ t \<notin> set ids \<Longrightarrow> \<exists>i. generate_todo_id draws ids = Inr i"
  by (auto simp: generate_todo_id_def find_None_iff split: option.splits)

lemma index_for_Inr: "index_for items i = Inr k \<Longrightarrow> k < length items \<and> td_id (items ! k) = i"
  by (auto simp: index_for_def find_Some_iff split: option.splits)

lemma index_for_ex: "d \<in> set items \<Longrightarrow> \<exists>k. index_for items (td_id d) = Inr k"
  by (auto simp: index_for_def find_None_iff in_set_conv_nth split: option.splits)

lemma todo_list_ok_update:
  assumes "todo_list_ok items" "k < length items" "td_id d = td_id (items ! k)" "valid_todo d"
  shows "todo_list_ok (items[k := d])"
proof -
  have "map td_id (items[k := d]) = map td_id items"
    using assms(2,3) by (simp add: map_update list_update_same_conv)
  moreover have "list_all valid_todo (items[k := d])"
    using assms set_update_subset_insert [of items k d] by (auto simp: todo_list_ok_def list_all_iff)
  ultimately show ?thesis using assms(1) by (simp add: todo_list_ok_def)
qed

lemma list_change_run:
  assumes "load_items y file = Inr items" "todo_list_ok items"
    and "\<And>d e. valid_todo d \<Longrightarrow> f d = Inr e \<Longrightarrow> valid_todo e \<and> td_id e = td_id d"
  shows "(\<exists>e. list_change y i f file = (Inl e, file)) \<or>
    (\<exists>k d. list_change y i f file = (Inr d, Some (todo_text y (items[k := d]))) \<and>
      k < length items \<and> td_id (items ! k) = i \<and> f (items ! k) = Inr d \<and> todo_list_ok (items[k := d]))"
proof (cases "index_for items i")
  case (Inl e)
  then have "list_change y i f file = (Inl e, file)" by (simp add: list_change_def assms(1))
  then show ?thesis by blast
next
  case k: (Inr k)
  note kl = index_for_Inr [OF k]
  show ?thesis
  proof (cases "f (items ! k)")
    case (Inl e)
    then have "list_change y i f file = (Inl e, file)" by (simp add: list_change_def assms(1) k)
    then show ?thesis by blast
  next
    case d: (Inr d)
    have "valid_todo (items ! k)" using assms(2) kl by (simp add: todo_list_ok_def list_all_length)
    from assms(3) [OF this d] have "todo_list_ok (items[k := d])"
      using kl by (intro todo_list_ok_update [OF assms(2)]) simp_all
    moreover have "list_change y i f file = (Inr d, Some (todo_text y (items[k := d])))"
      by (simp add: list_change_def assms(1) k d write_items_def)
    ultimately show ?thesis using kl d by blast
  qed
qed

lemma not_open: "td_status d \<noteq> OPEN \<longleftrightarrow> is_resolved (td_status d)"
  by (cases "td_status d") (simp_all add: is_resolved_def)

lemma distinct_map_split:
  "k < length xs \<Longrightarrow> distinct (map f xs) \<Longrightarrow>
     f (xs ! k) \<notin> f ` set (take k xs) \<and> f (xs ! k) \<notin> f ` set (drop (Suc k) xs)"
proof -
  assume "k < length xs" "distinct (map f xs)"
  moreover from this have "map f xs = map f (take k xs) @ f (xs ! k) # map f (drop (Suc k) xs)"
    by (metis id_take_nth_drop list.simps(9) map_append)
  ultimately have "distinct (map f (take k xs) @ f (xs ! k) # map f (drop (Suc k) xs))" by simp
  then show ?thesis by auto
qed

text \<open>What a change of one item does, seen through the file.\<close>

lemma list_change_refines:
  assumes "load_items y file = Inr items" "todo_list_ok items"
    and "\<And>d e. valid_todo d \<Longrightarrow> f d = Inr e \<Longrightarrow> valid_todo e \<and> td_id e = td_id d"
    and "list_change y i f file = (Inr d, file')"
    and "\<And>k. k < length items \<Longrightarrow> yaml_reads_back y (todo_payload (items[k := d]))"
  shows "\<exists>k. k < length items \<and> td_id (items ! k) = i \<and> f (items ! k) = Inr d \<and>
    load_items y file' = Inr (items[k := d]) \<and> todo_list_ok (items[k := d])"
proof -
  obtain k where c: "file' = Some (todo_text y (items[k := d]))" "k < length items"
    "td_id (items ! k) = i" "f (items ! k) = Inr d" "todo_list_ok (items[k := d])"
    using list_change_run [where f = f and i = i, OF assms(1-3)] assms(4) by auto
  have "items[k := d] \<noteq> []" using c(2) by auto
  then have "load_items y file' = Inr (items[k := d])"
    unfolding c(1) using c(2,5) assms(5) by (intro written_file_loads) (simp_all add: todo_list_ok_def)
  with c show ?thesis by blast
qed

text \<open>A created TODO is open, has a fresh identifier and is appended to the file, which keeps
  identifiers distinct and texts trimmed.\<close>

theorem created_todo_is_appended:
  assumes "load_items y file = Inr items" "todo_list_ok items" "valid_timestamp now"
    and "list_create y draws now title link notes file = (Inr d, file')"
    and "yaml_reads_back y (todo_payload (items @ [d]))"
  shows "load_items y file' = Inr (items @ [d]) \<and> todo_list_ok (items @ [d]) \<and>
    td_status d = OPEN \<and> td_id d \<notin> td_id ` set items"
proof -
  obtain i where i: "generate_todo_id draws (map td_id items) = Inr i"
    "todo_create i title link notes now = Inr d" "file' = Some (todo_text y (items @ [d]))"
    using assms(1,4) by (auto simp: list_create_def write_items_def ebind_eq_Inr)
  note d = todo_create_Inr [OF i(2) assms(3)] and fresh = generate_todo_id_fresh [OF i(1)]
  have "todo_list_ok (items @ [d])" using assms(2) d fresh by (auto simp: todo_list_ok_def)
  moreover from this have "load_items y file' = Inr (items @ [d])"
    unfolding i(3) by (intro written_file_loads [OF _ _ assms(5)]) (simp_all add: todo_list_ok_def)
  ultimately show ?thesis using d fresh by simp
qed

definition example_now :: timestamp where
  "example_now = td_created example_todo"

lemma example_now_valid [simp]: "valid_timestamp example_now"
  using example_todo_valid by (simp add: example_now_def valid_todo_def)

definition example_created :: todo where
  "example_created = \<lparr>td_id = ''todo-b'', td_title = ''t'', td_status = OPEN, td_links = [],
     td_notes = None, td_rationale = None, td_created = example_now, td_updated = example_now\<rparr>"

theorem created_todo_is_appended_witness:
  "load_items (one_document (todo_payload [example_created]))
     (snd (list_create (one_document (todo_payload [example_created])) [''b''] example_now ''t'' None None None)) =
   Inr [example_created]"
proof -
  let ?y = "one_document (todo_payload [example_created])"
  have t: "todo_create ''todo-b'' ''t'' None None example_now = Inr example_created"
  proof -
    have "validated_title ''t'' = Inr ''t''" by code_simp
    then show ?thesis by (simp add: todo_create_def example_created_def optional_text_def)
  qed
  have i: "generate_todo_id [''b''] [] = Inr ''todo-b''" by (simp add: generate_todo_id_def)
  have run: "list_create y [''b''] example_now ''t'' None None None =
      (Inr example_created, Some (todo_text y [example_created]))" for y
    by (simp add: list_create_def load_items_def i t write_items_def ebind_def)
  have l: "load_items ?y None = Inr []" by (simp add: load_items_def)
  have o: "todo_list_ok []" by (simp add: todo_list_ok_def)
  have r: "yaml_reads_back ?y (todo_payload ([] @ [example_created]))"
    by (simp only: append_Nil one_document_reads_back)
  from created_todo_is_appended [OF l o example_now_valid run r] show ?thesis
    by (simp only: run snd_conv append_Nil)
qed

text \<open>Completing or abandoning a TODO takes exactly it out of the open TODOs linked to any
  inbox item, in the file, and keeps the others and their order.\<close>

theorem resolved_todo_no_longer_blocks:
  assumes "load_items y file = Inr items" "todo_list_ok items" "valid_timestamp now"
    and "list_complete y now i why file = (Inr d, file') \<or> list_abandon y now i why file = (Inr d, file')"
    and "\<And>k. k < length items \<Longrightarrow> yaml_reads_back y (todo_payload (items[k := d]))"
  shows "unresolved_linked_to y j file' = Inr (filter (\<lambda>e. td_id e \<noteq> i) (open_linked j items))"
proof -
  obtain st where st: "list_change y i (todo_resolve st why now) file = (Inr d, file')"
    using assms(4) by (auto simp: list_complete_def list_abandon_def)
  have f: "valid_todo e \<and> td_id e = td_id d" if "valid_todo d" "todo_resolve st why now d = Inr e" for d e
    using todo_resolve_Inr [OF that(2) assms(3) that(1)] by simp
  obtain k where k: "k < length items" "td_id (items ! k) = i" "todo_resolve st why now (items ! k) = Inr d"
    "load_items y file' = Inr (items[k := d])"
    using list_change_refines [where f = "todo_resolve st why now", OF assms(1,2) f st assms(5)] by blast
  have resolved: "td_status d \<noteq> OPEN"
    using k(3) not_open [of d] by (auto simp: todo_resolve_def split: if_splits)
  let ?P = "\<lambda>e. td_status e = OPEN \<and> j \<in> set (td_links e)"
  have dist: "td_id e \<noteq> i" if "e \<in> set (take k items) \<union> set (drop (Suc k) items)" for e
    using distinct_map_split [OF k(1), of td_id] assms(2) k(2) that
    unfolding todo_list_ok_def by (metis UnE image_eqI)
  have "open_linked j (items[k := d]) = filter ?P (take k items) @ filter ?P (drop (Suc k) items)"
    using resolved k(1) by (simp add: open_linked_def upd_conv_take_nth_drop)
  moreover have "filter (\<lambda>e. td_id e \<noteq> i) (open_linked j items) =
      filter ?P (take k items) @ filter ?P (drop (Suc k) items)"
  proof -
    let ?Q = "\<lambda>e. td_id e \<noteq> i"
    have "filter ?P items = filter ?P (take k items @ items ! k # drop (Suc k) items)"
      using id_take_nth_drop [OF k(1)] by simp
    then have split: "filter ?Q (open_linked j items) =
        filter ?Q (filter ?P (take k items)) @ filter ?Q (filter ?P (drop (Suc k) items))"
      using k(2) by (simp add: open_linked_def del: filter_filter)
    have "filter ?Q (filter ?P xs) = filter ?P xs" if "\<forall>e \<in> set xs. td_id e \<noteq> i" for xs
      using that by (simp add: filter_id_conv del: filter_filter)
    then show ?thesis using dist split by (simp del: filter_filter)
  qed
  ultimately show ?thesis using k(4) by (simp add: unresolved_linked_to_def)
qed

text \<open>A library that knows the document of the file and the one that is written.\<close>

definition two_documents :: "json \<Rightarrow> json \<Rightarrow> yaml_library" where
  "two_documents p q = \<lparr>y_load = (\<lambda>t. if t = ''new'' then Inr q else Inr p), y_dump = (\<lambda>_. ''new'' @ [newline])\<rparr>"

definition example_file :: todo_file where
  "example_file = Some (delimiter_line @ ''old'' @ closing_marker)"

definition example_done :: todo where
  "example_done = example_todo\<lparr>td_status := COMPLETED, td_rationale := Some ''ok'', td_updated := example_now\<rparr>"

definition example_yaml :: yaml_library where
  "example_yaml = two_documents (todo_payload [example_todo]) (todo_payload [example_done])"

lemma example_yaml_reads_back: "yaml_reads_back example_yaml (todo_payload [example_done])"
proof -
  have "''---'' \<notin> set (py_split newline ''new'')" by code_simp
  then show ?thesis by (auto simp: yaml_reads_back_def example_yaml_def two_documents_def)
qed

lemma example_file_loads: "load_items example_yaml example_file = Inr [example_todo]"
proof -
  have "''---'' \<notin> set (tl (py_split newline ''old''))" by code_simp
  then have "find_sub closing_marker (''old'' @ newline # delimiter_line @ []) = Some (length ''old'')"
    by (rule find_closing)
  then have "load_front_matter example_yaml (delimiter_line @ ''old'' @ closing_marker) =
      Inr [(''version'', JInt 1), (''items'', JArr [todo_to_data example_todo])]"
    by (simp add: load_front_matter_def closing_marker_def example_yaml_def two_documents_def
        todo_payload_def)
  then show ?thesis
    using todo_codec.dec_enc [OF example_todo_valid]
    by (simp add: load_items_def example_file_def raw_items_def jget_def)
qed

lemma example_completion:
  "list_complete example_yaml example_now ''todo-a1'' ''ok'' example_file =
     (Inr example_done, Some (todo_text example_yaml [example_done]))"
proof -
  have r: "required_text ''ok'' ''rationale'' = Inr ''ok''" by code_simp
  have i: "index_for [example_todo] ''todo-a1'' = Inr 0" by (simp add: index_for_def example_todo_def)
  show ?thesis
    by (simp add: list_complete_def list_change_def example_file_loads i todo_resolve_def is_resolved_def r
        write_items_def example_done_def ebind_def)
qed

theorem resolved_todo_no_longer_blocks_witness:
  "unresolved_linked_to example_yaml ''item'' (Some (todo_text example_yaml [example_done])) = Inr []"
proof -
  have "todo_list_ok [example_todo]" by (simp add: todo_list_ok_def)
  moreover have "open_linked ''item'' [example_todo] = [example_todo]" "td_id example_todo = ''todo-a1''"
    by (simp_all add: open_linked_def example_todo_def)
  ultimately show ?thesis
    using resolved_todo_no_longer_blocks [OF example_file_loads _ example_now_valid
        disjI1 [OF example_completion], of "''item''"] example_yaml_reads_back
    by simp
qed

section \<open>Summaries and queries agree\<close>

lemma map_of_fold_links:
  "distinct ls \<Longrightarrow> map_of (fold (summarize_link d) ls m) i =
     (if i \<in> set ls
      then Some (summary_add d (case map_of m i of None \<Rightarrow> empty_summary | Some s \<Rightarrow> s))
      else map_of m i)"
  by (induction ls arbitrary: m) (auto simp: summarize_link_def split: option.splits)

definition summary_of :: "string \<Rightarrow> todo list \<Rightarrow> todo_summary" where
  "summary_of i items =
     \<lparr>ts_open = length (open_linked i items),
      ts_resolved = length (filter (\<lambda>d. td_status d \<noteq> OPEN \<and> i \<in> set (td_links d)) items),
      ts_titles = map td_title (open_linked i items)\<rparr>"

lemma summary_of_snoc:
  "i \<in> set (td_links d) \<Longrightarrow> summary_of i (items @ [d]) = summary_add d (summary_of i items)"
  "i \<notin> set (td_links d) \<Longrightarrow> summary_of i (items @ [d]) = summary_of i items"
  using not_open [of d] by (auto simp: summary_of_def summary_add_def open_linked_def)

lemma summary_of_unlinked:
  "\<not> (\<exists>d \<in> set items. i \<in> set (td_links d)) \<Longrightarrow> summary_of i items = empty_summary"
  by (auto simp: summary_of_def empty_summary_def open_linked_def filter_empty_conv)

text \<open>When no item names an inbox item twice, the summary of an inbox item counts and titles
  exactly the open TODOs that block its completion, counts the resolved ones, and exists for
  exactly the linked inbox items.\<close>

theorem summaries_agree_with_queries:
  assumes "list_all (\<lambda>d. distinct (td_links d)) items"
  shows "map_of (linked_summaries items) i =
    (if \<exists>d \<in> set items. i \<in> set (td_links d) then Some (summary_of i items) else None)"
  using assms
proof (induction items rule: rev_induct)
  case Nil
  show ?case by (simp add: linked_summaries_def)
next
  case (snoc d items)
  let ?m = "linked_summaries items"
  have IH: "map_of ?m i =
      (if \<exists>d \<in> set items. i \<in> set (td_links d) then Some (summary_of i items) else None)"
    using snoc by simp
  have acc: "(case map_of ?m i of None \<Rightarrow> empty_summary | Some s \<Rightarrow> s) = summary_of i items"
    using IH summary_of_unlinked [of items i] by (simp split: if_splits)
  have "map_of (linked_summaries (items @ [d])) i =
      (if i \<in> set (td_links d) then Some (summary_add d (summary_of i items)) else map_of ?m i)"
    using snoc.prems acc by (simp add: linked_summaries_def map_of_fold_links)
  then show ?case using IH summary_of_snoc [of i d items] by auto
qed

theorem summaries_agree_with_queries_witness:
  "map_of (linked_summaries [example_todo]) ''item'' = Some (summary_of ''item'' [example_todo])"
  using summaries_agree_with_queries [of "[example_todo]" "''item''"] by (simp add: example_todo_def)

end
