(* ===== verification/Working_Sets.thy ===== *)
theory Working_Sets
  imports Todos
begin

text \<open>
  The working set of a session (\<open>src/thorn/runtime/_working_set.py\<close>): its data with their
  serialized forms, the diagnostics and the block rendered into the prompt.
\<close>

section \<open>Data\<close>

datatype handling_phase = INTAKE | INSPECT | ACT | VALIDATE | CLOSEOUT | BLOCKED

fun phase_value :: "handling_phase \<Rightarrow> string" where
  "phase_value INTAKE = ''intake''"
| "phase_value INSPECT = ''inspect''"
| "phase_value ACT = ''act''"
| "phase_value VALIDATE = ''validate''"
| "phase_value CLOSEOUT = ''closeout''"
| "phase_value BLOCKED = ''blocked''"

definition handling_phases :: "handling_phase list" where
  "handling_phases = [INTAKE, INSPECT, ACT, VALIDATE, CLOSEOUT, BLOCKED]"

datatype context_kind = KDirectory | KFile | KUrl | KNote

fun kind_value :: "context_kind \<Rightarrow> string" where
  "kind_value KDirectory = ''directory''"
| "kind_value KFile = ''file''"
| "kind_value KUrl = ''url''"
| "kind_value KNote = ''note''"

definition context_kinds :: "context_kind list" where
  "context_kinds = [KDirectory, KFile, KUrl, KNote]"

datatype detail_level = LDirectory | LFile | LSpan | LStaleSummary

fun level_value :: "detail_level \<Rightarrow> string" where
  "level_value LDirectory = ''directory''"
| "level_value LFile = ''file''"
| "level_value LSpan = ''span''"
| "level_value LStaleSummary = ''stale_summary''"

definition detail_levels :: "detail_level list" where
  "detail_levels = [LDirectory, LFile, LSpan, LStaleSummary]"

datatype evidence = EvRead | EvSearch | EvEdit | EvCreate | EvDelete | EvMove

fun evidence_value :: "evidence \<Rightarrow> string" where
  "evidence_value EvRead = ''read''"
| "evidence_value EvSearch = ''search''"
| "evidence_value EvEdit = ''edit''"
| "evidence_value EvCreate = ''create''"
| "evidence_value EvDelete = ''delete''"
| "evidence_value EvMove = ''move''"

definition evidences :: "evidence list" where
  "evidences = [EvRead, EvSearch, EvEdit, EvCreate, EvDelete, EvMove]"

datatype validation_outcome = Passed | Failed | Skipped | Unknown

fun outcome_value :: "validation_outcome \<Rightarrow> string" where
  "outcome_value Passed = ''passed''"
| "outcome_value Failed = ''failed''"
| "outcome_value Skipped = ''skipped''"
| "outcome_value Unknown = ''unknown''"

definition validation_outcomes :: "validation_outcome list" where
  "validation_outcomes = [Passed, Failed, Skipped, Unknown]"

record context_entry =
  ce_kind :: context_kind
  ce_label :: string
  ce_level :: detail_level
  ce_summary :: "string option"
  ce_salience :: int
  ce_evidence :: "evidence list"
  ce_hash :: "string option"

record last_validation =
  lv_outcome :: validation_outcome
  lv_summary :: string
  lv_command :: "string option"

record blocker =
  bl_summary :: string
  bl_condition :: string

record working_set =
  ws_phase :: handling_phase
  ws_focus :: "string option"
  ws_objective :: "string option"
  ws_action :: "string option"
  ws_context :: "context_entry list"
  ws_validation :: "last_validation option"
  ws_no_validation :: "string option"
  ws_blocker :: "blocker option"
  ws_override :: "string option"

definition empty_working_set :: working_set where
  "empty_working_set = \<lparr>ws_phase = INTAKE, ws_focus = None, ws_objective = None, ws_action = None,
     ws_context = [], ws_validation = None, ws_no_validation = None, ws_blocker = None,
     ws_override = None\<rparr>"

section \<open>Serialized forms\<close>

definition field_if_some :: "string \<Rightarrow> ('a \<Rightarrow> json) \<Rightarrow> 'a option \<Rightarrow> json_object" where
  "field_if_some k f v = (case v of None \<Rightarrow> [] | Some x \<Rightarrow> [(k, f x)])"

definition entry_to_data :: "context_entry \<Rightarrow> json" where
  "entry_to_data e = JObj
     ([(''kind'', JStr (kind_value (ce_kind e))), (''label'', JStr (ce_label e)),
       (''detail_level'', JStr (level_value (ce_level e))), (''salience'', JInt (ce_salience e))] @
      field_if_some ''summary'' JStr (ce_summary e) @
      (if ce_evidence e = [] then []
       else [(''evidence'', JArr (map (\<lambda>v. JStr (evidence_value v)) (ce_evidence e)))]) @
      field_if_some ''content_hash'' JStr (ce_hash e))"

definition enum_of_str :: "('a \<Rightarrow> string) \<Rightarrow> 'a list \<Rightarrow> json \<Rightarrow> 'a result" where
  "enum_of_str val members j = rbind (py_str j) (\<lambda>s. enum_from_value val members (JStr s))"

definition required_of :: "json \<Rightarrow> string \<Rightarrow> string result" where
  "required_of j field = rbind (py_str j) (\<lambda>s. required_text s field)"

definition positive_int :: "json \<Rightarrow> string \<Rightarrow> int result" where
  "positive_int j field =
     (case py_int j of
        Inl (TypeError _) \<Rightarrow> Inl (ValueError (field @ '' must be an integer''))
      | Inl (ValueError _) \<Rightarrow> Inl (ValueError (field @ '' must be an integer''))
      | Inl e \<Rightarrow> Inl e
      | Inr i \<Rightarrow> if i < 1 then Inl (ValueError (field @ '' must be positive'')) else Inr i)"

text \<open>Iteration over a value, and \<open>data.get(key, default)\<close>.\<close>

fun py_iter :: "json \<Rightarrow> json list result" where
  "py_iter (JArr xs) = Inr xs"
| "py_iter (JStr s) = Inr (map (\<lambda>c. JStr [c]) s)"
| "py_iter (JObj m) = Inr (map (\<lambda>(k, _). JStr k) m)"
| "py_iter _ = Inl (TypeError ''not iterable'')"

definition jget_default :: "json_object \<Rightarrow> string \<Rightarrow> json \<Rightarrow> json" where
  "jget_default m k d = (case map_of m k of None \<Rightarrow> d | Some v \<Rightarrow> v)"

definition entry_from_data :: "json \<Rightarrow> context_entry result" where
  "entry_from_data j =
     rbind (jmapping j) (\<lambda>m.
     rbind (rbind (jitem m ''kind'') (enum_of_str kind_value context_kinds)) (\<lambda>kind.
     rbind (rbind (jitem m ''label'') (\<lambda>v. required_of v ''active context label'')) (\<lambda>label.
     rbind (rbind (jitem m ''detail_level'') (enum_of_str level_value detail_levels)) (\<lambda>level.
     rbind (optional_text_of (jget m ''summary'')) (\<lambda>summary.
     rbind (positive_int (jget_default m ''salience'' (JInt 1)) ''active context salience'') (\<lambda>salience.
     rbind (rbind (py_iter (jget_default m ''evidence'' (JArr [])))
        (rmap_list (enum_of_str evidence_value evidences))) (\<lambda>ev.
     rbind (optional_text_of (jget m ''content_hash'')) (\<lambda>hash.
       Inr \<lparr>ce_kind = kind, ce_label = label, ce_level = level, ce_summary = summary,
            ce_salience = salience, ce_evidence = ev, ce_hash = hash\<rparr>))))))))"

definition validation_to_data :: "last_validation \<Rightarrow> json" where
  "validation_to_data v = JObj
     ([(''outcome'', JStr (outcome_value (lv_outcome v))), (''summary'', JStr (lv_summary v))] @
      field_if_some ''command'' JStr (lv_command v))"

definition validation_from_data :: "json \<Rightarrow> last_validation result" where
  "validation_from_data j =
     rbind (jmapping j) (\<lambda>m.
     rbind (rbind (jitem m ''outcome'') (enum_of_str outcome_value validation_outcomes)) (\<lambda>out.
     rbind (rbind (jitem m ''summary'') (\<lambda>v. required_of v ''validation summary'')) (\<lambda>summary.
     rbind (optional_text_of (jget m ''command'')) (\<lambda>command.
       Inr \<lparr>lv_outcome = out, lv_summary = summary, lv_command = command\<rparr>))))"

definition blocker_to_data :: "blocker \<Rightarrow> json" where
  "blocker_to_data b = JObj
     [(''summary'', JStr (bl_summary b)), (''unblock_condition'', JStr (bl_condition b))]"

definition blocker_from_data :: "json \<Rightarrow> blocker result" where
  "blocker_from_data j =
     rbind (jmapping j) (\<lambda>m.
     rbind (rbind (jitem m ''summary'') (\<lambda>v. required_of v ''blocker summary'')) (\<lambda>summary.
     rbind (rbind (jitem m ''unblock_condition'') (\<lambda>v. required_of v ''blocker unblock condition''))
       (\<lambda>condition. Inr \<lparr>bl_summary = summary, bl_condition = condition\<rparr>)))"

definition working_set_to_data :: "working_set \<Rightarrow> json" where
  "working_set_to_data w = JObj
     ([(''phase'', JStr (phase_value (ws_phase w)))] @
      field_if_some ''focused_inbox_item_id'' JStr (ws_focus w) @
      field_if_some ''objective'' JStr (ws_objective w) @
      field_if_some ''last_action_summary'' JStr (ws_action w) @
      (if ws_context w = [] then []
       else [(''active_context'', JArr (map entry_to_data (ws_context w)))]) @
      field_if_some ''last_validation'' validation_to_data (ws_validation w) @
      field_if_some ''no_validation_rationale'' JStr (ws_no_validation w) @
      field_if_some ''blocker'' blocker_to_data (ws_blocker w) @
      field_if_some ''override_rationale'' JStr (ws_override w))"

definition decode_if_some :: "(json \<Rightarrow> 'a result) \<Rightarrow> json \<Rightarrow> 'a option result" where
  "decode_if_some f j = (if j = JNull then Inr None else rbind (f j) (\<lambda>x. Inr (Some x)))"

definition working_set_from_data :: "json \<Rightarrow> working_set result" where
  "working_set_from_data j =
     (if j = JNull then Inr empty_working_set
      else rbind (jdict j) (\<lambda>m.
        rbind (rbind (py_iter (jget_default m ''active_context'' (JArr []))) (rmap_list entry_from_data)) (\<lambda>ctx.
        rbind (enum_of_str phase_value handling_phases (jget_default m ''phase'' (JStr ''intake''))) (\<lambda>ph.
        rbind (decode_if_some py_str (jget m ''focused_inbox_item_id'')) (\<lambda>focus.
        rbind (optional_text_of (jget m ''objective'')) (\<lambda>objective.
        rbind (optional_text_of (jget m ''last_action_summary'')) (\<lambda>action.
        rbind (decode_if_some validation_from_data (jget m ''last_validation'')) (\<lambda>validation.
        rbind (optional_text_of (jget m ''no_validation_rationale'')) (\<lambda>no_validation.
        rbind (decode_if_some blocker_from_data (jget m ''blocker'')) (\<lambda>blk.
        rbind (optional_text_of (jget m ''override_rationale'')) (\<lambda>override.
          Inr \<lparr>ws_phase = ph, ws_focus = focus, ws_objective = objective, ws_action = action,
               ws_context = ctx, ws_validation = validation, ws_no_validation = no_validation,
               ws_blocker = blk, ws_override = override\<rparr>)))))))))))"

section \<open>Rendering\<close>

definition field_limit :: nat where "field_limit = 240"
definition repeated_access_salience :: int where "repeated_access_salience = 5"

definition compact_line :: "string \<Rightarrow> string" where
  "compact_line value =
     (let line = py_strip (py_join '' '' (py_split_ws value)) in
        if length line \<le> field_limit then line
        else py_rstrip (take (field_limit - 3) line) @ ''...'')"

definition evidence_parts :: "context_entry \<Rightarrow> string list" where
  "evidence_parts e = concat (map (\<lambda>v.
     (let n = count_list (ce_evidence e) v in
        if n = 0 then [] else if n = 1 then [evidence_value v]
        else [evidence_value v @ '' x'' @ show_nat n])) evidences)"

definition render_evidence :: "context_entry \<Rightarrow> string option" where
  "render_evidence e =
     (if evidence_parts e = [] then None else Some (py_join '', '' (evidence_parts e)))"

definition render_entry :: "context_entry \<Rightarrow> string" where
  "render_entry e =
     kind_value (ce_kind e) @ '' '' @ ce_label e @ '' ('' @ level_value (ce_level e) @ '')'' @
     (case ce_summary e of None \<Rightarrow> [] | Some s \<Rightarrow> '': '' @ compact_line s) @
     (case render_evidence e of None \<Rightarrow> [] | Some ev \<Rightarrow> '' ['' @ ev @ '']'')"

definition entry_diagnostic :: "context_entry \<Rightarrow> string list" where
  "entry_diagnostic e =
     (if ce_salience e < repeated_access_salience then []
      else [''active context repeatedly accessed: '' @ ce_label e @
            (case render_evidence e of
               None \<Rightarrow> '' (salience '' @ show_int (ce_salience e) @ '')''
             | Some ev \<Rightarrow> '' ('' @ ev @ ''; salience '' @ show_int (ce_salience e) @ '')'')])"

definition phase_diagnostics :: "working_set \<Rightarrow> string list" where
  "phase_diagnostics w =
     (if ws_phase w = INTAKE \<and> ws_focus w \<noteq> None
      then [''phase is intake but a focused inbox item is set''] else []) @
     (if ws_phase w \<noteq> INTAKE \<and> ws_focus w = None
      then [''phase is active but no focused inbox item is recorded''] else []) @
     (if ws_phase w = BLOCKED \<and> ws_blocker w = None
      then [''phase is blocked but no blocker is recorded''] else []) @
     (if ws_phase w \<noteq> BLOCKED \<and> ws_blocker w \<noteq> None
      then [''blocker is recorded while phase is not blocked''] else []) @
     (if ws_validation w \<noteq> None \<and> ws_no_validation w \<noteq> None
      then [''both last validation and no-validation rationale are recorded''] else [])"

definition working_set_diagnostics :: "working_set \<Rightarrow> string list" where
  "working_set_diagnostics w = phase_diagnostics w @ concat (map entry_diagnostic (ws_context w))"

text \<open>A list of which at most ten entries are shown.\<close>

definition first_ten :: "('a \<Rightarrow> string) \<Rightarrow> string \<Rightarrow> 'a list \<Rightarrow> string list" where
  "first_ten f what xs =
     map (\<lambda>x. ''- '' @ f x) (take 10 xs) @
     (if 10 < length xs then [''- ... '' @ show_nat (length xs - 10) @ '' more '' @ what] else [])"

definition optional_line :: "string \<Rightarrow> string option \<Rightarrow> string list" where
  "optional_line heading v = (case v of None \<Rightarrow> [] | Some s \<Rightarrow> [heading @ compact_line s])"

definition validation_lines :: "working_set \<Rightarrow> string list" where
  "validation_lines w =
     (case ws_validation w of
        Some v \<Rightarrow>
          (''Last validation: '' @ outcome_value (lv_outcome v) @ '': '' @ compact_line (lv_summary v)) #
          optional_line ''Validation command: '' (lv_command v)
      | None \<Rightarrow>
          (case ws_no_validation w of
             Some r \<Rightarrow> [''Validation: not run: '' @ compact_line r]
           | None \<Rightarrow> [''Validation: not recorded'']))"

definition block_lines ::
    "working_set \<Rightarrow> todo list \<Rightarrow> string list \<Rightarrow> string list \<Rightarrow> string list" where
  "block_lines w todos unfocused diags =
     [''[Current working set]'', ''Phase: '' @ phase_value (ws_phase w),
      ''Focused inbox item: '' @ (case ws_focus w of None \<Rightarrow> ''none'' | Some i \<Rightarrow> i)] @
     optional_line ''Objective: '' (ws_objective w) @
     optional_line ''Last action: '' (ws_action w) @
     [''Open TODOs:''] @
     (if todos = [] then [''- none'']
      else first_ten (\<lambda>d. td_id d @ '': '' @ compact_line (td_title d)) ''open TODO(s)'' todos) @
     (if unfocused = [] then []
      else ''In-progress inbox items outside focus:'' # first_ten id ''in-progress item(s)'' unfocused) @
     [''Active context:''] @
     (if ws_context w = [] then [''- none'']
      else first_ten render_entry ''context item(s)'' (ws_context w)) @
     validation_lines w @
     (case ws_blocker w of
        None \<Rightarrow> []
      | Some b \<Rightarrow> [''Blocker: '' @ compact_line (bl_summary b),
                   ''Unblocked by: '' @ compact_line (bl_condition b)]) @
     optional_line ''Override rationale: '' (ws_override w) @
     (if diags = [] then [] else ''Diagnostics:'' # map (\<lambda>d. ''- '' @ d) diags) @
     [''[/Current working set]'']"

definition render_working_set_block ::
    "working_set \<Rightarrow> todo list \<Rightarrow> string list \<Rightarrow> string option \<Rightarrow> string \<times> string list" where
  "render_working_set_block w todos unfocused todo_diagnostic =
     (let diags = working_set_diagnostics w @
            (case todo_diagnostic of None \<Rightarrow> [] | Some d \<Rightarrow> [d])
      in (py_join [newline] (block_lines w todos unfocused diags), diags))"

definition open_todo_items :: "todo list \<Rightarrow> todo list" where
  "open_todo_items = filter (\<lambda>d. td_status d = OPEN)"

section \<open>Reading back a serialized working set\<close>

lemma map_of_field_if_some [codec_simps]:
  "map_of (field_if_some k f v @ m) k' =
     (if k' = k then (case v of None \<Rightarrow> map_of m k | Some x \<Rightarrow> Some (f x)) else map_of m k')"
  by (cases v) (auto simp: field_if_some_def)

lemma map_of_field_last [codec_simps]:
  "map_of (field_if_some k f v) k' = (if k' = k then map_option f v else None)"
  by (cases v) (auto simp: field_if_some_def)

lemma map_of_field_if [codec_simps]:
  "map_of ((if b then [] else [(k, v)]) @ m) k' = (if k' = k \<and> \<not> b then Some v else map_of m k')"
  by simp

lemma enum_of_str_value:
  "inj_on val (set ms) \<Longrightarrow> m \<in> set ms \<Longrightarrow> enum_of_str val ms (JStr (val m)) = Inr m"
  by (simp add: enum_of_str_def enum_from_value_of)

lemma phase_of_value [codec_simps]: "enum_of_str phase_value handling_phases (JStr (phase_value x)) = Inr x"
  by (rule enum_of_str_value) (simp add: handling_phases_def, cases x, simp_all add: handling_phases_def)

lemma kind_of_value [codec_simps]: "enum_of_str kind_value context_kinds (JStr (kind_value x)) = Inr x"
  by (rule enum_of_str_value) (simp add: context_kinds_def, cases x, simp_all add: context_kinds_def)

lemma level_of_value [codec_simps]: "enum_of_str level_value detail_levels (JStr (level_value x)) = Inr x"
  by (rule enum_of_str_value) (simp add: detail_levels_def, cases x, simp_all add: detail_levels_def)

lemma evidence_of_value [codec_simps]: "enum_of_str evidence_value evidences (JStr (evidence_value x)) = Inr x"
  by (rule enum_of_str_value) (simp add: evidences_def, cases x, simp_all add: evidences_def)

lemma outcome_of_value [codec_simps]: "enum_of_str outcome_value validation_outcomes (JStr (outcome_value x)) = Inr x"
  by (rule enum_of_str_value) (simp add: validation_outcomes_def, cases x, simp_all add: validation_outcomes_def)

lemma required_of_plain [codec_simps]: "plain_text t \<Longrightarrow> required_of (JStr t) f = Inr t"
  by (simp add: required_of_def required_text_def plain_text_def)

lemma optional_text_of_str [codec_simps]: "plain_text t \<Longrightarrow> optional_text_of (JStr t) = Inr (Some t)"
  using optional_text_of_plain [of "Some t"] by simp

lemma optional_text_of_null [codec_simps]: "optional_text_of JNull = Inr None"
  by (simp add: optional_text_of_def)

lemma positive_int_of [codec_simps]: "1 \<le> i \<Longrightarrow> positive_int (JInt i) f = Inr i"
  by (simp add: positive_int_def)

text \<open>Texts are trimmed and not empty, saliences positive: what the decoders demand or produce.\<close>

definition valid_entry :: "context_entry \<Rightarrow> bool" where
  "valid_entry e \<longleftrightarrow> plain_text (ce_label e) \<and> pred_option plain_text (ce_summary e) \<and>
     1 \<le> ce_salience e \<and> pred_option plain_text (ce_hash e)"

definition valid_validation :: "last_validation \<Rightarrow> bool" where
  "valid_validation v \<longleftrightarrow> plain_text (lv_summary v) \<and> pred_option plain_text (lv_command v)"

definition valid_blocker :: "blocker \<Rightarrow> bool" where
  "valid_blocker b \<longleftrightarrow> plain_text (bl_summary b) \<and> plain_text (bl_condition b)"

definition valid_working_set :: "working_set \<Rightarrow> bool" where
  "valid_working_set w \<longleftrightarrow>
     pred_option plain_text (ws_objective w) \<and> pred_option plain_text (ws_action w) \<and>
     list_all valid_entry (ws_context w) \<and> pred_option valid_validation (ws_validation w) \<and>
     pred_option plain_text (ws_no_validation w) \<and> pred_option valid_blocker (ws_blocker w) \<and>
     pred_option plain_text (ws_override w)"

lemma rmap_list_enum:
  "(\<And>x. enum_of_str val ms (JStr (val x)) = Inr x) \<Longrightarrow>
     rmap_list (enum_of_str val ms) (map (\<lambda>v. JStr (val v)) xs) = Inr xs"
  by (induction xs) auto

lemma entry_roundtrip:
  assumes "valid_entry e"
  shows "entry_from_data (entry_to_data e) = Inr e"
proof -
  have ev: "rmap_list (enum_of_str evidence_value evidences)
      (map (\<lambda>v. JStr (evidence_value v)) (ce_evidence e)) = Inr (ce_evidence e)"
    by (rule rmap_list_enum) (rule evidence_of_value)
  show ?thesis
    using assms ev
    by (cases "ce_summary e"; cases "ce_hash e"; cases "ce_evidence e = []")
      (simp_all add: entry_from_data_def entry_to_data_def jitem_def jget_def jget_default_def
        codec_simps valid_entry_def del: map_of_append)
qed

interpretation entry_codec: codec entry_to_data entry_from_data valid_entry
  by unfold_locales (rule entry_roundtrip)

lemma validation_roundtrip [codec_simps]:
  "valid_validation v \<Longrightarrow> validation_from_data (validation_to_data v) = Inr v"
  by (cases "lv_command v")
    (simp_all add: validation_from_data_def validation_to_data_def jitem_def jget_def codec_simps
      valid_validation_def del: map_of_append)

lemma blocker_roundtrip [codec_simps]: "valid_blocker b \<Longrightarrow> blocker_from_data (blocker_to_data b) = Inr b"
  by (simp add: blocker_from_data_def blocker_to_data_def jitem_def codec_simps valid_blocker_def)

lemma not_null [simp]: "validation_to_data v \<noteq> JNull" "blocker_to_data b \<noteq> JNull"
  by (simp_all add: validation_to_data_def blocker_to_data_def)

text \<open>Reading back the serialized form of a working set whose texts are trimmed and not empty
  and whose saliences are positive gives the working set.\<close>

theorem working_set_roundtrip:
  assumes "valid_working_set w"
  shows "working_set_from_data (working_set_to_data w) = Inr w"
proof -
  have ctx: "rmap_list entry_from_data (map entry_to_data (ws_context w)) = Inr (ws_context w)"
    by (rule entry_codec.dec_enc_list) (use assms in \<open>simp add: valid_working_set_def list_all_iff\<close>)
  have opt: "optional_text_of (case v of None \<Rightarrow> JNull | Some x \<Rightarrow> JStr x) = Inr v"
    if "pred_option plain_text v" for v
    using that by (cases v) (simp_all add: codec_simps)
  have foc: "decode_if_some py_str (case v of None \<Rightarrow> JNull | Some x \<Rightarrow> JStr x) = Inr v" for v
    by (cases v) (simp_all add: decode_if_some_def)
  have val: "decode_if_some validation_from_data (case v of None \<Rightarrow> JNull | Some x \<Rightarrow> validation_to_data x) = Inr v"
    if "pred_option valid_validation v" for v
    using that by (cases v) (simp_all add: decode_if_some_def codec_simps)
  have blk: "decode_if_some blocker_from_data (case v of None \<Rightarrow> JNull | Some x \<Rightarrow> blocker_to_data x) = Inr v"
    if "pred_option valid_blocker v" for v
    using that by (cases v) (simp_all add: decode_if_some_def codec_simps)
  obtain m where m: "working_set_to_data w = JObj m" by (simp add: working_set_to_data_def)
  let ?j = "\<lambda>f v. case v of None \<Rightarrow> JNull | Some x \<Rightarrow> f x"
  have keys: "jget m ''focused_inbox_item_id'' = ?j JStr (ws_focus w)"
    "jget m ''objective'' = ?j JStr (ws_objective w)"
    "jget m ''last_action_summary'' = ?j JStr (ws_action w)"
    "jget m ''last_validation'' = ?j validation_to_data (ws_validation w)"
    "jget m ''no_validation_rationale'' = ?j JStr (ws_no_validation w)"
    "jget m ''blocker'' = ?j blocker_to_data (ws_blocker w)"
    "jget m ''override_rationale'' = ?j JStr (ws_override w)"
    "jget_default m ''phase'' d = JStr (phase_value (ws_phase w))"
    "jget_default m ''active_context'' (JArr []) = JArr (map entry_to_data (ws_context w))" for d
    using m by (auto simp: working_set_to_data_def jget_def jget_default_def codec_simps
        simp del: map_of_append split: option.splits if_splits)
  show ?thesis
    using assms
    by (simp add: working_set_from_data_def m keys ctx opt foc val blk phase_of_value valid_working_set_def)
qed

definition example_entry :: context_entry where
  "example_entry = \<lparr>ce_kind = KFile, ce_label = ''src/a.py'', ce_level = LSpan, ce_summary = None,
     ce_salience = 6, ce_evidence = [EvRead, EvEdit, EvRead], ce_hash = None\<rparr>"

definition example_working_set :: working_set where
  "example_working_set = \<lparr>ws_phase = BLOCKED, ws_focus = Some ''item'', ws_objective = Some ''fix'',
     ws_action = None, ws_context = [example_entry],
     ws_validation = Some \<lparr>lv_outcome = Passed, lv_summary = ''ok'', lv_command = None\<rparr>,
     ws_no_validation = None, ws_blocker = Some \<lparr>bl_summary = ''a'', bl_condition = ''b''\<rparr>,
     ws_override = None\<rparr>"

lemma example_working_set_valid: "valid_working_set example_working_set"
proof -
  have "plain_text ''fix''" "plain_text ''ok''" "plain_text ''a''" "plain_text ''b''" "plain_text ''src/a.py''"
    by code_simp+
  then show ?thesis
    by (simp add: valid_working_set_def example_working_set_def valid_validation_def valid_blocker_def
        valid_entry_def example_entry_def)
qed

theorem working_set_roundtrip_witness:
  "working_set_from_data (working_set_to_data example_working_set) = Inr example_working_set"
  by (rule working_set_roundtrip) (rule example_working_set_valid)

section \<open>Diagnostics\<close>

text \<open>A working set is consistent when exactly the active phases have a focus, exactly the blocked
  phase has a blocker, and validation evidence excludes a reason for having none.\<close>

definition consistent :: "working_set \<Rightarrow> bool" where
  "consistent w \<longleftrightarrow> (ws_phase w = INTAKE \<longleftrightarrow> ws_focus w = None) \<and>
     (ws_phase w = BLOCKED \<longleftrightarrow> ws_blocker w \<noteq> None) \<and> (ws_validation w = None \<or> ws_no_validation w = None)"

lemma phase_diagnostics_consistent: "phase_diagnostics w = [] \<longleftrightarrow> consistent w"
  by (auto simp: phase_diagnostics_def consistent_def)

text \<open>A working set has no diagnostic exactly when it is consistent and no context entry was
  accessed five times or more.\<close>

theorem diagnostics_empty_iff:
  "working_set_diagnostics w = [] \<longleftrightarrow> consistent w \<and> list_all (\<lambda>e. ce_salience e < 5) (ws_context w)"
proof -
  have "entry_diagnostic e = [] \<longleftrightarrow> ce_salience e < 5" for e
    by (simp add: entry_diagnostic_def repeated_access_salience_def)
  then show ?thesis
    by (simp add: working_set_diagnostics_def phase_diagnostics_consistent list_all_iff)
qed

section \<open>One line per field\<close>

lemma split_ws_step:
  "w \<in> set (py_split_ws (c # s)) \<Longrightarrow> w \<in> set (py_split_ws s) \<or>
     \<not> is_space c \<and> (w = [c] \<or> (\<exists>v \<in> set (py_split_ws s). w = c # v))"
  by (subst (asm) py_split_ws.simps(2))
    (auto simp del: py_split_ws.simps split: if_splits list.split_asm)

lemma split_ws_words: "w \<in> set (py_split_ws s) \<Longrightarrow> w \<noteq> [] \<and> (\<forall>c \<in> set w. \<not> is_space c)"
proof (induction s arbitrary: w)
  case (Cons c s)
  from split_ws_step [OF Cons.prems] Cons.IH show ?case by auto
qed simp

lemma set_py_join: "c \<in> set (py_join sep ws) \<Longrightarrow> c \<in> set sep \<or> (\<exists>w \<in> set ws. c \<in> set w)"
  by (induction sep ws rule: py_join.induct) auto

lemma set_py_rstrip: "set (py_rstrip s) \<subseteq> set s"
  using set_dropWhileD [of _ is_space "rev s"] by (auto simp: py_rstrip_def)

lemma set_py_strip: "set (py_strip s) \<subseteq> set s"
  using set_py_rstrip [of "py_lstrip s"] set_dropWhileD [of _ is_space s]
  by (auto simp: py_strip_def py_lstrip_def)

lemma length_py_rstrip: "length (py_rstrip s) \<le> length s"
  using length_dropWhile_le [of is_space "rev s"] by (simp add: py_rstrip_def)

text \<open>Whatever text an agent records, its rendering is one line of at most 240 characters, in
  which the only white space is the blank.\<close>

theorem compact_line_is_one_line:
  "length (compact_line s) \<le> 240 \<and> list_all (\<lambda>c. is_space c = (c = CHR '' '')) (compact_line s)"
proof -
  let ?l = "py_strip (py_join '' '' (py_split_ws s))"
  have l: "is_space c \<longrightarrow> c = CHR '' ''" if "c \<in> set ?l" for c
    using that set_py_strip set_py_join [of c "'' ''" "py_split_ws s"] split_ws_words by fastforce
  have dots: "\<not> is_space CHR ''.''" and blank: "is_space CHR '' ''" by code_simp+
  have "length (compact_line s) \<le> 240 \<and> (\<forall>c \<in> set (compact_line s). is_space c \<longrightarrow> c = CHR '' '')"
  proof (cases "length ?l \<le> 240")
    case True
    then show ?thesis using l by (simp add: compact_line_def field_limit_def Let_def)
  next
    case False
    have "length (py_rstrip (take 237 ?l)) \<le> 237"
      using length_py_rstrip [of "take 237 ?l"] by simp
    moreover have "\<forall>c \<in> set (py_rstrip (take 237 ?l)). is_space c \<longrightarrow> c = CHR '' ''"
      using l set_py_rstrip [of "take 237 ?l"] by (meson in_set_takeD subsetD)
    ultimately show ?thesis
      using False dots by (simp add: compact_line_def field_limit_def Let_def)
  qed
  with blank show ?thesis by (auto simp: list_all_iff)
qed

end
