(* ===== verification/Inbox_Tools.thy ===== *)
theory Inbox_Tools
  imports Dispatch Working_Sets
begin

text \<open>
  The tools by which an agent focuses and closes out the items of its session's inbox
  (\<open>src/thorn/runtime/_inbox_tools.py\<close>), from a resolved session on. They compose the inbox
  and its dispatch, the TODO list and the working set. Events and telemetry are left out; an
  answer keeps the constant part of its text. The saver answers with its error, if any.
\<close>

section \<open>Sessions\<close>

record tool_env =
  te_agent :: agent_id
  te_key :: session_key
  te_book :: book
  te_yaml :: yaml_library
  te_save_error :: "working_set \<Rightarrow> string option"

text \<open>The stored notifications, the TODO file, the working set of the session in memory and the
  one that was last persisted.\<close>

record tool_state =
  tl_world :: world
  tl_todos :: todo_file
  tl_ws :: working_set
  tl_saved :: working_set

datatype reply = Said string | Warned string | Refused string

definition current_session_inbox :: "tool_env \<Rightarrow> string + durable_queue" where
  "current_session_inbox env =
     (case book_get (te_book env) (SessionAddress (te_agent env) (te_key env)) of
        None \<Rightarrow> Inl ''Error: no inbox is registered''
      | Some q \<Rightarrow>
          (case q_kind q of
             InboxQueue _ \<Rightarrow> Inr q
           | _ \<Rightarrow> Inl ''Error: queue registered is not a SessionInbox''))"

definition save_focus :: "tool_env \<Rightarrow> working_set \<Rightarrow> (tool_state, string option) eff" where
  "save_focus env w s =
     (let s' = s\<lparr>tl_ws := w\<rparr> in
        case te_save_error env w of
          None \<Rightarrow> (Inr None, s'\<lparr>tl_saved := w\<rparr>)
        | Some e \<Rightarrow> (Inr (Some e), s'))"

definition on_world :: "(world, 'a) eff \<Rightarrow> (tool_state, 'a) eff" where
  "on_world m s = (case m (tl_world s) of (r, w) \<Rightarrow> (r, s\<lparr>tl_world := w\<rparr>))"

section \<open>Focus\<close>

record focus_request =
  fr_phase :: string
  fr_item :: "string option"
  fr_objective :: "string option"
  fr_action :: "string option"
  fr_outcome :: "string option"
  fr_summary :: "string option"
  fr_command :: "string option"
  fr_notes :: "string option"
  fr_override :: "string option"
  fr_blocker :: "string option"
  fr_unblock :: "string option"
  fr_no_validation :: "string option"

definition clean_request :: "focus_request \<Rightarrow> focus_request" where
  "clean_request r = r\<lparr>fr_item := optional_text (fr_item r), fr_objective := optional_text (fr_objective r),
     fr_action := optional_text (fr_action r), fr_summary := optional_text (fr_summary r),
     fr_command := optional_text (fr_command r), fr_notes := optional_text (fr_notes r),
     fr_override := optional_text (fr_override r), fr_blocker := optional_text (fr_blocker r),
     fr_unblock := optional_text (fr_unblock r), fr_no_validation := optional_text (fr_no_validation r)\<rparr>"

text \<open>The checks of the fields of a request for an active phase, in the order of the code.\<close>

definition field_error :: "handling_phase \<Rightarrow> focus_request \<Rightarrow> string option" where
  "field_error ph r =
     (if ph \<noteq> BLOCKED \<and> (fr_blocker r \<noteq> None \<or> fr_unblock r \<noteq> None)
      then Some ''Error: blocker fields are only valid when phase is blocked.''
      else if ph = BLOCKED \<and> (fr_blocker r = None \<or> fr_unblock r = None)
      then Some ''Error: blocker_summary and unblock_condition must be provided together''
      else if ph \<noteq> CLOSEOUT \<and> (fr_outcome r \<noteq> None \<or> fr_summary r \<noteq> None \<or> fr_command r \<noteq> None \<or>
          fr_no_validation r \<noteq> None)
      then Some ''Error: validation evidence is only recorded when moving to phase closeout.''
      else if fr_outcome r = None \<and> (fr_summary r \<noteq> None \<or> fr_command r \<noteq> None)
      then Some ''Error: validation_outcome is required when recording validation summary or command.''
      else if fr_outcome r \<noteq> None \<and> fr_summary r = None
      then Some ''Error: validation_summary is required when recording validation_outcome.''
      else if fr_outcome r \<noteq> None \<and> fr_no_validation r \<noteq> None
      then Some ''Error: provide validation evidence or no_validation_rationale, not both.''
      else None)"

definition the_text :: "string option \<Rightarrow> string" where
  "the_text v = (case v of None \<Rightarrow> [] | Some s \<Rightarrow> s)"

definition validation_record :: "focus_request \<Rightarrow> string + last_validation option" where
  "validation_record r =
     (case fr_outcome r of
        None \<Rightarrow> Inr None
      | Some out \<Rightarrow>
          (case enum_from_value outcome_value validation_outcomes (JStr out) of
             Inl _ \<Rightarrow> Inl ''Error: invalid validation_outcome''
           | Inr v \<Rightarrow> Inr (Some \<lparr>lv_outcome = v, lv_summary = the_text (fr_summary r),
                                lv_command = fr_command r\<rparr>)))"

text \<open>The item a request is about, from the working set it meets.\<close>

definition focus_target :: "working_set \<Rightarrow> focus_request \<Rightarrow> string + string" where
  "focus_target w r =
     (if fr_item r = None \<and> ws_phase w = INTAKE
      then Inl ''Error: item_id is required when moving from intake into focused work.''
      else (case (case fr_item r of None \<Rightarrow> ws_focus w | Some i \<Rightarrow> Some i) of
          None \<Rightarrow> Inl ''Error: item_id is required because no focused item is recorded.''
        | Some i \<Rightarrow>
            if ws_focus w \<noteq> None \<and> ws_focus w \<noteq> Some i \<and> ws_phase w \<noteq> INTAKE \<and> fr_override r = None
            then Inl ''Error: focused work is already on another item.''
            else Inr i))"

definition or_else :: "'a option \<Rightarrow> 'a option \<Rightarrow> 'a option" where
  "or_else a b = (case a of None \<Rightarrow> b | Some x \<Rightarrow> Some x)"

text \<open>The working set that follows, or the gate that refuses it.\<close>

definition next_working_set ::
    "working_set \<Rightarrow> handling_phase \<Rightarrow> focus_request \<Rightarrow> last_validation option \<Rightarrow> string \<Rightarrow> string + working_set" where
  "next_working_set w ph r rec i =
     (let carry = (ws_focus w = Some i \<and> ws_phase w \<noteq> INTAKE);
          old = (\<lambda>v. if carry then v else None);
          objective = or_else (fr_objective r) (old (ws_objective w));
          action = or_else (fr_action r) (old (ws_action w));
          validation = (if fr_no_validation r \<noteq> None then None
            else or_else rec (if carry then ws_validation w else None));
          no_validation = or_else (fr_no_validation r) (old (ws_no_validation w))
      in if objective = None \<and> fr_override r = None
         then Inl ''Error: objective is required for focused work.''
         else if ph = VALIDATE \<and> action = None \<and> fr_override r = None
         then Inl ''Error: action_summary is required before moving to validate.''
         else if ph = CLOSEOUT \<and> validation = None \<and> no_validation = None
         then Inl ''Error: closeout requires validation evidence or no_validation_rationale.''
         else Inr \<lparr>ws_phase = ph, ws_focus = Some i, ws_objective = objective, ws_action = action,
                   ws_context = (if carry then ws_context w else []), ws_validation = validation,
                   ws_no_validation = no_validation,
                   ws_blocker = (if ph = BLOCKED
                     then Some \<lparr>bl_summary = the_text (fr_blocker r), bl_condition = the_text (fr_unblock r)\<rparr>
                     else None),
                   ws_override = fr_override r\<rparr>)"

text \<open>\<open>try: ... except KeyError: ... except ValueError: ...\<close> around the claim; the flag of the
  answer says whether it was refused.\<close>

definition caught_as :: "reply \<Rightarrow> reply \<Rightarrow> (tool_state, 'a) eff \<Rightarrow> ('a \<Rightarrow> (tool_state, reply) eff) \<Rightarrow> (tool_state, reply) eff" where
  "caught_as on_key on_value m f s =
     (case m s of
        (Inl (KeyError _), s') \<Rightarrow> (Inr on_key, s')
      | (Inl (ValueError _), s') \<Rightarrow> (Inr on_value, s')
      | (Inl e, s') \<Rightarrow> (Inl e, s')
      | (Inr x, s') \<Rightarrow> f x s')"

definition no_such_item :: reply where
  "no_such_item = Refused ''Error: no inbox item with this id.''"

definition claim_item ::
    "tool_env \<Rightarrow> durable_queue \<Rightarrow> string \<Rightarrow> string option \<Rightarrow> notification \<Rightarrow> (tool_state, notification) eff" where
  "claim_item env q i notes item =
     (if n_status item = PENDING \<or> notes \<noteq> None
      then on_world (apply_handling_transition q i IN_PROGRESS (te_book env) notes None None)
      else eret item)"

definition clear_focus :: "tool_env \<Rightarrow> durable_queue \<Rightarrow> (tool_state, reply) eff" where
  "clear_focus env q =
     ebind (save_focus env empty_working_set) (\<lambda>err.
       case err of
         Some e \<Rightarrow> eret (Warned ''Warning: focus reset was applied in memory'')
       | None \<Rightarrow>
           ebind (eread (\<lambda>s. prompt_pending q (tl_world s))) (\<lambda>_.
             eret (Said ''Focus cleared. Phase is intake.'')))"

text \<open>The rest of the operation for an active phase, once the item is known: the item is read
  before the gates of the next working set, and claimed and focused after them.\<close>

definition focus_item ::
    "tool_env \<Rightarrow> durable_queue \<Rightarrow> handling_phase \<Rightarrow> focus_request \<Rightarrow> last_validation option \<Rightarrow> string \<Rightarrow>
     (tool_state, reply) eff" where
  "focus_item env q ph r rec i s =
     (case queue_get q i (tl_world s) of
        Inl (KeyError _) \<Rightarrow> (Inr no_such_item, s)
      | Inl e \<Rightarrow> (Inl e, s)
      | Inr item \<Rightarrow>
          if n_status item \<notin> {PENDING, IN_PROGRESS}
          then (Inr (Refused ''Error: focus can only target pending or in-progress items.''), s)
          else (case next_working_set (tl_ws s) ph r rec i of
              Inl e \<Rightarrow> (Inr (Refused e), s)
            | Inr w \<Rightarrow>
                caught_as no_such_item (Refused ''Error: claim refused'')
                  (claim_item env q i (fr_notes r) item)
                  (\<lambda>_. ebind (save_focus env w) (\<lambda>err.
                     ebind (eread (\<lambda>s. prompt_pending q (tl_world s))) (\<lambda>_.
                       case err of
                         Some e \<Rightarrow> eret (Warned ''Warning: working-set persistence failed'')
                       | None \<Rightarrow> eret (Said ''Focus updated'')))) s))"

definition update_focus :: "tool_env \<Rightarrow> focus_request \<Rightarrow> (tool_state, reply) eff" where
  "update_focus env req s =
     (let r = clean_request req in
      case current_session_inbox env of
        Inl e \<Rightarrow> (Inr (Refused e), s)
      | Inr q \<Rightarrow>
          (case enum_from_value phase_value handling_phases (JStr (fr_phase r)) of
             Inl _ \<Rightarrow> (Inr (Refused ''Error: invalid phase''), s)
           | Inr ph \<Rightarrow>
               if ph = INTAKE then
                 (if fr_item r \<noteq> None
                  then (Inr (Refused ''Error: item_id is not valid when returning focus to intake.''), s)
                  else clear_focus env q s)
               else (case field_error ph r of
                   Some e \<Rightarrow> (Inr (Refused e), s)
                 | None \<Rightarrow>
                     (case validation_record r of
                        Inl e \<Rightarrow> (Inr (Refused e), s)
                      | Inr rec \<Rightarrow>
                          (case focus_target (tl_ws s) r of
                             Inl e \<Rightarrow> (Inr (Refused e), s)
                           | Inr i \<Rightarrow> focus_item env q ph r rec i s)))))"

section \<open>Close-out\<close>

definition handled_gate_error :: "string \<Rightarrow> working_set \<Rightarrow> string option" where
  "handled_gate_error i w =
     (if ws_focus w \<noteq> Some i then
        (if ws_focus w = None
         then Some ''Error: inbox item cannot be marked handled until update_focus establishes it''
         else Some ''Error: inbox item cannot be marked handled while focused work is another'')
      else if ws_phase w \<noteq> CLOSEOUT
      then Some ''Error: focused inbox item cannot be marked handled until phase closeout''
      else if ws_validation w = None \<and> ws_no_validation w = None
      then Some ''Error: focused inbox item cannot be marked handled without validation evidence''
      else None)"

definition reset_focus :: "tool_env \<Rightarrow> string \<Rightarrow> (tool_state, unit) eff" where
  "reset_focus env i s =
     (if ws_focus (tl_ws s) \<noteq> Some i then (Inr (), s)
      else ebind (save_focus env empty_working_set) (\<lambda>_. eret ()) s)"

text \<open>The transition itself and the handlers of its exceptions; what follows a success or a
  failed dispatch clears the focus.\<close>

definition finish_item ::
    "tool_env \<Rightarrow> durable_queue \<Rightarrow> string \<Rightarrow> notification_status \<Rightarrow> string option \<Rightarrow> rationale option \<Rightarrow>
     string option \<Rightarrow> (tool_state, reply) eff" where
  "finish_item env q i st notes rat reason s =
     (case on_world (apply_handling_transition q i st (te_book env) notes rat reason) s of
        (Inl (KeyError _), s') \<Rightarrow> (Inr no_such_item, s')
      | (Inl (ValueError _), s') \<Rightarrow> (Inr (Refused ''Error: transition refused''), s')
      | (Inl (DispatchError _), s') \<Rightarrow>
          ebind (reset_focus env i) (\<lambda>_.
            eret (Warned ''Warning: dispatch to its RSVP target failed'')) s'
      | (Inl e, s') \<Rightarrow> (Inl e, s')
      | (Inr n, s') \<Rightarrow>
          ebind (reset_focus env i) (\<lambda>_.
            eret (Said (''Item is now '' @ status_value (n_status n)))) s')"

definition errored_transition ::
    "tool_env \<Rightarrow> durable_queue \<Rightarrow> string \<Rightarrow> string \<Rightarrow> rationale option \<Rightarrow> (tool_state, reply) eff" where
  "errored_transition env q i notes completion s =
     (if notes = [] then (Inr (Refused ''Error: notes is required when parking focused work''), s)
      else if completion \<noteq> None
      then (Inr (Refused ''Error: completion is only valid when marking an item as handled.''), s)
      else finish_item env q i ERRORED None None (Some notes) s)"

definition handled_transition ::
    "tool_env \<Rightarrow> durable_queue \<Rightarrow> string \<Rightarrow> string \<Rightarrow> rationale option \<Rightarrow> (tool_state, reply) eff" where
  "handled_transition env q i notes completion s =
     (case completion of
        None \<Rightarrow> (Inr (Refused ''Error: completion is required when marking an item as handled''), s)
      | Some r \<Rightarrow>
          if validation_errors r \<noteq> []
          then (Inr (Refused (''Error: completion rationale is incomplete: '' @
                  py_join ''; '' (validation_errors r))), s)
          else (case queue_get q i (tl_world s) of
              Inl (KeyError _) \<Rightarrow> (Inr no_such_item, s)
            | Inl (ValueError _) \<Rightarrow> (Inr (Refused ''Error: unreadable item''), s)
            | Inl e \<Rightarrow> (Inl e, s)
            | Inr _ \<Rightarrow>
                (case handled_gate_error i (tl_ws s) of
                   Some e \<Rightarrow> (Inr (Refused e), s)
                 | None \<Rightarrow>
                     (case unresolved_linked_to (te_yaml env) i (tl_todos s) of
                        Inl (ValueError _) \<Rightarrow> (Inr (Refused ''Error: session TODO list is unreadable''), s)
                      | Inl e \<Rightarrow> (Inl e, s)
                      | Inr (d # ds) \<Rightarrow>
                          (Inr (Refused ''Error: cannot mark inbox item handled while linked TODOs are open''), s)
                      | Inr [] \<Rightarrow>
                          finish_item env q i HANDLED (if notes = [] then None else Some notes)
                            (Some r) None s))))"

definition transition_terminal ::
    "tool_env \<Rightarrow> string \<Rightarrow> notification_status \<Rightarrow> string \<Rightarrow> rationale option \<Rightarrow> (tool_state, reply) eff" where
  "transition_terminal env i st notes completion s =
     (case current_session_inbox env of
        Inl e \<Rightarrow> (Inr (Refused e), s)
      | Inr q \<Rightarrow>
          if st = ERRORED then errored_transition env q i (py_strip notes) completion s
          else if st = HANDLED then handled_transition env q i (py_strip notes) completion s
          else (Inr (Refused ''Error: invalid terminal status''), s))"

definition focused_item_or_error :: "working_set \<Rightarrow> string" where
  "focused_item_or_error w =
     (case ws_focus w of None \<Rightarrow> ''Error: no inbox item is focused.'' | Some i \<Rightarrow> i)"

definition complete_focused_work ::
    "tool_env \<Rightarrow> rationale \<Rightarrow> string \<Rightarrow> (tool_state, reply) eff" where
  "complete_focused_work env completion notes s =
     (let f = focused_item_or_error (tl_ws s) in
        if py_startswith f ''Error:'' then (Inr (Refused f), s)
        else transition_terminal env f HANDLED notes (Some completion) s)"

definition park_focused_work :: "tool_env \<Rightarrow> string \<Rightarrow> (tool_state, reply) eff" where
  "park_focused_work env notes s =
     (let f = focused_item_or_error (tl_ws s) in
        if py_startswith f ''Error:'' then (Inr (Refused f), s)
        else transition_terminal env f ERRORED notes None s)"

definition update_inbox_item ::
    "tool_env \<Rightarrow> string \<Rightarrow> string \<Rightarrow> string \<Rightarrow> rationale option \<Rightarrow> (tool_state, reply) eff" where
  "update_inbox_item env i status notes completion s =
     (case current_session_inbox env of
        Inl e \<Rightarrow> (Inr (Refused e), s)
      | Inr _ \<Rightarrow>
          (case status_of_json (JStr status) of
             Inl _ \<Rightarrow> (Inr (Refused ''Error: invalid status''), s)
           | Inr st \<Rightarrow>
               if st = IN_PROGRESS
               then (Inr (Refused ''Error: update_inbox_item no longer claims work as in_progress.''), s)
               else transition_terminal env i st notes completion s))"

section \<open>Any sequence of calls\<close>

datatype tool_call =
    UpdateFocus focus_request
  | CompleteFocusedWork rationale string
  | ParkFocusedWork string
  | UpdateInboxItem string string string "rationale option"

fun run_tool :: "tool_env \<Rightarrow> tool_call \<Rightarrow> (tool_state, reply) eff" where
  "run_tool env (UpdateFocus r) = update_focus env r"
| "run_tool env (CompleteFocusedWork c notes) = complete_focused_work env c notes"
| "run_tool env (ParkFocusedWork notes) = park_focused_work env notes"
| "run_tool env (UpdateInboxItem i st notes c) = update_inbox_item env i st notes c"

text \<open>What holds of the working set whatever an agent calls: exactly the active phases have a
  focus, exactly the blocked phase has a blocker, and the close-out phase has evidence.\<close>

definition focus_ok :: "working_set \<Rightarrow> bool" where
  "focus_ok w \<longleftrightarrow> (ws_phase w = INTAKE \<longleftrightarrow> ws_focus w = None) \<and>
     (ws_phase w = BLOCKED \<longleftrightarrow> ws_blocker w \<noteq> None) \<and>
     (ws_phase w = CLOSEOUT \<longrightarrow> ws_validation w \<noteq> None \<or> ws_no_validation w \<noteq> None)"

lemma focus_ok_empty [simp]: "focus_ok empty_working_set"
  by (simp add: focus_ok_def empty_working_set_def)

lemma next_working_set_ok:
  "next_working_set w ph r rec i = Inr w' \<Longrightarrow> ph \<noteq> INTAKE \<Longrightarrow> focus_ok w'"
  by (auto simp: next_working_set_def Let_def focus_ok_def split: if_splits)

lemma on_world_ws: "on_world m s = (r, s') \<Longrightarrow> tl_ws s' = tl_ws s"
  by (auto simp: on_world_def split: prod.splits)

lemma save_focus_ws: "save_focus env w s = (r, s') \<Longrightarrow> tl_ws s' = w \<and> tl_world s' = tl_world s"
  by (auto simp: save_focus_def Let_def split: option.splits)

lemma claim_item_ws: "claim_item env q i notes item s = (r, s') \<Longrightarrow> tl_ws s' = tl_ws s"
  by (auto simp: claim_item_def dest: on_world_ws split: if_splits)

lemma clear_focus_ws: "clear_focus env q s = (r, s') \<Longrightarrow> tl_ws s' = empty_working_set \<and> tl_world s' = tl_world s"
  by (auto simp: clear_focus_def ebind_def dest: save_focus_ws split: prod.splits sum.splits option.splits)

lemma reset_focus_ws:
  "reset_focus env i s = (r, s') \<Longrightarrow> r = Inr () \<and> tl_world s' = tl_world s \<and>
     tl_ws s' = (if ws_focus (tl_ws s) = Some i then empty_working_set else tl_ws s)"
  by (auto simp: reset_focus_def ebind_def save_focus_def Let_def split: if_splits option.splits)

lemma caught_as_cases:
  assumes "caught_as k v m f s = (x, s')"
  obtains (raised) e where "m s = (Inl e, s')" "x = Inl e \<or> x = Inr k \<or> x = Inr v"
  | (went_on) y u where "m s = (Inr y, u)" "f y u = (x, s')"
  using assms by (auto simp: caught_as_def split: prod.splits sum.splits py_error.splits)

text \<open>How a call for an active phase ends: before the claim, with a refused claim, or with the next
  working set.\<close>

lemma focus_item_cases:
  assumes "focus_item env q ph r rec i s = (x, s')"
  obtains (same) "s' = s"
  | (claimed) item w e where "queue_get q i (tl_world s) = Inr item" "n_status item \<in> {PENDING, IN_PROGRESS}"
      "claim_item env q i (fr_notes r) item s = (Inl e, s')" "next_working_set (tl_ws s) ph r rec i = Inr w"
      "x = Inl e \<or> (\<exists>msg. x = Inr (Refused msg))"
  | (focused) item w n u where "queue_get q i (tl_world s) = Inr item" "n_status item \<in> {PENDING, IN_PROGRESS}"
      "claim_item env q i (fr_notes r) item s = (Inr n, u)" "next_working_set (tl_ws s) ph r rec i = Inr w"
      "tl_ws s' = w" "tl_world s' = tl_world u" "\<forall>msg. x \<noteq> Inr (Refused msg)"
proof (cases "queue_get q i (tl_world s)")
  case (Inl e)
  with assms same show thesis by (cases e) (auto simp: focus_item_def)
next
  case item: (Inr item)
  show thesis
  proof (cases "n_status item \<in> {PENDING, IN_PROGRESS}")
    case False
    with assms item same show thesis by (simp add: focus_item_def)
  next
    case live: True
    show thesis
    proof (cases "next_working_set (tl_ws s) ph r rec i")
      case (Inl e)
      with assms item live same show thesis by (auto simp: focus_item_def)
    next
      case w: (Inr w)
      let ?f = "\<lambda>_. ebind (save_focus env w) (\<lambda>err.
         ebind (eread (\<lambda>s. prompt_pending q (tl_world s))) (\<lambda>_.
           case err of
             Some e \<Rightarrow> eret (Warned ''Warning: working-set persistence failed'')
           | None \<Rightarrow> eret (Said ''Focus updated'')))"
      have "caught_as no_such_item (Refused ''Error: claim refused'')
          (claim_item env q i (fr_notes r) item) ?f s = (x, s')"
        using assms item live w by (auto simp: focus_item_def)
      then show thesis
      proof (cases rule: caught_as_cases)
        case (raised e)
        then show thesis using claimed [OF item live _ w] by (auto simp: no_such_item_def)
      next
        case (went_on n u)
        have "tl_ws s' = w \<and> tl_world s' = tl_world u \<and> (\<forall>msg. x \<noteq> Inr (Refused msg))"
          using went_on(2)
          by (auto simp: ebind_def split: prod.splits sum.splits option.splits dest!: save_focus_ws)
        then show thesis using focused [OF item live went_on(1) w] by blast
      qed
    qed
  qed
qed

lemma focus_item_ws:
  assumes "focus_item env q ph r rec i s = (x, s')"
  shows "tl_ws s' = tl_ws s \<or> next_working_set (tl_ws s) ph r rec i = Inr (tl_ws s')"
  using assms by (cases rule: focus_item_cases) (auto dest: claim_item_ws)

text \<open>How a focus call ends.\<close>

lemma update_focus_cases:
  assumes "update_focus env req s = (x, s')"
  obtains (same) "s' = s"
  | (cleared) q where "current_session_inbox env = Inr q" "clear_focus env q s = (x, s')"
  | (active) q ph rec i where "current_session_inbox env = Inr q" "ph \<noteq> INTAKE"
      "focus_item env q ph (clean_request req) rec i s = (x, s')"
  using assms
  by (auto simp: update_focus_def Let_def split: sum.splits if_splits option.splits)

lemma finish_item_cases:
  assumes "finish_item env q i st notes rat reason s = (x, s')"
  obtains (settled) u where "tl_world s' = tl_world u" "\<forall>msg. x \<noteq> Inr (Refused msg)"
      "tl_ws s' = (if ws_focus (tl_ws s) = Some i then empty_working_set else tl_ws s)"
      "on_world (apply_handling_transition q i st (te_book env) notes rat reason) s \<in>
         {(r, u) | r. \<not> isl r \<or> (\<exists>e. r = Inl (DispatchError e))}"
  | (failed) e where "on_world (apply_handling_transition q i st (te_book env) notes rat reason) s = (Inl e, s')"
      "\<forall>d. e \<noteq> DispatchError d"
proof -
  obtain r u where r: "on_world (apply_handling_transition q i st (te_book env) notes rat reason) s = (r, u)"
    by (metis surj_pair)
  note ws = on_world_ws [OF r]
  obtain a v where v: "reset_focus env i u = (a, v)" by (metis surj_pair)
  note reset = reset_focus_ws [OF v]
  show thesis
  proof (cases "\<exists>e. r = Inl e \<and> (\<forall>d. e \<noteq> DispatchError d)")
    case True
    then show thesis using assms r failed
      by (auto simp: finish_item_def split: py_error.splits)
  next
    case False
    have x: "s' = v" "\<forall>msg. x \<noteq> Inr (Refused msg)"
      using False assms r v reset
      by (auto simp: finish_item_def ebind_def split: sum.splits py_error.splits prod.splits)
    show thesis
      by (rule settled [of u]; use x reset ws r False in \<open>cases r; auto\<close>)
  qed
qed

lemma handled_transition_cases:
  assumes "handled_transition env q i notes completion s = (x, s')"
  obtains (same) "s' = s"
  | (finished) c n where "completion = Some c" "validation_errors c = []" "queue_get q i (tl_world s) = Inr n"
      "handled_gate_error i (tl_ws s) = None" "unresolved_linked_to (te_yaml env) i (tl_todos s) = Inr []"
      "finish_item env q i HANDLED (if notes = [] then None else Some notes) (Some c) None s = (x, s')"
proof (cases completion)
  case None
  with assms same show thesis by (simp add: handled_transition_def)
next
  case c: (Some c)
  show thesis
  proof (cases "validation_errors c = []")
    case False
    with assms c same show thesis by (simp add: handled_transition_def)
  next
    case v: True
    show thesis
    proof (cases "queue_get q i (tl_world s)")
      case (Inl e)
      with assms c v same show thesis by (cases e) (simp_all add: handled_transition_def)
    next
      case n: (Inr n)
      show thesis
      proof (cases "handled_gate_error i (tl_ws s)")
        case (Some e)
        with assms c v n same show thesis by (simp add: handled_transition_def)
      next
        case g: None
        show thesis
        proof (cases "unresolved_linked_to (te_yaml env) i (tl_todos s)")
          case (Inl e)
          with assms c v n g same show thesis by (cases e) (simp_all add: handled_transition_def)
        next
          case (Inr ds)
          with assms c v n g same finished show thesis
            by (cases ds) (simp_all add: handled_transition_def)
        qed
      qed
    qed
  qed
qed

text \<open>The terminal tools on one item: refused with nothing done, or one of the two transitions.\<close>

lemma transition_terminal_cases:
  assumes "transition_terminal env i st notes completion s = (x, s')"
  obtains (same) "s' = s"
  | (errored) q where "current_session_inbox env = Inr q" "py_strip notes \<noteq> []"
      "finish_item env q i ERRORED None None (Some (py_strip notes)) s = (x, s')"
  | (handled) q c where "current_session_inbox env = Inr q" "completion = Some c" "validation_errors c = []"
      "handled_gate_error i (tl_ws s) = None" "unresolved_linked_to (te_yaml env) i (tl_todos s) = Inr []"
      "finish_item env q i HANDLED (if py_strip notes = [] then None else Some (py_strip notes)) (Some c) None s = (x, s')"
proof (cases "current_session_inbox env")
  case (Inl e)
  with assms same show thesis by (simp add: transition_terminal_def)
next
  case q: (Inr q)
  consider "st = ERRORED" | "st = HANDLED" | "st \<noteq> ERRORED" "st \<noteq> HANDLED" by blast
  then show thesis
  proof cases
    case 1
    with assms q same errored show thesis
      by (auto simp: transition_terminal_def errored_transition_def split: if_splits)
  next
    case 2
    with assms q have "handled_transition env q i (py_strip notes) completion s = (x, s')"
      by (simp add: transition_terminal_def)
    then show thesis by (cases rule: handled_transition_cases) (use same handled [OF q] in blast)+
  next
    case 3
    with assms q same show thesis by (simp add: transition_terminal_def)
  qed
qed

lemma run_tool_cases:
  assumes "run_tool env call s = (x, s')"
  obtains (same) "s' = s"
  | (focus) req where "call = UpdateFocus req" "update_focus env req s = (x, s')"
  | (terminal) i st memo completion where "transition_terminal env i st memo completion s = (x, s')"
      "\<forall>c n. call = CompleteFocusedWork c n \<longrightarrow> ws_focus (tl_ws s) = Some i"
      "\<forall>n. call = ParkFocusedWork n \<longrightarrow> ws_focus (tl_ws s) = Some i"
proof (cases call)
  case (UpdateFocus req)
  with assms focus show thesis by simp
next
  case (CompleteFocusedWork c memo)
  show thesis
  proof (cases "ws_focus (tl_ws s)")
    case None
    with assms CompleteFocusedWork same show thesis
      by (simp add: complete_focused_work_def focused_item_or_error_def)
  next
    case (Some i)
    with assms CompleteFocusedWork same terminal [of i HANDLED memo "Some c"] show thesis
      by (auto simp: complete_focused_work_def focused_item_or_error_def Let_def split: if_splits)
  qed
next
  case (ParkFocusedWork memo)
  show thesis
  proof (cases "ws_focus (tl_ws s)")
    case None
    with assms ParkFocusedWork same show thesis
      by (simp add: park_focused_work_def focused_item_or_error_def)
  next
    case (Some i)
    with assms ParkFocusedWork same terminal [of i ERRORED memo None] show thesis
      by (auto simp: park_focused_work_def focused_item_or_error_def Let_def split: if_splits)
  qed
next
  case (UpdateInboxItem i st memo c)
  show thesis
  proof (cases "current_session_inbox env")
    case (Inl e)
    with assms UpdateInboxItem same show thesis by (simp add: update_inbox_item_def)
  next
    case q: (Inr q)
    show thesis
    proof (cases "status_of_json (JStr st)")
      case (Inl e)
      with assms UpdateInboxItem q same show thesis by (simp add: update_inbox_item_def)
    next
      case (Inr t)
      with assms UpdateInboxItem q same terminal [of i t memo c] show thesis
        by (cases "t = IN_PROGRESS") (simp_all add: update_inbox_item_def)
    qed
  qed
qed

section \<open>The working set stays well formed\<close>

definition after_calls :: "tool_env \<Rightarrow> tool_call list \<Rightarrow> tool_state \<Rightarrow> tool_state" where
  "after_calls env calls s = fold (\<lambda>c s. snd (run_tool env c s)) calls s"

lemma finish_item_ws:
  assumes "finish_item env q i st memo rat reason s = (x, s')"
  shows "tl_ws s' = tl_ws s \<or> tl_ws s' = empty_working_set"
  using assms by (cases rule: finish_item_cases) (auto dest: on_world_ws)

lemma run_tool_focus_ok:
  assumes "focus_ok (tl_ws s)"
  shows "focus_ok (tl_ws (snd (run_tool env call s)))"
proof -
  obtain x s' where r: "run_tool env call s = (x, s')" by (metis surj_pair)
  then have "focus_ok (tl_ws s')"
  proof (cases rule: run_tool_cases)
    case same
    then show ?thesis using assms by simp
  next
    case (focus req)
    from focus(2) show ?thesis
    proof (cases rule: update_focus_cases)
      case (active q ph rec i)
      then show ?thesis using focus_item_ws [OF active(3)] next_working_set_ok assms by metis
    qed (use assms in \<open>auto dest: clear_focus_ws\<close>)
  next
    case (terminal i st memo completion)
    from terminal(1) show ?thesis
      by (cases rule: transition_terminal_cases) (use assms finish_item_ws focus_ok_empty in metis)+
  qed
  with r show ?thesis by simp
qed

text \<open>C27: whatever tools an agent calls, in whatever order and with whatever arguments, exactly the
  active phases have a focused item, exactly the blocked phase has a blocker, and a session in
  the close-out phase has validation evidence or a reason for having none.\<close>

theorem focus_invariant:
  "focus_ok (tl_ws (after_calls env calls (s\<lparr>tl_ws := empty_working_set\<rparr>)))"
proof -
  have "focus_ok (tl_ws u) \<longrightarrow> focus_ok (tl_ws (after_calls env calls u))" for u
    by (induction calls arbitrary: u) (auto simp: after_calls_def run_tool_focus_ok)
  then show ?thesis by simp
qed

text \<open>Recording evidence in the close-out phase does not clear an earlier reason for having none.\<close>

lemma evidence_keeps_old_rationale:
  assumes "ws_focus w = Some i" "ws_phase w \<noteq> INTAKE" "ws_no_validation w \<noteq> None"
    and "fr_no_validation r = None" "next_working_set w CLOSEOUT r (Some v) i = Inr w'"
  shows "ws_validation w' = Some v \<and> ws_no_validation w' = ws_no_validation w \<and> \<not> consistent w'"
  using assms by (auto simp: next_working_set_def Let_def or_else_def consistent_def split: if_splits)

text \<open>Evidence of an earlier close-out counts for a later one, after any other phases.\<close>

lemma evidence_is_carried:
  assumes "ws_focus w = Some i" "ws_phase w \<noteq> INTAKE" "next_working_set w ph r None i = Inr w'"
    and "fr_no_validation r = None"
  shows "ws_validation w' = ws_validation w"
  using assms by (auto simp: next_working_set_def Let_def or_else_def split: if_splits)

section \<open>What the tools do to the inbox\<close>

lemma on_world_handling:
  assumes "store_ok R (tl_world s)" "dispatch_targets_ok R q book"
    and "on_world (apply_handling_transition q i st book memo rat reason) s = (r, u)"
  obtains (refused) e where "r = Inl e" "u = s" "\<forall>d. e \<noteq> DispatchError d"
  | (handled) n m where "stored (tl_world s) (q_root q) i = Some n" "n_status n \<in> {PENDING, IN_PROGRESS}"
      "with_updates (Some st) (transition_updates st memo rat reason) n = Inr m" "n_status m = st" "n_id m = i"
      "r = Inr m \<or> r = Inl (DispatchError i) \<and> st \<noteq> IN_PROGRESS" "store_ok R (tl_world u)"
      "stored (tl_world u) = handled_view q book m (stored (tl_world s))"
  using assms(1,2)
proof (cases rule: handling_total [where i = i and st = st and memo = memo and rat = rat and reason = reason])
  case (refused e)
  then show thesis using assms(3) that(1) by (auto simp: on_world_def)
next
  case (handled n m w')
  then show thesis using assms(3) that(2) [OF handled(1-5)] by (auto simp: on_world_def split: if_splits)
qed

text \<open>A focused item has been closed out: what the code demands before it marks it handled.\<close>

definition closed_out :: "tool_env \<Rightarrow> tool_state \<Rightarrow> string \<Rightarrow> bool" where
  "closed_out env s i \<longleftrightarrow> ws_focus (tl_ws s) = Some i \<and> ws_phase (tl_ws s) = CLOSEOUT \<and>
     (ws_validation (tl_ws s) \<noteq> None \<or> ws_no_validation (tl_ws s) \<noteq> None) \<and>
     unresolved_linked_to (te_yaml env) i (tl_todos s) = Inr []"

lemma handled_gate_None:
  "handled_gate_error i w = None \<longleftrightarrow> ws_focus w = Some i \<and> ws_phase w = CLOSEOUT \<and>
     (ws_validation w \<noteq> None \<or> ws_no_validation w \<noteq> None)"
  by (auto simp: handled_gate_error_def split: if_splits)

lemma handled_rationale:
  "with_updates (Some HANDLED) (transition_updates HANDLED memo (Some c) reason) n = Inr m \<Longrightarrow>
     n_rationale m = Some c"
  by (auto simp: with_updates_def transition_updates_def split: option.splits)

text \<open>The change of the store that one call makes.\<close>

definition tool_effect :: "tool_env \<Rightarrow> durable_queue \<Rightarrow> tool_state \<Rightarrow> tool_state \<Rightarrow> bool" where
  "tool_effect env q s s' \<longleftrightarrow> stored (tl_world s') = stored (tl_world s) \<or>
     (\<exists>i n m. stored (tl_world s) (q_root q) i = Some n \<and> n_status n \<in> {PENDING, IN_PROGRESS} \<and>
        n_id m = i \<and> stored (tl_world s') = handled_view q (te_book env) m (stored (tl_world s)) \<and>
        (n_status m = IN_PROGRESS \<or> n_status m = ERRORED \<or>
         n_status m = HANDLED \<and> closed_out env s i \<and>
           (\<exists>c. n_rationale m = Some c \<and> validation_errors c = [])))"

lemma finish_item_effect:
  assumes "store_ok R (tl_world s)" "dispatch_targets_ok R q (te_book env)"
    and "finish_item env q i st memo rat reason s = (x, s')" "st \<in> {HANDLED, ERRORED}"
    and "st = HANDLED \<Longrightarrow> closed_out env s i \<and> (\<exists>c. rat = Some c \<and> validation_errors c = [])"
  shows "store_ok R (tl_world s') \<and> tool_effect env q s s' \<and> ((\<exists>msg. x = Inr (Refused msg)) \<longrightarrow> s' = s)"
proof -
  obtain r u where r: "on_world (apply_handling_transition q i st (te_book env) memo rat reason) s = (r, u)"
    by (metis surj_pair)
  from assms(1,2) r show ?thesis
  proof (cases rule: on_world_handling)
    case (refused e)
    then have "s' = s" using r assms(3)
      by (auto simp: finish_item_def split: py_error.splits)
    then show ?thesis using assms(1) by (simp add: tool_effect_def)
  next
    case (handled n m)
    from assms(3) have w: "tl_world s' = tl_world u \<and> (\<forall>msg. x \<noteq> Inr (Refused msg))"
      by (cases rule: finish_item_cases) (use r handled in auto)
    have "n_status m = IN_PROGRESS \<or> n_status m = ERRORED \<or> n_status m = HANDLED \<and> closed_out env s i \<and>
        (\<exists>c. n_rationale m = Some c \<and> validation_errors c = [])"
      using assms(4,5) handled(3,4) handled_rationale by auto
    then have "tool_effect env q s s'"
      unfolding tool_effect_def using handled(1,2,5,8) w by (intro disjI2 exI [of _ i] exI [of _ n] exI [of _ m]) simp
    then show ?thesis using w handled(7) by auto
  qed
qed

lemma claim_item_effect:
  assumes "store_ok R (tl_world s)" "dispatch_targets_ok R q (te_book env)"
    and "claim_item env q i memo item s = (r, u)"
  shows "store_ok R (tl_world u) \<and> (stored (tl_world u) = stored (tl_world s) \<or>
      (\<exists>n m. stored (tl_world s) (q_root q) i = Some n \<and> n_status n \<in> {PENDING, IN_PROGRESS} \<and> n_id m = i \<and>
         n_status m = IN_PROGRESS \<and> stored (tl_world u) = handled_view q (te_book env) m (stored (tl_world s)))) \<and>
    (isl r \<longrightarrow> u = s)"
proof (cases "n_status item = PENDING \<or> memo \<noteq> None")
  case False
  then have "u = s" "r = Inr item" using assms(3) by (auto simp: claim_item_def)
  with assms(1) show ?thesis by simp
next
  case True
  then have "on_world (apply_handling_transition q i IN_PROGRESS (te_book env) memo None None) s = (r, u)"
    using assms(3) by (simp add: claim_item_def)
  with assms(1,2) show ?thesis
    by (cases rule: on_world_handling) (use assms(1) in auto)
qed

lemma run_tool_effect:
  assumes "store_ok R (tl_world s)" "current_session_inbox env = Inr q"
    and "dispatch_targets_ok R q (te_book env)" "run_tool env call s = (x, s')"
  shows "store_ok R (tl_world s') \<and> tool_effect env q s s' \<and> ((\<exists>msg. x = Inr (Refused msg)) \<longrightarrow> s' = s)"
  using assms(4)
proof (cases rule: run_tool_cases)
  case same
  then show ?thesis using assms(1) by (simp add: tool_effect_def)
next
  case (focus req)
  from focus(2) show ?thesis
  proof (cases rule: update_focus_cases)
    case same
    then show ?thesis using assms(1) by (simp add: tool_effect_def)
  next
    case (cleared q')
    then have "tl_world s' = tl_world s" "\<forall>msg. x \<noteq> Inr (Refused msg)"
      by (auto simp: clear_focus_def ebind_def save_focus_def Let_def split: option.splits sum.splits)
    then show ?thesis using assms(1) by (simp add: tool_effect_def)
  next
    case (active q' ph rec i)
    then have "q' = q" using assms(2) by simp
    with active(3) have f: "focus_item env q ph (clean_request req) rec i s = (x, s')" by simp
    then show ?thesis
    proof (cases rule: focus_item_cases)
      case same
      then show ?thesis using assms(1) by (simp add: tool_effect_def)
    next
      case (claimed item w e)
      then have "s' = s" "\<forall>msg. x \<noteq> Inr (Refused msg) \<or> s' = s"
        using claim_item_effect [OF assms(1,3) claimed(3)] by simp_all
      then show ?thesis using assms(1) by (simp add: tool_effect_def)
    next
      case (focused item w n u)
      have "tool_effect env q s s'" "store_ok R (tl_world s')"
        using claim_item_effect [OF assms(1,3) focused(3)] focused(6)
        by (auto simp: tool_effect_def simp del: insert_iff)
      then show ?thesis using focused(7) by simp
    qed
  qed
next
  case (terminal i st memo completion)
  from terminal(1) show ?thesis
  proof (cases rule: transition_terminal_cases)
    case same
    then show ?thesis using assms(1) by (simp add: tool_effect_def)
  next
    case (errored q')
    then show ?thesis
      using finish_item_effect [OF assms(1) _ errored(3)] assms(2,3) by simp
  next
    case (handled q' c)
    have "closed_out env s i" using handled(4,5) by (simp add: closed_out_def handled_gate_None)
    then show ?thesis
      using finish_item_effect [OF assms(1) _ handled(6)] handled(1,3) assms(2,3) by simp
  qed
qed

section \<open>A session with one item\<close>

definition desk_item :: notification where
  "desk_item = example_item\<lparr>n_id := ''a1''\<rparr>"

definition desk_inbox :: durable_queue where
  "desk_inbox = example_queue\<lparr>q_kind := InboxQueue (SessionAddress ''ann'' (SessionKey [''cli'']))\<rparr>"

definition desk_env :: tool_env where
  "desk_env = \<lparr>te_agent = ''ann'', te_key = SessionKey [''cli''],
     te_book = [(SessionAddress ''ann'' (SessionKey [''cli'']), desk_inbox)], te_yaml = example_yaml,
     te_save_error = (\<lambda>_. None)\<rparr>"

definition desk :: tool_state where
  "desk = \<lparr>tl_world = put_item [''inbox''] desk_item world_empty, tl_todos = None,
     tl_ws = empty_working_set, tl_saved = empty_working_set\<rparr>"

definition desk_rationale :: rationale where
  "desk_rationale = \<lparr>completed_actions = [''replied''], request_coverage = [''all of it''],
     self_review = ''read twice'', remaining_work = [], external_follow_up = []\<rparr>"

lemma desk_item_ok: "item_ok desk_item"
proof -
  have "local_id ''a1''" by code_simp
  then show ?thesis using example_item_ok by (simp add: desk_item_def item_ok_def valid_notification_def)
qed

lemma desk_facts [simp]:
  "store_ok UNIV (tl_world desk)" "current_session_inbox desk_env = Inr desk_inbox"
  "dispatch_targets_ok UNIV desk_inbox (te_book desk_env)"
  "stored (tl_world desk) (q_root desk_inbox) ''a1'' = Some desk_item" "n_status desk_item = PENDING"
  "unresolved_linked_to (te_yaml desk_env) ''a1'' (tl_todos desk) = Inr []"
  "tl_ws desk = empty_working_set"
  using put_item_ok [OF _ desk_item_ok, of UNIV world_empty] stored_put_item [OF desk_item_ok]
  by (simp_all add: desk_def desk_env_def desk_inbox_def example_queue_def current_session_inbox_def
      dispatch_targets_ok_def book_get_def desk_item_def unresolved_linked_to_def load_items_def open_linked_def)

lemma desk_rationale_valid [simp]: "validation_errors desk_rationale = []"
  by code_simp

text \<open>C8: no call marks an item handled unless the session has closed it out: it is the focused
  item of a session in the close-out phase with validation evidence or a reason for having
  none, no open TODO is linked to it, and the completion rationale is complete. Any other
  change a call makes is one claim or one parking of a live item.\<close>

theorem only_closed_out_items_are_handled:
  assumes "store_ok R (tl_world s)" "current_session_inbox env = Inr q"
    and "dispatch_targets_ok R q (te_book env)"
  shows "tool_effect env q s (snd (run_tool env call s)) \<and> store_ok R (tl_world (snd (run_tool env call s)))"
proof -
  obtain x s' where r: "run_tool env call s = (x, s')" by (metis surj_pair)
  with run_tool_effect [OF assms r] show ?thesis by simp
qed

theorem only_closed_out_items_are_handled_witness:
  "tool_effect desk_env desk_inbox desk
     (snd (run_tool desk_env (UpdateInboxItem ''a1'' ''errored'' ''no access'' None) desk))"
  by (rule only_closed_out_items_are_handled [OF desk_facts(1-3), THEN conjunct1])

text \<open>A call that is refused changes nothing: neither the inbox nor the TODO file, nor the
  working set in memory or on disk.\<close>

theorem refused_calls_change_nothing:
  assumes "store_ok R (tl_world s)" "current_session_inbox env = Inr q"
    and "dispatch_targets_ok R q (te_book env)" "run_tool env call s = (Inr (Refused msg), s')"
  shows "s' = s"
  using run_tool_effect [OF assms] by blast

theorem refused_calls_change_nothing_witness:
  "snd (run_tool desk_env (UpdateInboxItem ''a1'' ''handled'' [] (Some desk_rationale)) desk) = desk"
proof -
  have st: "status_of_json (JStr ''handled'') = Inr HANDLED" by code_simp
  have "queue_get desk_inbox ''a1'' (tl_world desk) = Inr desk_item"
    using queue_get_run [OF desk_facts(1) UNIV_I] by (simp del: desk_facts(1))
  then have "\<exists>msg s'. run_tool desk_env (UpdateInboxItem ''a1'' ''handled'' [] (Some desk_rationale)) desk =
      (Inr (Refused msg), s')"
    using st by (simp add: update_inbox_item_def transition_terminal_def handled_transition_def
        handled_gate_error_def empty_working_set_def)
  then show ?thesis by (elim exE) (simp only: refused_calls_change_nothing [OF desk_facts(1-3)] snd_conv)
qed

section \<open>Work can be closed out\<close>

lemma on_world_todos: "on_world m s = (r, u) \<Longrightarrow> tl_todos u = tl_todos s"
  by (auto simp: on_world_def split: prod.splits)

lemma save_focus_run:
  "save_focus env w s = (Inr (te_save_error env w),
     s\<lparr>tl_ws := w, tl_saved := if te_save_error env w = None then w else tl_saved s\<rparr>)"
  by (simp add: save_focus_def Let_def split: option.splits)

lemma prompt_pending_runs:
  assumes "store_ok R w" "q_root q \<in> R"
  obtains ns where "prompt_pending q w = Inr ns"
proof -
  obtain ms where "queue_list q None w = Inr ms" by (rule queue_list_all [OF assms])
  with queue_list_filter [OF this] that show thesis by (simp add: prompt_pending_def)
qed

lemma claim_item_works:
  assumes "store_ok R (tl_world s)" "dispatch_targets_ok R q (te_book env)"
    and "stored (tl_world s) (q_root q) i = Some n" "n_status n \<in> {PENDING, IN_PROGRESS}"
  obtains m u where "claim_item env q i memo n s = (Inr m, u)" "store_ok R (tl_world u)"
    "n_status m = IN_PROGRESS" "tl_todos u = tl_todos s"
    "stored (tl_world u) = (\<lambda>r j. if r = q_root q \<and> j = i then Some m else stored (tl_world s) r j)"
proof (cases "n_status n = PENDING \<or> memo \<noteq> None")
  case False
  then show thesis using that [of n s] assms(1,3,4) by (auto simp: claim_item_def fun_eq_iff)
next
  case True
  have q: "q_root q \<in> R" using assms(2) by (simp add: dispatch_targets_ok_def)
  have c: "check_transition IN_PROGRESS memo None None = Inr ()"
    by (simp add: check_transition_def agent_visible_transitions_def)
  obtain m w' where m: "apply_handling_transition q i IN_PROGRESS (te_book env) memo None None (tl_world s) =
      (Inr m, w')" "n_status m = IN_PROGRESS" "n_id m = i" "store_ok R w'"
    "stored w' = handled_view q (te_book env) m (stored (tl_world s))"
    by (rule handling_effect [OF assms(1) q assms(3,4) c dispatch_target [OF assms(2)]]) (rule that, simp_all)
  show thesis
    by (rule that [of m "s\<lparr>tl_world := w'\<rparr>"])
      (use True m in \<open>simp_all add: claim_item_def on_world_def handled_view_def\<close>)
qed

lemma focus_item_works:
  assumes "store_ok R (tl_world s)" "dispatch_targets_ok R q (te_book env)"
    and "stored (tl_world s) (q_root q) i = Some n" "n_status n \<in> {PENDING, IN_PROGRESS}"
    and "next_working_set (tl_ws s) ph r rec i = Inr w"
  obtains x m u where "focus_item env q ph r rec i s = (Inr x, u)" "\<forall>msg. x \<noteq> Refused msg"
    "store_ok R (tl_world u)" "n_status m = IN_PROGRESS" "tl_ws u = w" "tl_todos u = tl_todos s"
    "stored (tl_world u) = (\<lambda>r j. if r = q_root q \<and> j = i then Some m else stored (tl_world s) r j)"
proof -
  have q: "q_root q \<in> R" using assms(2) by (simp add: dispatch_targets_ok_def)
  obtain m u where m: "claim_item env q i (fr_notes r) n s = (Inr m, u)" "store_ok R (tl_world u)"
    "n_status m = IN_PROGRESS" "tl_todos u = tl_todos s"
    "stored (tl_world u) = (\<lambda>r j. if r = q_root q \<and> j = i then Some m else stored (tl_world s) r j)"
    by (rule claim_item_works [OF assms(1-4)])
  obtain ns where ns: "prompt_pending q (tl_world u) = Inr ns" by (rule prompt_pending_runs [OF m(2) q])
  have run: "focus_item env q ph r rec i s =
      (Inr (case te_save_error env w of None \<Rightarrow> Said ''Focus updated''
        | Some e \<Rightarrow> Warned ''Warning: working-set persistence failed''),
       u\<lparr>tl_ws := w, tl_saved := if te_save_error env w = None then w else tl_saved u\<rparr>)"
    using assms(3-5) m(1) ns queue_get_run [OF assms(1) q]
    by (auto simp: focus_item_def caught_as_def ebind_def save_focus_run split: option.splits)
  show thesis
    by (rule that [OF run]) (use m in \<open>simp_all split: option.splits\<close>)
qed

text \<open>The request that forces an item into the close-out phase without validation evidence.\<close>

definition force_closeout :: "string \<Rightarrow> string \<Rightarrow> focus_request" where
  "force_closeout i why = \<lparr>fr_phase = ''closeout'', fr_item = Some i, fr_objective = None, fr_action = None,
     fr_outcome = None, fr_summary = None, fr_command = None, fr_notes = None, fr_override = Some why,
     fr_blocker = None, fr_unblock = None, fr_no_validation = Some why\<rparr>"

lemma force_closeout_runs:
  assumes "py_strip i = i" "i \<noteq> []" "py_strip why = why" "why \<noteq> []" "current_session_inbox env = Inr q"
  obtains w where "update_focus env (force_closeout i why) s =
      focus_item env q CLOSEOUT (force_closeout i why) None i s"
    "next_working_set (tl_ws s) CLOSEOUT (force_closeout i why) None i = Inr w"
    "ws_focus w = Some i" "ws_phase w = CLOSEOUT" "ws_no_validation w = Some why"
proof -
  let ?r = "force_closeout i why"
  have clean: "clean_request ?r = ?r"
    using assms(1-4) by (simp add: clean_request_def force_closeout_def optional_text_def)
  have ph: "enum_from_value phase_value handling_phases (JStr ''closeout'') = Inr CLOSEOUT"
    by code_simp
  have "update_focus env ?r s = focus_item env q CLOSEOUT ?r None i s"
    using clean ph assms(5)
    by (simp add: update_focus_def Let_def force_closeout_def field_error_def validation_record_def focus_target_def)
  moreover obtain w where "next_working_set (tl_ws s) CLOSEOUT ?r None i = Inr w"
    by (simp add: next_working_set_def Let_def force_closeout_def or_else_def)
  ultimately show thesis
    using that by (auto simp: next_working_set_def Let_def force_closeout_def or_else_def split: if_splits)
qed

lemma complete_works:
  assumes "store_ok R (tl_world s)" "current_session_inbox env = Inr q"
    and "dispatch_targets_ok R q (te_book env)" "closed_out env s i" "\<not> py_startswith i ''Error:''"
    and "stored (tl_world s) (q_root q) i = Some n" "n_status n \<in> {PENDING, IN_PROGRESS}"
    and "validation_errors c = []"
  obtains x m u where "complete_focused_work env c [] s = (Inr x, u)" "\<forall>msg. x \<noteq> Refused msg"
    "tl_ws u = empty_working_set" "n_status m = HANDLED" "n_id m = i"
    "stored (tl_world u) = handled_view q (te_book env) m (stored (tl_world s))"
proof -
  have q: "q_root q \<in> R" using assms(3) by (simp add: dispatch_targets_ok_def)
  have ok: "check_transition HANDLED None (Some c) None = Inr ()"
    using assms(8) by (simp add: check_transition_def agent_visible_transitions_def)
  obtain m w' where m: "apply_handling_transition q i HANDLED (te_book env) None (Some c) None (tl_world s) =
      (if step_two_destination q (te_book env) m = Unresolved then Inl (DispatchError i) else Inr m, w')"
    "n_status m = HANDLED" "n_id m = i"
    "stored w' = handled_view q (te_book env) m (stored (tl_world s))"
    by (rule handling_effect [OF assms(1) q assms(6,7) ok dispatch_target [OF assms(3)]]) (rule that, simp_all)
  obtain x u where fin: "finish_item env q i HANDLED None (Some c) None s = (Inr x, u)"
    "\<forall>msg. x \<noteq> Refused msg" "tl_ws u = empty_working_set" "tl_world u = w'"
  proof -
    have f: "ws_focus (tl_ws s) = Some i" using assms(4) by (simp add: closed_out_def)
    show thesis
      by (cases "step_two_destination q (te_book env) m = Unresolved"; rule that)
        (use m(1) f in \<open>simp_all add: finish_item_def on_world_def reset_focus_def ebind_def save_focus_run, simp_all\<close>)
  qed
  have "handled_gate_error i (tl_ws s) = None" "focused_item_or_error (tl_ws s) = i"
    "unresolved_linked_to (te_yaml env) i (tl_todos s) = Inr []"
    using assms(4) by (auto simp: closed_out_def handled_gate_None focused_item_or_error_def)
  then have "complete_focused_work env c [] s = (Inr x, u)"
    using assms(2,5,6,8) fin(1) queue_get_run [OF assms(1) q]
    by (simp add: complete_focused_work_def transition_terminal_def handled_transition_def Let_def)
  then show thesis using that fin m by simp
qed

text \<open>C25: a live item without open TODOs can always be finished, from whatever the session was
  working on: forced into the close-out phase with a reason for having no evidence and then
  completed with a valid rationale, it is marked handled and dispatched, and the session is
  back in intake.\<close>

theorem live_items_can_be_closed_out:
  assumes "store_ok R (tl_world s)" "current_session_inbox env = Inr q"
    and "dispatch_targets_ok R q (te_book env)"
    and "stored (tl_world s) (q_root q) i = Some n" "n_status n \<in> {PENDING, IN_PROGRESS}"
    and "unresolved_linked_to (te_yaml env) i (tl_todos s) = Inr []" "validation_errors c = []"
    and "py_strip i = i" "i \<noteq> []" "\<not> py_startswith i ''Error:''" "py_strip why = why" "why \<noteq> []"
  shows "\<exists>m. n_status m = HANDLED \<and> n_id m = i \<and>
    tl_ws (after_calls env [UpdateFocus (force_closeout i why), CompleteFocusedWork c []] s) = empty_working_set \<and>
    stored (tl_world (after_calls env [UpdateFocus (force_closeout i why), CompleteFocusedWork c []] s)) =
      handled_view q (te_book env) m (stored (tl_world s))"
proof -
  obtain w where w: "update_focus env (force_closeout i why) s =
      focus_item env q CLOSEOUT (force_closeout i why) None i s"
    "next_working_set (tl_ws s) CLOSEOUT (force_closeout i why) None i = Inr w"
    "ws_focus w = Some i" "ws_phase w = CLOSEOUT" "ws_no_validation w = Some why"
    by (rule force_closeout_runs [OF assms(8,9,11,12,2)])
  obtain x p u where u: "focus_item env q CLOSEOUT (force_closeout i why) None i s = (Inr x, u)"
    "store_ok R (tl_world u)" "n_status p = IN_PROGRESS" "tl_ws u = w" "tl_todos u = tl_todos s"
    "stored (tl_world u) = (\<lambda>r j. if r = q_root q \<and> j = i then Some p else stored (tl_world s) r j)"
    by (rule focus_item_works [OF assms(1,3-5) w(2)]) (rule that)
  have "closed_out env u i" using u w(3-5) assms(6) by (simp add: closed_out_def)
  moreover have "stored (tl_world u) (q_root q) i = Some p" "n_status p \<in> {PENDING, IN_PROGRESS}"
    using u(3,6) by simp_all
  ultimately obtain y m v where v: "complete_focused_work env c [] u = (Inr y, v)"
    "tl_ws v = empty_working_set" "n_status m = HANDLED" "n_id m = i"
    "stored (tl_world v) = handled_view q (te_book env) m (stored (tl_world u))"
    by (rule complete_works [OF u(2) assms(2,3) _ assms(10) _ _ assms(7)]) (rule that)
  have "stored (tl_world v) = handled_view q (te_book env) m (stored (tl_world s))"
    using v(4,5) by (auto simp: handled_view_def u(6) Let_def cong: if_cong)
  then show ?thesis using w(1) u(1) v by (auto simp: after_calls_def)
qed

theorem live_items_can_be_closed_out_witness:
  "tl_ws (after_calls desk_env
     [UpdateFocus (force_closeout ''a1'' ''no tests here''), CompleteFocusedWork desk_rationale []] desk) =
   empty_working_set"
proof -
  have "py_strip ''a1'' = ''a1''" "\<not> py_startswith ''a1'' ''Error:''"
    "py_strip ''no tests here'' = ''no tests here''" by code_simp+
  then show ?thesis
    using live_items_can_be_closed_out [OF desk_facts(1-4) _ desk_facts(6) desk_rationale_valid, of "''no tests here''"]
    by auto
qed

end
