(* ===== verification/Peers.thy ===== *)
theory Peers
  imports PyString
begin

text \<open>
  Who may instruct an agent: the actor of an event (\<open>src/thorn/gateway/_actor.py\<close>) and the
  registry of known peers (\<open>src/thorn/gateway/_peer.py\<close>). The registry is the pair of
  dictionaries the code builds; its lookup goes by service and immutable account identifier.
\<close>

section \<open>Actors\<close>

record actor =
  ac_service :: string
  ac_account :: string
  ac_display :: string
  ac_is_bot :: "bool option"
  ac_secondary :: "string list"

definition at_login_form :: "actor \<Rightarrow> string" where
  "at_login_form a = ''@'' @ (case ac_secondary a of [] \<Rightarrow> ac_account a | h # _ \<Rightarrow> h)"

definition describe_actor_for_log :: "actor option \<Rightarrow> string option \<Rightarrow> string" where
  "describe_actor_for_log a peer =
     (case peer of
        Some i \<Rightarrow> ''<peer:'' @ i @ ''>''
      | None \<Rightarrow>
          (case a of
             None \<Rightarrow> ''<actor:unknown>''
           | Some a \<Rightarrow> ''<actor:'' @ ac_service a @ '':'' @ ac_account a @ ''>''))"

section \<open>Peers\<close>

datatype peer_kind = Human | Bot

record peer_account =
  pa_service :: string
  pa_account :: string
  pa_handle :: string

record peer =
  pr_id :: string
  pr_name :: string
  pr_kind :: peer_kind
  pr_accounts :: "peer_account list"

definition is_alnum :: "char \<Rightarrow> bool" where
  "is_alnum c =
     (let n = of_char c :: nat in 65 \<le> n \<and> n \<le> 90 \<or> 97 \<le> n \<and> n \<le> 122 \<or> 48 \<le> n \<and> n \<le> 57)"

definition peer_id_chars :: "string \<Rightarrow> bool" where
  "peer_id_chars s = (s \<noteq> [] \<and> is_alnum (hd s) \<and>
     list_all (\<lambda>c. is_alnum c \<or> c \<in> {CHR ''_'', CHR ''.'', CHR ''-''}) (tl s))"

text \<open>The pattern is anchored by \<open>$\<close>, which also matches before a final line feed.\<close>

definition peer_id_matches :: "string \<Rightarrow> bool" where
  "peer_id_matches s = (peer_id_chars s \<or> (s \<noteq> [] \<and> last s = CHR 0x0A \<and> peer_id_chars (butlast s)))"

definition validate_account :: "peer_account \<Rightarrow> unit result" where
  "validate_account a =
     (if pa_service a = [] \<or> pa_account a = [] then Inl (ValueError ''too short'') else Inr ())"

definition validate_peer :: "peer \<Rightarrow> unit result" where
  "validate_peer p =
     (if pr_id p = [] then Inl (ValueError ''too short'')
      else rbind (rmap_list validate_account (pr_accounts p)) (\<lambda>_.
        if peer_id_matches (pr_id p) then Inr ()
        else Inl (ValueError ''Peer id must start with an alphanumeric character'')))"

section \<open>The registry\<close>

record registry =
  rg_peers :: "(string \<times> peer) list"
  rg_accounts :: "(string \<times> (string \<times> peer) list) list"

definition bucket_of :: "registry \<Rightarrow> string \<Rightarrow> (string \<times> peer) list" where
  "bucket_of g service = (case map_of (rg_accounts g) service of None \<Rightarrow> [] | Some b \<Rightarrow> b)"

definition claim_account :: "peer \<Rightarrow> peer_account \<Rightarrow> registry \<Rightarrow> registry result" where
  "claim_account p a g =
     (let b = bucket_of g (pa_service a);
          g' = g\<lparr>rg_accounts := dict_set (pa_service a) (dict_set (pa_account a) p b) (rg_accounts g)\<rparr>
      in case map_of b (pa_account a) of
           None \<Rightarrow> Inr g'
         | Some q \<Rightarrow>
             if pr_id q \<noteq> pr_id p
             then Inl (ValueError ''an account may belong to at most one peer.'')
             else Inr g')"

fun claim_accounts :: "peer \<Rightarrow> peer_account list \<Rightarrow> registry \<Rightarrow> registry result" where
  "claim_accounts p [] g = Inr g"
| "claim_accounts p (a # as) g = rbind (claim_account p a g) (claim_accounts p as)"

definition register_peer :: "peer \<Rightarrow> registry \<Rightarrow> registry result" where
  "register_peer p g =
     (if map_of (rg_peers g) (pr_id p) \<noteq> None
      then Inl (ValueError ''Duplicate peer id in peer registry'')
      else claim_accounts p (pr_accounts p) (g\<lparr>rg_peers := dict_set (pr_id p) p (rg_peers g)\<rparr>))"

fun register_peers :: "peer list \<Rightarrow> registry \<Rightarrow> registry result" where
  "register_peers [] g = Inr g"
| "register_peers (p # ps) g = rbind (register_peer p g) (register_peers ps)"

definition new_registry :: "peer list \<Rightarrow> registry result" where
  "new_registry ps = register_peers ps \<lparr>rg_peers = [], rg_accounts = []\<rparr>"

definition registry_get :: "registry \<Rightarrow> string \<Rightarrow> peer option" where
  "registry_get g i = map_of (rg_peers g) i"

definition lookup_account :: "registry \<Rightarrow> string \<Rightarrow> string \<Rightarrow> peer option" where
  "lookup_account g service account =
     (case map_of (rg_accounts g) service of None \<Rightarrow> None | Some b \<Rightarrow> map_of b account)"

definition lookup_actor :: "registry \<Rightarrow> actor \<Rightarrow> peer option" where
  "lookup_actor g a =
     (case map_of (rg_accounts g) (ac_service a) of None \<Rightarrow> None | Some b \<Rightarrow> map_of b (ac_account a))"

definition all_peers :: "registry \<Rightarrow> peer list" where
  "all_peers g = sort_key pr_id (map snd (rg_peers g))"

section \<open>What the registry promises\<close>

definition owns :: "peer \<Rightarrow> string \<Rightarrow> string \<Rightarrow> bool" where
  "owns p service account =
     list_ex (\<lambda>a. pa_service a = service \<and> pa_account a = account) (pr_accounts p)"

text \<open>The abstract registry: a set of peers, no two with one identifier or one account.\<close>

definition unambiguous :: "peer list \<Rightarrow> bool" where
  "unambiguous ps \<longleftrightarrow> distinct (map pr_id ps) \<and>
     (\<forall>p \<in> set ps. \<forall>q \<in> set ps. \<forall>s a. owns p s a \<and> owns q s a \<longrightarrow> p = q)"

definition represents :: "registry \<Rightarrow> peer list \<Rightarrow> bool" where
  "represents g ps \<longleftrightarrow> map fst (rg_peers g) = map pr_id ps \<and> map snd (rg_peers g) = ps \<and>
     (\<forall>s a p. lookup_account g s a = Some p \<longleftrightarrow> p \<in> set ps \<and> owns p s a)"

lemma lookup_actor_account: "lookup_actor g a = lookup_account g (ac_service a) (ac_account a)"
  by (simp add: lookup_actor_def lookup_account_def)

lemma lookup_bucket: "lookup_account g s a = map_of (bucket_of g s) a"
  by (simp add: lookup_account_def bucket_of_def split: option.splits)

lemma claim_account_Inr:
  "claim_account p a g = Inr g' \<longleftrightarrow>
     (\<forall>q. lookup_account g (pa_service a) (pa_account a) = Some q \<longrightarrow> pr_id q = pr_id p) \<and>
     g' = g\<lparr>rg_accounts := dict_set (pa_service a)
       (dict_set (pa_account a) p (bucket_of g (pa_service a))) (rg_accounts g)\<rparr>"
  by (auto simp: claim_account_def Let_def lookup_bucket split: option.splits)

lemma lookup_claimed:
  "claim_account p a g = Inr g' \<Longrightarrow> lookup_account g' s c =
     (if s = pa_service a \<and> c = pa_account a then Some p else lookup_account g s c)"
  by (auto simp: claim_account_Inr lookup_account_def bucket_of_def split: option.splits)

text \<open>Claiming the accounts of one peer: refused exactly when another peer has one of them.\<close>

definition free_for :: "peer \<Rightarrow> registry \<Rightarrow> peer_account \<Rightarrow> bool" where
  "free_for p g a \<longleftrightarrow>
     pred_option (\<lambda>q. pr_id q = pr_id p) (lookup_account g (pa_service a) (pa_account a))"

lemma claim_account_free: "(\<exists>g'. claim_account p a g = Inr g') \<longleftrightarrow> free_for p g a"
  by (simp add: claim_account_def Let_def lookup_bucket free_for_def split: option.splits)

lemma free_for_claimed:
  "claim_account p a g = Inr g' \<Longrightarrow> free_for p g a \<Longrightarrow> free_for p g' b = free_for p g b"
  by (auto simp: free_for_def lookup_claimed)

lemma claim_accounts_spec: "(\<exists>g'. claim_accounts p as g = Inr g') \<longleftrightarrow> list_all (free_for p g) as"
proof (induction as arbitrary: g)
  case (Cons a as)
  show ?case
  proof (cases "claim_account p a g")
    case (Inl e)
    then show ?thesis using claim_account_free [of p a g] by simp
  next
    case (Inr g1)
    then have "free_for p g a" using claim_account_free [of p a g] by simp
    with Inr free_for_claimed [OF Inr this] Cons.IH [of g1] show ?thesis by simp
  qed
qed simp

lemma lookup_claimed_all:
  "claim_accounts p as g = Inr g' \<Longrightarrow> rg_peers g' = rg_peers g \<and> (\<forall>s c. lookup_account g' s c =
     (if list_ex (\<lambda>a. pa_service a = s \<and> pa_account a = c) as then Some p else lookup_account g s c))"
proof (induction as arbitrary: g)
  case (Cons a as)
  then obtain g1 where g1: "claim_account p a g = Inr g1" "claim_accounts p as g1 = Inr g'" by auto
  moreover have "rg_peers g1 = rg_peers g" using g1(1) by (simp add: claim_account_Inr)
  ultimately show ?case
    using Cons.IH [OF g1(2)] lookup_claimed [OF g1(1)] by auto
qed simp

lemma represents_ids: "represents g ps \<Longrightarrow> fst ` set (rg_peers g) = pr_id ` set ps"
  by (metis represents_def list.set_map)

lemma represents_dom: "represents g ps \<Longrightarrow> map_of (rg_peers g) i = None \<longleftrightarrow> i \<notin> pr_id ` set ps"
  by (simp add: map_of_eq_None_iff represents_ids)

lemma register_peer_represents:
  assumes "represents g ps" "unambiguous ps"
  shows "(\<exists>g'. register_peer p g = Inr g') \<longleftrightarrow> unambiguous (ps @ [p])"
    and "register_peer p g = Inr g' \<Longrightarrow> represents g' (ps @ [p])"
proof -
  let ?h = "g\<lparr>rg_peers := dict_set (pr_id p) p (rg_peers g)\<rparr>"
  have h: "lookup_account ?h s a = lookup_account g s a" for s a by (simp add: lookup_account_def)
  have look: "lookup_account g s a = Some q \<longleftrightarrow> q \<in> set ps \<and> owns q s a" for s a q
    using assms(1) by (simp add: represents_def)
  have same: "q = r" if "q \<in> set ps" "r \<in> set ps" "owns q s a" "owns r s a" for q r s a
    using assms(2) that by (auto simp: unambiguous_def)
  show e: "(\<exists>g'. register_peer p g = Inr g') \<longleftrightarrow> unambiguous (ps @ [p])"
  proof (cases "pr_id p \<in> pr_id ` set ps")
    case True
    then show ?thesis
      using represents_dom [OF assms(1)] by (auto simp: register_peer_def unambiguous_def)
  next
    case False
    then have "register_peer p g = claim_accounts p (pr_accounts p) ?h"
      using represents_dom [OF assms(1)] by (simp add: register_peer_def)
    moreover have "list_all (free_for p ?h) (pr_accounts p) \<longleftrightarrow>
        (\<forall>q \<in> set ps. \<forall>s a. owns q s a \<longrightarrow> \<not> owns p s a)"
    proof -
      have other: "pr_id q \<noteq> pr_id p" if "q \<in> set ps" for q using False that by (metis image_eqI)
      have free: "free_for p ?h x \<longleftrightarrow> (\<forall>q \<in> set ps. \<not> owns q (pa_service x) (pa_account x))" for x
      proof (cases "lookup_account g (pa_service x) (pa_account x)")
        case None
        then show ?thesis using look [of "pa_service x" "pa_account x"] by (simp add: free_for_def h)
      next
        case (Some r)
        then have "r \<in> set ps" "owns r (pa_service x) (pa_account x)" using look by simp_all
        with Some other show ?thesis by (auto simp: free_for_def h)
      qed
      show ?thesis by (auto simp: list_all_iff free owns_def [of p] list_ex_iff)
    qed
    moreover have "unambiguous (ps @ [p]) \<longleftrightarrow> (\<forall>q \<in> set ps. \<forall>s a. owns q s a \<longrightarrow> \<not> owns p s a)"
      using False assms(2) by (auto simp: unambiguous_def) 
    ultimately show ?thesis using claim_accounts_spec [of p "pr_accounts p" ?h] by simp
  qed
  assume r: "register_peer p g = Inr g'"
  then have new: "pr_id p \<notin> pr_id ` set ps" and c: "claim_accounts p (pr_accounts p) ?h = Inr g'"
    using represents_dom [OF assms(1)] by (auto simp: register_peer_def split: if_splits)
  have u: "unambiguous (ps @ [p])" using e r by blast
  have "rg_peers g' = rg_peers g @ [(pr_id p, p)]"
  proof -
    have "dict_set k v m = m @ [(k, v)]" if "k \<notin> fst ` set m" for k :: string and v :: peer and m
      using that by (induction m) auto
    then show ?thesis using lookup_claimed_all [OF c] new represents_ids [OF assms(1)] by simp
  qed
  moreover have "lookup_account g' s a = Some q \<longleftrightarrow> q \<in> set (ps @ [p]) \<and> owns q s a" for s a q
  proof -
    have l: "lookup_account g' s a = (if owns p s a then Some p else lookup_account g s a)"
      using lookup_claimed_all [OF c] by (simp add: h owns_def)
    show ?thesis
    proof (cases "owns p s a")
      case True
      with u show ?thesis by (auto simp: l unambiguous_def)
    next
      case False
      then show ?thesis by (auto simp: l look)
    qed
  qed
  ultimately show "represents g' (ps @ [p])" using assms(1) by (simp add: represents_def)
qed

lemma unambiguous_prefix: "unambiguous (ps @ qs) \<Longrightarrow> unambiguous ps"
  by (auto simp: unambiguous_def)

lemma register_peers_represents:
  assumes "represents g ps" "unambiguous ps"
  shows "((\<exists>g'. register_peers qs g = Inr g') \<longleftrightarrow> unambiguous (ps @ qs)) \<and>
    (\<forall>g'. register_peers qs g = Inr g' \<longrightarrow> represents g' (ps @ qs))"
  using assms
proof (induction qs arbitrary: g ps)
  case (Cons q qs)
  note step = register_peer_represents [OF Cons.prems, of q]
  show ?case
  proof (cases "register_peer q g")
    case (Inl e)
    then have "\<not> unambiguous (ps @ [q])" using step(1) by simp
    then have "\<not> unambiguous (ps @ q # qs)"
      using unambiguous_prefix [of "ps @ [q]" qs] by auto
    with Inl show ?thesis by simp
  next
    case (Inr g1)
    then show ?thesis
      using Cons.IH [of g1 "ps @ [q]"] step by simp
  qed
qed simp

text \<open>The registry is built exactly when no two peers share an identifier and no account is
  claimed by two peers, and then an account is found exactly when a peer lists it, with that
  peer as the answer.\<close>

theorem registry_correct:
  "((\<exists>g. new_registry ps = Inr g) = unambiguous ps) \<and>
   pred_option (\<lambda>g. \<forall>s a p. lookup_account g s a = Some p \<longleftrightarrow> p \<in> set ps \<and> owns p s a)
     (case new_registry ps of Inl _ \<Rightarrow> None | Inr g \<Rightarrow> Some g)"
proof -
  have "represents \<lparr>rg_peers = [], rg_accounts = []\<rparr> []" "unambiguous []"
    by (simp_all add: represents_def lookup_account_def unambiguous_def)
  from register_peers_represents [OF this, of ps] show ?thesis
    by (auto simp: new_registry_def represents_def split: sum.splits)
qed

lemma registry_lookup:
  assumes "new_registry ps = Inr g"
  shows "lookup_actor g a = Some p \<longleftrightarrow> p \<in> set ps \<and> owns p (ac_service a) (ac_account a)"
proof -
  have "represents \<lparr>rg_peers = [], rg_accounts = []\<rparr> []" "unambiguous []"
    by (simp_all add: represents_def lookup_account_def unambiguous_def)
  from register_peers_represents [OF this, of ps] assms show ?thesis
    by (auto simp: new_registry_def represents_def lookup_actor_account)
qed

text \<open>An identifier that ends in a line feed passes the check of peer identifiers.\<close>

lemma peer_id_with_line_feed:
  "validate_peer \<lparr>pr_id = ''ada'' @ [CHR 0x0A], pr_name = [], pr_kind = Human, pr_accounts = []\<rparr> = Inr ()"
  by code_simp

text \<open>Secondary account identifiers take no part in the matching.\<close>

lemma lookup_ignores_handles:
  "lookup_actor g (a\<lparr>ac_secondary := hs, ac_display := d\<rparr>) = lookup_actor g a"
  by (cases "map_of (rg_accounts g) (ac_service a)") (simp_all add: lookup_actor_def)

end
