(* ===== verification/PyText.thy ===== *)
theory PyText
  imports PyString
begin

text \<open>
  More of Python's string operations: searching, counting, replacing and splitting by a
  string, and the translation of line ends when a file is read as text.
\<close>

text \<open>\<open>str.find\<close>, with \<open>None\<close> for -1.\<close>

fun py_find :: "string \<Rightarrow> string \<Rightarrow> nat option" where
  "py_find sub [] = (if sub = [] then Some 0 else None)"
| "py_find sub (c # s) = (if py_startswith (c # s) sub then Some 0 else map_option Suc (py_find sub s))"

lemma py_find_Some:
  "py_find sub s = Some i \<longleftrightarrow>
     take (length sub) (drop i s) = sub \<and> i + length sub \<le> length s \<and>
     (\<forall>j < i. take (length sub) (drop j s) \<noteq> sub)"
proof (induction s arbitrary: i)
  case (Cons c s)
  have start: "py_startswith t sub \<longleftrightarrow> take (length sub) t = sub" for t
    by (metis append_eq_conv_conj append_take_drop_id py_startswith_append py_startswith_iff)
  show ?case
  proof (cases "take (length sub) (c # s) = sub")
    case True
    then have "length sub \<le> length (c # s)" by (metis length_take min.cobounded1)
    with True start [of "c # s"] show ?thesis by (cases i) auto
  next
    case False
    with start [of "c # s"] Cons show ?thesis
      by (cases i) (auto simp: less_Suc_eq_0_disj)
  qed
qed auto

lemma py_find_None: "py_find sub s = None \<longleftrightarrow> (\<forall>i. i + length sub \<le> length s \<longrightarrow> take (length sub) (drop i s) \<noteq> sub)"
proof
  assume "py_find sub s = None"
  show "\<forall>i. i + length sub \<le> length s \<longrightarrow> take (length sub) (drop i s) \<noteq> sub"
  proof (rule ccontr)
    assume "\<not> ?thesis"
    then have ex: "\<exists>i. i + length sub \<le> length s \<and> take (length sub) (drop i s) = sub" by auto
    let ?P = "\<lambda>i. i + length sub \<le> length s \<and> take (length sub) (drop i s) = sub"
    have "?P (LEAST i. ?P i)" using ex by (rule LeastI_ex)
    moreover have "\<forall>j < (LEAST i. ?P i). take (length sub) (drop j s) \<noteq> sub"
      using \<open>?P (LEAST i. ?P i)\<close> not_less_Least by fastforce
    ultimately have "py_find sub s = Some (LEAST i. ?P i)" by (simp add: py_find_Some)
    with \<open>py_find sub s = None\<close> show False by simp
  qed
next
  assume a: "\<forall>i. i + length sub \<le> length s \<longrightarrow> take (length sub) (drop i s) \<noteq> sub"
  show "py_find sub s = None"
  proof (cases "py_find sub s")
    case (Some i)
    then have "take (length sub) (drop i s) = sub" "i + length sub \<le> length s"
      by (simp_all add: py_find_Some)
    with a show ?thesis by blast
  qed
qed

lemma py_find_rest_shorter: "py_find sub s = Some i \<Longrightarrow> sub \<noteq> [] \<Longrightarrow> length s - (i + length sub) < length s"
  by (cases sub) (auto simp: py_find_Some)

lemma py_find_split: "py_find sub s = Some i \<Longrightarrow> s = take i s @ sub @ drop (i + length sub) s"
  by (metis add.commute append_take_drop_id drop_drop py_find_Some)

text \<open>\<open>str.count\<close> of a string that is not empty: occurrences that do not overlap.\<close>

function py_count :: "string \<Rightarrow> string \<Rightarrow> nat" where
  "py_count sub s =
     (if sub = [] then length s + 1
      else (case py_find sub s of None \<Rightarrow> 0 | Some i \<Rightarrow> Suc (py_count sub (drop (i + length sub) s))))"
  by pat_completeness auto
termination
  by (relation "measure (\<lambda>(sub, s). length s)") (auto simp: py_find_rest_shorter)

text \<open>\<open>str.split\<close> with a separator that is not empty.\<close>

function py_split_str :: "string \<Rightarrow> string \<Rightarrow> string list" where
  "py_split_str sep s =
     (if sep = [] then [s]
      else (case py_find sep s of None \<Rightarrow> [s] | Some i \<Rightarrow> take i s # py_split_str sep (drop (i + length sep) s)))"
  by pat_completeness auto
termination
  by (relation "measure (\<lambda>(sub, s). length s)") (auto simp: py_find_rest_shorter)

declare py_count.simps [simp del] py_split_str.simps [simp del]

text \<open>The line ends of a file read in text mode.\<close>

fun universal_newlines :: "string \<Rightarrow> string" where
  "universal_newlines [] = []"
| "universal_newlines (c # s) =
     (if c = CHR 0x0D
      then CHR 0x0A # (case s of d # s' \<Rightarrow> if d = CHR 0x0A then universal_newlines s' else universal_newlines s
                                | [] \<Rightarrow> [])
      else c # universal_newlines s)"

lemma universal_newlines_id: "CHR 0x0D \<notin> set s \<Longrightarrow> universal_newlines s = s"
  by (induction s) auto

lemma no_carriage_return: "CHR 0x0D \<notin> set (universal_newlines s)"
  by (induction s rule: universal_newlines.induct) (auto split: list.splits)

lemma py_split_str_join:
  assumes "sep \<noteq> []" "\<forall>w \<in> set ws. hd sep \<notin> set w" "ws \<noteq> []"
  shows "py_split_str sep (py_join sep ws) = ws"
  using assms
proof (induction sep ws rule: py_join.induct)
  case (2 sep x)
  have "py_find sep x = None"
    unfolding py_find_None
  proof (intro allI impI notI)
    fix i assume "take (length sep) (drop i x) = sep"
    then have "hd sep \<in> set (take (length sep) (drop i x))" using 2(1) by simp
    with 2(2) show False by (auto dest: in_set_takeD in_set_dropD)
  qed
  with 2(1) show ?case by (simp add: py_split_str.simps)
next
  case (3 sep x y ys)
  have "py_find sep (x @ sep @ py_join sep (y # ys)) = Some (length x)"
    unfolding py_find_Some
  proof (intro conjI allI impI notI)
    fix j assume j: "j < length x" and t: "take (length sep) (drop j (x @ sep @ py_join sep (y # ys))) = sep"
    then have "hd sep = x ! j"
      using 3(2) by (metis drop_eq_Nil2 hd_drop_conv_nth hd_take length_append length_greater_0_conv not_less
          nth_append trans_less_add1 linorder_not_le)
    with j 3(3) show False by auto
  qed simp_all
  with 3 show ?case by (simp add: py_split_str.simps [of sep "x @ sep @ py_join sep (y # ys)"])
qed simp

section \<open>Lines\<close>

definition single_line :: "string \<Rightarrow> bool" where
  "single_line s = list_all (\<lambda>c. \<not> is_line_break c) s"

lemma line_feed_break: "is_line_break (CHR 0x0A)" "is_line_break (CHR 0x0D)"
  by (simp_all add: is_line_break_def py_line_breaks_def)

lemma single_line_append [simp]: "single_line (s @ t) = (single_line s \<and> single_line t)"
  by (simp add: single_line_def)

lemma single_line_Cons [simp]: "single_line (c # s) = (\<not> is_line_break c \<and> single_line s)"
  by (simp add: single_line_def)

lemma single_line_Nil [simp]: "single_line []"
  by (simp add: single_line_def)

lemma splitlines_single_line: "single_line s \<Longrightarrow> s \<noteq> [] \<Longrightarrow> py_splitlines s = [s]"
proof (induction s)
  case (Cons c s)
  then have "c \<noteq> CHR 0x0D" using line_feed_break by auto
  with Cons show ?case by (cases s) auto
qed simp

lemma splitlines_append:
  "py_splitlines (s @ CHR 0x0A # t) = py_splitlines s @
     (if s = [] \<or> is_line_break (last s) \<and> last s \<noteq> CHR 0x0D then [[]] else []) @ py_splitlines t"
proof (induction s rule: py_splitlines.induct)
  case 1
  show ?case by (simp add: line_feed_break)
next
  case (2 c s)
  consider (crlf) s' where "c = CHR 0x0D" "s = CHR 0x0A # s'"
    | (break) "is_line_break c" "\<not> (c = CHR 0x0D \<and> s \<noteq> [] \<and> hd s = CHR 0x0A)"
    | (plain) "\<not> is_line_break c" "c \<noteq> CHR 0x0D"
    using line_feed_break by (cases s) auto
  then show ?case
  proof cases
    case crlf
    then show ?thesis using 2(1) by (cases s') (auto simp: line_feed_break)
  next
    case break
    show ?thesis
    proof (cases s)
      case Nil
      with break show ?thesis by (auto simp: line_feed_break)
    next
      case (Cons d s')
      with break 2(2) show ?thesis by auto
    qed
  next
    case plain
    show ?thesis
    proof (cases s)
      case Nil
      with plain show ?thesis by (auto simp: line_feed_break)
    next
      case (Cons d s')
      with plain 2(3) have ih: "py_splitlines (s @ CHR 0x0A # t) = py_splitlines s @
          (if is_line_break (last s) \<and> last s \<noteq> CHR 0x0D then [[]] else []) @ py_splitlines t" by simp
      have "py_splitlines s \<noteq> []" using Cons by (cases "py_splitlines s'") auto
      with plain ih Cons show ?thesis by (cases "py_splitlines s") auto
    qed
  qed
qed

lemma splitlines_are_lines: "l \<in> set (py_splitlines s) \<Longrightarrow> single_line l"
proof (induction s arbitrary: l rule: py_splitlines.induct)
  case (2 c s)
  then show ?case by (auto split: if_splits list.splits)
qed simp

lemma splitlines_join_lines:
  assumes "list_all single_line ls" "ls \<noteq> []" "last ls \<noteq> []"
  shows "py_splitlines (py_join [CHR 0x0A] ls) = ls"
  using assms
proof (induction "[CHR 0x0A]" ls rule: py_join.induct)
  case (3 x y ys)
  have "py_splitlines (x @ CHR 0x0A # py_join [CHR 0x0A] (y # ys)) = x # py_splitlines (py_join [CHR 0x0A] (y # ys))"
  proof (cases "x = []")
    case True
    then show ?thesis by (simp add: line_feed_break)
  next
    case False
    then have "\<not> is_line_break (last x)" using 3(2) by (auto simp: single_line_def list_all_iff)
    with False 3(2) show ?thesis by (simp add: splitlines_append splitlines_single_line)
  qed
  then show ?case using 3 by simp
qed (auto simp: splitlines_single_line)

end
