(* ===== verification/Gateway_Events.thy ===== *)
theory Gateway_Events
  imports Envelopes Scheduler
begin

text \<open>
  From an external event to a pending notification and a woken driver: the routing of the
  gateway (\<open>src/thorn/gateway/_gateway.py\<close>). The checkout of a repository before a delivery
  is an external program: its outcome is a parameter, and other tasks may run while it is
  awaited, so a delivery is the two segments around that await. Of a session's metadata
  only its existence is kept.
\<close>

record 'c gateway_env =
  ge_paths :: agency_paths
  ge_policy :: trigger_policy
  ge_validate :: "agent_id \<Rightarrow> unit result"
  ge_checkout :: "path \<Rightarrow> 'c \<Rightarrow> unit result"
  ge_scheduler :: "agent_id \<Rightarrow> world \<Rightarrow> scheduler result"

record gateway =
  gw_world :: world
  gw_book :: book
  gw_inboxes :: "(address \<times> durable_queue) list"
  gw_schedulers :: "(agent_id \<times> scheduler) list"
  gw_agents :: "agent_id list"
  gw_sessions :: "(agent_id \<times> session_key) set"
  gw_started :: bool

definition default_agent_id :: agent_id where "default_agent_id = ''default''"

definition list_agent_ids :: "gateway \<Rightarrow> agent_id list" where
  "list_agent_ids g = sort (gw_agents g)"

definition get_or_load_agent :: "'c gateway_env \<Rightarrow> agent_id \<Rightarrow> gateway \<Rightarrow> agent_id result" where
  "get_or_load_agent env a g =
     (if map_of (gw_schedulers g) a \<noteq> None then Inr a
      else if \<not> gw_started g \<and> gw_schedulers g = [] then Inr a
      else rbind (ge_validate env a) (\<lambda>_. Inr a))"

definition resolve_agent :: "'c gateway_env \<Rightarrow> 'c formatted_event \<Rightarrow> gateway \<Rightarrow> agent_id result" where
  "resolve_agent env f g =
     (case fe_agent f of
        Some a \<Rightarrow> get_or_load_agent env a g
      | None \<Rightarrow>
          (case list_agent_ids g of
             a # _ \<Rightarrow> get_or_load_agent env a g
           | [] \<Rightarrow> get_or_load_agent env default_agent_id g))"

definition ensure_scheduler :: "'c gateway_env \<Rightarrow> agent_id \<Rightarrow> (gateway, unit) eff" where
  "ensure_scheduler env a g =
     (if map_of (gw_schedulers g) a \<noteq> None then (Inr (), g)
      else (case ge_scheduler env a (gw_world g) of
          Inl e \<Rightarrow> (Inl e, g)
        | Inr s \<Rightarrow> (Inr (), g\<lparr>gw_schedulers := dict_set a s (gw_schedulers g)\<rparr>)))"

definition session_inbox :: "'c gateway_env \<Rightarrow> agent_id \<Rightarrow> session_key \<Rightarrow> durable_queue" where
  "session_inbox env a k = \<lparr>q_root = session_inbox_dir (ge_paths env) a k, q_indexed = True,
     q_kind = InboxQueue (SessionAddress a k)\<rparr>"

definition ensure_inbox :: "'c gateway_env \<Rightarrow> agent_id \<Rightarrow> session_key \<Rightarrow> (gateway, durable_queue) eff" where
  "ensure_inbox env a k g =
     (let ad = SessionAddress a k in
      case map_of (gw_inboxes g) ad of
        Some q \<Rightarrow> (Inr q, g)
      | None \<Rightarrow>
          (let q = session_inbox env a k;
               g' = g\<lparr>gw_inboxes := dict_set ad q (gw_inboxes g)\<rparr>
           in case rbind (if book_get (gw_book g) ad = None then Inr (gw_book g)
                          else book_unregister ad (gw_book g)) (book_register ad q) of
                Inl e \<Rightarrow> (Inl e, g')
              | Inr b \<Rightarrow> (Inr q, g'\<lparr>gw_book := b\<rparr>)))"

definition on_store :: "(world, 'a) eff \<Rightarrow> (gateway, 'a) eff" where
  "on_store m g = (case m (gw_world g) of (r, w) \<Rightarrow> (r, g\<lparr>gw_world := w\<rparr>))"

definition make_dir :: "path \<Rightarrow> (gateway, unit) eff" where
  "make_dir d = on_store (eupdate (exec_step (MkDir d)))"

definition submit_session :: "agent_id \<Rightarrow> session_key \<Rightarrow> durable_queue \<Rightarrow> (gateway, unit) eff" where
  "submit_session a k q g =
     (case map_of (gw_schedulers g) a of
        None \<Rightarrow> (Inl (KeyError a), g)
      | Some s \<Rightarrow>
          (case submit (Some k) q s of
             (r, s') \<Rightarrow> (r, g\<lparr>gw_schedulers := dict_set a s' (gw_schedulers g)\<rparr>)))"

text \<open>The segment of \<open>_dispatch_formatted\<close> before the checkout is awaited: the answer is the
  agent of an accepted event.\<close>

definition admit_event :: "'c gateway_env \<Rightarrow> 'c formatted_event \<Rightarrow> (gateway, agent_id option) eff" where
  "admit_event env f g =
     (if (case fe_key f of None \<Rightarrow> False | Some k \<Rightarrow> index_contains k (gw_world g)) then (Inr None, g)
      else (case resolve_agent env f g of
          Inl e \<Rightarrow> (Inl e, g)
        | Inr a \<Rightarrow>
            ebind (eupdate (\<lambda>g. if a \<in> set (gw_agents g) then g else g\<lparr>gw_agents := gw_agents g @ [a]\<rparr>)) (\<lambda>_.
            ebind (ensure_scheduler env a) (\<lambda>_. eret (Some a))) g))"

definition event_spec :: "'c formatted_event \<Rightarrow> address \<Rightarrow> notification_spec" where
  "event_spec f ad = \<lparr>sp_source = fe_source f, sp_content = fe_content f, sp_target = ad,
     sp_metadata = fe_metadata f, sp_rsvp_to = None, sp_external_key = fe_key f\<rparr>"

text \<open>The segment after the await.\<close>

definition finish_delivery ::
    "'c gateway_env \<Rightarrow> post_tick \<Rightarrow> 'c formatted_event \<Rightarrow> agent_id \<Rightarrow> (gateway, notification) eff" where
  "finish_delivery env tick f a =
     (let k = fe_session f; ws = session_workspace (ge_paths env) a k in
      ebind (case fe_bootstrap f of None \<Rightarrow> make_dir ws | Some c \<Rightarrow> elift (ge_checkout env ws c)) (\<lambda>_.
      ebind (eupdate (\<lambda>g. g\<lparr>gw_sessions := insert (a, k) (gw_sessions g)\<rparr>)) (\<lambda>_.
      ebind (make_dir (session_metadata_dir (ge_paths env) a k)) (\<lambda>_.
      ebind (ensure_inbox env a k) (\<lambda>q.
      ebind (on_store (queue_post q tick (event_spec f (SessionAddress a k)))) (\<lambda>n.
      ebind (submit_session a k q) (\<lambda>_. eret n)))))))"

text \<open>The whole handling of an event, when no other task runs during the checkout.\<close>

definition dispatch_formatted ::
    "'c gateway_env \<Rightarrow> post_tick \<Rightarrow> 'c formatted_event \<Rightarrow> (gateway, notification option) eff" where
  "dispatch_formatted env tick f =
     ebind (admit_event env f) (\<lambda>r.
       case r of
         None \<Rightarrow> eret None
       | Some a \<Rightarrow> ebind (finish_delivery env tick f a) (\<lambda>n. eret (Some n)))"

definition handle_event ::
    "'c gateway_env \<Rightarrow> (nat \<Rightarrow> 32 word) \<Rightarrow> post_tick \<Rightarrow> 'c raw_event \<Rightarrow> (gateway, notification option) eff" where
  "handle_event env draws tick e =
     (case process (ge_policy env) draws e of
        FormatterDrop _ \<Rightarrow> eret None
      | FormatterDelivery f \<Rightarrow> dispatch_formatted env tick f)"

section \<open>Activation at startup\<close>

definition activate_session ::
    "'c gateway_env \<Rightarrow> agent_id \<times> session_key \<times> path \<Rightarrow> nat \<Rightarrow> (gateway, nat) eff" where
  "activate_session env loc n =
     (case loc of (a, k, d) \<Rightarrow>
        (\<lambda>g. case prompt_pending \<lparr>q_root = d, q_indexed = True, q_kind = InboxQueue (SessionAddress a k)\<rparr> (gw_world g) of
            Inl e \<Rightarrow> (Inl e, g)
          | Inr [] \<Rightarrow> (Inr n, g)
          | Inr (_ # _) \<Rightarrow>
              if a \<notin> set (gw_agents g) then (Inr n, g)
              else ebind (ensure_scheduler env a) (\<lambda>_.
                   ebind (make_dir (session_workspace (ge_paths env) a k)) (\<lambda>_.
                   ebind (ensure_inbox env a k) (\<lambda>q.
                   ebind (submit_session a k q) (\<lambda>_. eret (n + 1))))) g))"

definition activate_sessions_with_work :: "'c gateway_env \<Rightarrow> (gateway, nat) eff" where
  "activate_sessions_with_work env g =
     (case iter_session_inbox_locations (ge_paths env) (w_dirs (gw_world g)) of (locs, e) \<Rightarrow>
        ebind (efold (activate_session env) locs 0) (\<lambda>n. case e of None \<Rightarrow> eret n | Some x \<Rightarrow> eraise x) g)"

section \<open>At most one notification in flight per key\<close>

definition keyed :: "view \<Rightarrow> string \<Rightarrow> path \<Rightarrow> string \<Rightarrow> bool" where
  "keyed v k r i \<longleftrightarrow> (\<exists>n. v r i = Some n \<and> n_external_key n = Some k)"

definition one_in_flight :: "view \<Rightarrow> bool" where
  "one_in_flight v \<longleftrightarrow> (\<forall>k r i r' i'. keyed v k r i \<and> keyed v k r' i' \<longrightarrow> r = r' \<and> i = i')"

definition index_covers :: "world \<Rightarrow> bool" where
  "index_covers w \<longleftrightarrow> (\<forall>k r i. keyed (stored w) k r i \<longrightarrow> k \<in> w_index w)"

definition in_flight_ok :: "world \<Rightarrow> bool" where
  "in_flight_ok w \<longleftrightarrow> store_ok UNIV w \<and> one_in_flight (stored w) \<and> index_covers w"

lemma keyed_put:
  "keyed (\<lambda>r' j. if r' = r \<and> j = i then Some m else v r' j) k r' j \<longleftrightarrow>
     (if r' = r \<and> j = i then n_external_key m = Some k else keyed v k r' j)"
  by (simp add: keyed_def)

lemma keyed_put_same:
  "v r i = Some n \<Longrightarrow> n_external_key m = n_external_key n \<Longrightarrow>
     keyed (\<lambda>r' j. if r' = r \<and> j = i then Some m else v r' j) = keyed v"
  by (auto simp: keyed_def fun_eq_iff)

lemma keyed_drop:
  "keyed (\<lambda>r' j. if r' = r \<and> j = i then None else v r' j) k r' j \<longleftrightarrow>
     \<not> (r' = r \<and> j = i) \<and> keyed v k r' j"
  by (simp add: keyed_def)

lemma keyed_settle:
  assumes "v r (n_id n) = Some n"
  shows "keyed (settle d r n v) k r' j \<longleftrightarrow>
    (case d of
       Deleted \<Rightarrow> \<not> (r' = r \<and> j = n_id n) \<and> keyed v k r' j
     | MovedTo t \<Rightarrow>
         if t = r then keyed v k r' j
         else if r' = t \<and> j = n_id n then n_external_key n = Some k
         else \<not> (r' = r \<and> j = n_id n) \<and> keyed v k r' j
     | Unresolved \<Rightarrow> keyed v k r' j)"
  using assms by (cases d) (auto simp: keyed_def)

lemma one_in_flight_settle:
  assumes "one_in_flight v" "v r (n_id n) = Some n"
  shows "one_in_flight (settle d r n v)"
proof -
  have own: "keyed v k r (n_id n) \<longleftrightarrow> n_external_key n = Some k" for k using assms(2) by (simp add: keyed_def)
  have one: "r1 = r2 \<and> i1 = i2" if "keyed v k r1 i1" "keyed v k r2 i2" for k r1 i1 r2 i2
    using assms(1) that unfolding one_in_flight_def by blast
  show ?thesis
  proof (cases d)
    case (MovedTo t)
    show ?thesis
    proof (cases "t = r")
      case False
      have old: "keyed v k (if r' = t \<and> j = n_id n then r else r') j \<and> \<not> (r' = r \<and> j = n_id n)"
        if "keyed (settle d r n v) k r' j" for k r' j
        using that own [of k] False unfolding keyed_settle [of v, OF assms(2)] MovedTo
        by (cases "r' = t \<and> j = n_id n") auto
      have "r1 = r2 \<and> i1 = i2" if k: "keyed (settle d r n v) k r1 i1" "keyed (settle d r n v) k r2 i2"
        for k r1 i1 r2 i2
      proof -
        note b = old [OF k(1)] old [OF k(2)]
        show ?thesis
          using b one [OF conjunct1 [OF b(1)] conjunct1 [OF b(2)]]
          by (cases "r1 = t \<and> i1 = n_id n"; cases "r2 = t \<and> i2 = n_id n") auto
      qed
      then show ?thesis unfolding one_in_flight_def by blast
    qed (use assms(1) MovedTo in simp)
  next
    case Deleted
    with assms(1) show ?thesis
      unfolding one_in_flight_def keyed_settle [of v, OF assms(2)] by auto
  qed (use assms(1) in simp)
qed

lemma in_flight_post:
  assumes "in_flight_ok w" "q_indexed q" "valid_spec sp" "valid_timestamp (tick_now tick)"
    and "set_option (sp_external_key sp) \<inter> w_index w = {}"
  obtains n w' where "queue_post q tick sp w = (Inr n, w')" "in_flight_ok w'" "n_status n = PENDING"
    "n_external_key n = sp_external_key sp" "n_target n = sp_target sp"
    "stored w' = (\<lambda>r j. if r = q_root q \<and> j = n_id n then Some n else stored w r j)"
    "w_index w' = w_index w \<union> set_option (sp_external_key sp)"
proof -
  obtain n u where f: "from_spec tick sp (w_ulid w) = (n, u)" by (cases "from_spec tick sp (w_ulid w)")
  note fields = from_spec_fields [OF f]
  have ok: "item_ok n" using valid_from_spec [OF f assms(3,4)] fields by (simp add: item_ok_def)
  let ?w = "note_posted q n (put_item (q_root q) n (w\<lparr>w_ulid := u\<rparr>))"
  have st: "stored ?w = (\<lambda>r j. if r = q_root q \<and> j = n_id n then Some n else stored w r j)"
    using stored_put_item [OF ok] by (simp cong: if_cong)
  have ix: "w_index ?w = w_index w \<union> set_option (sp_external_key sp)"
    using assms(2) fields by (auto simp: note_posted_def split: option.splits)
  have own: "keyed (stored ?w) k r i \<longleftrightarrow>
      (if r = q_root q \<and> i = n_id n then sp_external_key sp = Some k else keyed (stored w) k r i)" for k r i
    unfolding st keyed_put using fields by simp
  have new: "\<not> keyed (stored w) k r i" if "sp_external_key sp = Some k" for k r i
    using assms(1,5) that by (auto simp: in_flight_ok_def index_covers_def)
  have one: "one_in_flight (stored w)" using assms(1) by (simp add: in_flight_ok_def)
  have "one_in_flight (stored ?w)"
    unfolding one_in_flight_def
  proof (intro allI impI, elim conjE)
    fix k r i r' i' assume k: "keyed (stored ?w) k r i" "keyed (stored ?w) k r' i'"
    show "r = r' \<and> i = i'"
    proof (cases "sp_external_key sp = Some k")
      case True
      then show ?thesis using k new [OF True] unfolding own by (simp split: if_splits)
    next
      case False
      with k have "keyed (stored w) k r i" "keyed (stored w) k r' i'"
        unfolding own by (simp_all split: if_splits)
      with one show ?thesis unfolding one_in_flight_def by blast
    qed
  qed
  moreover have "index_covers ?w"
    using assms(1) unfolding index_covers_def in_flight_ok_def own ix by (simp split: if_splits) blast
  moreover have "store_ok UNIV ?w" using assms(1) ok by (simp add: in_flight_ok_def put_item_ok)
  ultimately have "in_flight_ok ?w" by (simp add: in_flight_ok_def)
  then show thesis using that [OF queue_post_run [OF f]] fields st ix by simp
qed

lemma in_flight_handled:
  assumes "in_flight_ok w"
  shows "in_flight_ok (snd (apply_handling_transition q i st book memo rat reason w))"
proof -
  have ok: "store_ok UNIV w" and one: "one_in_flight (stored w)" and cov: "index_covers w"
    using assms by (simp_all add: in_flight_ok_def)
  have t: "dispatch_targets_ok UNIV q book" by (simp add: dispatch_targets_ok_def)
  show ?thesis
    using ok t
  proof (cases rule: handling_total [where i = i and st = st and memo = memo and rat = rat and reason = reason])
    case (refused e)
    with assms show ?thesis by simp
  next
    case (handled n m w')
    let ?v = "\<lambda>r j. if r = q_root q \<and> j = n_id m then Some m else stored w r j"
    let ?d = "step_two_destination q book m"
    have key: "n_external_key m = n_external_key n" using handled(9) by (simp add: origin_def)
    have v: "keyed ?v = keyed (stored w)" using keyed_put_same [OF _ key] handled(1,5) by auto
    have s: "?v (q_root q) (n_id m) = Some m" by simp
    have one': "one_in_flight ?v" using one by (simp add: one_in_flight_def v)
    have "one_in_flight (stored w') \<and> index_covers w'"
    proof (cases "st \<in> {HANDLED, ERRORED}")
      case False
      then have "stored w' = ?v" "w_index w' = w_index w"
        using handled(4,8,10) by (simp_all add: handled_view_def)
      then show ?thesis using one' cov by (simp add: index_covers_def v)
    next
      case True
      then have w': "stored w' = settle ?d (q_root q) m ?v" "w_index w' = reindexed q ?d m (w_index w)"
        using handled(4,8,10) by (simp_all add: handled_view_def Let_def)
      have "k \<in> w_index w'" if k: "keyed (stored w') k r j" for k r j
      proof -
        have c: "k \<in> w_index w" if "keyed (stored w) k r j" for r j
          using cov that by (auto simp: index_covers_def)
        have own: "keyed (stored w) k (q_root q) i" if "n_external_key m = Some k"
          using handled(1) key that by (simp add: keyed_def)
        show ?thesis
        proof (cases "?d = Deleted")
          case True
          then have d: "keyed (stored w) k r j" "\<not> (r = q_root q \<and> j = i)"
            using k handled(5) unfolding w'(1) keyed_settle [of ?v, OF s] v by auto
          then have "n_external_key m \<noteq> Some k" using own one by (auto simp: one_in_flight_def)
          then show ?thesis using c [OF d(1)] w'(2) by (auto simp: reindexed_def)
        next
          case False
          then have "w_index w' = w_index w" using w'(2) by (simp add: reindexed_def)
          moreover have "keyed (stored w) k r j \<or> n_external_key m = Some k"
            using k False unfolding w'(1) keyed_settle [of ?v, OF s] v
            by (auto split: destination.splits if_splits)
          ultimately show ?thesis using c own by auto
        qed
      qed
      moreover have "one_in_flight (stored w')"
        unfolding w'(1) by (rule one_in_flight_settle [OF one' s])
      ultimately show ?thesis by (auto simp: index_covers_def)
    qed
    with handled(6,7) show ?thesis by (simp add: in_flight_ok_def split: if_splits)
  qed
qed

section \<open>The gateway's invariant\<close>

definition agent_id_ok :: "agent_id \<Rightarrow> bool" where
  "agent_id_ok a \<longleftrightarrow> a \<noteq> [] \<and> slash \<notin> set a \<and> colon \<notin> set a"

definition gateway_ok :: "'c gateway_env \<Rightarrow> gateway \<Rightarrow> bool" where
  "gateway_ok env g \<longleftrightarrow> in_flight_ok (gw_world g) \<and> list_all agent_id_ok (gw_agents g) \<and>
     (\<forall>ad q. map_of (gw_inboxes g) ad = Some q \<longrightarrow>
        book_get (gw_book g) ad = Some q \<and> (\<exists>a k. ad = SessionAddress a k \<and> q = session_inbox env a k))"

definition event_ok :: "'c formatted_event \<Rightarrow> bool" where
  "event_ok f \<longleftrightarrow> valid_session_key (fe_session f) \<and> pred_option agent_id_ok (fe_agent f)"

lemma ebind_keeps:
  assumes "P s" "\<And>s. P s \<Longrightarrow> P (snd (m s))" "\<And>x s'. m s = (Inr x, s') \<Longrightarrow> P s' \<Longrightarrow> Q (snd (f x s'))"
    and "\<And>s. P s \<Longrightarrow> Q s"
  shows "Q (snd (ebind m f s))"
proof (cases "m s")
  case (Pair r s')
  then show ?thesis using assms(2) [OF assms(1)] assms(3,4) by (cases r) (simp_all add: ebind_def)
qed

lemma make_dir_run:
  "make_dir d g = (Inr (), g\<lparr>gw_world := exec_step (MkDir d) (gw_world g)\<rparr>)"
  by (simp add: make_dir_def on_store_def)

lemma in_flight_irrelevant [simp]:
  "in_flight_ok (w\<lparr>w_dirs := ds\<rparr>) = in_flight_ok w"
  by (simp add: in_flight_ok_def index_covers_def store_ok_def stored_def load_item_def cong: option.case_cong sum.case_cong)

lemma checkout_cases:
  obtains (failed) e c where "(case b of None \<Rightarrow> make_dir ws | Some c \<Rightarrow> elift (ge_checkout env ws c)) g = (Inl e, g)"
      "b = Some c" "ge_checkout env ws c = Inl e"
  | (ready) ds where "(case b of None \<Rightarrow> make_dir ws | Some c \<Rightarrow> elift (ge_checkout env ws c)) g =
      (Inr (), g\<lparr>gw_world := (gw_world g)\<lparr>w_dirs := ds\<rparr>\<rparr>)"
proof (cases b)
  case None
  then show thesis using ready by (simp add: make_dir_run)
next
  case (Some c)
  then show thesis
    using failed ready [of "w_dirs (gw_world g)"] by (cases "ge_checkout env ws c") simp_all
qed

lemma ensure_scheduler_effect:
  "ensure_scheduler env a g = (r, g') \<Longrightarrow> gw_world g' = gw_world g \<and> gw_book g' = gw_book g \<and>
     gw_inboxes g' = gw_inboxes g \<and> gw_agents g' = gw_agents g \<and> gw_sessions g' = gw_sessions g \<and>
     (r = Inr () \<longrightarrow> map_of (gw_schedulers g') a \<noteq> None)"
  by (auto simp: ensure_scheduler_def split: if_splits sum.splits)

lemma ensure_inbox_run:
  assumes "gateway_ok env g"
  obtains g' where "ensure_inbox env a k g = (Inr (session_inbox env a k), g')" "gateway_ok env g'"
    "gw_world g' = gw_world g" "gw_agents g' = gw_agents g" "gw_schedulers g' = gw_schedulers g"
    "map_of (gw_inboxes g') (SessionAddress a k) = Some (session_inbox env a k)"
    "book_get (gw_book g') (SessionAddress a k) = Some (session_inbox env a k)"
proof (cases "map_of (gw_inboxes g) (SessionAddress a k)")
  case (Some q)
  with assms have "q = session_inbox env a k" "book_get (gw_book g) (SessionAddress a k) = Some q"
    by (auto simp: gateway_ok_def)
  with Some assms that [of g] show thesis by (simp add: ensure_inbox_def)
next
  case None
  let ?ad = "SessionAddress a k" and ?q = "session_inbox env a k"
  obtain b where b: "rbind (if book_get (gw_book g) ?ad = None then Inr (gw_book g)
      else book_unregister ?ad (gw_book g)) (book_register ?ad ?q) = Inr b"
    by (cases "map_of (gw_book g) ?ad") (simp_all add: book_get_def book_unregister_def book_register_def)
  have get: "book_get b c = (if c = ?ad then Some ?q else book_get (gw_book g) c)" for c
    using b by (auto simp: book_get_register book_get_unregister split: if_splits)
  let ?g = "g\<lparr>gw_inboxes := dict_set ?ad ?q (gw_inboxes g), gw_book := b\<rparr>"
  have "ensure_inbox env a k g = (Inr ?q, ?g)" 
    by (simp only: ensure_inbox_def Let_def None b option.case sum.case)
  moreover have "gateway_ok env ?g" using assms by (auto simp: gateway_ok_def get)
  ultimately show thesis using that [of ?g] get by simp
qed

lemma submit_session_effect:
  "submit_session a k q g = (r, g') \<Longrightarrow> gw_world g' = gw_world g \<and> gw_agents g' = gw_agents g \<and>
     gw_inboxes g' = gw_inboxes g \<and> gw_book g' = gw_book g \<and> gw_sessions g' = gw_sessions g"
  by (auto simp: submit_session_def split: option.splits prod.splits)

lemma resolve_agent_ok:
  assumes "resolve_agent env f g = Inr a" "list_all agent_id_ok (gw_agents g)" "event_ok f"
  shows "agent_id_ok a"
proof -
  have d: "agent_id_ok default_agent_id" by code_simp
  have b: "b = a" if "get_or_load_agent env b g = Inr a" for b
    using that by (auto simp: get_or_load_agent_def split: if_splits)
  have "set (list_agent_ids g) = set (gw_agents g)" by (simp add: list_agent_ids_def)
  with assms d b show ?thesis
    by (auto simp: resolve_agent_def event_ok_def list_all_iff split: option.splits list.splits)
qed

text \<open>What an accepted event leaves: the first segment only adds the agent and its scheduler.\<close>

lemma admit_event_effect:
  assumes "admit_event env f g = (r, g')" "gateway_ok env g" "event_ok f"
  shows "gateway_ok env g' \<and> gw_world g' = gw_world g \<and> gw_inboxes g' = gw_inboxes g \<and> gw_book g' = gw_book g \<and>
    gw_sessions g' = gw_sessions g \<and>
    (\<forall>a. r = Inr (Some a) \<longrightarrow> agent_id_ok a \<and> a \<in> set (gw_agents g') \<and> map_of (gw_schedulers g') a \<noteq> None \<and>
       set_option (fe_key f) \<inter> w_index (gw_world g) = {}) \<and>
    (r = Inr None \<longrightarrow> g' = g)"
proof (cases "(case fe_key f of None \<Rightarrow> False | Some k \<Rightarrow> index_contains k (gw_world g))")
  case True
  with assms show ?thesis by (auto simp: admit_event_def)
next
  case False
  then have key: "set_option (fe_key f) \<inter> w_index (gw_world g) = {}"
    by (auto simp: index_contains_def split: option.splits)
  show ?thesis
  proof (cases "resolve_agent env f g")
    case (Inl e)
    with assms False show ?thesis by (auto simp: admit_event_def)
  next
    case (Inr a)
    have a: "agent_id_ok a" using resolve_agent_ok [OF Inr] assms(2,3) by (simp add: gateway_ok_def)
    let ?g = "if a \<in> set (gw_agents g) then g else g\<lparr>gw_agents := gw_agents g @ [a]\<rparr>"
    obtain x h where h: "ensure_scheduler env a ?g = (x, h)" by (metis surj_pair)
    have r: "g' = h" "(r = Inr (Some a) \<and> x = Inr ()) \<or> (\<exists>e. r = Inl e)"
      using assms(1) False Inr h by (auto simp: admit_event_def ebind_def split: sum.splits)
    show ?thesis
      using ensure_scheduler_effect [OF h] r a assms(2) key by (auto simp: gateway_ok_def)
  qed
qed

text \<open>How a delivery ends: the checkout fails and nothing is posted, or the notification is stored
  as pending and submitted.\<close>

lemma finish_delivery_cases:
  assumes "gateway_ok env g" "event_ok f" "agent_id_ok a" "valid_timestamp (tick_now tick)"
    and "set_option (fe_key f) \<inter> w_index (gw_world g) = {}" "map_of (gw_schedulers g) a = Some s"
  obtains (failed) e where "finish_delivery env tick f a g = (Inl e, g)"
      "\<exists>c. fe_bootstrap f = Some c \<and>
         ge_checkout env (session_workspace (ge_paths env) a (fe_session f)) c = Inl e"
  | (posted) n g' r s' where "submit (Some (fe_session f)) (session_inbox env a (fe_session f)) s = (r, s')"
      "finish_delivery env tick f a g = (rbind r (\<lambda>_. Inr n), g')" "gateway_ok env g'"
      "map_of (gw_schedulers g') a = Some s'" "n_status n = PENDING" "n_external_key n = fe_key f"
      "n_target n = SessionAddress a (fe_session f)"
      "stored (gw_world g') = (\<lambda>r j. if r = q_root (session_inbox env a (fe_session f)) \<and> j = n_id n
         then Some n else stored (gw_world g) r j)"
      "w_index (gw_world g') = w_index (gw_world g) \<union> set_option (fe_key f)"
      "book_get (gw_book g') (SessionAddress a (fe_session f)) = Some (session_inbox env a (fe_session f))"
proof -
  let ?k = "fe_session f" and ?ws = "session_workspace (ge_paths env) a (fe_session f)"
  let ?q = "session_inbox env a ?k" and ?md = "session_metadata_dir (ge_paths env) a (fe_session f)"
  let ?start = "case fe_bootstrap f of None \<Rightarrow> make_dir ?ws | Some c \<Rightarrow> elift (ge_checkout env ?ws c)"
  show thesis
  proof (cases rule: checkout_cases [where b = "fe_bootstrap f" and ws = ?ws and env = env and g = g])
    case (failed e c)
    then show thesis using that(1) [of e] by (simp add: finish_delivery_def Let_def ebind_def)
  next
    case (ready ds)
    let ?g2 = "g\<lparr>gw_sessions := insert (a, ?k) (gw_sessions g),
      gw_world := exec_step (MkDir ?md) ((gw_world g)\<lparr>w_dirs := ds\<rparr>)\<rparr>"
    have stored2: "stored (gw_world ?g2) = stored (gw_world g)" "w_index (gw_world ?g2) = w_index (gw_world g)"
      by simp_all
    have ok2: "gateway_ok env ?g2" using assms(1) by (simp add: gateway_ok_def)
    obtain g3 where g3: "ensure_inbox env a ?k ?g2 = (Inr ?q, g3)" "gateway_ok env g3"
      "gw_world g3 = gw_world ?g2" "gw_schedulers g3 = gw_schedulers ?g2" "gw_agents g3 = gw_agents ?g2"
      "book_get (gw_book g3) (SessionAddress a ?k) = Some ?q"
      by (rule ensure_inbox_run [OF ok2])
    have spec: "valid_spec (event_spec f (SessionAddress a ?k))"
      using assms(2,3) by (simp add: valid_spec_def event_spec_def event_ok_def agent_id_ok_def)
    obtain n w where n: "queue_post ?q tick (event_spec f (SessionAddress a ?k)) (gw_world g3) = (Inr n, w)"
      "in_flight_ok w" "n_status n = PENDING" "n_external_key n = fe_key f" "n_target n = SessionAddress a ?k"
      "stored w = (\<lambda>r j. if r = q_root ?q \<and> j = n_id n then Some n else stored (gw_world g3) r j)"
      "w_index w = w_index (gw_world g3) \<union> set_option (fe_key f)"
    proof (rule in_flight_post [OF _ _ spec assms(4)])
      show "in_flight_ok (gw_world g3)" using g3(2) by (simp add: gateway_ok_def)
      show "q_indexed ?q" by (simp add: session_inbox_def)
      show "set_option (sp_external_key (event_spec f (SessionAddress a ?k))) \<inter> w_index (gw_world g3) = {}"
        using assms(5) stored2(2) by (simp add: event_spec_def g3(3))
    qed (use that in \<open>simp add: event_spec_def\<close>)
    let ?g4 = "g3\<lparr>gw_world := w\<rparr>"
    obtain r s' where s': "submit (Some ?k) ?q s = (r, s')" by (metis surj_pair)
    let ?g5 = "?g4\<lparr>gw_schedulers := dict_set a s' (gw_schedulers g3)\<rparr>"
    have s3: "map_of (gw_schedulers g3) a = Some s" unfolding g3(4) using assms(6) by simp
    have run: "finish_delivery env tick f a g = (rbind r (\<lambda>_. Inr n), ?g5)"
      using ready g3(1) n(1) s' s3
      by (cases r) (simp_all add: finish_delivery_def Let_def ebind_def on_store_def make_dir_run submit_session_def)
    show thesis
    proof (rule that(2) [OF s' run])
      show "gateway_ok env ?g5" using g3(2) n(2) by (simp add: gateway_ok_def)
      show "stored (gw_world ?g5) = (\<lambda>r j. if r = q_root ?q \<and> j = n_id n then Some n else stored (gw_world g) r j)"
        using n(6) stored2(1) g3(3) by (simp cong: if_cong)
      show "w_index (gw_world ?g5) = w_index (gw_world g) \<union> set_option (fe_key f)"
        using n(7) stored2(2) g3(3) by simp
    qed (use n g3(6) in simp_all)
  qed
qed

text \<open>How the handling of an event ends: with nothing changed but the agent and its scheduler, or
  with a pending notification.\<close>

lemma dispatch_formatted_cases:
  assumes "gateway_ok env g" "event_ok f" "valid_timestamp (tick_now tick)"
    and "dispatch_formatted env tick f g = (x, g')"
  obtains (nothing) "gateway_ok env g'" "gw_world g' = gw_world g" "x = Inr None \<longrightarrow> g' = g"
      "\<forall>n. x \<noteq> Inr (Some n)"
  | (posted) a n s r s' where "submit (Some (fe_session f)) (session_inbox env a (fe_session f)) s = (r, s')"
      "x = rbind r (\<lambda>_. Inr (Some n))" "gateway_ok env g'" "map_of (gw_schedulers g') a = Some s'"
      "set_option (fe_key f) \<inter> w_index (gw_world g) = {}" "agent_id_ok a"
      "n_status n = PENDING" "n_external_key n = fe_key f" "n_target n = SessionAddress a (fe_session f)"
      "stored (gw_world g') = (\<lambda>r j. if r = q_root (session_inbox env a (fe_session f)) \<and> j = n_id n
         then Some n else stored (gw_world g) r j)"
      "w_index (gw_world g') = w_index (gw_world g) \<union> set_option (fe_key f)"
      "book_get (gw_book g') (SessionAddress a (fe_session f)) = Some (session_inbox env a (fe_session f))"
proof -
  obtain r h where h: "admit_event env f g = (r, h)" by (metis surj_pair)
  note e = admit_event_effect [OF h assms(1,2)]
  consider (err) y where "r = Inl y" | (dup) "r = Inr None" | (acc) a where "r = Inr (Some a)"
    by (metis sum.exhaust option.exhaust)
  then show thesis
  proof cases
    case err
    then have x: "x = Inl y" "g' = h" using assms(4) h by (auto simp: dispatch_formatted_def ebind_def)
    then show thesis using e by (intro that(1)) simp_all
  next
    case dup
    then have x: "x = Inr None" "g' = h" using assms(4) h by (auto simp: dispatch_formatted_def ebind_def)
    then show thesis using e dup assms(1) by (intro that(1)) simp_all
  next
    case acc
    from e acc obtain s where s: "map_of (gw_schedulers h) a = Some s" "agent_id_ok a" "gateway_ok env h"
      "set_option (fe_key f) \<inter> w_index (gw_world h) = {}" "gw_world h = gw_world g" by auto
    have x: "(x, g') = ebind (finish_delivery env tick f a) (\<lambda>n. eret (Some n)) h"
      using assms(4) h acc by (simp add: dispatch_formatted_def ebind_def)
    show thesis
    proof (cases rule: finish_delivery_cases [OF s(3) assms(2) s(2) assms(3) s(4,1)])
      case (1 e)
      then have "x = Inl e" "g' = h" using x by (simp_all add: ebind_def)
      then show thesis using s(3,5) by (intro that(1)) simp_all
    next
      case (2 n g2 q s')
      have y: "x = rbind q (\<lambda>_. Inr (Some n))" "g' = g2"
        using x 2(2) by (cases q; simp add: ebind_def)+
      show thesis
        by (rule that(2) [OF 2(1) y(1), unfolded y(2)]) (use 2 s in \<open>simp_all cong: if_cong\<close>)
    qed
  qed
qed

text \<open>The formatter hands over the routing fields as they are.\<close>

lemma process_fields:
  "process p draws e = FormatterDelivery f \<Longrightarrow> fe_session f = re_session e \<and> fe_key f = re_key e \<and>
     fe_agent f = re_agent e \<and> fe_bootstrap f = re_bootstrap e"
  by (cases "decide p e") (auto simp: process_def format_event_def)

definition raw_event_ok :: "'c raw_event \<Rightarrow> bool" where
  "raw_event_ok e \<longleftrightarrow> valid_session_key (re_session e) \<and> pred_option agent_id_ok (re_agent e)"

section \<open>Any sequence of events and handlings\<close>

datatype 'c gateway_action =
    EventArrived "nat \<Rightarrow> 32 word" post_tick "'c raw_event"
  | ItemHandled durable_queue string notification_status "string option" "rationale option" "string option"

fun run_action :: "'c gateway_env \<Rightarrow> 'c gateway_action \<Rightarrow> gateway \<Rightarrow> gateway" where
  "run_action env (EventArrived draws tick e) g = snd (handle_event env draws tick e g)"
| "run_action env (ItemHandled q i st memo rat reason) g =
     snd (on_store (apply_handling_transition q i st (gw_book g) memo rat reason) g)"

fun action_ok :: "'c gateway_action \<Rightarrow> bool" where
  "action_ok (EventArrived draws tick e) = (raw_event_ok e \<and> valid_timestamp (tick_now tick))"
| "action_ok (ItemHandled _ _ _ _ _ _) = True"

lemma run_action_ok:
  assumes "gateway_ok env g" "action_ok a"
  shows "gateway_ok env (run_action env a g)"
proof (cases a)
  case (EventArrived draws tick e)
  show ?thesis
  proof (cases "process (ge_policy env) draws e")
    case (FormatterDelivery f)
    have f: "event_ok f"
      using process_fields [OF FormatterDelivery] assms(2) EventArrived by (simp add: event_ok_def raw_event_ok_def)
    obtain x g' where g': "dispatch_formatted env tick f g = (x, g')" by (metis surj_pair)
    have "valid_timestamp (tick_now tick)" using assms(2) EventArrived by simp
    from assms(1) f this g' have "gateway_ok env g'" by (cases rule: dispatch_formatted_cases)
    with g' show ?thesis using EventArrived FormatterDelivery by (simp add: handle_event_def)
  qed (use assms(1) EventArrived in \<open>simp add: handle_event_def\<close>)
next
  case (ItemHandled q i st memo rat reason)
  obtain r w where w: "apply_handling_transition q i st (gw_book g) memo rat reason (gw_world g) = (r, w)"
    by (metis surj_pair)
  have "in_flight_ok w"
    using in_flight_handled [of "gw_world g" q i st "gw_book g" memo rat reason] assms(1) w by (simp add: gateway_ok_def)
  then show ?thesis using assms(1) w ItemHandled by (simp add: on_store_def gateway_ok_def)
qed

text \<open>C3: when no other task runs while a checkout is awaited, at most one notification per external
  key is stored in the whole agency and every stored key is in the index, after any sequence
  of events and handling transitions.\<close>

theorem at_most_one_in_flight:
  assumes "gateway_ok env g" "list_all action_ok acts"
  shows "one_in_flight (stored (gw_world (fold (run_action env) acts g))) \<and>
    index_covers (gw_world (fold (run_action env) acts g))"
proof -
  have "gateway_ok env (fold (run_action env) acts g)"
    using assms by (induction acts arbitrary: g) (simp_all add: run_action_ok)
  then show ?thesis by (simp add: gateway_ok_def in_flight_ok_def)
qed

section \<open>A gateway that receives one event\<close>

definition example_env :: "unit gateway_env" where
  "example_env = \<lparr>ge_paths = \<lparr>home_root = [''h''], workspace_root = [''w'']\<rparr>, ge_policy = example_policy,
     ge_validate = (\<lambda>_. Inr ()), ge_checkout = (\<lambda>_ _. Inr ()),
     ge_scheduler = (\<lambda>_ w. new_scheduler 1 3 None None None w)\<rparr>"

definition example_gateway :: gateway where
  "example_gateway = \<lparr>gw_world = world_empty, gw_book = [], gw_inboxes = [], gw_schedulers = [],
     gw_agents = [], gw_sessions = {}, gw_started = True\<rparr>"

lemma example_gateway_ok: "gateway_ok env example_gateway"
  by (simp add: gateway_ok_def example_gateway_def in_flight_ok_def one_in_flight_def index_covers_def keyed_def)

lemma example_event_valid: "raw_event_ok (example_event i k)" "valid_timestamp (tick_now (example_tick 5))"
proof -
  have "valid_session_key (SessionKey [''github'', ''p'', ''issue'', ''7''])" "agent_id_ok ''ann''"
    by (simp_all add: valid_session_key_def agent_id_ok_def slash_def colon_def)
  then show "raw_event_ok (example_event i k)" by (simp add: raw_event_ok_def example_event_def)
qed simp

lemma example_delivery:
  "\<exists>n g'. handle_event example_env (\<lambda>_. 7) (example_tick 5) (example_event ''17'' CONVERSATIONAL) example_gateway =
     (Inr (Some n), g')"
proof -
  obtain f where f: "process (ge_policy example_env) (\<lambda>_. 7) (example_event ''17'' CONVERSATIONAL) = FormatterDelivery f"
    by (simp add: process_def example_env_def example_decision)
  have fields: "fe_key f = Some ''github:1''" "fe_agent f = Some ''ann''" "fe_bootstrap f = None"
    using process_fields [OF f] by (simp_all add: example_event_def)
  have ok: "event_ok f"
    using process_fields [OF f] example_event_valid(1) [of "''17''" CONVERSATIONAL] by (simp add: event_ok_def raw_event_ok_def)
  obtain h where h: "admit_event example_env f example_gateway = (Inr (Some ''ann''), h)"
    "gw_schedulers h = [(''ann'', \<lparr>s_config = \<lparr>sc_strikes = 3, sc_evictor = None, sc_save = None\<rparr>, s_slots = 1,
       s_drivers = [], s_closed = False, s_world = world_empty, s_monitor = None, s_notes = \<lambda>_. None\<rparr>)]"
    by (simp add: admit_event_def fields example_gateway_def index_contains_def world_empty_def resolve_agent_def
        get_or_load_agent_def example_env_def ensure_scheduler_def ebind_def new_scheduler_def)
  note e = admit_event_effect [OF h(1) example_gateway_ok ok]
  obtain s where s: "map_of (gw_schedulers h) ''ann'' = Some s" "\<not> s_closed s" by (simp add: h(2))
  have key: "set_option (fe_key f) \<inter> w_index (gw_world h) = {}" and a: "agent_id_ok ''ann''" and hok: "gateway_ok example_env h"
    using e by auto
  show ?thesis
  proof (cases rule: finish_delivery_cases [OF hok ok a example_event_valid(2) key s(1)])
    case (1 x)
    then show ?thesis using fields by simp
  next
    case (2 n g' r s')
    have "r = Inr ()" using 2(1) s(2) by (auto simp: submit_def Let_def)
    then show ?thesis using 2(2) h(1) f by (simp add: handle_event_def dispatch_formatted_def ebind_def)
  qed
qed

theorem at_most_one_in_flight_witness:
  "one_in_flight (stored (gw_world (fold (run_action example_env)
     [EventArrived (\<lambda>_. 7) (example_tick 5) (example_event ''17'' CONVERSATIONAL),
      ItemHandled example_queue ''a1'' IN_PROGRESS None None None] example_gateway)))"
proof -
  have "list_all action_ok [EventArrived (\<lambda>_. 7) (example_tick 5) (example_event ''17'' CONVERSATIONAL),
      ItemHandled example_queue ''a1'' IN_PROGRESS None None None]"
    using example_event_valid by simp
  from at_most_one_in_flight [OF example_gateway_ok this, THEN conjunct1] show ?thesis .
qed

text \<open>An event whose key is in flight, and one that the policy drops, change nothing at all.\<close>

theorem duplicates_and_drops_change_nothing:
  assumes "(\<exists>r. decide (ge_policy env) e = Drop r) \<or> (\<exists>k. re_key e = Some k \<and> k \<in> w_index (gw_world g))"
  shows "handle_event env draws tick e g = (Inr None, g)"
proof (cases "process (ge_policy env) draws e")
  case (FormatterDelivery f)
  then have "\<not> (\<exists>r. decide (ge_policy env) e = Drop r)"
    by (auto simp: process_def)
  with assms obtain k where "re_key e = Some k" "k \<in> w_index (gw_world g)" by blast
  then show ?thesis
    using FormatterDelivery process_fields [OF FormatterDelivery]
    by (simp add: handle_event_def dispatch_formatted_def admit_event_def index_contains_def ebind_def)
next
  case (FormatterDrop r)
  then show ?thesis by (simp add: handle_event_def)
qed

theorem duplicates_and_drops_change_nothing_witness:
  "handle_event example_env (\<lambda>_. 7) (example_tick 5) (example_event ''66'' CONVERSATIONAL) example_gateway = (Inr None, example_gateway)"
proof (rule duplicates_and_drops_change_nothing, rule disjI1)
  show "\<exists>r. decide (ge_policy example_env) (example_event ''66'' CONVERSATIONAL) = Drop r"
    unfolding example_env_def gateway_env.simps by (rule exI, code_simp)
qed



text \<open>The check of the index and the insertion are in different segments: an event is admitted as
  long as no delivery with its key has been finished, and an admitted event is posted
  whatever the index says by then.\<close>

lemma admission_reads_index_only:
  assumes "fe_key f = Some k" "k \<notin> w_index (gw_world g)" "resolve_agent env f g = Inr a"
    and "map_of (gw_schedulers g) a = Some s" "a \<in> set (gw_agents g)"
  shows "admit_event env f g = (Inr (Some a), g)"
  using assms by (simp add: admit_event_def index_contains_def ensure_scheduler_def ebind_def)

lemma late_delivery_duplicates:
  assumes "gateway_ok env g" "event_ok f" "agent_id_ok a" "valid_timestamp (tick_now tick)"
    and "fe_key f = Some k" "keyed (stored (gw_world g)) k r i" "fe_bootstrap f = Some c"
    and "ge_checkout env (session_workspace (ge_paths env) a (fe_session f)) c = Inr ()"
    and "map_of (gw_schedulers g) a = Some s" "\<not> s_closed s"
  shows "\<exists>n g'. finish_delivery env tick f a g = (Inr n, g') \<and>
    keyed (stored (gw_world g')) k (session_inbox_dir (ge_paths env) a (fe_session f)) (n_id n) \<and>
    (r = session_inbox_dir (ge_paths env) a (fe_session f) \<and> i = n_id n \<or> \<not> one_in_flight (stored (gw_world g')))"
proof -
  let ?q = "session_inbox env a (fe_session f)" and ?sp = "event_spec f (SessionAddress a (fe_session f))"
  let ?g2 = "g\<lparr>gw_sessions := insert (a, fe_session f) (gw_sessions g),
    gw_world := exec_step (MkDir (session_metadata_dir (ge_paths env) a (fe_session f))) (gw_world g)\<rparr>"
  have "gateway_ok env ?g2" using assms(1) by (simp add: gateway_ok_def)
  then obtain g3 where g3: "ensure_inbox env a (fe_session f) ?g2 = (Inr ?q, g3)"
    "gw_world g3 = gw_world ?g2" "gw_schedulers g3 = gw_schedulers ?g2" by (rule ensure_inbox_run) (rule that)
  obtain n u where n: "from_spec tick ?sp (w_ulid (gw_world g3)) = (n, u)"
    by (cases "from_spec tick ?sp (w_ulid (gw_world g3))")
  note fields = from_spec_fields [OF n] and post = queue_post_run [OF n, of ?q]
  have "valid_spec ?sp" using assms(2,3) by (simp add: valid_spec_def event_spec_def event_ok_def agent_id_ok_def)
  then have ok: "item_ok n" using valid_from_spec [OF n _ assms(4)] fields by (simp add: item_ok_def)
  let ?w = "note_posted ?q n (put_item (q_root ?q) n ((gw_world g3)\<lparr>w_ulid := u\<rparr>))"
  obtain s' where s': "submit (Some (fe_session f)) ?q s = (Inr (), s')"
    using assms(10) by (auto simp: submit_def Let_def)
  let ?g' = "g3\<lparr>gw_world := ?w, gw_schedulers := dict_set a s' (gw_schedulers g3)\<rparr>"
  have run: "finish_delivery env tick f a g = (Inr n, ?g')"
    using assms(7-9) g3 post s'
    by (simp add: finish_delivery_def Let_def ebind_def on_store_def make_dir_run submit_session_def)
  have key: "n_external_key n = Some k" using fields assms(5) by (simp add: event_spec_def)
  have st: "keyed (stored ?w) k r' j \<longleftrightarrow> r' = q_root ?q \<and> j = n_id n \<or> keyed (stored (gw_world g)) k r' j" for r' j
    using stored_put_item [OF ok] key g3(2) by (auto simp: keyed_put)
  then have "keyed (stored ?w) k (q_root ?q) (n_id n)" "keyed (stored ?w) k r i" using assms(6) by blast+
  then show ?thesis using run by (auto simp: one_in_flight_def session_inbox_def)
qed

section \<open>Activation wakes every session with work\<close>

definition woken :: "gateway \<Rightarrow> agent_id \<Rightarrow> session_key \<Rightarrow> bool" where
  "woken g a k \<longleftrightarrow> (\<exists>s d. map_of (gw_schedulers g) a = Some s \<and> driver_of s k = Some d \<and> d_wake d)"

definition has_pending :: "gateway \<Rightarrow> agent_id \<Rightarrow> session_key \<Rightarrow> path \<Rightarrow> bool" where
  "has_pending g a k d \<longleftrightarrow> a \<in> set (gw_agents g) \<and>
     (\<exists>x xs. prompt_pending \<lparr>q_root = d, q_indexed = True, q_kind = InboxQueue (SessionAddress a k)\<rparr>
       (gw_world g) = Inr (x # xs))"

lemma submit_wakes:
  assumes "submit (Some k) q s = (r, s')"
  shows "(r = Inr () \<longrightarrow> (\<exists>d. driver_of s' k = Some d \<and> d_wake d)) \<and>
    (\<forall>j d. driver_of s j = Some d \<and> d_wake d \<longrightarrow> (\<exists>d'. driver_of s' j = Some d' \<and> d_wake d'))"
  using assms by (auto simp: submit_def Let_def driver_of_def put_driver_def kick_def split: if_splits)

lemma submit_session_wakes:
  assumes "submit_session a k q g = (r, g')"
  shows "(r = Inr () \<longrightarrow> woken g' a k) \<and> (\<forall>b j. woken g b j \<longrightarrow> woken g' b j)"
proof (cases "map_of (gw_schedulers g) a")
  case None
  with assms show ?thesis by (auto simp: submit_session_def)
next
  case (Some s)
  obtain x s' where s': "submit (Some k) q s = (x, s')" by (metis surj_pair)
  then have g': "r = x" "g' = g\<lparr>gw_schedulers := dict_set a s' (gw_schedulers g)\<rparr>"
    using assms Some by (simp_all add: submit_session_def)
  show ?thesis
    using submit_wakes [OF s'] Some unfolding g' by (auto simp: woken_def)
qed

lemma ensure_scheduler_keeps_woken:
  "ensure_scheduler env a g = (r, g') \<Longrightarrow> woken g b j \<Longrightarrow> woken g' b j"
  by (auto simp: ensure_scheduler_def woken_def split: if_splits sum.splits)

lemma ensure_inbox_schedulers:
  "ensure_inbox env a k g = (r, g') \<Longrightarrow> gw_schedulers g' = gw_schedulers g \<and> gw_world g' = gw_world g \<and>
     gw_agents g' = gw_agents g"
  by (auto simp: ensure_inbox_def Let_def split: option.splits sum.splits)

lemma pending_ignores_dirs: "prompt_pending q (w\<lparr>w_dirs := ds\<rparr>) = prompt_pending q w"
proof -
  have "load_item (w\<lparr>w_dirs := ds\<rparr>) = load_item w" by (simp add: load_item_def fun_eq_iff)
  then show ?thesis by (simp add: prompt_pending_def queue_list_def)
qed

text \<open>One activation: the stored items and the agents stay, woken drivers stay woken, and a session
  with pending items of a persisted agent is woken.\<close>

lemma activate_session_effect:
  assumes "activate_session env (a, k, d) n g = (Inr m, g')"
  shows "(\<exists>ds. gw_world g' = (gw_world g)\<lparr>w_dirs := ds\<rparr>) \<and> gw_agents g' = gw_agents g \<and>
    (\<forall>b j. woken g b j \<longrightarrow> woken g' b j) \<and> (has_pending g a k d \<longrightarrow> woken g' a k)"
proof (cases "has_pending g a k d")
  case False
  then have "g' = g"
    using assms by (auto simp: has_pending_def activate_session_def split: sum.splits list.splits if_splits)
  with False show ?thesis by (auto intro: exI [of _ "w_dirs (gw_world g)"])
next
  case True
  obtain g1 where g1: "ensure_scheduler env a g = (Inr (), g1)"
    using assms True by (auto simp: has_pending_def activate_session_def ebind_eq_Inr)
  let ?g2 = "g1\<lparr>gw_world := exec_step (MkDir (session_workspace (ge_paths env) a k)) (gw_world g1)\<rparr>"
  obtain q g3 where g3: "ensure_inbox env a k ?g2 = (Inr q, g3)" "submit_session a k q g3 = (Inr (), g')"
    using assms True g1 by (auto simp: has_pending_def activate_session_def ebind_eq_Inr make_dir_run)
  note e1 = ensure_scheduler_effect [OF g1] and e3 = ensure_inbox_schedulers [OF g3(1)]
    and e4 = submit_session_effect [OF g3(2)]
  have keeps: "woken g3 b j" if "woken g b j" for b j
    using ensure_scheduler_keeps_woken [OF g1 that] e3 by (simp add: woken_def)
  then show ?thesis using submit_session_wakes [OF g3(2)] e1 e3 e4 by auto
qed

lemma activate_all_effect:
  assumes "efold (activate_session env) locs n g = (Inr m, g')"
  shows "(\<forall>b j. woken g b j \<longrightarrow> woken g' b j) \<and>
    (\<forall>a k d. (a, k, d) \<in> set locs \<and> has_pending g a k d \<longrightarrow> woken g' a k)"
  using assms
proof (induction locs arbitrary: n g)
  case (Cons l locs)
  obtain a k d where l: "l = (a, k, d)" by (cases l)
  obtain m1 g1 where g1: "activate_session env (a, k, d) n g = (Inr m1, g1)"
    "efold (activate_session env) locs m1 g1 = (Inr m, g')"
    using Cons.prems l by (auto simp: ebind_eq_Inr)
  note e = activate_session_effect [OF g1(1)] and rest = Cons.IH [OF g1(2)]
  have "has_pending g1 b j d' = has_pending g b j d'" for b j d'
    using e by (auto simp: has_pending_def pending_ignores_dirs)
  with e rest l show ?case by (auto; blast)
qed simp

text \<open>When the activation at startup succeeds, every session on disk whose inbox holds pending
  work and whose agent is persisted has a driver that is set to wake up.\<close>

theorem startup_activates_pending_sessions:
  assumes "activate_sessions_with_work env g = (Inr m, g')"
    and "(a, k, d) \<in> set (fst (iter_session_inbox_locations (ge_paths env) (w_dirs (gw_world g))))"
    and "has_pending g a k d"
  shows "woken g' a k"
proof -
  obtain locs e where l: "iter_session_inbox_locations (ge_paths env) (w_dirs (gw_world g)) = (locs, e)"
    by (metis surj_pair)
  obtain j h where "efold (activate_session env) locs 0 g = (Inr j, h)" "g' = h"
    using assms(1) l by (auto simp: activate_sessions_with_work_def ebind_eq_Inr split: option.splits)
  moreover have "(a, k, d) \<in> set locs" using assms(2) l by simp
  ultimately show ?thesis using activate_all_effect [of env locs 0 g j h] assms(3) by blast
qed

definition resumed_inbox :: path where
  "resumed_inbox = [''h'', ''agents'', ''ann'', ''sessions'', ''cli'', ''_state'', ''inbox'']"

definition resumed_gateway :: gateway where
  "resumed_gateway = example_gateway\<lparr>gw_agents := [''ann''],
     gw_world := (put_item resumed_inbox example_item world_empty)
       \<lparr>w_dirs := map (\<lambda>k. take k resumed_inbox) [1, 2, 3, 4, 5, 6, 7]\<rparr>\<rparr>"

lemma resumed_locations:
  "iter_session_inbox_locations (ge_paths example_env) (w_dirs (gw_world resumed_gateway)) =
     ([(''ann'', SessionKey [''cli''], resumed_inbox)], None)"
proof -
  have "w_dirs (gw_world resumed_gateway) = map (\<lambda>k. take k resumed_inbox) [1, 2, 3, 4, 5, 6, 7]"
    by (simp add: resumed_gateway_def)
  moreover have "iter_session_inbox_locations \<lparr>home_root = [''h''], workspace_root = [''w'']\<rparr>
      (map (\<lambda>k. take k resumed_inbox) [1, 2, 3, 4, 5, 6, 7]) =
     ([(''ann'', SessionKey [''cli''], resumed_inbox)], None)" by code_simp
  ultimately show ?thesis by (simp add: example_env_def)
qed

lemma resumed_pending:
  "prompt_pending \<lparr>q_root = resumed_inbox, q_indexed = True, q_kind = k\<rparr> (gw_world resumed_gateway) = Inr [example_item]"
proof -
  let ?w = "put_item resumed_inbox example_item world_empty"
  let ?q = "\<lparr>q_root = resumed_inbox, q_indexed = True, q_kind = k\<rparr>"
  have ok: "store_ok UNIV ?w" using put_item_ok [OF _ example_item_ok, of UNIV world_empty] by simp
  have st: "stored ?w = (\<lambda>r i. if r = resumed_inbox \<and> i = n_id example_item then Some example_item else None)"
    using stored_put_item [OF example_item_ok] by (simp cong: if_cong)
  have l: "queue_list ?q None ?w = Inr [example_item]"
  proof (rule queue_list_unique [OF ok UNIV_I])
    show "n \<in> set [example_item] \<longleftrightarrow> stored ?w (q_root ?q) (n_id n) = Some n" for n
      unfolding st by auto
  qed simp
  have "prompt_pending ?q ?w = Inr [example_item]"
    using queue_list_filter [OF l] by (simp add: prompt_pending_def)
  then show ?thesis by (simp add: resumed_gateway_def pending_ignores_dirs)
qed

lemma resumed_fields:
  "gw_schedulers resumed_gateway = []" "gw_agents resumed_gateway = [''ann'']"
  "gw_inboxes resumed_gateway = []" "gw_book resumed_gateway = []"
  by (simp_all add: resumed_gateway_def example_gateway_def)

lemma resumed_scheduler:
  obtains s where "ge_scheduler example_env a w = Inr s" "s_drivers s = []" "\<not> s_closed s"
  by (simp add: example_env_def new_scheduler_def)

theorem startup_activates_pending_sessions_witness:
  "\<exists>m g'. activate_sessions_with_work example_env resumed_gateway = (Inr m, g') \<and>
     woken g' ''ann'' (SessionKey [''cli''])"
proof -
  let ?k = "SessionKey [''cli'']"
  have run: "\<exists>m g'. activate_sessions_with_work example_env resumed_gateway = (Inr m, g')"
  proof -
    obtain s where "ge_scheduler example_env ''ann'' (gw_world resumed_gateway) = Inr s" "s_drivers s = []" "\<not> s_closed s"
      by (rule resumed_scheduler)
    then show ?thesis
      by (simp add: activate_sessions_with_work_def resumed_locations ebind_def activate_session_def resumed_pending
          resumed_fields ensure_scheduler_def make_dir_run ensure_inbox_def book_get_def book_register_def
          submit_session_def submit_def Let_def driver_of_def)
  qed
  have "has_pending resumed_gateway ''ann'' ?k resumed_inbox"
    by (simp add: has_pending_def resumed_pending resumed_fields)
  with run show ?thesis
    using startup_activates_pending_sessions [of example_env resumed_gateway _ _ "''ann''" ?k resumed_inbox]
    by (auto simp: resumed_locations)
qed

end
