(* ===== verification/Validation_Targets.thy ===== *)
theory Validation_Targets
  imports PyString
begin

text \<open>
  The tracker of validation targets (\<open>src/thorn/core/_validation_tracker.py\<close>): snapshots of the
  files of a target, staleness, and the status that takes dependencies into account. What a
  glob pattern matches, in order and with the digests, is an input.
\<close>

section \<open>Snapshots\<close>

type_synonym file_snapshot = "(string \<times> string) list"

type_synonym matches = "string \<Rightarrow> (string \<times> string) list"

definition add_checksum :: "string \<times> string \<Rightarrow> file_snapshot \<Rightarrow> file_snapshot" where
  "add_checksum f m = (if map_of m (fst f) = None then dict_set (fst f) (snd f) m else m)"

definition snapshot_scan :: "matches \<Rightarrow> string list \<Rightarrow> file_snapshot" where
  "snapshot_scan glob patterns = fold (\<lambda>p m. fold add_checksum (glob p) m) patterns []"

definition diff_count :: "file_snapshot \<Rightarrow> file_snapshot \<Rightarrow> nat" where
  "diff_count a b =
     length (filter (\<lambda>p. map_of a p \<noteq> map_of b p) (remdups (map fst a @ map fst b)))"

section \<open>Targets\<close>

datatype validation_status = UNKNOWN | STALE | PASSING | FAILING

fun validation_status_value :: "validation_status \<Rightarrow> string" where
  "validation_status_value UNKNOWN = ''unknown''"
| "validation_status_value STALE = ''stale''"
| "validation_status_value PASSING = ''passing''"
| "validation_status_value FAILING = ''failing''"

record target =
  vt_name :: string
  vt_patterns :: "string list"
  vt_depends :: "string list"
  vt_result :: validation_status
  vt_summary :: "string option"
  vt_baseline :: "file_snapshot option"
  vt_stale :: nat

type_synonym tracker = "(string \<times> target) list"

definition add_target :: "string \<Rightarrow> string list \<Rightarrow> string list option \<Rightarrow> tracker \<Rightarrow> tracker" where
  "add_target name patterns deps ts =
     dict_set name \<lparr>vt_name = name, vt_patterns = patterns,
       vt_depends = (case deps of None \<Rightarrow> [] | Some ds \<Rightarrow> ds), vt_result = UNKNOWN, vt_summary = None,
       vt_baseline = None, vt_stale = 0\<rparr> ts"

definition record_result :: "matches \<Rightarrow> string \<Rightarrow> bool \<Rightarrow> string option \<Rightarrow> tracker \<Rightarrow> tracker" where
  "record_result glob name passed summary ts =
     (case map_of ts name of
        None \<Rightarrow> ts
      | Some t \<Rightarrow> dict_set name (t\<lparr>vt_result := (if passed then PASSING else FAILING), vt_summary := summary,
          vt_baseline := Some (snapshot_scan glob (vt_patterns t)), vt_stale := 0\<rparr>) ts)"

definition refresh_target :: "matches \<Rightarrow> target \<Rightarrow> target" where
  "refresh_target glob t =
     t\<lparr>vt_stale := (case vt_baseline t of
         None \<Rightarrow> length (snapshot_scan glob (vt_patterns t))
       | Some b \<Rightarrow> diff_count (snapshot_scan glob (vt_patterns t)) b)\<rparr>"

definition refresh :: "matches \<Rightarrow> tracker \<Rightarrow> tracker" where
  "refresh glob ts = map (\<lambda>(k, t). (k, refresh_target glob t)) ts"

definition blocks :: "validation_status \<Rightarrow> bool" where
  "blocks s = (s \<noteq> PASSING)"

lemma fewer_unseen:
  assumes "map_of ts name = Some t" "name \<notin> seen"
  shows "card (fst ` set ts - insert name seen) < card (fst ` set ts - seen)"
proof (rule psubset_card_mono)
  have "name \<in> fst ` set ts" using assms(1) by (metis domI dom_map_of_conv_image_fst)
  with assms(2) show "fst ` set ts - insert name seen \<subset> fst ` set ts - seen" by blast
qed simp

lemma unseen_shrinks:
  "card (fst ` set ts - (seen \<union> seen')) < card (fst ` set ts - seen) \<longleftrightarrow>
     card (fst ` set ts - (seen \<union> seen')) \<noteq> card (fst ` set ts - seen)"
proof -
  have "card (fst ` set ts - (seen \<union> seen')) \<le> card (fst ` set ts - seen)" by (rule card_mono) auto
  then show ?thesis by linarith
qed

text \<open>The search with its set of visited names, which all calls share: a call answers with its
  status and the set it leaves. The set only grows, so the union below is the set that the
  call before left; it makes the recursion visibly well founded.\<close>

function (sequential)
  status_from :: "tracker \<Rightarrow> string \<Rightarrow> string set \<Rightarrow> validation_status \<times> string set"
and blocked_by :: "tracker \<Rightarrow> string list \<Rightarrow> string set \<Rightarrow> bool \<times> string set" where
  "status_from ts name seen =
     (if name \<in> seen then (STALE, seen)
      else (case map_of ts name of
          None \<Rightarrow> (UNKNOWN, insert name seen)
        | Some t \<Rightarrow>
            (case blocked_by ts (vt_depends t) (insert name seen) of
               (True, seen') \<Rightarrow> (STALE, seen')
             | (False, seen') \<Rightarrow> (if vt_stale t > 0 then STALE else vt_result t, seen'))))"
| "blocked_by ts [] seen = (False, seen)"
| "blocked_by ts (d # ds) seen =
     (case status_from ts d seen of (s, seen') \<Rightarrow>
        if blocks s then (True, seen') else blocked_by ts ds (seen \<union> seen'))"
  by pat_completeness auto
termination
  by (relation "measures
      [\<lambda>x. case x of Inl (ts, name, seen) \<Rightarrow> card (fst ` set ts - seen) | Inr (ts, ds, seen) \<Rightarrow> card (fst ` set ts - seen),
       \<lambda>x. case x of Inl _ \<Rightarrow> 0 | Inr (ts, ds, seen) \<Rightarrow> Suc (length ds)]")
    (auto simp: less_Suc_eq_le fewer_unseen unseen_shrinks)

declare status_from.simps [simp del]

definition effective_status :: "tracker \<Rightarrow> string \<Rightarrow> validation_status" where
  "effective_status ts name = fst (status_from ts name {})"

lemma seen_grows:
  "seen \<subseteq> snd (status_from ts name seen)" "seen \<subseteq> snd (blocked_by ts ds seen)"
proof (induction ts name seen and ts ds seen rule: status_from_blocked_by.induct)
  case (1 ts name seen)
  then show ?case
    by (subst status_from.simps) (auto split: option.splits prod.splits bool.splits if_splits)
next
  case (3 ts d ds seen)
  then show ?case by (auto split: prod.splits)
qed simp

text \<open>The equation as the code has it.\<close>

lemma blocked_by_Cons:
  "blocked_by ts (d # ds) seen =
     (case status_from ts d seen of (s, seen') \<Rightarrow>
        if blocks s then (True, seen') else blocked_by ts ds seen')"
proof -
  obtain s seen' where "status_from ts d seen = (s, seen')" by (metis surj_pair)
  moreover from this seen_grows(1) [of seen ts d] have "seen \<union> seen' = seen'" by auto
  ultimately show ?thesis by simp
qed

section \<open>The dashboard\<close>

fun first_blocking :: "tracker \<Rightarrow> string \<Rightarrow> string list \<Rightarrow> (string \<times> validation_status) option" where
  "first_blocking ts self [] = None"
| "first_blocking ts self (d # ds) =
     (if d = self then first_blocking ts self ds
      else let s = effective_status ts d in if blocks s then Some (d, s) else first_blocking ts self ds)"

definition blocking_dep :: "tracker \<Rightarrow> target \<Rightarrow> (string \<times> validation_status) option" where
  "blocking_dep ts t = first_blocking ts (vt_name t) (vt_depends t)"

text \<open>The text after the name of a target; \<open>None\<close> when it has no part in the line.\<close>

definition status_text :: "tracker \<Rightarrow> target \<Rightarrow> string option" where
  "status_text ts t =
     (case effective_status ts (vt_name t) of
        UNKNOWN \<Rightarrow> None
      | STALE \<Rightarrow> Some (case blocking_dep ts t of
            Some (d, s) \<Rightarrow> ''blocked ('' @ d @ '' '' @ validation_status_value s @ '')''
          | None \<Rightarrow> if vt_stale t > 0 then ''stale ('' @ show_nat (vt_stale t) @ '' files changed)''
                    else ''stale'')
      | PASSING \<Rightarrow> Some ''passing''
      | FAILING \<Rightarrow> Some (case vt_summary t of
            Some s \<Rightarrow> if s = [] then ''failing'' else s
          | None \<Rightarrow> ''failing''))"

definition status_part :: "tracker \<Rightarrow> target \<Rightarrow> string option" where
  "status_part ts t = map_option (\<lambda>s. vt_name t @ '': '' @ s) (status_text ts t)"

definition status_parts :: "tracker \<Rightarrow> string list" where
  "status_parts ts = List.map_filter (\<lambda>(_, t). status_part ts t) ts"

definition all_passing :: string where
  "all_passing = ''[all validations passing]''"

definition render_status :: "tracker \<Rightarrow> string option" where
  "render_status ts =
     (if ts = [] then None
      else if status_parts ts = [] then None
      else if \<forall>(n, t) \<in> set ts. effective_status ts n = PASSING then Some all_passing
      else Some (''['' @ py_join '', '' (status_parts ts) @ '']''))"

text \<open>The targets are stored under their names, which every operation keeps.\<close>

definition tracker_ok :: "tracker \<Rightarrow> bool" where
  "tracker_ok ts \<longleftrightarrow> distinct (map fst ts) \<and> (\<forall>(n, t) \<in> set ts. vt_name t = n)"

lemma set_dict_set: "x \<in> set (dict_set k v m) \<Longrightarrow> x = (k, v) \<or> x \<in> set m"
  by (induction k v m rule: dict_set.induct) (auto split: if_splits)

lemma tracker_ok_dict_set: "tracker_ok ts \<Longrightarrow> vt_name t = n \<Longrightarrow> tracker_ok (dict_set n t ts)"
  by (auto simp: tracker_ok_def dest: set_dict_set)

lemma tracker_ok_operations:
  "tracker_ok []"
  "tracker_ok ts \<Longrightarrow> tracker_ok (add_target name patterns deps ts)"
  "tracker_ok ts \<Longrightarrow> tracker_ok (record_result glob name passed summary ts)"
  "tracker_ok ts \<Longrightarrow> tracker_ok (refresh glob ts)"
proof -
  show "tracker_ok []" by (simp add: tracker_ok_def)
  show "tracker_ok (add_target name patterns deps ts)" if "tracker_ok ts"
    using that by (simp add: add_target_def tracker_ok_dict_set)
  show "tracker_ok (record_result glob name passed summary ts)" if "tracker_ok ts"
  proof (cases "map_of ts name")
    case None
    with that show ?thesis by (simp add: record_result_def)
  next
    case (Some t)
    then have "vt_name t = name" using that by (auto simp: tracker_ok_def dest: map_of_SomeD)
    with that Some show ?thesis by (simp add: record_result_def tracker_ok_dict_set)
  qed
  have "map fst (refresh glob ts) = map fst ts" by (auto simp: refresh_def)
  then show "tracker_ok (refresh glob ts)" if "tracker_ok ts"
    using that by (simp add: tracker_ok_def) (auto simp: refresh_def refresh_target_def)
qed

section \<open>What a passing target promises\<close>

inductive needs :: "tracker \<Rightarrow> string \<Rightarrow> string \<Rightarrow> bool" for ts where
  itself: "needs ts n n"
| dependency: "map_of ts n = Some t \<Longrightarrow> d \<in> set (vt_depends t) \<Longrightarrow> needs ts d m \<Longrightarrow> needs ts n m"

definition backed :: "tracker \<Rightarrow> string \<Rightarrow> bool" where
  "backed ts n \<longleftrightarrow> (\<exists>t. map_of ts n = Some t \<and> vt_result t = PASSING \<and> vt_stale t = 0)"

inductive_cases needsE: "needs ts n m"

lemma passing_backed:
  "fst (status_from ts name seen) = PASSING \<Longrightarrow> needs ts name m \<Longrightarrow> backed ts m"
  "\<not> fst (blocked_by ts ds seen) \<Longrightarrow> e \<in> set ds \<Longrightarrow> needs ts e m \<Longrightarrow> backed ts m"
proof (induction ts name seen and ts ds seen arbitrary: m and e m rule: status_from_blocked_by.induct)
  case (1 ts name seen)
  from 1(2) obtain t where t: "name \<notin> seen" "map_of ts name = Some t"
    "\<not> fst (blocked_by ts (vt_depends t) (insert name seen))" "vt_stale t = 0" "vt_result t = PASSING"
    by (subst (asm) status_from.simps) (auto split: option.splits prod.splits bool.splits if_splits)
  have "m = name \<or> (\<exists>d \<in> set (vt_depends t). needs ts d m)"
    using 1(3) t(2) by (auto elim: needsE)
  then show ?case
  proof
    assume "m = name"
    then show ?thesis using t by (auto simp: backed_def)
  next
    assume "\<exists>d \<in> set (vt_depends t). needs ts d m"
    then show ?thesis using "1.IH" [OF t(1,2,3)] by blast
  qed
next
  case (3 ts d ds seen)
  obtain s seen' where s: "status_from ts d seen = (s, seen')" by (metis surj_pair)
  have p: "s = PASSING" "\<not> fst (blocked_by ts ds (seen \<union> seen'))"
    using 3(3) s by (auto simp: blocks_def split: if_splits)
  then show ?case
    using 3(1) [of m] 3(2) [OF s [symmetric] _ p(2)] 3(4,5) s by (auto simp: blocks_def)
qed simp

text \<open>C31: a target is reported as passing only when it and everything it depends on, however
  indirectly, is a registered target whose last result was a pass and whose files have not
  changed since.\<close>

theorem passing_is_backed:
  assumes "effective_status ts name = PASSING" "needs ts name m"
  shows "backed ts m"
  using passing_backed(1) assms by (simp add: effective_status_def)

lemma unblocked_unseen:
  "fst (status_from ts name seen) \<noteq> STALE \<Longrightarrow> needs ts name m \<Longrightarrow> m \<notin> seen"
  "\<not> fst (blocked_by ts ds seen) \<Longrightarrow> e \<in> set ds \<Longrightarrow> needs ts e m \<Longrightarrow> m \<notin> seen"
proof (induction ts name seen and ts ds seen arbitrary: m and e m rule: status_from_blocked_by.induct)
  case (1 ts name seen)
  from 1(2) have u: "name \<notin> seen"
    by (subst (asm) status_from.simps) (auto split: if_splits)
  show ?case
  proof (cases "map_of ts name")
    case None
    with 1(3) u show ?thesis by (auto elim: needsE)
  next
    case (Some t)
    then have b: "\<not> fst (blocked_by ts (vt_depends t) (insert name seen))"
      using 1(2) u by (subst (asm) status_from.simps) (auto split: prod.splits bool.splits)
    have "m = name \<or> (\<exists>d \<in> set (vt_depends t). needs ts d m)"
      using 1(3) Some by (auto elim: needsE)
    with u "1.IH" [OF u Some b] show ?thesis by blast
  qed
next
  case (3 ts d ds seen)
  obtain s seen' where s: "status_from ts d seen = (s, seen')" by (metis surj_pair)
  have p: "s = PASSING" "\<not> fst (blocked_by ts ds (seen \<union> seen'))"
    using 3(3) s by (auto simp: blocks_def split: if_splits)
  then show ?case
    using 3(1) [of m] 3(2) [OF s [symmetric] _ p(2)] 3(4,5) s by (auto simp: blocks_def)
qed simp

text \<open>C40: the search ends for every graph of targets, cyclic ones included, and a target that
  depends on itself, however indirectly, is stale.\<close>

theorem cycles_are_stale:
  assumes "map_of ts name = Some t" "d \<in> set (vt_depends t)" "needs ts d name"
  shows "effective_status ts name = STALE"
proof (rule ccontr)
  assume "effective_status ts name \<noteq> STALE"
  then have "\<not> fst (blocked_by ts (vt_depends t) {name})"
    using assms(1) by (simp add: effective_status_def status_from.simps split: prod.splits bool.splits)
  from unblocked_unseen(2) [OF this assms(2,3)] show False by simp
qed

lemma diff_count_0: "diff_count a b = 0 \<longleftrightarrow> map_of a = map_of b"
proof -
  have "diff_count a b = 0 \<longleftrightarrow> (\<forall>p \<in> fst ` set a \<union> fst ` set b. map_of a p = map_of b p)"
    by (auto simp: diff_count_def filter_empty_conv)
  also have "\<dots> \<longleftrightarrow> map_of a = map_of b"
    by (metis UnI1 UnI2 domIff dom_map_of_conv_image_fst ext)
  finally show ?thesis .
qed

lemma staleness_is_change:
  assumes "map_of ts name = Some t"
  obtains t' where "map_of (refresh glob' (record_result glob name passed summary ts)) name = Some t'"
    "vt_stale t' = 0 \<longleftrightarrow>
       map_of (snapshot_scan glob' (vt_patterns t)) = map_of (snapshot_scan glob (vt_patterns t))"
proof -
  have "map_of (refresh g us) n = map_option (refresh_target g) (map_of us n)" for g us n
    by (induction us) (auto simp: refresh_def)
  then show ?thesis using assms that
    by (simp add: record_result_def refresh_target_def diff_count_0)
qed

text \<open>The line that says that all validations pass is shown exactly when there is a target and
  every target passes.\<close>

theorem all_passing_is_true:
  assumes "tracker_ok ts"
  shows "render_status ts = Some all_passing \<longleftrightarrow>
    ts \<noteq> [] \<and> (\<forall>(n, t) \<in> set ts. effective_status ts n = PASSING)"
proof -
  have part: "CHR '':'' \<in> set p" if "p \<in> set (status_parts ts)" for p
    using that by (auto simp: status_parts_def status_part_def map_filter_def)
  have "CHR '':'' \<in> set (py_join '', '' ps)" if "ps \<noteq> []" "\<forall>p \<in> set ps. CHR '':'' \<in> set p" for ps
    using that by (cases ps rule: remdups_adj.cases) auto
  with part have "CHR '':'' \<in> set (py_join '', '' (status_parts ts))" if "status_parts ts \<noteq> []"
    using that by blast
  moreover have "CHR '':'' \<notin> set all_passing" by (simp add: all_passing_def)
  ultimately have other: "''['' @ py_join '', '' (status_parts ts) @ '']'' \<noteq> all_passing" if "status_parts ts \<noteq> []"
    using that by (metis Un_iff set_append)
  have "status_parts ts \<noteq> []" if "ts \<noteq> []" "\<forall>(n, t) \<in> set ts. effective_status ts n = PASSING"
  proof -
    from that(1) obtain n t where nt: "(n, t) \<in> set ts" by (cases ts) auto
    with that(2) assms have "effective_status ts (vt_name t) = PASSING" by (auto simp: tracker_ok_def)
    then have "status_part ts t \<noteq> None" by (simp add: status_part_def status_text_def)
    with nt show ?thesis by (force simp: status_parts_def map_filter_def filter_empty_conv)
  qed
  with other show ?thesis by (auto simp: render_status_def)
qed

text \<open>A dependency that two dependencies share counts as stale the second time.\<close>

definition diamond :: tracker where
  "diamond = map (\<lambda>(n, ds). (n, \<lparr>vt_name = n, vt_patterns = [], vt_depends = ds, vt_result = PASSING,
     vt_summary = None, vt_baseline = None, vt_stale = 0\<rparr>))
     [(''all'', [''test'', ''lint'']), (''test'', [''build'']), (''lint'', [''build'']), (''build'', [])]"

lemma diamond_is_stale:
  "effective_status diamond ''test'' = PASSING" "effective_status diamond ''lint'' = PASSING"
  "effective_status diamond ''all'' = STALE"
  by (simp_all add: effective_status_def diamond_def status_from.simps blocks_def)

definition one_target :: tracker where
  "one_target = record_result (\<lambda>_. []) ''test'' True None (add_target ''test'' [] None [])"

theorem passing_is_backed_witness: "backed diamond ''build''"
proof (rule passing_is_backed [of _ "''test''"])
  show "effective_status diamond ''test'' = PASSING" by (rule diamond_is_stale)
  show "needs diamond ''test'' ''build''"
    by (rule needs.dependency [of _ _ _ "''build''"]) (auto simp: diamond_def intro: needs.itself)
qed

definition ring :: tracker where
  "ring = add_target ''b'' [] (Some [''a'']) (add_target ''a'' [] (Some [''b'']) [])"

theorem cycles_are_stale_witness: "effective_status ring ''a'' = STALE"
proof (rule cycles_are_stale)
  show "map_of ring ''a'' = Some \<lparr>vt_name = ''a'', vt_patterns = [], vt_depends = [''b''],
      vt_result = UNKNOWN, vt_summary = None, vt_baseline = None, vt_stale = 0\<rparr>"
    by (simp add: ring_def add_target_def)
  show "needs ring ''b'' ''a''"
    by (rule needs.dependency [of _ _ _ "''a''"]) (auto simp: ring_def add_target_def intro: needs.itself)
qed simp

theorem all_passing_is_true_witness: "render_status one_target = Some all_passing"
proof -
  have "tracker_ok one_target" unfolding one_target_def by (intro tracker_ok_operations)
  moreover have "one_target \<noteq> [] \<and> (\<forall>(n, t) \<in> set one_target. effective_status one_target n = PASSING)"
    by (simp add: one_target_def add_target_def record_result_def effective_status_def status_from.simps)
  ultimately show ?thesis using all_passing_is_true by blast
qed

end
