(* ===== verification/File_Access.thy ===== *)
theory File_Access
  imports Paths
begin

text \<open>
  What an agent may see and change: the access policy of the file tools
  (\<open>src/thorn/core/_file_access.py\<close>). Resolving a path, with its links, and matching one
  gitignore pattern (the library pathspec) are parameters.
\<close>

section \<open>Levels, rules and policies\<close>

datatype access_level = Hidden | NoAccess | Readable | Writable

fun access_value :: "access_level \<Rightarrow> nat" where
  "access_value Hidden = 0"
| "access_value NoAccess = 1"
| "access_value Readable = 2"
| "access_value Writable = 3"

lemma access_value_inject [simp]: "access_value a = access_value b \<longleftrightarrow> a = b"
  by (cases a; cases b) auto

instantiation access_level :: linorder
begin

definition less_eq_access_level :: "access_level \<Rightarrow> access_level \<Rightarrow> bool" where
  "less_eq_access_level a b \<longleftrightarrow> access_value a \<le> access_value b"

definition less_access_level :: "access_level \<Rightarrow> access_level \<Rightarrow> bool" where
  "less_access_level a b \<longleftrightarrow> access_value a < access_value b"

instance
  by (intro_classes) (auto simp: less_eq_access_level_def less_access_level_def)

end

lemma level_bounds [simp]: "Hidden \<le> a" "a \<le> Writable"
  by (cases a; simp add: less_eq_access_level_def)+

lemma level_extremes [simp]: "a \<le> Hidden \<longleftrightarrow> a = Hidden" "Writable \<le> a \<longleftrightarrow> a = Writable"
  by (cases a; simp add: less_eq_access_level_def)+

datatype relative_to = Workspace | AgentHome

record access_rule =
  ar_pattern :: string
  ar_access :: access_level
  ar_root :: relative_to

record access_env =
  ae_resolve :: "path \<Rightarrow> path"
  ae_matches :: "string \<Rightarrow> string \<Rightarrow> bool"

definition path_parts :: "string \<Rightarrow> path" where
  "path_parts s = filter (\<lambda>p. p \<noteq> [] \<and> p \<noteq> ''.'') (py_split (CHR ''/'') s)"

definition is_absolute :: "string \<Rightarrow> bool" where
  "is_absolute s = py_startswith s ''/''"

definition posix_text :: "path \<Rightarrow> string" where
  "posix_text p = (if p = [] then ''.'' else py_join ''/'' p)"

text \<open>\<open>Path.relative_to\<close>; \<open>None\<close> is the \<open>ValueError\<close>.\<close>

definition path_below :: "path \<Rightarrow> path \<Rightarrow> path option" where
  "path_below p root = (if take (length root) p = root then Some (drop (length root) p) else None)"

definition normalise_pattern :: "access_env \<Rightarrow> string \<Rightarrow> path option \<Rightarrow> string" where
  "normalise_pattern env pattern root =
     (case root of
        None \<Rightarrow> pattern
      | Some r \<Rightarrow>
          if CHR ''*'' \<in> set pattern \<or> CHR ''?'' \<in> set pattern then pattern
          else if \<not> is_absolute pattern then pattern
          else (case path_below (ae_resolve env (path_parts pattern)) r of
              None \<Rightarrow> pattern
            | Some q \<Rightarrow> posix_text q))"

datatype access_policy =
  Policy (po_rules: "access_rule list") (po_default: access_level) (po_ceiling: "access_policy option")
    (po_roots: "(relative_to \<times> path) list") (po_compiled: "(string \<times> access_level \<times> path option) list")

definition resolve_roots :: "access_env \<Rightarrow> (relative_to \<times> path option) list \<Rightarrow> (relative_to \<times> path) list" where
  "resolve_roots env roots =
     List.map_filter (\<lambda>(k, p). map_option (\<lambda>p. (k, ae_resolve env p)) p) roots"

definition make_policy ::
    "access_env \<Rightarrow> access_rule list \<Rightarrow> access_level \<Rightarrow> access_policy option \<Rightarrow>
     (relative_to \<times> path option) list \<Rightarrow> access_policy" where
  "make_policy env rules dflt ceiling roots =
     (let rs = resolve_roots env roots
      in Policy rules dflt ceiling rs
           (map (\<lambda>r. let root = map_of rs (ar_root r)
                     in (normalise_pattern env (ar_pattern r) root, ar_access r, root)) rules))"

definition applied :: "access_env \<Rightarrow> path \<Rightarrow> string \<times> access_level \<times> path option \<Rightarrow> access_level \<Rightarrow> access_level" where
  "applied env resolved c result =
     (case c of (pattern, access, root) \<Rightarrow>
        case root of
          None \<Rightarrow> result
        | Some r \<Rightarrow>
            (case path_below resolved r of
               None \<Rightarrow> result
             | Some rel \<Rightarrow> if ae_matches env pattern (posix_text rel) then access else result))"

fun check :: "access_env \<Rightarrow> access_policy \<Rightarrow> path \<Rightarrow> access_level" where
  "check env (Policy rules dflt ceiling roots compiled) p =
     (let resolved = ae_resolve env p; result = fold (applied env resolved) compiled dflt
      in case ceiling of None \<Rightarrow> result | Some c \<Rightarrow> min result (check env c resolved))"

definition filter_listing :: "access_env \<Rightarrow> access_policy \<Rightarrow> string list \<Rightarrow> path \<Rightarrow> string list" where
  "filter_listing env pol entries directory = filter (\<lambda>e. check env pol (directory @ [e]) > Hidden) entries"

definition with_ceiling :: "access_env \<Rightarrow> access_policy \<Rightarrow> access_policy \<Rightarrow> access_policy" where
  "with_ceiling env ceiling pol =
     make_policy env (po_rules pol) (po_default pol) (Some ceiling) (map (\<lambda>(k, p). (k, Some p)) (po_roots pol))"

section \<open>The check of a call\<close>

definition resolve_for_check :: "access_env \<Rightarrow> string \<Rightarrow> path \<Rightarrow> path" where
  "resolve_for_check env raw workspace =
     ae_resolve env (if is_absolute raw then path_parts raw else workspace @ path_parts raw)"

text \<open>The answer is the path as it was given: whether it is absolute, and its parts.\<close>

definition check_access ::
    "access_env \<Rightarrow> string \<Rightarrow> access_level \<Rightarrow> access_policy \<Rightarrow> path \<Rightarrow> (bool \<times> path) result" where
  "check_access env raw required pol workspace =
     (if check env pol (resolve_for_check env raw workspace) < required
      then Inl (OSError ''PermissionError'')
      else Inr (is_absolute raw, path_parts raw))"

section \<open>Ignore files\<close>

definition ignore_rules :: "string option \<Rightarrow> access_rule list" where
  "ignore_rules content =
     (case content of
        None \<Rightarrow> []
      | Some text \<Rightarrow>
          map (\<lambda>l. \<lparr>ar_pattern = l, ar_access = Hidden, ar_root = Workspace\<rparr>)
            (filter (\<lambda>l. l \<noteq> [] \<and> \<not> py_startswith l ''#'') (map py_strip (py_splitlines text))))"

definition load_global_ignores ::
    "access_env \<Rightarrow> path \<Rightarrow> string option \<Rightarrow> string option \<Rightarrow> access_policy option" where
  "load_global_ignores env workspace aiignore thornignore =
     (let rules = ignore_rules aiignore @ ignore_rules thornignore
      in if rules = [] then None
         else Some (make_policy env rules Writable None [(Workspace, Some workspace)]))"

text \<open>The policy of a prompt (\<open>src/thorn/core/_agent.py\<close> and \<open>_func.py\<close>).\<close>

definition default_file_access :: "access_rule list" where
  "default_file_access =
     [\<lparr>ar_pattern = ''**'', ar_access = Writable, ar_root = Workspace\<rparr>,
      \<lparr>ar_pattern = ''.thorn'', ar_access = Readable, ar_root = Workspace\<rparr>,
      \<lparr>ar_pattern = ''.thorn/**'', ar_access = Readable, ar_root = Workspace\<rparr>,
      \<lparr>ar_pattern = ''**'', ar_access = Writable, ar_root = AgentHome\<rparr>]"

definition session_policy ::
    "access_env \<Rightarrow> access_rule list \<Rightarrow> path option \<Rightarrow> path option \<Rightarrow> access_policy option \<Rightarrow> access_policy" where
  "session_policy env rules workspace home ignores =
     (let pol = make_policy env rules NoAccess None [(Workspace, workspace), (AgentHome, home)]
      in case ignores of None \<Rightarrow> pol | Some c \<Rightarrow> with_ceiling env c pol)"

section \<open>The last rule that applies decides\<close>

definition rule_applies :: "access_env \<Rightarrow> (relative_to \<times> path) list \<Rightarrow> path \<Rightarrow> access_rule \<Rightarrow> bool" where
  "rule_applies env roots resolved r \<longleftrightarrow>
     (case map_of roots (ar_root r) of
        None \<Rightarrow> False
      | Some root \<Rightarrow>
          (case path_below resolved root of
             None \<Rightarrow> False
           | Some rel \<Rightarrow> ae_matches env (normalise_pattern env (ar_pattern r) (Some root)) (posix_text rel)))"

definition last_match ::
    "access_env \<Rightarrow> access_rule list \<Rightarrow> access_level \<Rightarrow> (relative_to \<times> path) list \<Rightarrow> path \<Rightarrow> access_level" where
  "last_match env rules dflt roots resolved =
     (case find (rule_applies env roots resolved) (rev rules) of None \<Rightarrow> dflt | Some r \<Rightarrow> ar_access r)"

lemma find_append: "find P (xs @ ys) = (case find P xs of None \<Rightarrow> find P ys | Some x \<Rightarrow> Some x)"
  by (induction xs) auto

lemma applied_rule:
  "applied env resolved (let root = map_of roots (ar_root r)
      in (normalise_pattern env (ar_pattern r) root, ar_access r, root)) a =
    (if rule_applies env roots resolved r then ar_access r else a)"
  by (auto simp: applied_def rule_applies_def Let_def split: option.splits)

lemma fold_rules:
  "fold (applied env resolved) (map (\<lambda>r. let root = map_of roots (ar_root r)
      in (normalise_pattern env (ar_pattern r) root, ar_access r, root)) rules) a =
    last_match env rules a roots resolved"
proof (induction rules rule: rev_induct)
  case (snoc r rules)
  then show ?case
    by (simp add: applied_rule last_match_def)
qed (simp add: last_match_def)

lemma check_make_policy:
  "check env (make_policy env rules dflt ceiling roots) p =
     (let own = last_match env rules dflt (resolve_roots env roots) (ae_resolve env p)
      in case ceiling of None \<Rightarrow> own | Some c \<Rightarrow> min own (check env c (ae_resolve env p)))"
  by (simp add: make_policy_def Let_def fold_rules [unfolded Let_def])

text \<open>The level of a path is that of the last rule whose root contains the resolved path and
  whose pattern matches it, the default when there is none, capped by the ceiling.\<close>

theorem last_applicable_rule_decides:
  "check env (make_policy env rules dflt ceiling roots) p =
     (let own = last_match env rules dflt (resolve_roots env roots) (ae_resolve env p)
      in case ceiling of None \<Rightarrow> own | Some c \<Rightarrow> min own (check env c (ae_resolve env p)))"
  by (rule check_make_policy)

definition resolving :: "access_env \<Rightarrow> bool" where
  "resolving env \<longleftrightarrow> (\<forall>p. ae_resolve env (ae_resolve env p) = ae_resolve env p)"

lemma resolve_roots_again:
  "resolving env \<Longrightarrow>
     resolve_roots env (map (\<lambda>(k, p). (k, Some p)) (resolve_roots env roots)) = resolve_roots env roots"
  by (induction roots) (auto simp: resolve_roots_def map_filter_simps resolving_def split: option.splits)

lemma check_with_ceiling:
  assumes "resolving env"
  shows "check env (with_ceiling env c (make_policy env rules dflt ceiling roots)) p =
    min (last_match env rules dflt (resolve_roots env roots) (ae_resolve env p)) (check env c (ae_resolve env p))"
proof -
  have "with_ceiling env c (make_policy env rules dflt ceiling roots) =
      make_policy env rules dflt (Some c) (map (\<lambda>(k, p). (k, Some p)) (resolve_roots env roots))"
    by (simp add: with_ceiling_def make_policy_def Let_def)
  then show ?thesis by (simp add: check_make_policy Let_def resolve_roots_again [OF assms])
qed

definition ignored :: "access_env \<Rightarrow> path \<Rightarrow> string option \<Rightarrow> string option \<Rightarrow> path \<Rightarrow> bool" where
  "ignored env workspace aiignore thornignore p \<longleftrightarrow>
     (\<exists>r \<in> set (ignore_rules aiignore @ ignore_rules thornignore).
        rule_applies env [(Workspace, ae_resolve env workspace)] (ae_resolve env p) r)"

lemma ignore_rules_hide: "r \<in> set (ignore_rules c) \<Longrightarrow> ar_access r = Hidden"
  by (auto simp: ignore_rules_def split: option.splits)

lemma hidden_last_match:
  assumes "\<forall>r \<in> set rules. ar_access r = Hidden"
  shows "last_match env rules dflt roots p =
    (if \<exists>r \<in> set rules. rule_applies env roots p r then Hidden else dflt)"
proof (cases "find (rule_applies env roots p) (rev rules)")
  case None
  moreover have "\<not> (\<exists>r \<in> set rules. rule_applies env roots p r)"
    using None unfolding find_None_iff by simp
  ultimately show ?thesis by (simp add: last_match_def)
next
  case (Some r)
  then have "r \<in> set rules \<and> rule_applies env roots p r"
    unfolding find_Some_iff by (metis nth_mem set_rev)
  with Some assms show ?thesis by (auto simp: last_match_def)
qed

lemma check_ignores:
  assumes "load_global_ignores env workspace aiignore thornignore = Some c" "resolving env"
  shows "check env c p = (if ignored env workspace aiignore thornignore p then Hidden else Writable)"
proof -
  let ?rules = "ignore_rules aiignore @ ignore_rules thornignore"
  have "c = make_policy env ?rules Writable None [(Workspace, Some workspace)]"
    using assms(1) by (simp add: load_global_ignores_def Let_def split: if_splits)
  moreover have "\<forall>r \<in> set ?rules. ar_access r = Hidden" using ignore_rules_hide by auto
  ultimately show ?thesis
    by (simp add: check_make_policy hidden_last_match ignored_def resolve_roots_def map_filter_simps)
qed

lemma no_ignores:
  "load_global_ignores env workspace aiignore thornignore = None \<Longrightarrow>
     \<not> ignored env workspace aiignore thornignore p"
  by (simp add: load_global_ignores_def ignored_def Let_def split: if_splits)

text \<open>C30: In the policy of a prompt an ignored path is hidden, whatever the rules of the agent say,
  and every other path has the level that the rules give it.\<close>

theorem ignored_paths_are_hidden:
  assumes "resolving env"
  shows "check env (session_policy env rules workspace home (load_global_ignores env root aiignore thornignore)) p =
    (if ignored env root aiignore thornignore p then Hidden
     else last_match env rules NoAccess (resolve_roots env [(Workspace, workspace), (AgentHome, home)])
       (ae_resolve env p))"
proof (cases "load_global_ignores env root aiignore thornignore")
  case None
  with no_ignores [OF None, of p] show ?thesis by (simp add: session_policy_def check_make_policy Let_def)
next
  case (Some c)
  let ?roots = "[(Workspace, workspace), (AgentHome, home)]"
  have again: "ae_resolve env (ae_resolve env p) = ae_resolve env p" using assms by (simp add: resolving_def)
  then have "check env c (ae_resolve env p) =
      (if ignored env root aiignore thornignore p then Hidden else Writable)"
    using check_ignores [OF Some assms, of "ae_resolve env p"] by (simp add: ignored_def)
  with Some show ?thesis
    by (simp add: session_policy_def Let_def check_with_ceiling [OF assms] min_def)
qed

text \<open>Two spellings of one file have the same level.\<close>

lemma check_resolved: "ae_resolve env p = ae_resolve env q \<Longrightarrow> check env pol p = check env pol q"
  by (cases pol) simp

text \<open>A later rule of an ignore file never gives access back.\<close>

lemma thornignore_only_hides:
  "ignored env root aiignore None p \<Longrightarrow> ignored env root aiignore thornignore p"
  by (auto simp: ignored_def ignore_rules_def)

text \<open>A second ceiling replaces the first.\<close>

lemma second_ceiling_replaces_first:
  assumes "resolving env"
  shows "check env (with_ceiling env c (with_ceiling env hiding (make_policy env rules dflt None roots))) p =
    check env (with_ceiling env c (make_policy env rules dflt None roots)) p"
proof -
  have "with_ceiling env hiding (make_policy env rules dflt None roots) =
      make_policy env rules dflt (Some hiding) (map (\<lambda>(k, p). (k, Some p)) (resolve_roots env roots))"
    by (simp add: with_ceiling_def make_policy_def Let_def)
  then show ?thesis by (simp add: check_with_ceiling [OF assms] resolve_roots_again [OF assms])
qed

section \<open>A workspace with an ignore file\<close>

definition example_access :: access_env where
  "example_access = \<lparr>ae_resolve = (\<lambda>p. p), ae_matches = (\<lambda>pattern p. pattern = ''**'' \<or> pattern = p)\<rparr>"

lemma example_resolving: "resolving example_access"
  by (simp add: resolving_def example_access_def)

theorem ignored_paths_are_hidden_witness:
  "check example_access (session_policy example_access default_file_access (Some [''w'']) None
     (load_global_ignores example_access [''w''] (Some ''.env'') None)) [''w'', ''.env''] = Hidden"
proof -
  have "ignored example_access [''w''] (Some ''.env'') None [''w'', ''.env'']"
    by code_simp
  then show ?thesis
    using ignored_paths_are_hidden [OF example_resolving, of default_file_access "Some [''w'']" None "[''w'']"
        "Some ''.env''" None "[''w'', ''.env'']"] by simp
qed

end
