(* ===== verification/Outline.thy ===== *)
theory Outline
  imports PyString "HOL-Library.Product_Lexorder"
begin

text \<open>
  Outlines of files that are too long to show (\<open>src/thorn/core/_outline.py\<close>): the hierarchy of
  a file by indentation, the choice of the regions to collapse within a budget of lines, and
  the numbered text within a budget of characters. Line numbers count from 1.
\<close>

section \<open>The content hierarchy\<close>

datatype content_node =
  Node (cn_start: nat) (cn_end: nat) (cn_depth: nat) (cn_children: "content_node list")

definition node_lines :: "content_node \<Rightarrow> nat" where
  "node_lines c = cn_end c + 1 - cn_start c"

text \<open>\<open>str.expandtabs\<close>, from a column on.\<close>

fun expandtabs :: "nat \<Rightarrow> nat \<Rightarrow> string \<Rightarrow> string" where
  "expandtabs w col [] = []"
| "expandtabs w col (c # s) =
     (if c = CHR 0x09 then
        (let k = (if w = 0 then 0 else w - col mod w) in replicate k CHR 0x20 @ expandtabs w (col + k) s)
      else if c = CHR 0x0A \<or> c = CHR 0x0D then c # expandtabs w 0 s
      else c # expandtabs w (col + 1) s)"

definition line_indent :: "nat \<Rightarrow> string \<Rightarrow> nat option" where
  "line_indent w l =
     (let expanded = expandtabs w 0 l; stripped = dropWhile (\<lambda>c. c = CHR 0x20) expanded
      in if stripped = [] then None else Some (length expanded - length stripped))"

text \<open>The last value that is not \<open>None\<close> so far, at every position.\<close>

fun carried :: "nat option \<Rightarrow> nat option list \<Rightarrow> nat option list" where
  "carried l [] = []"
| "carried l (r # rs) = (let l' = (if r = None then l else r) in l' # carried l' rs)"

fun blank_depth :: "nat option \<Rightarrow> nat option \<Rightarrow> nat option \<Rightarrow> nat" where
  "blank_depth (Some d) p n = d"
| "blank_depth None (Some p) (Some n) = min p n"
| "blank_depth None (Some p) None = p"
| "blank_depth None None (Some n) = n"
| "blank_depth None None None = 0"

definition compute_depths :: "string list \<Rightarrow> nat list" where
  "compute_depths ls =
     (let raw = map (line_indent 4) ls
      in map (\<lambda>(r, p, n). blank_depth r p n)
           (zip raw (zip (carried None raw) (rev (carried None (rev raw))))))"

text \<open>The children of a node of depth \<open>nd\<close> whose lines, from line \<open>s + 1\<close> on, have the depths
  given: the maximal runs of deeper lines.\<close>

function build_children :: "nat list \<Rightarrow> nat \<Rightarrow> nat \<Rightarrow> content_node list" where
  "build_children [] s nd = []"
| "build_children (d # ds) s nd =
     (if d > nd then
        (let deeper = takeWhile (\<lambda>x. x > nd) ds; m = fold min deeper d
         in Node (s + 1) (s + 1 + length deeper) m (build_children (d # deeper) s m) #
            build_children (dropWhile (\<lambda>x. x > nd) ds) (s + 1 + length deeper) nd)
      else build_children ds (s + 1) nd)"
  by pat_completeness auto


lemma fold_min: "fold min xs (x :: nat) = Min (set (x # xs))"
  by (rule Min.set_eq_fold [symmetric])

lemma fewer_deeper:
  assumes "ds = deeper @ rest" "\<forall>x \<in> set (d # deeper). (nd :: nat) < x"
  shows "length (filter (\<lambda>x. fold min deeper d < x) (d # deeper)) < length (filter (\<lambda>x. nd < x) (d # ds))"
proof -
  have "fold min deeper d \<in> set (d # deeper)" by (simp only: fold_min) (rule Min_in; simp)
  then have "length (filter (\<lambda>x. fold min deeper d < x) (d # deeper)) < length (d # deeper)"
    by (rule length_filter_less) simp
  also have "\<dots> \<le> length (filter (\<lambda>x. nd < x) (d # ds))"
    using assms by (simp add: filter_id_conv [THEN iffD2])
  finally show ?thesis .
qed

termination build_children
proof (relation "measures [\<lambda>(ds, s, nd). length (filter (\<lambda>x. nd < x) ds), \<lambda>(ds, s, nd). length ds]", goal_cases)
  case (2 d ds s nd deeper m)
  have "\<forall>x \<in> set (d # deeper). nd < x" using 2 by (auto dest: set_takeWhileD)
  from fewer_deeper [OF _ this] 2 takeWhile_dropWhile_id [of "\<lambda>x. nd < x" ds]
  show ?case by (simp only: measures_less in_measures split_conv) metis
next
  case (3 d ds s nd deeper m)
  have "length (filter (\<lambda>x. nd < x) (dropWhile (\<lambda>x. nd < x) ds)) \<le> length (filter (\<lambda>x. nd < x) ds)"
    by (metis filter_append le_add2 length_append takeWhile_dropWhile_id)
  with 3 show ?case by simp
qed auto

declare build_children.simps(2) [simp del]

definition build_hierarchy :: "nat list \<Rightarrow> content_node" where
  "build_hierarchy ds =
     (case ds of
        [] \<Rightarrow> Node 1 0 0 []
      | d # ds' \<Rightarrow> (let m = fold min ds' d in Node 1 (length ds) m (build_children ds 0 m)))"

section \<open>Spans\<close>

datatype output_span = Span (os_start: nat) (os_end: nat) (os_visible: bool)

definition span_lines :: "output_span \<Rightarrow> nat" where
  "span_lines p = os_end p + 1 - os_start p"

definition output_lines :: "output_span \<Rightarrow> nat" where
  "output_lines p = (if os_visible p then span_lines p else 1)"

definition output_total :: "output_span list \<Rightarrow> nat" where
  "output_total ps = sum_list (map output_lines ps)"

fun walk_spans :: "content_node \<Rightarrow> nat \<Rightarrow> output_span list"
and walk_children :: "content_node list \<Rightarrow> nat \<Rightarrow> nat \<Rightarrow> nat \<Rightarrow> output_span list" where
  "walk_spans (Node s e d cs) cutoff =
     (if d > cutoff then [Span s e (node_lines (Node s e d cs) \<le> 1)] else walk_children cs cutoff s e)"
| "walk_children [] cutoff cur e = (if cur \<le> e then [Span cur e True] else [])"
| "walk_children (c # cs) cutoff cur e =
     (if cur < cn_start c then [Span cur (cn_start c - 1) True] else []) @ walk_spans c cutoff @
     walk_children cs cutoff (cn_end c + 1) e"

fun merge_visible :: "output_span list \<Rightarrow> output_span list" where
  "merge_visible [] = []"
| "merge_visible [p] = [p]"
| "merge_visible (p # q # ps) =
     (if os_visible q \<and> os_visible p \<and> os_start q = os_end p + 1
      then merge_visible (Span (os_start p) (os_end q) True # ps)
      else p # merge_visible (q # ps))"

definition suppress_single :: "output_span \<Rightarrow> output_span" where
  "suppress_single p = (if \<not> os_visible p \<and> span_lines p \<le> 1 then Span (os_start p) (os_end p) True else p)"

definition finalize_spans :: "output_span list \<Rightarrow> output_span list" where
  "finalize_spans ps = merge_visible (map suppress_single ps)"

definition build_spans :: "content_node \<Rightarrow> nat \<Rightarrow> output_span list" where
  "build_spans root cutoff = finalize_spans (walk_spans root cutoff)"

fun collect_depths :: "content_node \<Rightarrow> nat list" where
  "collect_depths (Node s e d cs) = d # concat (map collect_depths cs)"

fun best_fit :: "content_node \<Rightarrow> nat \<Rightarrow> nat list \<Rightarrow> output_span list option \<Rightarrow> output_span list option" where
  "best_fit root budget [] best = best"
| "best_fit root budget (d # ds) best =
     (let ps = build_spans root d
      in if output_total ps \<le> budget then best_fit root budget ds (Some ps) else best)"

definition truncation_spans :: "nat \<Rightarrow> nat \<Rightarrow> output_span list" where
  "truncation_spans n budget =
     (if n \<le> budget then [Span 1 n True]
      else [Span 1 budget True, Span (budget + 1) n False])"

text \<open>The capacities in ascending order, and what is left of the units and of the items.\<close>

fun give_evenly :: "(nat \<times> nat) list \<Rightarrow> nat \<Rightarrow> (nat \<times> nat) list" where
  "give_evenly [] remaining = []"
| "give_evenly ((i, cap) # cs) remaining =
     (let give = min (remaining div (length cs + 1)) cap in (i, give) # give_evenly cs (remaining - give))"

definition distribute_evenly :: "(nat \<times> nat) list \<Rightarrow> nat \<Rightarrow> (nat \<times> nat) list" where
  "distribute_evenly caps n =
     (if caps = [] \<or> n = 0 then [] else give_evenly (sort_key snd caps) n)"

definition expand_span :: "(nat \<times> nat) list \<Rightarrow> nat \<times> output_span \<Rightarrow> output_span list" where
  "expand_span allocations ip =
     (case ip of (i, p) \<Rightarrow>
        let extra = (case map_of allocations i of None \<Rightarrow> 0 | Some n \<Rightarrow> n) in
        if extra = 0 \<or> os_visible p then [p]
        else if extra \<ge> span_lines p - 1 then [Span (os_start p) (os_end p) True]
        else [Span (os_start p) (os_start p + extra - 1) True, Span (os_start p + extra) (os_end p) False])"

definition partially_expand :: "output_span list \<Rightarrow> nat \<Rightarrow> output_span list" where
  "partially_expand ps surplus =
     (let collapsed = filter (\<lambda>(i, p). \<not> os_visible p) (enumerate 0 ps) in
      if collapsed = [] then ps
      else concat (map (expand_span (distribute_evenly (map (\<lambda>(i, p). (i, span_lines p - 1)) collapsed) surplus))
             (enumerate 0 ps)))"

definition compute_collapse :: "content_node \<Rightarrow> nat \<Rightarrow> output_span list" where
  "compute_collapse root budget =
     (let n = node_lines root in
      if n = 0 then []
      else if n \<le> budget then [Span (cn_start root) (cn_end root) True]
      else (case best_fit root budget (sort (remdups (collect_depths root))) None of
          None \<Rightarrow> truncation_spans n budget
        | Some best \<Rightarrow>
            (let surplus = budget - output_total best
             in finalize_spans (if surplus > 0 then partially_expand best surplus else best))))"

section \<open>The rendering\<close>

record rendered_outline =
  ro_text :: string
  ro_visible :: "(nat \<times> string) list"
  ro_collapsed :: "(nat \<times> nat) list"

text \<open>What the loop over the spans emits, one row at a time.\<close>

datatype outline_row = Shown nat | Folded output_span

fun rows_of :: "output_span list \<Rightarrow> outline_row list" where
  "rows_of [] = []"
| "rows_of (p # ps) =
     (if os_visible p then map Shown [os_start p..<os_end p + 1] else [Folded p]) @ rows_of ps"

definition collapsed_span_summary :: "output_span \<Rightarrow> string" where
  "collapsed_span_summary p =
     ''[lines '' @ show_nat (os_start p) @ ''-'' @ show_nat (os_end p) @ '', '' @
     show_nat (span_lines p) @ '' lines -- use offset/limit to read]''"

definition pad_left :: "nat \<Rightarrow> string \<Rightarrow> string" where
  "pad_left w t = replicate (w - length t) CHR 0x20 @ t"

definition outline_width :: "string list \<Rightarrow> nat" where
  "outline_width ls = max (length (show_nat (length ls))) 1"

type_synonym markers = "(nat \<times> string) list"

definition marker_text :: "markers option \<Rightarrow> nat \<Rightarrow> string" where
  "marker_text markers n =
     (case markers of
        None \<Rightarrow> []
      | Some m \<Rightarrow> (case map_of m n of None \<Rightarrow> '' '' | Some t \<Rightarrow> t))"

definition row_text :: "string list \<Rightarrow> markers option \<Rightarrow> outline_row \<Rightarrow> string" where
  "row_text ls markers r =
     (case r of
        Shown n \<Rightarrow> pad_left (outline_width ls) (show_nat n) @ marker_text markers n @ ''| '' @ ls ! (n - 1)
      | Folded p \<Rightarrow> collapsed_span_summary p)"

text \<open>The rows that fit, and whether that is all of them.\<close>

fun fitting_rows :: "string list \<Rightarrow> markers option \<Rightarrow> nat \<Rightarrow> nat \<Rightarrow> outline_row list \<Rightarrow> outline_row list \<times> bool" where
  "fitting_rows ls markers budget count [] = ([], True)"
| "fitting_rows ls markers budget count (r # rs) =
     (let count' = count + length (row_text ls markers r) + 1 in
      if count' > budget then ([], False)
      else (case fitting_rows ls markers budget count' rs of (fit, complete) \<Rightarrow> (r # fit, complete)))"

definition shown_lines :: "outline_row list \<Rightarrow> nat list" where
  "shown_lines rs = List.map_filter (\<lambda>r. case r of Shown n \<Rightarrow> Some n | Folded _ \<Rightarrow> None) rs"

definition folded_ranges :: "outline_row list \<Rightarrow> (nat \<times> nat) list" where
  "folded_ranges rs = List.map_filter (\<lambda>r. case r of Shown _ \<Rightarrow> None | Folded p \<Rightarrow> Some (os_start p, os_end p)) rs"

definition outline_footer :: "bool \<Rightarrow> nat \<Rightarrow> string" where
  "outline_footer complete n =
     (if complete
      then ''[Outline: '' @ show_nat n @ '' lines total. Use offset/limit to read specific regions.]''
      else ''[Outline truncated at character limit. '' @ show_nat n @
        '' lines total. Use offset/limit to read specific regions.]'')"

definition render_rows :: "string list \<Rightarrow> nat \<Rightarrow> markers option \<Rightarrow> output_span list \<Rightarrow> rendered_outline" where
  "render_rows ls budget markers ps =
     (case fitting_rows ls markers budget 0 (rows_of ps) of
        (rs, complete) \<Rightarrow>
          \<lparr>ro_text = py_join [CHR 0x0A] (map (row_text ls markers) rs @ [outline_footer complete (length ls)]),
           ro_visible = map (\<lambda>n. (n, ls ! (n - 1))) (shown_lines rs),
           ro_collapsed = folded_ranges rs\<rparr>)"

fun merge_windows :: "nat \<Rightarrow> nat \<Rightarrow> (nat \<times> nat) list \<Rightarrow> (nat \<times> nat) list \<Rightarrow> (nat \<times> nat) list" where
  "merge_windows n context [] visible = visible"
| "merge_windows n context ((a, b) # rs) visible =
     (let s = max 1 (a - context); e = min n (b + context)
      in merge_windows n context rs
           (if visible \<noteq> [] \<and> s \<le> snd (last visible) + 1
            then butlast visible @ [(fst (last visible), max (snd (last visible)) e)]
            else visible @ [(s, e)]))"

fun window_spans :: "nat \<Rightarrow> nat \<Rightarrow> (nat \<times> nat) list \<Rightarrow> output_span list" where
  "window_spans n cursor [] = (if cursor \<le> n then [Span cursor n False] else [])"
| "window_spans n cursor ((s, e) # ws) =
     (if cursor < s then [Span cursor (s - 1) False] else []) @ Span s e True # window_spans n (e + 1) ws"

definition spans_for_regions :: "nat \<Rightarrow> (nat \<times> nat) list \<Rightarrow> nat \<Rightarrow> output_span list" where
  "spans_for_regions n regions context =
     (if n = 0 then []
      else if regions = [] then [Span 1 n False]
      else window_spans n 1 (merge_windows n context (sort regions) []))"

definition body_char_count :: "string list \<Rightarrow> markers option \<Rightarrow> output_span list \<Rightarrow> nat" where
  "body_char_count ls markers ps = sum_list (map (\<lambda>r. length (row_text ls markers r) + 1) (rows_of ps))"

definition spans_of_lines :: "string list \<Rightarrow> nat list \<Rightarrow> output_span list" where
  "spans_of_lines ls ns = spans_for_regions (length ls) (map (\<lambda>n. (n, n)) ns) 0"

text \<open>The greedy choice of the lines to show; the chosen ones are kept sorted, as the spans are
  built from them.\<close>

fun choose_lines :: "string list \<Rightarrow> nat \<Rightarrow> markers option \<Rightarrow> nat list \<Rightarrow> nat list \<Rightarrow> nat list" where
  "choose_lines ls budget markers [] selected = selected"
| "choose_lines ls budget markers (n # ns) selected =
     (let candidate = insort_insert n selected
      in choose_lines ls budget markers ns
           (if body_char_count ls markers (spans_of_lines ls candidate) > budget then selected else candidate))"

definition optional_limit :: nat where "optional_limit = 512"

definition line_candidates :: "output_span list \<Rightarrow> nat list \<Rightarrow> nat list" where
  "line_candidates ps required =
     (let visible = shown_lines (rows_of ps);
          prior = rev (remdups (rev (filter (\<lambda>n. n \<in> set visible) required)))
      in prior @ take optional_limit (sort (remdups (filter (\<lambda>n. n \<notin> set prior) visible))))"

definition spans_that_preserve_required_lines ::
    "string list \<Rightarrow> nat \<Rightarrow> markers option \<Rightarrow> nat list \<Rightarrow> output_span list \<Rightarrow> output_span list" where
  "spans_that_preserve_required_lines ls budget markers required ps =
     spans_of_lines ls (choose_lines ls budget markers (line_candidates ps required) [])"

definition render_outline ::
    "string list \<Rightarrow> nat \<Rightarrow> markers option \<Rightarrow> nat list \<Rightarrow> output_span list \<Rightarrow> rendered_outline" where
  "render_outline ls budget markers required ps =
     render_rows ls budget markers
       (if required = [] then ps
        else spans_that_preserve_required_lines ls budget markers required ps)"

definition format_outline ::
    "string list \<Rightarrow> nat \<Rightarrow> markers option \<Rightarrow> nat list \<Rightarrow> output_span list \<Rightarrow> string" where
  "format_outline ls budget markers required ps = ro_text (render_outline ls budget markers required ps)"

section \<open>Outlines tile the file and keep to the budgets\<close>

fun tiles :: "output_span list \<Rightarrow> nat \<Rightarrow> nat \<Rightarrow> bool" where
  "tiles [] a b = (a = b + 1)"
| "tiles (p # ps) a b = (os_start p = a \<and> a \<le> os_end p \<and> tiles ps (os_end p + 1) b)"

fun node_ok :: "content_node \<Rightarrow> bool"
and children_ok :: "content_node list \<Rightarrow> nat \<Rightarrow> nat \<Rightarrow> nat \<Rightarrow> bool" where
  "node_ok (Node s e d cs) = (1 \<le> s \<and> s \<le> e \<and> children_ok cs s e d)"
| "children_ok [] cur e d = (cur \<le> e + 1)"
| "children_ok (c # cs) cur e d =
     (cur \<le> cn_start c \<and> d < cn_depth c \<and> node_ok c \<and> children_ok cs (cn_end c + 1) e d)"

lemma tiles_append: "tiles ps a m \<Longrightarrow> tiles qs (m + 1) b \<Longrightarrow> tiles (ps @ qs) a b"
  by (induction ps a m rule: tiles.induct) auto

lemma tiles_single [simp]: "tiles [p] a b \<longleftrightarrow> os_start p = a \<and> a \<le> os_end p \<and> os_end p = b"
  by auto

lemma node_ok_range: "node_ok c \<Longrightarrow> 1 \<le> cn_start c \<and> cn_start c \<le> cn_end c"
  by (cases c) auto

lemma walk_spans_tile:
  "node_ok c \<Longrightarrow> tiles (walk_spans c k) (cn_start c) (cn_end c)"
  "children_ok cs cur e d \<Longrightarrow> 1 \<le> cur \<Longrightarrow> tiles (walk_children cs k cur e) cur e"
proof (induction c k and cs k cur e arbitrary: and d rule: walk_spans_walk_children.induct)
  case (3 c cs k cur e)
  then have c: "cur \<le> cn_start c" "tiles (walk_spans c k) (cn_start c) (cn_end c)"
    "tiles (walk_children cs k (cn_end c + 1) e) (cn_end c + 1) e"
    by auto
  from tiles_append [OF c(2,3)] have "tiles (walk_spans c k @ walk_children cs k (cn_end c + 1) e) (cn_start c) e" .
  with c(1) show ?case by auto
qed auto

lemma suppress_single_simps [simp]:
  "os_start (suppress_single p) = os_start p" "os_end (suppress_single p) = os_end p"
  by (simp_all add: suppress_single_def)

lemma tiles_suppress [simp]: "tiles (map suppress_single ps) a b = tiles ps a b"
  by (induction ps a b rule: tiles.induct) auto

lemma tiles_merge: "tiles ps a b \<Longrightarrow> tiles (merge_visible ps) a b"
  by (induction ps arbitrary: a rule: merge_visible.induct) auto

lemma finalize_spans_tile: "tiles ps a b \<Longrightarrow> tiles (finalize_spans ps) a b"
  by (simp add: finalize_spans_def tiles_merge)

lemma output_total_simps [simp]:
  "output_total [] = 0" "output_total (p # ps) = output_lines p + output_total ps"
  "output_total (ps @ qs) = output_total ps + output_total qs"
  by (simp_all add: output_total_def)

lemma output_suppress: "tiles ps a b \<Longrightarrow> output_total (map suppress_single ps) = output_total ps"
  by (induction ps a b rule: tiles.induct) (auto simp: suppress_single_def output_lines_def span_lines_def)

lemma output_merge: "tiles ps a b \<Longrightarrow> output_total (merge_visible ps) = output_total ps"
proof (induction ps arbitrary: a rule: merge_visible.induct)
  case (3 p q ps)
  show ?case
  proof (cases "os_visible q \<and> os_visible p \<and> os_start q = os_end p + 1")
    case True
    with 3(3) have "tiles (Span (os_start p) (os_end q) True # ps) a b" by auto
    from 3(1) [OF True this] True 3(3) show ?thesis
      by (auto simp: output_lines_def span_lines_def)
  next
    case False
    with 3(2) [OF False] 3(3) show ?thesis by (auto simp del: tiles.simps(2) simp: tiles.simps(2) [of p])
  qed
qed simp_all

lemma output_finalize: "tiles ps a b \<Longrightarrow> output_total (finalize_spans ps) = output_total ps"
  by (simp add: finalize_spans_def output_merge [where a = a and b = b] output_suppress)

lemma build_spans_tile: "node_ok root \<Longrightarrow> tiles (build_spans root k) (cn_start root) (cn_end root)"
  by (simp add: build_spans_def finalize_spans_tile walk_spans_tile(1))

lemma best_fit_Some:
  "best_fit root budget ds best = Some ps \<Longrightarrow>
     best = Some ps \<or> (\<exists>d \<in> set ds. ps = build_spans root d \<and> output_total ps \<le> budget)"
  by (induction ds arbitrary: best) (auto simp: Let_def split: if_splits)

lemma give_evenly_total: "sum_list (map snd (give_evenly cs r)) \<le> r"
proof (induction cs r rule: give_evenly.induct)
  case (2 i cap cs r)
  have "min (r div (length cs + 1)) cap \<le> r" by (rule order_trans [OF min.cobounded1]) simp
  with 2 [OF refl] show ?case by (simp add: Let_def)
qed simp

lemma distribute_evenly_total: "sum_list (map snd (distribute_evenly cs r)) \<le> r"
  by (simp add: distribute_evenly_def give_evenly_total)

definition allotted :: "(nat \<times> nat) list \<Rightarrow> nat \<Rightarrow> nat" where
  "allotted al i = (case map_of al i of None \<Rightarrow> 0 | Some n \<Rightarrow> n)"

lemma sum_allotted: "finite A \<Longrightarrow> (\<Sum>i \<in> A. allotted al i) \<le> sum_list (map snd al)"
proof (induction al arbitrary: A)
  case (Cons kv al)
  obtain k v where kv: "kv = (k, v)" by (cases kv)
  have "(\<Sum>i \<in> A. allotted (kv # al) i) \<le> (\<Sum>i \<in> insert k A. allotted (kv # al) i)"
    using Cons(2) by (intro sum_mono2) auto
  also have "\<dots> = v + (\<Sum>i \<in> A - {k}. allotted (kv # al) i)"
    using Cons(2) by (simp add: sum.insert_remove kv allotted_def)
  also have "(\<Sum>i \<in> A - {k}. allotted (kv # al) i) = (\<Sum>i \<in> A - {k}. allotted al i)"
    by (rule sum.cong) (auto simp: allotted_def kv)
  also have "v + \<dots> \<le> v + sum_list (map snd al)" using Cons by simp
  finally show ?case by (simp add: kv)
qed (simp add: allotted_def)

lemma expand_span_tile: "os_start p \<le> os_end p \<Longrightarrow> tiles (expand_span al (i, p)) (os_start p) (os_end p)"
  by (auto simp: expand_span_def Let_def span_lines_def split: option.splits)

lemma expand_span_output:
  "os_start p \<le> os_end p \<Longrightarrow> output_total (expand_span al (i, p)) \<le> output_lines p + allotted al i"
  by (auto simp: expand_span_def Let_def output_lines_def span_lines_def allotted_def split: option.splits)

lemma expand_all_tile:
  "tiles ps a b \<Longrightarrow> tiles (concat (map (expand_span al) (enumerate k ps))) a b"
proof (induction ps a b arbitrary: k rule: tiles.induct)
  case (2 p ps a b)
  then show ?case using expand_span_tile [of p al k] by (auto intro: tiles_append)
qed simp

lemma expand_all_output:
  "tiles ps a b \<Longrightarrow> output_total (concat (map (expand_span al) (enumerate k ps))) \<le>
     output_total ps + (\<Sum>i \<in> {k..<k + length ps}. allotted al i)"
proof (induction ps a b arbitrary: k rule: tiles.induct)
  case (2 p ps a b)
  have "{k..<k + length (p # ps)} = insert k {Suc k..<Suc k + length ps}" by auto
  then have "(\<Sum>i \<in> {k..<k + length (p # ps)}. allotted al i) =
      allotted al k + (\<Sum>i \<in> {Suc k..<Suc k + length ps}. allotted al i)" by simp
  moreover have "output_total (expand_span al (k, p)) \<le> output_lines p + allotted al k"
    using 2(2) by (intro expand_span_output) auto
  moreover have "output_total (concat (map (expand_span al) (enumerate (Suc k) ps))) \<le>
      output_total ps + (\<Sum>i \<in> {Suc k..<Suc k + length ps}. allotted al i)"
    using 2(2) by (intro 2(1)) auto
  ultimately show ?case by (simp only: enumerate_simps list.map concat.simps output_total_simps)
qed simp

lemma partially_expand_cases:
  obtains "partially_expand ps r = ps"
  | al where "partially_expand ps r = concat (map (expand_span al) (enumerate 0 ps))"
      "sum_list (map snd al) \<le> r"
proof (cases "filter (\<lambda>(i, p). \<not> os_visible p) (enumerate 0 ps) = []")
  case True
  with that(1) show ?thesis by (simp add: partially_expand_def)
next
  case False
  with that(2) show ?thesis by (simp add: partially_expand_def distribute_evenly_total)
qed

lemma partially_expand_tile: "tiles ps a b \<Longrightarrow> tiles (partially_expand ps r) a b"
  by (cases rule: partially_expand_cases [of ps r]) (simp_all add: expand_all_tile)

lemma partially_expand_output:
  assumes "tiles ps a b"
  shows "output_total (partially_expand ps r) \<le> output_total ps + r"
proof (cases rule: partially_expand_cases [of ps r])
  case (2 al)
  with expand_all_output [OF assms, of al 0] sum_allotted [of "{0..<0 + length ps}" al]
  show ?thesis by simp
qed simp

lemma compute_collapse_cases:
  obtains "node_lines root = 0" "compute_collapse root budget = []"
  | "0 < node_lines root" "node_lines root \<le> budget"
      "compute_collapse root budget = [Span (cn_start root) (cn_end root) True]"
  | "budget < node_lines root" "compute_collapse root budget = truncation_spans (node_lines root) budget"
      "best_fit root budget (sort (remdups (collect_depths root))) None = None"
  | ps d where "budget < node_lines root" "ps = build_spans root d" "output_total ps \<le> budget"
      "compute_collapse root budget = finalize_spans
         (if budget - output_total ps > 0 then partially_expand ps (budget - output_total ps) else ps)"
proof (cases "best_fit root budget (sort (remdups (collect_depths root))) None")
  case None
  with that(1-3) show ?thesis
    by (cases "node_lines root = 0"; cases "node_lines root \<le> budget") (auto simp: compute_collapse_def)
next
  case (Some ps)
  then obtain d where "ps = build_spans root d" "output_total ps \<le> budget"
    using best_fit_Some [OF Some] by auto
  with Some that(1,2,4) show ?thesis
    by (cases "node_lines root = 0"; cases "node_lines root \<le> budget") (auto simp: compute_collapse_def Let_def)
qed

lemma compute_collapse_tile:
  assumes "node_ok root" "cn_start root = 1" "1 \<le> budget"
  shows "tiles (compute_collapse root budget) 1 (cn_end root)"
proof (cases rule: compute_collapse_cases [of root budget])
  case (4 ps d)
  have "tiles ps 1 (cn_end root)" using build_spans_tile [OF assms(1), of d] 4(2) assms(2) by simp
  then show ?thesis unfolding 4(4) by (intro finalize_spans_tile) (simp add: partially_expand_tile)
qed (use assms node_ok_range [OF assms(1)] in \<open>auto simp: node_lines_def truncation_spans_def\<close>)

lemma collected_depths:
  "node_ok c \<Longrightarrow> d \<in> set (collect_depths c) \<Longrightarrow> cn_depth c \<le> d"
  "children_ok cs cur e d' \<Longrightarrow> c \<in> set cs \<Longrightarrow> d \<in> set (collect_depths c) \<Longrightarrow> d' < d"
proof (induction c and cs cur e d' arbitrary: d and c d rule: node_ok_children_ok.induct)
  case (3 c cs cur e d')
  then show ?case by (auto intro: less_le_trans)
qed (auto intro: less_imp_le)

lemma best_fit_None:
  assumes "node_ok root" "best_fit root budget (sort (remdups (collect_depths root))) None = None"
  shows "budget < output_total (build_spans root (cn_depth root))"
proof -
  let ?ds = "sort (remdups (collect_depths root))"
  have in_ds: "cn_depth root \<in> set ?ds" by (cases root) simp
  then obtain d ds where ds: "?ds = d # ds" by (cases ?ds) auto
  have "\<forall>x \<in> set (d # ds). d \<le> x" using sorted_sort [of "remdups (collect_depths root)"] ds by simp
  moreover have "cn_depth root \<le> d"
    using collected_depths(1) [OF assms(1), of d] ds
    by (metis list.set_intros(1) set_remdups set_sort)
  ultimately have "d = cn_depth root" using in_ds ds by auto
  moreover have "best_fit root budget xs (Some ps) \<noteq> None" for xs ps
    by (induction xs arbitrary: ps) (simp_all add: Let_def)
  then have "budget < output_total (build_spans root d)"
    using assms(2) unfolding ds by (metis best_fit.simps(2) not_le)
  ultimately show ?thesis by simp
qed

lemma compute_collapse_output:
  assumes "node_ok root" "cn_start root = 1" "1 \<le> budget"
  shows "output_total (compute_collapse root budget) \<le> budget \<or>
    budget < output_total (build_spans root (cn_depth root)) \<and>
    compute_collapse root budget = [Span 1 budget True, Span (budget + 1) (cn_end root) False]"
proof (cases rule: compute_collapse_cases [of root budget])
  case 3
  with best_fit_None [OF assms(1)] assms(2) show ?thesis by (simp add: truncation_spans_def node_lines_def)
next
  case (4 ps d)
  have t: "tiles ps 1 (cn_end root)" using build_spans_tile [OF assms(1), of d] 4(2) assms(2) by simp
  let ?qs = "if budget - output_total ps > 0 then partially_expand ps (budget - output_total ps) else ps"
  have "tiles ?qs 1 (cn_end root)" using t by (simp add: partially_expand_tile)
  then have "output_total (compute_collapse root budget) = output_total ?qs"
    unfolding 4(4) by (rule output_finalize)
  also have "\<dots> \<le> budget"
    using partially_expand_output [OF t, of "budget - output_total ps"] 4(3) by simp
  finally show ?thesis by simp
qed (use assms in \<open>auto simp: node_lines_def output_lines_def span_lines_def\<close>)

lemma build_children_ok: "children_ok (build_children ds s nd) (s + 1) (s + length ds) nd"
proof (induction ds s nd rule: build_children.induct)
  case (2 d ds s nd)
  show ?case
  proof (cases "d > nd")
    case True
    let ?deeper = "takeWhile (\<lambda>x. x > nd) ds" and ?rest = "dropWhile (\<lambda>x. x > nd) ds"
    have l: "length ds = length ?deeper + length ?rest" by (metis length_append takeWhile_dropWhile_id)
    have "fold min ?deeper d \<in> set (d # ?deeper)" by (simp only: fold_min) (rule Min_in; simp)
    then have "nd < fold min ?deeper d" using True by (auto dest: set_takeWhileD)
    moreover have "children_ok (build_children (d # ?deeper) s (fold min ?deeper d)) (s + 1)
        (s + 1 + length ?deeper) (fold min ?deeper d)"
      using 2(1) [OF True refl refl] by simp
    moreover have "children_ok (build_children ?rest (s + 1 + length ?deeper) nd)
        (s + 1 + length ?deeper + 1) (s + length (d # ds)) nd"
      using 2(2) [OF True refl refl] l by (simp add: add.assoc)
    ultimately show ?thesis using True by (simp add: build_children.simps(2) Let_def)
  next
    case False
    have weaken: "children_ok cs (Suc cur) e d \<Longrightarrow> children_ok cs cur e d" for cs cur e d
      by (cases cs) auto
    from False 2(3) [OF False] show ?thesis by (simp add: build_children.simps(2) weaken)
  qed
qed simp

lemma build_hierarchy_ok:
  assumes "ds \<noteq> []"
  shows "node_ok (build_hierarchy ds)" "cn_start (build_hierarchy ds) = 1" "cn_end (build_hierarchy ds) = length ds"
proof -
  obtain d ds' where ds: "ds = d # ds'" using assms by (cases ds) auto
  show "node_ok (build_hierarchy ds)"
    using build_children_ok [of ds 0] by (simp add: build_hierarchy_def ds Let_def)
qed (use assms in \<open>auto simp: build_hierarchy_def Let_def split: list.splits\<close>)

lemma length_carried [simp]: "length (carried l rs) = length rs"
  by (induction l rs rule: carried.induct) (auto simp: Let_def)

lemma length_compute_depths [simp]: "length (compute_depths ls) = length ls"
  by (simp add: compute_depths_def Let_def)

section \<open>Windows around regions\<close>

fun windows_ok :: "(nat \<times> nat) list \<Rightarrow> nat \<Rightarrow> nat \<Rightarrow> bool" where
  "windows_ok [] cur n = (cur \<le> n + 1)"
| "windows_ok ((s, e) # ws) cur n = (cur \<le> s \<and> s \<le> e \<and> windows_ok ws (e + 1) n)"

lemma window_spans_tile: "windows_ok ws cur n \<Longrightarrow> 1 \<le> cur \<Longrightarrow> tiles (window_spans n cur ws) cur n"
  by (induction ws cur n rule: windows_ok.induct) auto

lemma windows_ok_bound: "windows_ok ws cur n \<Longrightarrow> cur \<le> n + 1"
  by (induction ws cur n rule: windows_ok.induct) auto

lemma windows_ok_snoc:
  "windows_ok ws cur (s - 1) \<Longrightarrow> 1 \<le> cur \<Longrightarrow> s \<le> e \<Longrightarrow> e \<le> n \<Longrightarrow> 1 \<le> s \<Longrightarrow> windows_ok (ws @ [(s, e)]) cur n"
  by (induction ws cur n rule: windows_ok.induct) auto

lemma windows_ok_last:
  "windows_ok ws cur n \<Longrightarrow> ws \<noteq> [] \<Longrightarrow> windows_ok (butlast ws) cur (fst (last ws) - 1) \<and>
     windows_ok ws cur (snd (last ws)) \<and>
     fst (last ws) \<le> snd (last ws) \<and> snd (last ws) \<le> n \<and> cur \<le> fst (last ws)"
proof (induction ws cur n rule: windows_ok.induct)
  case (2 s e ws cur n)
  then show ?case by (cases ws) auto
qed simp

lemma windows_ok_le: "windows_ok ws cur n \<Longrightarrow> n \<le> n' \<Longrightarrow> windows_ok ws cur n'"
  by (induction ws cur n rule: windows_ok.induct) auto

definition add_window :: "nat \<times> nat \<Rightarrow> (nat \<times> nat) list \<Rightarrow> (nat \<times> nat) list" where
  "add_window w ws =
     (if ws \<noteq> [] \<and> fst w \<le> snd (last ws) + 1
      then butlast ws @ [(fst (last ws), max (snd (last ws)) (snd w))]
      else ws @ [w])"

lemma merge_windows_Cons:
  "merge_windows n context (r # rs) ws =
     merge_windows n context rs (add_window (max 1 (fst r - context), min n (snd r + context)) ws)"
  by (cases r) (simp add: Let_def add_window_def)

lemma add_window_ok:
  assumes "windows_ok ws 1 n" "1 \<le> fst w" "fst w \<le> snd w" "snd w \<le> n"
  shows "windows_ok (add_window w ws) 1 n"
proof (cases "ws = []")
  case True
  with assms show ?thesis by (cases w) (auto simp: add_window_def)
next
  case False
  note l = windows_ok_last [OF assms(1) False]
  show ?thesis
  proof (cases "fst w \<le> snd (last ws) + 1")
    case True
    have "windows_ok (butlast ws @ [(fst (last ws), max (snd (last ws)) (snd w))]) 1 n"
      using l assms(4) by (intro windows_ok_snoc) auto
    with True False show ?thesis by (simp add: add_window_def)
  next
    case gap: False
    have "snd (last ws) \<le> fst w - 1" using gap by simp
    with l have "windows_ok ws 1 (fst w - 1)" by (blast intro: windows_ok_le)
    then have "windows_ok (ws @ [(fst w, snd w)]) 1 n" using assms by (intro windows_ok_snoc) auto
    with gap show ?thesis by (simp add: add_window_def)
  qed
qed

definition region_ok :: "nat \<Rightarrow> nat \<Rightarrow> nat \<times> nat \<Rightarrow> bool" where
  "region_ok n context r \<longleftrightarrow> fst r \<le> snd r \<and> 1 \<le> snd r + context \<and> fst r \<le> n + context"

lemma merge_windows_ok:
  "list_all (region_ok n context) rs \<Longrightarrow> 1 \<le> n \<Longrightarrow> windows_ok ws 1 n \<Longrightarrow>
     windows_ok (merge_windows n context rs ws) 1 n"
proof (induction rs arbitrary: ws)
  case (Cons r rs)
  have "windows_ok (add_window (max 1 (fst r - context), min n (snd r + context)) ws) 1 n"
    using Cons(2-4) by (intro add_window_ok) (auto simp: region_ok_def)
  with Cons show ?case by (simp add: merge_windows_Cons)
qed simp

lemma spans_for_regions_tile:
  assumes "1 \<le> n" "list_all (region_ok n context) regions"
  shows "tiles (spans_for_regions n regions context) 1 n"
proof (cases "regions = []")
  case False
  have "list_all (region_ok n context) (sort regions)" using assms(2) by (simp add: list_all_iff)
  from merge_windows_ok [OF this assms(1), of "[]"] assms(1)
  have "windows_ok (merge_windows n context (sort regions) []) 1 n" by simp
  from window_spans_tile [OF this] assms(1) False show ?thesis by (simp add: spans_for_regions_def)
qed (use assms(1) in \<open>simp add: spans_for_regions_def\<close>)

text \<open>Every region is inside a window, as the regions come in ascending order.\<close>

definition inside_window :: "(nat \<times> nat) list \<Rightarrow> nat \<times> nat \<Rightarrow> bool" where
  "inside_window ws w \<longleftrightarrow> (\<exists>v \<in> set ws. fst v \<le> fst w \<and> snd w \<le> snd v)"

lemma inside_add_window:
  assumes "ws = [] \<or> fst (last ws) \<le> fst w"
  shows "inside_window (add_window w ws) w \<and> fst (last (add_window w ws)) \<le> fst w"
    and "inside_window ws v \<Longrightarrow> inside_window (add_window w ws) v"
proof -
  show "inside_window (add_window w ws) w \<and> fst (last (add_window w ws)) \<le> fst w"
    using assms by (cases "ws = []") (simp_all add: add_window_def inside_window_def)
  show "inside_window (add_window w ws) v" if v: "inside_window ws v"
  proof (cases "ws \<noteq> [] \<and> fst w \<le> snd (last ws) + 1")
    case True
    then obtain us u where ws: "ws = us @ [u]" by (metis append_butlast_last_id)
    show ?thesis
      using v True unfolding ws by (auto simp: add_window_def inside_window_def)
  next
    case False
    then have "add_window w ws = ws @ [w]" by (simp only: add_window_def if_False)
    with v show ?thesis by (auto simp: inside_window_def)
  qed
qed

lemma merge_windows_inside:
  "sorted (map fst rs) \<Longrightarrow> ws = [] \<or> (\<forall>r \<in> set rs. fst (last ws) \<le> max 1 (fst r - context)) \<Longrightarrow>
     inside_window ws v \<or> (\<exists>r \<in> set rs. v = (max 1 (fst r - context), min n (snd r + context))) \<Longrightarrow>
     inside_window (merge_windows n context rs ws) v"
proof (induction rs arbitrary: ws)
  case (Cons r rs)
  let ?w = "(max 1 (fst r - context), min n (snd r + context))"
  have w: "ws = [] \<or> fst (last ws) \<le> fst ?w" using Cons(3) by auto
  note add = inside_add_window(1) [OF w] inside_add_window(2) [OF w]
  have "fst (last (add_window ?w ws)) \<le> max 1 (fst q - context)" if "q \<in> set rs" for q
  proof -
    have "fst r \<le> fst q" using Cons(2) that by simp
    then have "max 1 (fst r - context) \<le> max 1 (fst q - context)" by (intro max.mono diff_le_mono) simp_all
    with conjunct2 [OF add(1)] show ?thesis unfolding fst_conv by (rule order_trans)
  qed
  moreover have "inside_window (add_window ?w ws) v \<or>
      (\<exists>r \<in> set rs. v = (max 1 (fst r - context), min n (snd r + context)))"
  proof (cases "inside_window ws v")
    case True
    with add(2) show ?thesis by blast
  next
    case False
    with Cons(4) add(1) show ?thesis by (metis set_ConsD)
  qed
  ultimately show ?case using Cons(1) [of "add_window ?w ws"] Cons(2) by (simp add: merge_windows_Cons)
qed simp

section \<open>What a rendering accounts for\<close>

lemma shown_lines_simps [simp]:
  "shown_lines [] = []" "shown_lines (Shown n # rs) = n # shown_lines rs"
  "shown_lines (Folded p # rs) = shown_lines rs" "shown_lines (rs @ qs) = shown_lines rs @ shown_lines qs"
  "shown_lines (map Shown ns) = ns"
  by (simp_all add: shown_lines_def map_filter_def comp_def)

lemma shown_rows_of:
  "set (shown_lines (rows_of ps)) = (\<Union>p \<in> set (filter os_visible ps). {os_start p..os_end p})"
  by (induction ps) auto

fun row_lines :: "outline_row \<Rightarrow> nat list" where
  "row_lines (Shown n) = [n]"
| "row_lines (Folded p) = [os_start p..<os_end p + 1]"

lemma upt_split: "a \<le> m \<Longrightarrow> m \<le> n \<Longrightarrow> [a..<m] @ [m..<n] = [a..<n]"
  by (metis le_add_diff_inverse upt_add_eq_append)

lemma rows_cover: "tiles ps a b \<Longrightarrow> concat (map row_lines (rows_of ps)) = [a..<b + 1]"
proof (induction ps a b rule: tiles.induct)
  case (2 p ps a b)
  have le: "os_end p \<le> b" if "tiles ps (os_end p + 1) b"
    using that by (induction ps "os_end p + 1" b arbitrary: p rule: tiles.induct) force+
  have "concat (map row_lines (map Shown ns)) = ns" for ns by (induction ns) auto
  moreover have "[a..<os_end p + 1] @ [os_end p + 1..<b + 1] = [a..<b + 1]"
    using 2(2) le by (intro upt_split) auto
  ultimately show ?case using 2 by (auto simp del: upt_Suc simp: comp_def)
qed simp

lemma fitting_rows_prefix:
  "fitting_rows ls markers budget count rs = (fit, complete) \<Longrightarrow>
     (\<exists>rest. rs = fit @ rest \<and> (complete \<longleftrightarrow> rest = [])) \<and>
     count + sum_list (map (\<lambda>r. length (row_text ls markers r) + 1) fit) \<le> max budget count"
proof (induction ls markers budget count rs arbitrary: fit complete rule: fitting_rows.induct)
  case (2 ls markers budget count r rs)
  show ?case
  proof (cases "count + length (row_text ls markers r) + 1 > budget")
    case True
    with 2(2) show ?thesis by (simp add: Let_def)
  next
    case False
    then obtain fit' where f: "fitting_rows ls markers budget (count + length (row_text ls markers r) + 1) rs =
        (fit', complete)" "fit = r # fit'"
      using 2(2) by (auto simp: Let_def split: prod.splits)
    from 2(1) [OF refl False f(1)] f(2) False show ?thesis by (auto simp: max_def split: if_splits)
  qed
qed simp

lemma fitting_rows_all:
  "count + sum_list (map (\<lambda>r. length (row_text ls markers r) + 1) rs) \<le> budget \<Longrightarrow>
     fitting_rows ls markers budget count rs = (rs, True)"
  by (induction ls markers budget count rs rule: fitting_rows.induct) (auto simp: Let_def)

lemma prefix_of_upt: "xs @ ys = [1..<n + 1] \<Longrightarrow> xs = [1..<length xs + 1] \<and> length xs \<le> n"
proof -
  assume a: "xs @ ys = [1..<n + 1]"
  then have "length xs + length ys = n" by (metis add_diff_cancel_right' length_append length_upt)
  moreover have "xs = take (length xs) [1..<n + 1]" using a by (metis append_eq_conv_conj)
  ultimately show ?thesis by (simp add: take_upt del: upt_Suc)
qed

lemma spans_of_lines_tile:
  assumes "1 \<le> length ls" "\<forall>k \<in> set ns. 1 \<le> k \<and> k \<le> length ls"
  shows "tiles (spans_of_lines ls ns) 1 (length ls)"
  unfolding spans_of_lines_def
  using assms by (intro spans_for_regions_tile) (auto simp: region_ok_def list_all_iff)

lemma choose_lines_subset:
  "set (choose_lines ls budget markers ns sel) \<subseteq> set ns \<union> set sel"
proof (induction ns arbitrary: sel)
  case (Cons n ns)
  let ?s = "if body_char_count ls markers (spans_of_lines ls (insort_insert n sel)) > budget then sel else insort_insert n sel"
  have "set ?s \<subseteq> insert n (set sel)" by (auto simp: set_insort_insert)
  with Cons [of ?s] show ?case by (auto simp: Let_def)
qed simp

lemma tiles_range: "tiles ps a b \<Longrightarrow> p \<in> set ps \<Longrightarrow> a \<le> os_start p \<and> os_end p \<le> b"
proof (induction ps a b rule: tiles.induct)
  case (2 q ps a b)
  have "os_end q \<le> b" if "tiles ps (os_end q + 1) b"
    using that by (induction ps "os_end q + 1" b arbitrary: q rule: tiles.induct) force+
  with 2 show ?case by fastforce
qed simp

lemma line_candidates_visible: "set (line_candidates ps required) \<subseteq> set (shown_lines (rows_of ps))"
proof -
  have "set (take k xs) \<subseteq> set xs" for k and xs :: "nat list" by (rule set_take_subset)
  from this [of optional_limit] show ?thesis by (fastforce simp: line_candidates_def Let_def)
qed

lemma preserving_spans_tile:
  assumes "tiles ps 1 (length ls)" "1 \<le> length ls"
  shows "tiles (spans_that_preserve_required_lines ls budget markers required ps) 1 (length ls)"
  unfolding spans_that_preserve_required_lines_def
proof (rule spans_of_lines_tile [OF assms(2)], rule ballI)
  fix k assume "k \<in> set (choose_lines ls budget markers (line_candidates ps required) [])"
  then have "k \<in> set (shown_lines (rows_of ps))"
    using choose_lines_subset [of ls budget markers "line_candidates ps required" "[]"]
      line_candidates_visible [of ps required] by auto
  then show "1 \<le> k \<and> k \<le> length ls"
    using tiles_range [OF assms(1)] by (fastforce simp: shown_rows_of)
qed

text \<open>A rendered outline accounts for the lines of the file one after the other from the
  first: each is shown with its number and text or belongs to a range said to be left out,
  within the budget of characters; it stops before the last line only with the footer that
  says so.\<close>

theorem outline_accounts_for_lines:
  assumes "tiles ps 1 (length ls)" "ls \<noteq> []"
  shows "\<exists>rs m. m \<le> length ls \<and> concat (map row_lines rs) = [1..<m + 1] \<and>
    ro_text (render_outline ls budget markers required ps) =
      py_join [CHR 0x0A] (map (row_text ls markers) rs @ [outline_footer (m = length ls) (length ls)]) \<and>
    ro_visible (render_outline ls budget markers required ps) = map (\<lambda>n. (n, ls ! (n - 1))) (shown_lines rs) \<and>
    ro_collapsed (render_outline ls budget markers required ps) = folded_ranges rs \<and>
    sum_list (map (\<lambda>r. length (row_text ls markers r) + 1) rs) \<le> budget"
proof -
  let ?ps = "if required = [] then ps else spans_that_preserve_required_lines ls budget markers required ps"
  have "1 \<le> length ls" using assms(2) by (cases ls) auto
  then have t: "tiles ?ps 1 (length ls)" using assms(1) preserving_spans_tile [of ps ls] by presburger
  obtain rs complete where f: "fitting_rows ls markers budget 0 (rows_of ?ps) = (rs, complete)" by (metis surj_pair)
  from fitting_rows_prefix [OF f] obtain rest where
    rest: "rows_of ?ps = rs @ rest" "complete \<longleftrightarrow> rest = []"
    and b: "sum_list (map (\<lambda>r. length (row_text ls markers r) + 1) rs) \<le> budget" by auto
  have cover: "concat (map row_lines rs) @ concat (map row_lines rest) = [1..<length ls + 1]"
    using rows_cover [OF t] by (simp add: rest(1))
  let ?m = "length (concat (map row_lines rs))"
  note p = prefix_of_upt [OF cover]
  have nonempty: "row_lines r \<noteq> []" if "r \<in> set (rows_of ?ps)" for r
  proof -
    have "\<forall>r \<in> set (rows_of qs). row_lines r \<noteq> []" if "tiles qs a b" for qs a b
      using that by (induction qs a b rule: tiles.induct) auto
    with t that show ?thesis by blast
  qed
  have "?m = length ls \<longleftrightarrow> concat (map row_lines rest) = []"
    using arg_cong [OF cover, of length] by (simp only: length_append length_upt length_0_conv [symmetric]) linarith
  also have "\<dots> \<longleftrightarrow> complete"
  proof -
    have "concat (map row_lines rest) = [] \<longleftrightarrow> rest = []"
      using nonempty rest(1) by (cases rest) auto
    then show ?thesis by (simp add: rest(2))
  qed
  finally have "complete = (?m = length ls)" by simp
  with f p b show ?thesis
    by (intro exI [of _ rs] exI [of _ ?m]) (simp add: render_outline_def render_rows_def)
qed

section \<open>Required lines\<close>

lemma window_spans_shown:
  "(s, e) \<in> set ws \<Longrightarrow> k \<in> {s..e} \<Longrightarrow> k \<in> set (shown_lines (rows_of (window_spans n cur ws)))"
  unfolding shown_rows_of by (induction n cur ws rule: window_spans.induct) auto

lemma region_shown:
  assumes "1 \<le> n" "r \<in> set regions" "max 1 (fst r - context) \<le> k" "k \<le> min n (snd r + context)"
  shows "k \<in> set (shown_lines (rows_of (spans_for_regions n regions context)))"
proof -
  let ?v = "(max 1 (fst r - context), min n (snd r + context))"
  have "sorted (map fst (sort regions))"
    unfolding sorted_map by (rule sorted_wrt_mono_rel [OF _ sorted_sort]) (auto simp: less_eq_prod_def)
  then have "inside_window (merge_windows n context (sort regions) []) ?v"
    using assms(2) by (intro merge_windows_inside) auto
  then obtain s e where "(s, e) \<in> set (merge_windows n context (sort regions) [])" "s \<le> fst ?v" "snd ?v \<le> e"
    by (auto simp: inside_window_def)
  then have "k \<in> set (shown_lines (rows_of (window_spans n 1 (merge_windows n context (sort regions) []))))"
    using assms(3,4) by (intro window_spans_shown [of s e]) auto
  moreover have "regions \<noteq> []" using assms(2) by auto
  ultimately show ?thesis using assms(1) by (simp add: spans_for_regions_def)
qed

lemma line_shown:
  assumes "k \<in> set sel" "1 \<le> k" "k \<le> length ls"
  shows "k \<in> set (shown_lines (rows_of (spans_of_lines ls sel)))"
  unfolding spans_of_lines_def using assms by (intro region_shown [where r = "(k, k)"]) auto

lemma choose_lines_append:
  "choose_lines ls budget markers (us @ vs) sel = choose_lines ls budget markers vs (choose_lines ls budget markers us sel)"
  by (induction us arbitrary: sel) (simp_all add: Let_def)

lemma choose_lines_keeps: "set sel \<subseteq> set (choose_lines ls budget markers ns sel)"
proof (induction ns arbitrary: sel)
  case (Cons n ns)
  from Cons [of sel] Cons [of "insort_insert n sel"] show ?case
    by (auto simp: Let_def set_insort_insert)
qed simp

lemma choose_lines_fit:
  "body_char_count ls markers (spans_of_lines ls sel) \<le> budget \<Longrightarrow>
     body_char_count ls markers (spans_of_lines ls (choose_lines ls budget markers ns sel)) \<le> budget"
  by (induction ns arbitrary: sel) (simp_all add: Let_def)

text \<open>A required line that the outline would show and that fits beside the required lines chosen
  before it is shown, whatever the other lines cost, and the rendering is then not cut off.\<close>

theorem required_lines_are_shown:
  assumes "tiles ps 1 (length ls)" "line_candidates ps required = us @ k # vs" "required \<noteq> []"
    and "body_char_count ls markers
      (spans_of_lines ls (insort_insert k (choose_lines ls budget markers us []))) \<le> budget"
  shows "(k, ls ! (k - 1)) \<in> set (ro_visible (render_outline ls budget markers required ps)) \<and>
    (\<exists>rs. ro_text (render_outline ls budget markers required ps) =
      py_join [CHR 0x0A] (map (row_text ls markers) rs @ [outline_footer True (length ls)]))"
proof -
  let ?first = "insort_insert k (choose_lines ls budget markers us [])"
  let ?sel = "choose_lines ls budget markers (line_candidates ps required) []"
  have sel: "?sel = choose_lines ls budget markers vs ?first"
    using assms(4) by (simp add: assms(2) choose_lines_append Let_def)
  then have "k \<in> set ?sel"
    using choose_lines_keeps [of ?first ls budget markers vs] by (auto simp: set_insort_insert)
  moreover have "k \<in> set (shown_lines (rows_of ps))"
    using line_candidates_visible [of ps required] by (auto simp: assms(2))
  then have "1 \<le> k \<and> k \<le> length ls"
    using tiles_range [OF assms(1)] by (fastforce simp: shown_rows_of)
  ultimately have shown: "k \<in> set (shown_lines (rows_of (spans_of_lines ls ?sel)))"
    by (intro line_shown) auto
  have "body_char_count ls markers (spans_of_lines ls ?sel) \<le> budget"
    unfolding sel by (rule choose_lines_fit [OF assms(4)])
  then have "fitting_rows ls markers budget 0 (rows_of (spans_of_lines ls ?sel)) =
      (rows_of (spans_of_lines ls ?sel), True)"
    by (intro fitting_rows_all) (simp add: body_char_count_def)
  with shown assms(3) show ?thesis
    by (auto simp: render_outline_def render_rows_def spans_that_preserve_required_lines_def)
qed

section \<open>An example\<close>

definition example_lines :: "string list" where
  "example_lines = [''def f():'', ''    a'', ''    b'', ''    c'', ''x = 1'']"

definition example_spans :: "output_span list" where
  "example_spans = [Span 1 1 True, Span 2 4 False, Span 5 5 True]"

theorem outline_accounts_for_lines_witness:
  "\<exists>rs m. m \<le> length example_lines \<and> concat (map row_lines rs) = [1..<m + 1] \<and>
    ro_text (render_outline example_lines 20 None [] example_spans) =
      py_join [CHR 0x0A] (map (row_text example_lines None) rs @
        [outline_footer (m = length example_lines) (length example_lines)]) \<and>
    ro_visible (render_outline example_lines 20 None [] example_spans) =
      map (\<lambda>n. (n, example_lines ! (n - 1))) (shown_lines rs) \<and>
    ro_collapsed (render_outline example_lines 20 None [] example_spans) = folded_ranges rs \<and>
    sum_list (map (\<lambda>r. length (row_text example_lines None r) + 1) rs) \<le> 20"
  by (rule outline_accounts_for_lines) (simp_all add: example_lines_def example_spans_def)

theorem required_lines_are_shown_witness:
  "(3, ''    b'') \<in> set (ro_visible (render_outline example_lines 200 None [3] [Span 1 5 True]))"
proof -
  have "line_candidates [Span 1 5 True] [3] = [] @ 3 # [1, 2, 4, 5]" by code_simp
  moreover have "body_char_count example_lines None (spans_of_lines example_lines
      (insort_insert 3 (choose_lines example_lines 200 None [] []))) \<le> 200"
    unfolding example_lines_def by code_simp
  ultimately show ?thesis
    using required_lines_are_shown [of "[Span 1 5 True]" example_lines "[3]" "[]" 3 "[1, 2, 4, 5]" None 200]
    by (simp add: example_lines_def)
qed

end
