(* ===== verification/Edit_Provenance.thy ===== *)
theory Edit_Provenance
  imports Outline PyText
begin

text \<open>
  Which lines an edit changed, as a line of the result of a tool
  (\<open>src/thorn/core/_edit_result.py\<close>). The comparison of two texts line by line is the library
  difflib; its blocks are a parameter. Numerals are below Python's limit of 4300 digits.
\<close>

section \<open>Provenance\<close>

record provenance =
  pv_ranges :: "(nat \<times> nat) list"
  pv_anchors :: "nat list"

definition line_range :: "nat \<Rightarrow> nat \<Rightarrow> (nat \<times> nat) result" where
  "line_range s e =
     (if s < 1 \<or> e < s then Inl (ValueError ''changed line ranges must be non-empty and 1-based'') else Inr (s, e))"

fun ranges_ordered :: "(nat \<times> nat) list \<Rightarrow> nat \<Rightarrow> bool" where
  "ranges_ordered [] previous = True"
| "ranges_ordered ((s, e) # rs) previous = (previous < s \<and> ranges_ordered rs e)"

definition make_provenance :: "(nat \<times> nat) list \<Rightarrow> nat list \<Rightarrow> provenance result" where
  "make_provenance ranges anchors =
     (if \<not> ranges_ordered ranges 0 then Inl (ValueError ''changed line ranges must be ordered and non-overlapping'')
      else if list_ex (\<lambda>n. n < 1) anchors then Inl (ValueError ''deletion anchor line numbers must be 1-based'')
      else if sort (remdups anchors) \<noteq> anchors
      then Inl (ValueError ''deletion anchor line numbers must be sorted and unique'')
      else Inr \<lparr>pv_ranges = ranges, pv_anchors = anchors\<rparr>)"

definition changed_line_numbers :: "(nat \<times> nat) list \<Rightarrow> nat list" where
  "changed_line_numbers rs = concat (map (\<lambda>(s, e). [s..<e + 1]) rs)"

definition required_line_numbers :: "provenance \<Rightarrow> nat list" where
  "required_line_numbers p = rev (remdups (rev (changed_line_numbers (pv_ranges p) @ pv_anchors p)))"

definition provenance_prefix :: string where
  "provenance_prefix = ''[Edit result provenance: changed lines ''"

definition anchor_separator :: string where
  "anchor_separator = ''; deletion anchors ''"

definition show_range :: "nat \<times> nat \<Rightarrow> string" where
  "show_range r = (case r of (s, e) \<Rightarrow> if s = e then show_nat s else show_nat s @ ''-'' @ show_nat e)"

definition or_none :: "string \<Rightarrow> string" where
  "or_none s = (if s = [] then ''none'' else s)"

definition render_result_line :: "provenance \<Rightarrow> string" where
  "render_result_line p =
     provenance_prefix @ or_none (py_join '', '' (map show_range (pv_ranges p))) @
     anchor_separator @ or_none (py_join '', '' (map show_nat (pv_anchors p))) @ '']''"

section \<open>Reading a result\<close>

definition positive_numeral :: "string \<Rightarrow> bool" where
  "positive_numeral s = (s \<noteq> [] \<and> hd s \<noteq> CHR ''0'' \<and> list_all (\<lambda>c. digit_val c \<noteq> None) s)"

definition numeral_value :: "string \<Rightarrow> nat" where
  "numeral_value s = (case read_nat s of None \<Rightarrow> 0 | Some n \<Rightarrow> n)"

definition parse_range :: "string \<Rightarrow> (nat \<times> nat) option" where
  "parse_range token =
     (case py_partition (CHR ''-'') token of (a, dashed, b) \<Rightarrow>
        if positive_numeral a \<and> (dashed \<longrightarrow> positive_numeral b)
        then (case line_range (numeral_value a) (if dashed then numeral_value b else numeral_value a) of
            Inl _ \<Rightarrow> None
          | Inr r \<Rightarrow> Some r)
        else None)"

fun parse_all :: "('a \<Rightarrow> 'b option) \<Rightarrow> 'a list \<Rightarrow> 'b list option" where
  "parse_all f [] = Some []"
| "parse_all f (x # xs) =
     (case f x of None \<Rightarrow> None | Some y \<Rightarrow> map_option ((#) y) (parse_all f xs))"

definition parse_anchor :: "string \<Rightarrow> nat option" where
  "parse_anchor token =
     (if token \<noteq> [] \<and> list_all (\<lambda>c. digit_val c \<noteq> None) token then read_nat token else None)"

definition from_tool_result :: "string \<Rightarrow> provenance option" where
  "from_tool_result content =
     (case filter (\<lambda>l. py_startswith l provenance_prefix) (py_splitlines content) of
        [l] \<Rightarrow>
          if \<not> py_endswith l '']'' then None
          else (case py_split_str anchor_separator (butlast (drop (length provenance_prefix) l)) of
              [rendered_ranges, rendered_anchors] \<Rightarrow>
                (case (if rendered_ranges = ''none'' then Some []
                       else parse_all parse_range (py_split_str '', '' rendered_ranges)) of
                   None \<Rightarrow> None
                 | Some ranges \<Rightarrow>
                     (case (if rendered_anchors = ''none'' then Some []
                            else parse_all parse_anchor (py_split_str '', '' rendered_anchors)) of
                        None \<Rightarrow> None
                      | Some anchors \<Rightarrow>
                          (case make_provenance ranges anchors of Inl _ \<Rightarrow> None | Inr p \<Rightarrow> Some p)))
            | _ \<Rightarrow> None)
      | _ \<Rightarrow> None)"

section \<open>Comparing two texts\<close>

text \<open>A block of the comparison: its operation and the two ranges of lines, from 0.\<close>

type_synonym opcode = "string \<times> nat \<times> nat \<times> nat \<times> nat"

type_synonym differ = "string list \<Rightarrow> string list \<Rightarrow> opcode list"

definition add_range :: "nat \<times> nat \<Rightarrow> (nat \<times> nat) list \<Rightarrow> (nat \<times> nat) list" where
  "add_range r rs =
     (if rs \<noteq> [] \<and> fst r \<le> snd (last rs) + 1 then butlast rs @ [(fst (last rs), snd r)] else rs @ [r])"

fun collect_changes ::
    "nat \<Rightarrow> opcode list \<Rightarrow> (nat \<times> nat) list \<Rightarrow> nat list \<Rightarrow> ((nat \<times> nat) list \<times> nat list) result" where
  "collect_changes n [] ranges anchors = Inr (ranges, anchors)"
| "collect_changes n ((op, i1, i2, j1, j2) # ops) ranges anchors =
     (if op = ''equal'' then collect_changes n ops ranges anchors
      else if j1 = j2
      then collect_changes n ops ranges (if n > 0 then min (j1 + 1) n # anchors else anchors)
      else rbind (line_range (j1 + 1) j2) (\<lambda>r. collect_changes n ops (add_range r ranges) anchors))"

definition provenance_between :: "differ \<Rightarrow> string \<Rightarrow> string \<Rightarrow> provenance result" where
  "provenance_between diff original edited =
     (let a = py_splitlines original; b = py_splitlines edited
      in rbind (collect_changes (length b) (diff a b) [] []) (\<lambda>(ranges, anchors).
           make_provenance ranges
             (sort (remdups (filter (\<lambda>n. n \<notin> set (changed_line_numbers ranges)) anchors)))))"

section \<open>The line reads back\<close>

definition provenance_ok :: "provenance \<Rightarrow> bool" where
  "provenance_ok p \<longleftrightarrow> list_all (\<lambda>(s, e). 1 \<le> s \<and> s \<le> e) (pv_ranges p) \<and>
     make_provenance (pv_ranges p) (pv_anchors p) = Inr p"

lemma show_nat_digits: "list_all (\<lambda>c. digit_val c \<noteq> None) (show_nat n)"
  using digits_show_nat by (auto simp: list_all_iff)

lemma show_nat_free [simp]:
  "CHR ''-'' \<notin> set (show_nat n)" "CHR '','' \<notin> set (show_nat n)" "CHR '';'' \<notin> set (show_nat n)"
  "CHR ''n'' \<notin> set (show_nat n)"
  using digits_show_nat [of _ n] by (fastforce simp: digit_val_def)+

lemma hd_show_nat: "1 \<le> n \<Longrightarrow> hd (show_nat n) \<noteq> CHR ''0''"
proof (induction n rule: less_induct)
  case (less n)
  show ?case
  proof (cases "n < 10")
    case True
    have "digit_val (CHR ''0'') = Some 0" by (simp add: digit_val_def)
    with digit_val_digit_char [OF True] less(2) have "digit_char n \<noteq> CHR ''0''" by auto
    with True show ?thesis by (simp add: show_nat.simps)
  next
    case False
    then have "hd (show_nat n) = hd (show_nat (n div 10))" by (subst show_nat.simps) simp
    with less(1) [of "n div 10"] False show ?thesis by simp
  qed
qed

lemma positive_numeral_show: "1 \<le> n \<Longrightarrow> positive_numeral (show_nat n)"
  unfolding positive_numeral_def using hd_show_nat show_nat_digits by simp

lemma parse_show_range: "1 \<le> s \<Longrightarrow> s \<le> e \<Longrightarrow> parse_range (show_range (s, e)) = Some (s, e)"
proof (cases "s = e")
  case True
  assume "1 \<le> s"
  moreover have "py_partition (CHR ''-'') (show_nat s) = (show_nat s, False, [])" by simp
  ultimately show ?thesis
    using True by (simp add: parse_range_def show_range_def positive_numeral_show numeral_value_def line_range_def)
next
  case False
  assume "1 \<le> s" "s \<le> e"
  moreover have "py_partition (CHR ''-'') (show_nat s @ CHR ''-'' # show_nat e) = (show_nat s, True, show_nat e)"
    by simp
  ultimately show ?thesis
    using False by (simp add: parse_range_def show_range_def positive_numeral_show numeral_value_def line_range_def)
qed

lemma parse_show_anchor: "parse_anchor (show_nat n) = Some n"
  using show_nat_digits [of n] by (simp add: parse_anchor_def)

lemma parse_all_map: "\<forall>x \<in> set xs. f (g x) = Some x \<Longrightarrow> parse_all f (map g xs) = Some xs"
  by (induction xs) auto

lemma chars_of_join: "c \<in> set (py_join sep ws) \<Longrightarrow> c \<in> set sep \<or> (\<exists>w \<in> set ws. c \<in> set w)"
  by (induction sep ws rule: py_join.induct) auto

lemma or_none_list:
  assumes "\<forall>w \<in> set ws. w \<noteq> [] \<and> CHR '','' \<notin> set w \<and> CHR ''n'' \<notin> set w"
  shows "or_none (py_join '', '' ws) = ''none'' \<longleftrightarrow> ws = []"
    and "ws \<noteq> [] \<Longrightarrow> py_split_str '', '' (or_none (py_join '', '' ws)) = ws"
proof -
  have "CHR ''n'' \<notin> set (py_join '', '' ws)" using assms chars_of_join [of "CHR ''n''" "'', ''" ws] by auto
  moreover have "CHR ''n'' \<in> set ''none''" by simp
  ultimately have "py_join '', '' ws \<noteq> ''none''" by metis
  moreover have "py_join '', '' ws = [] \<longleftrightarrow> ws = []"
    using assms py_join_eq_Nil_iff [of "'', ''" ws] by (metis list.set_intros(1) not_Cons_self2 list.distinct(1))
  ultimately show "or_none (py_join '', '' ws) = ''none'' \<longleftrightarrow> ws = []"
    by (simp add: or_none_def)
  show "py_split_str '', '' (or_none (py_join '', '' ws)) = ws" if "ws \<noteq> []"
    using that assms \<open>py_join '', '' ws = [] \<longleftrightarrow> ws = []\<close>
    by (simp add: or_none_def py_split_str_join)
qed

lemma show_range_chars:
  "show_range r \<noteq> [] \<and> CHR '','' \<notin> set (show_range r) \<and> CHR ''n'' \<notin> set (show_range r) \<and>
     CHR '';'' \<notin> set (show_range r)"
  by (cases r) (simp add: show_range_def)

lemma semicolon_free:
  assumes "\<forall>w \<in> set ws. CHR '';'' \<notin> set w"
  shows "CHR '';'' \<notin> set (or_none (py_join '', '' ws))"
  using assms chars_of_join [of "CHR '';''" "'', ''" ws] by (auto simp: or_none_def)

text \<open>A result that has the provenance line of an edit among its lines, and no other line that
  looks like one, is read back as exactly that provenance.\<close>

theorem provenance_line_roundtrip:
  assumes "provenance_ok p"
    and "filter (\<lambda>l. py_startswith l provenance_prefix) (py_splitlines content) = [render_result_line p]"
  shows "from_tool_result content = Some p"
proof -
  let ?R = "or_none (py_join '', '' (map show_range (pv_ranges p)))"
  let ?A = "or_none (py_join '', '' (map show_nat (pv_anchors p)))"
  have line: "render_result_line p = (provenance_prefix @ ?R @ anchor_separator @ ?A) @ '']''"
    by (simp add: render_result_line_def)
  have "py_split_str anchor_separator (py_join anchor_separator [?R, ?A]) = [?R, ?A]"
    using semicolon_free [of "map show_range (pv_ranges p)"] semicolon_free [of "map show_nat (pv_anchors p)"]
    by (intro py_split_str_join) (simp_all add: anchor_separator_def show_range_chars)
  then have split: "py_split_str anchor_separator (butlast (drop (length provenance_prefix) (render_result_line p))) = [?R, ?A]"
    by (simp add: line butlast_append)
  have "py_endswith (render_result_line p) '']''" unfolding line by (rule py_endswith_append)
  moreover have "(if ?R = ''none'' then Some [] else parse_all parse_range (py_split_str '', '' ?R)) = Some (pv_ranges p)"
  proof -
    have "\<forall>r \<in> set (pv_ranges p). parse_range (show_range r) = Some r"
      using assms(1) parse_show_range unfolding provenance_ok_def list_all_iff by (metis (mono_tags, lifting) case_prodE)
    then show ?thesis
      using or_none_list [of "map show_range (pv_ranges p)"] show_range_chars by (auto simp: parse_all_map)
  qed
  moreover have "(if ?A = ''none'' then Some [] else parse_all parse_anchor (py_split_str '', '' ?A)) = Some (pv_anchors p)"
    using or_none_list [of "map show_nat (pv_anchors p)"] by (auto simp: parse_all_map parse_show_anchor)
  ultimately show ?thesis
    using assms split by (simp add: from_tool_result_def provenance_ok_def)
qed

section \<open>The changes are exact\<close>

text \<open>What is relied on of difflib: the blocks tile both texts, an equal block has equal lines, and
  any other block is not empty on at least one side.\<close>

fun opcodes_ok :: "string list \<Rightarrow> string list \<Rightarrow> opcode list \<Rightarrow> nat \<Rightarrow> nat \<Rightarrow> bool" where
  "opcodes_ok a b [] i j = (i = length a \<and> j = length b)"
| "opcodes_ok a b ((op, i1, i2, j1, j2) # ops) i j =
     (i1 = i \<and> j1 = j \<and> i \<le> i2 \<and> j \<le> j2 \<and> i2 \<le> length a \<and> j2 \<le> length b \<and>
      (op = ''equal'' \<longrightarrow> take (i2 - i) (drop i a) = take (j2 - j) (drop j b)) \<and>
      (op \<noteq> ''equal'' \<longrightarrow> i < i2 \<or> j < j2) \<and> opcodes_ok a b ops i2 j2)"

definition comparing :: "differ \<Rightarrow> bool" where
  "comparing diff \<longleftrightarrow> (\<forall>a b. opcodes_ok a b (diff a b) 0 0)"

definition changed_set :: "(nat \<times> nat) list \<Rightarrow> nat set" where
  "changed_set rs = (\<Union>(s, e) \<in> set rs. {s..e})"

lemma changed_numbers: "set (changed_line_numbers rs) = changed_set rs"
  by (induction rs) (auto simp: changed_line_numbers_def changed_set_def)

lemma ordered_windows: "windows_ok rs (m + 1) n \<Longrightarrow> ranges_ordered rs m"
  by (induction rs m arbitrary: rule: ranges_ordered.induct) auto

lemma add_range_window:
  "rs = [] \<or> snd (last rs) \<le> snd r \<Longrightarrow> add_range r rs = add_window r rs"
  by (auto simp: add_range_def add_window_def max_def)

lemma add_range_changed:
  assumes "rs = [] \<or> fst (last rs) \<le> snd (last rs) \<and> snd (last rs) < fst r" "fst r \<le> snd r"
  shows "changed_set (add_range r rs) = changed_set rs \<union> {fst r..snd r}"
proof (cases "rs \<noteq> [] \<and> fst r \<le> snd (last rs) + 1")
  case True
  then obtain us u where rs: "rs = us @ [u]" by (metis append_butlast_last_id)
  from True assms have "{fst u..snd r} = {fst u..snd u} \<union> {fst r..snd r}" unfolding rs by auto
  with True show ?thesis unfolding rs by (auto simp: add_range_def changed_set_def split: prod.splits)
next
  case False
  then have "add_range r rs = rs @ [r]" by (simp only: add_range_def if_False)
  then show ?thesis by (cases r) (auto simp: changed_set_def)
qed

text \<open>The lines of the edited text that some block other than an equal one holds.\<close>

definition touched :: "opcode list \<Rightarrow> nat set" where
  "touched ops = (\<Union>(op, i1, i2, j1, j2) \<in> {x \<in> set ops. fst x \<noteq> ''equal''}. {j1 + 1..j2})"

lemma touched_Cons:
  "touched ((op, i1, i2, j1, j2) # ops) = (if op = ''equal'' then {} else {j1 + 1..j2}) \<union> touched ops"
  by (auto simp: touched_def)

lemma collect_changes_exact:
  assumes "opcodes_ok a b ops i j" "windows_ok rs 1 j" "\<forall>x \<in> set anchors. 1 \<le> x \<and> x \<le> length b"
  shows "\<exists>ranges anchors'. collect_changes (length b) ops rs anchors = Inr (ranges, anchors') \<and>
    windows_ok ranges 1 (length b) \<and> changed_set ranges = changed_set rs \<union> touched ops \<and>
    (\<forall>x \<in> set anchors'. 1 \<le> x \<and> x \<le> length b)"
  using assms
proof (induction ops arbitrary: i j rs anchors)
  case Nil
  then show ?case by (simp add: touched_def)
next
  case (Cons x ops)
  obtain op i1 i2 j1 j2 where x: "x = (op, i1, i2, j1, j2)" by (cases x)
  from Cons(2) x have o: "i1 = i" "j1 = j" "j \<le> j2" "j2 \<le> length b" "opcodes_ok a b ops i2 j2" by auto
  have mono: "windows_ok rs 1 j2" using Cons(3) o(3) by (rule windows_ok_le)
  consider (same) "op = ''equal''" | (removed) "op \<noteq> ''equal''" "j1 = j2" | (edited) "op \<noteq> ''equal''" "j1 < j2"
    using o by fastforce
  then show ?case
  proof cases
    case same
    then have "touched (x # ops) = touched ops" by (simp add: touched_Cons x)
    with same Cons(1) [OF o(5) mono Cons(4)] show ?thesis by (simp add: x)
  next
    case removed
    let ?an = "if 0 < length b then min (j1 + 1) (length b) # anchors else anchors"
    have "touched (x # ops) = touched ops" using removed by (simp add: touched_Cons x)
    moreover have "\<forall>x \<in> set ?an. 1 \<le> x \<and> x \<le> length b" using Cons(4) by (cases b) auto
    ultimately show ?thesis using removed Cons(1) [OF o(5) mono, of ?an] by (cases "b = []") (simp_all add: x)
  next
    case edited
    let ?r = "(j1 + 1, j2)"
    have l: "rs = [] \<or> fst (last rs) \<le> snd (last rs) \<and> snd (last rs) \<le> j"
      using windows_ok_last [OF Cons(3)] by blast
    then have "add_range ?r rs = add_window ?r rs" using o(2,3) by (intro add_range_window) auto
    moreover have "windows_ok (add_window ?r rs) 1 j2"
      using mono edited o by (intro add_window_ok) auto
    ultimately have w: "windows_ok (add_range ?r rs) 1 j2" by simp
    have c: "changed_set (add_range ?r rs) = changed_set rs \<union> {j1 + 1..j2}"
      using add_range_changed [of rs ?r] l o edited by auto
    have "touched (x # ops) = {j1 + 1..j2} \<union> touched ops" using edited by (simp add: touched_Cons x)
    with Cons(1) [OF o(5) w Cons(4)] c edited show ?thesis
      by (simp add: x line_range_def Un_assoc)
  qed
qed

lemma untouched_kept:
  "opcodes_ok a b ops i j \<Longrightarrow> j < n \<Longrightarrow> n \<le> length b \<Longrightarrow> n \<notin> touched ops \<Longrightarrow>
     \<exists>m. i < m \<and> m \<le> length a \<and> a ! (m - 1) = b ! (n - 1)"
proof (induction ops arbitrary: i j)
  case (Cons x ops)
  obtain op i1 i2 j1 j2 where x: "x = (op, i1, i2, j1, j2)" by (cases x)
  from Cons(2) x have o: "i1 = i" "j1 = j" "i \<le> i2" "j \<le> j2" "i2 \<le> length a" "j2 \<le> length b" "opcodes_ok a b ops i2 j2"
    "op = ''equal'' \<longrightarrow> take (i2 - i) (drop i a) = take (j2 - j) (drop j b)" by auto
  show ?case
  proof (cases "n \<le> j2")
    case True
    have eq: "op = ''equal''"
    proof (rule ccontr)
      assume "op \<noteq> ''equal''"
      then have "touched (x # ops) = {j1 + 1..j2} \<union> touched ops" by (simp add: touched_Cons x)
      with True Cons(3,5) o(2) show False by auto
    qed
    with o(8) have t: "take (i2 - i) (drop i a) = take (j2 - j) (drop j b)" by simp
    then have "i2 - i = j2 - j" using o(3-6) by (metis length_drop length_take min_absorb2 diff_le_mono)
    have "a ! (i + (n - 1 - j)) = take (i2 - i) (drop i a) ! (n - 1 - j)"
      using True Cons(3) o \<open>i2 - i = j2 - j\<close> by simp
    also have "\<dots> = b ! (n - 1)" unfolding t using True Cons(3) o by simp
    finally show ?thesis
      using True Cons(3) o \<open>i2 - i = j2 - j\<close> by (intro exI [of _ "i + (n - j)"]) (auto simp: algebra_simps)
  next
    case False
    have "n \<notin> touched ops" using Cons(5) by (simp add: x touched_Cons)
    with Cons(1) [OF o(7)] False Cons(4) obtain m where "i2 < m \<and> m \<le> length a \<and> a ! (m - 1) = b ! (n - 1)" by auto
    with o(3) show ?thesis by (intro exI [of _ m]) auto
  qed
qed auto


section \<open>Examples\<close>

theorem provenance_line_roundtrip_witness:
  "from_tool_result (py_join [CHR 0x0A] [''Applied 1 edit(s) to a.'', render_result_line \<lparr>pv_ranges = [(2, 3), (7, 7)],
     pv_anchors = [9]\<rparr>, ''1| x'']) = Some \<lparr>pv_ranges = [(2, 3), (7, 7)], pv_anchors = [9]\<rparr>"
  by (rule provenance_line_roundtrip) (simp add: provenance_ok_def make_provenance_def, code_simp)

definition whole_differ :: differ where
  "whole_differ a b =
     (if a = b then [(''equal'', 0, length a, 0, length b)] else [(''replace'', 0, length a, 0, length b)])"

lemma whole_differ_compares: "comparing whole_differ"
  by (auto simp: comparing_def whole_differ_def)


end
