(* ===== verification/Outline_Markdown.thy ===== *)
theory Outline_Markdown
  imports Outline
begin

text \<open>
  The hierarchy of a Markdown file (\<open>src/thorn/core/_outline_markdown.py\<close>) and the entry points
  of the outlines (\<open>src/thorn/core/_outline.py\<close>). The tree of block tokens that the library
  mistletoe reads from a text is a parameter; what is relied on is that the block tokens of a
  container start on ascending lines within it.
\<close>

section \<open>Tokens and blocks\<close>

datatype md_kind = MdHeading nat | MdQuote | MdList | MdListItem | MdBlock | MdInline

datatype md_token =
  Token (tk_kind: md_kind) (tk_line: "nat option") (tk_children: "md_token list")

type_synonym md_parser = "string \<Rightarrow> md_token list"

datatype md_block = Block (bk_token: md_token) (bk_start: nat) (bk_end: nat)

fun annotate_children :: "md_token list \<Rightarrow> nat \<Rightarrow> md_block list" where
  "annotate_children [] parent_end = []"
| "annotate_children (t # ts) parent_end =
     (case tk_line t of
        None \<Rightarrow> annotate_children ts parent_end
      | Some s \<Rightarrow>
          (let e = (case ts of
               [] \<Rightarrow> parent_end
             | t' # _ \<Rightarrow> (case tk_line t' of None \<Rightarrow> parent_end | Some n \<Rightarrow> n - 1))
           in Block t s (max s e) # annotate_children ts parent_end))"

definition heading_level :: "md_block \<Rightarrow> nat option" where
  "heading_level b = (case tk_kind (bk_token b) of MdHeading n \<Rightarrow> Some n | _ \<Rightarrow> None)"

fun contains_heading :: "md_token \<Rightarrow> bool" where
  "contains_heading (Token k l cs) =
     ((case k of MdHeading n \<Rightarrow> True | _ \<Rightarrow> False) \<or>
      (\<exists>c \<in> set cs. tk_kind c \<noteq> MdInline \<and> contains_heading c))"

definition blocks_size :: "md_block list \<Rightarrow> nat" where
  "blocks_size bs = sum_list (map (\<lambda>b. size (bk_token b)) bs)"

lemma blocks_size_simps [simp]:
  "blocks_size [] = 0" "blocks_size (b # bs) = size (bk_token b) + blocks_size bs"
  by (simp_all add: blocks_size_def)

lemma token_size: "0 < size (t :: md_token)"
  by (cases t) simp

lemma annotate_size: "blocks_size (annotate_children ts e) \<le> size_list size ts"
proof (induction ts e rule: annotate_children.induct)
  case (2 t ts e)
  then show ?case by (cases "tk_line t") (auto simp: Let_def intro: le_SucI trans_le_add2)
qed simp

lemma annotate_smaller: "blocks_size (annotate_children (tk_children t) e) < size (t :: md_token)"
  using annotate_size [of "tk_children t" e] by (cases t) simp

lemma blocks_size_while:
  "blocks_size (takeWhile P bs) \<le> blocks_size bs" "blocks_size (dropWhile P bs) \<le> blocks_size bs"
  by (induction bs) auto

lemma blocks_size_below:
  "blocks_size (takeWhile P bs) < size (bk_token b) + blocks_size bs"
  "blocks_size (dropWhile P bs) < size (bk_token b) + blocks_size bs"
  "blocks_size (takeWhile P (takeWhile Q bs)) < size (bk_token b) + blocks_size bs"
  "blocks_size (dropWhile P (takeWhile Q bs)) < size (bk_token b) + blocks_size bs"
  using blocks_size_while [of P bs] blocks_size_while [of Q bs] blocks_size_while [of P "takeWhile Q bs"]
    token_size [of "bk_token b"] by linarith+

lemma blocks_size_drop: "blocks_size (drop n bs) \<le> blocks_size bs"
  by (induction bs arbitrary: n) (auto simp: drop_Cons' le_SucI trans_le_add2)

section \<open>Sections\<close>

text \<open>The blocks of a document from its lede on: a leading heading of level 1 is its title.\<close>

definition after_title :: "md_block list \<Rightarrow> md_block list" where
  "after_title bs = drop (if bs \<noteq> [] \<and> heading_level (hd bs) = Some 1 then 1 else 0) bs"

lemma blocks_size_after_title:
  "blocks_size (takeWhile P (after_title bs)) \<le> blocks_size bs"
  "blocks_size (dropWhile P (after_title bs)) \<le> blocks_size bs"
  unfolding after_title_def by (rule order_trans [OF blocks_size_while(1) blocks_size_drop],
      rule order_trans [OF blocks_size_while(2) blocks_size_drop])

abbreviation lede :: "md_block list \<Rightarrow> md_block list" where
  "lede \<equiv> takeWhile (\<lambda>b. heading_level b = None)"

abbreviation after_lede :: "md_block list \<Rightarrow> md_block list" where
  "after_lede \<equiv> dropWhile (\<lambda>b. heading_level b = None)"

definition inside_section :: "nat \<Rightarrow> md_block \<Rightarrow> bool" where
  "inside_section h b = (case heading_level b of None \<Rightarrow> True | Some n \<Rightarrow> n > h)"

function (sequential)
  promote_container :: "md_block \<Rightarrow> nat \<Rightarrow> content_node option"
and promoted :: "md_block list \<Rightarrow> nat \<Rightarrow> content_node list"
and item_sections :: "md_block list \<Rightarrow> nat \<Rightarrow> content_node list"
and child_sections :: "md_block list \<Rightarrow> nat \<Rightarrow> nat \<Rightarrow> content_node list"
and document_children :: "md_block list \<Rightarrow> nat \<Rightarrow> content_node list" where
  "promote_container (Block t s e) depth =
     (case tk_kind t of
        MdQuote \<Rightarrow>
          if \<not> contains_heading t then None
          else Some (Node s e depth (document_children (annotate_children (tk_children t) e) depth))
      | MdList \<Rightarrow>
          if \<not> contains_heading t then None
          else (case item_sections (annotate_children (tk_children t) e) (depth + 1) of
              [] \<Rightarrow> None
            | cs \<Rightarrow> Some (Node s e depth cs))
      | _ \<Rightarrow> None)"
| "promoted [] depth = []"
| "promoted (b # bs) depth =
     (case promote_container b depth of None \<Rightarrow> [] | Some n \<Rightarrow> [n]) @ promoted bs depth"
| "item_sections [] depth = []"
| "item_sections (Block t s e # bs) depth =
     (if tk_kind t = MdListItem \<and> contains_heading t
      then [Node s e depth (document_children (annotate_children (tk_children t) e) depth)] else []) @
     item_sections bs depth"
| "child_sections [] level base = []"
| "child_sections (b # bs) level base =
     (case heading_level b of
        None \<Rightarrow> child_sections bs level base
      | Some h \<Rightarrow>
          if h \<le> level then []
          else (let body = takeWhile (inside_section h) bs
                in Node (bk_start b) (bk_end (last (b # body))) (base + 1)
                     (promoted (lede body) (base + 2) @ child_sections (after_lede body) h (base + 1)) #
                   child_sections (dropWhile (inside_section h) bs) level base))"
| "document_children bs base =
     promoted (lede (after_title bs)) (base + 1) @ child_sections (after_lede (after_title bs)) 0 base"
  by pat_completeness auto
termination
  by (relation "measures
    [\<lambda>x. case x of
        Inl (Inl (b, _)) \<Rightarrow> size (bk_token b)
      | Inl (Inr (bs, _)) \<Rightarrow> blocks_size bs
      | Inr (Inl (bs, _)) \<Rightarrow> blocks_size bs
      | Inr (Inr (Inl (bs, _))) \<Rightarrow> blocks_size bs
      | Inr (Inr (Inr (bs, _))) \<Rightarrow> blocks_size bs,
     \<lambda>x. case x of Inl (Inl _) \<Rightarrow> 0 | Inl (Inr (bs, _)) \<Rightarrow> 1 | Inr (Inl _) \<Rightarrow> 1 | Inr (Inr (Inl _)) \<Rightarrow> 1 | _ \<Rightarrow> 2]")
    (auto simp: annotate_smaller token_size blocks_size_below le_neq_trans blocks_size_after_title trans_less_add1)

definition build_markdown_hierarchy :: "md_parser \<Rightarrow> string list \<Rightarrow> content_node" where
  "build_markdown_hierarchy parse ls =
     (if ls = [] then Node 1 0 0 []
      else (let text = py_join [CHR 0x0A] ls;
                ts = parse (if py_endswith text [CHR 0x0A] then text else text @ [CHR 0x0A])
            in Node 1 (length ls) 0 (document_children (annotate_children ts (length ls)) 0)))"

section \<open>Entry points\<close>

datatype content_format = Indentation | Markdown

text \<open>\<open>PurePath.suffix\<close> of a path with the given separators.\<close>

definition path_suffix :: "string \<Rightarrow> string \<Rightarrow> string" where
  "path_suffix seps s =
     (let parts = filter (\<lambda>p. p \<noteq> [] \<and> p \<noteq> ''.'') (py_split (CHR ''/'') (map (\<lambda>c. if c \<in> set seps then CHR ''/'' else c) s));
          name = (if parts = [] then [] else last parts);
          after = takeWhile (\<lambda>c. c \<noteq> CHR ''.'') (rev name);
          stem = drop (length after + 1) (rev name)
      in if after = [] \<or> stem = [] then [] else CHR ''.'' # rev after)"

definition ascii_lower :: "char \<Rightarrow> char" where
  "ascii_lower c = (let n = of_char c :: nat in if 65 \<le> n \<and> n \<le> 90 then char_of (n + 32) else c)"

definition detect_content_format :: "string option \<Rightarrow> content_format" where
  "detect_content_format file_path =
     (case file_path of
        None \<Rightarrow> Indentation
      | Some s \<Rightarrow>
          (let windows = map ascii_lower (path_suffix [CHR ''/'', CHR 0x5C] s);
               suffix = (if windows \<noteq> [] then windows else map ascii_lower (path_suffix [CHR ''/''] s))
           in if suffix \<in> {''.md'', ''.markdown''} then Markdown else Indentation))"

definition content_root :: "md_parser \<Rightarrow> string list \<Rightarrow> string option \<Rightarrow> content_node" where
  "content_root parse ls file_path =
     (if detect_content_format file_path = Markdown then build_markdown_hierarchy parse ls
      else build_hierarchy (compute_depths ls))"

definition compute_outline_spans ::
    "md_parser \<Rightarrow> string list \<Rightarrow> nat \<Rightarrow> string option \<Rightarrow> output_span list" where
  "compute_outline_spans parse ls budget file_path = compute_collapse (content_root parse ls file_path) budget"

definition outline_and_format ::
    "md_parser \<Rightarrow> string list \<Rightarrow> nat \<Rightarrow> nat \<Rightarrow> string option \<Rightarrow> string" where
  "outline_and_format parse ls line_budget char_budget file_path =
     format_outline ls char_budget None [] (compute_outline_spans parse ls line_budget file_path)"

section \<open>Markdown hierarchies nest\<close>

text \<open>What is relied on of mistletoe: sibling tokens start on ascending lines of their container.\<close>

function (sequential) tokens_ok :: "md_token list \<Rightarrow> nat \<Rightarrow> nat \<Rightarrow> bool" where
  "tokens_ok [] lo hi = True"
| "tokens_ok (t # ts) lo hi =
     (case tk_line t of
        None \<Rightarrow> False
      | Some n \<Rightarrow> lo \<le> n \<and> n \<le> hi \<and>
          (tk_kind t \<in> {MdQuote, MdList, MdListItem} \<longrightarrow>
            tokens_ok (tk_children t) n
              (case ts of [] \<Rightarrow> hi | t' # _ \<Rightarrow> (case tk_line t' of None \<Rightarrow> hi | Some m \<Rightarrow> m - 1))) \<and>
          tokens_ok ts (n + 1) hi)"
  by pat_completeness auto
termination
proof (relation "measure (\<lambda>(ts, lo, hi). size_list size ts)", goal_cases)
  case (2 t ts lo hi n)
  then show ?case by (cases t) auto
qed auto

definition lines_promised :: "md_parser \<Rightarrow> bool" where
  "lines_promised parse \<longleftrightarrow>
     (\<forall>ls. ls \<noteq> [] \<longrightarrow>
       tokens_ok (parse (let text = py_join [CHR 0x0A] ls
                         in if py_endswith text [CHR 0x0A] then text else text @ [CHR 0x0A])) 1 (length ls))"

fun block_ok :: "md_block \<Rightarrow> bool" where
  "block_ok (Block t s e) =
     (1 \<le> s \<and> s \<le> e \<and> (tk_kind t \<in> {MdQuote, MdList, MdListItem} \<longrightarrow> tokens_ok (tk_children t) s e))"

fun blocks_ok :: "md_block list \<Rightarrow> nat \<Rightarrow> nat \<Rightarrow> bool" where
  "blocks_ok [] cur e = (cur \<le> e + 1)"
| "blocks_ok (b # bs) cur e = (cur \<le> bk_start b \<and> block_ok b \<and> blocks_ok bs (bk_end b + 1) e)"

lemma annotate_ok:
  "tokens_ok ts lo hi \<Longrightarrow> 1 \<le> lo \<Longrightarrow> lo \<le> hi + 1 \<Longrightarrow> blocks_ok (annotate_children ts hi) lo hi"
proof (induction ts arbitrary: lo)
  case (Cons t ts)
  then obtain n where n: "tk_line t = Some n" "lo \<le> n" "n \<le> hi" "tokens_ok ts (n + 1) hi"
    by (auto split: option.splits)
  let ?e = "case ts of [] \<Rightarrow> hi | t' # _ \<Rightarrow> (case tk_line t' of None \<Rightarrow> hi | Some m \<Rightarrow> m - 1)"
  have e: "n \<le> ?e \<and> ?e \<le> hi \<and> tokens_ok ts (?e + 1) hi"
  proof (cases ts)
    case (Cons t' ts')
    with n(4) obtain m where "tk_line t' = Some m" "n + 1 \<le> m" "m \<le> hi" by (auto split: option.splits)
    with n(4) Cons show ?thesis by auto
  qed (use n in auto)
  then have "blocks_ok (annotate_children ts hi) (?e + 1) hi" using Cons by auto
  moreover have "tk_kind t \<in> {MdQuote, MdList, MdListItem} \<longrightarrow> tokens_ok (tk_children t) n ?e"
    using Cons(2) n(1) by auto
  moreover have "annotate_children (t # ts) hi = Block t n ?e # annotate_children ts hi"
    using n(1) e by (simp add: max_absorb2)
  ultimately show ?case using n(2) Cons(3) e by simp
qed simp

lemma blocks_ok_mono: "blocks_ok bs cur e \<Longrightarrow> cur' \<le> cur \<Longrightarrow> blocks_ok bs cur' e"
  by (cases bs) auto

lemma blocks_ok_bound: "blocks_ok bs cur e \<Longrightarrow> cur \<le> e + 1"
  by (induction bs cur e rule: blocks_ok.induct) (auto, metis Suc_leD Suc_le_mono block_ok.elims(2) le_trans
      md_block.sel(2,3))

lemma blocks_ok_split:
  "blocks_ok (xs @ ys) cur e \<Longrightarrow> xs \<noteq> [] \<Longrightarrow>
     blocks_ok xs cur (bk_end (last xs)) \<and> blocks_ok ys (bk_end (last xs) + 1) e"
  by (induction xs arbitrary: cur) auto

lemma blocks_ok_append:
  assumes "blocks_ok (xs @ ys) cur e" "1 \<le> cur"
  obtains m where "blocks_ok xs cur m" "blocks_ok ys (m + 1) e"
proof (cases "xs = []")
  case True
  with assms that [of "cur - 1"] show ?thesis by simp
qed (use blocks_ok_split [OF assms(1)] that in blast)

lemma children_ok_mono: "children_ok cs cur e d \<Longrightarrow> cur' \<le> cur \<Longrightarrow> children_ok cs cur' e d"
  by (cases cs) auto

lemma children_ok_append:
  "children_ok cs cur m d \<Longrightarrow> children_ok ds (m + 1) e d \<Longrightarrow> children_ok (cs @ ds) cur e d"
  by (induction cs cur m d arbitrary: ds rule: node_ok_children_ok.induct(2) [where P = "\<lambda>_. True"])
    (auto intro: children_ok_mono)

lemma children_ok_depth: "children_ok cs cur e d \<Longrightarrow> d' \<le> d \<Longrightarrow> children_ok cs cur e d'"
  by (induction cs arbitrary: cur) auto

lemma sections_nest:
  "block_ok b \<Longrightarrow> promote_container b depth = Some c \<Longrightarrow>
     node_ok c \<and> cn_start c = bk_start b \<and> cn_end c = bk_end b \<and> cn_depth c = depth"
  "blocks_ok bs cur e \<Longrightarrow> d < depth \<Longrightarrow> 1 \<le> cur \<Longrightarrow> children_ok (promoted bs depth) cur e d"
  "blocks_ok bs cur e \<Longrightarrow> d < depth \<Longrightarrow> 1 \<le> cur \<Longrightarrow> children_ok (item_sections bs depth) cur e d"
  "blocks_ok bs cur e \<Longrightarrow> 1 \<le> cur \<Longrightarrow> children_ok (child_sections bs level base) cur e base"
  "blocks_ok bs cur e \<Longrightarrow> 1 \<le> cur \<Longrightarrow> children_ok (document_children bs base) cur e base"
proof (induction b depth and bs depth and bs depth and bs level base and bs base
    arbitrary: c and cur e d and cur e d and cur e and cur e
    rule: promote_container_promoted_item_sections_child_sections_document_children.induct)
  case (1 t s e depth)
  have inner: "blocks_ok (annotate_children (tk_children t) e) s e"
    if "tk_kind t \<in> {MdQuote, MdList, MdListItem}"
    using annotate_ok [of "tk_children t" s e] 1(3) that by auto
  show ?case
  proof (cases "tk_kind t")
    case MdQuote
    with 1(4) have c: "c = Node s e depth (document_children (annotate_children (tk_children t) e) depth)" "contains_heading t"
      by (auto split: if_splits)
    with 1(1) [OF MdQuote] inner MdQuote 1(3) show ?thesis by auto
  next
    case MdList
    let ?cs = "item_sections (annotate_children (tk_children t) e) (depth + 1)"
    from MdList 1(4) have h: "contains_heading t" and c: "c = Node s e depth ?cs"
      by (auto split: if_splits list.splits)
    from h have "\<not> \<not> contains_heading t" by simp
    from 1(2) [OF MdList this, of s e depth] inner MdList 1(3) show ?thesis
      unfolding c by simp
  qed (use 1(4) in auto)
next
  case (3 b bs depth)
  then have rest: "children_ok (promoted bs depth) (bk_end b + 1) e d" by auto
  show ?case
  proof (cases "promote_container b depth")
    case None
    have "bk_start b \<le> bk_end b" using 3(3) by (cases b) auto
    with None rest 3(3) show ?thesis by (auto intro: children_ok_mono)
  next
    case (Some c)
    with 3(1) [OF _ Some] 3(3,4) rest show ?thesis by auto
  qed
next
  case (5 t s e' bs depth)
  then have rest: "children_ok (item_sections bs depth) (e' + 1) e d" by auto
  show ?case
  proof (cases "tk_kind t = MdListItem \<and> contains_heading t")
    case True
    have "blocks_ok (annotate_children (tk_children t) e') s e'"
      using annotate_ok [of "tk_children t" s e'] 5(3) True by auto
    with 5(1) [OF True] 5(3,4) rest True show ?thesis by auto
  next
    case False
    with rest 5(3) show ?thesis by (auto intro: children_ok_mono)
  qed
next
  case (7 b bs level base)
  show ?case
  proof (cases "heading_level b")
    case None
    have "bk_start b \<le> bk_end b" using 7(5) by (cases b) auto
    with 7(1) [OF None, of "bk_end b + 1" e] 7(5) None show ?thesis by (auto intro: children_ok_mono)
  next
    case (Some h)
    show ?thesis
    proof (cases "h \<le> level")
      case False
      let ?body = "takeWhile (inside_section h) bs" and ?rest = "dropWhile (inside_section h) bs"
      let ?fin = "bk_end (last (b # ?body))"
      have split: "blocks_ok (b # ?body) cur ?fin" "blocks_ok ?rest (?fin + 1) e"
        using blocks_ok_split [of "b # ?body" ?rest cur e] 7(5) by simp_all
      then have body: "blocks_ok (lede ?body @ after_lede ?body) (bk_end b + 1) ?fin" by simp
      obtain m where m: "blocks_ok (lede ?body) (bk_end b + 1) m" "blocks_ok (after_lede ?body) (m + 1) ?fin"
        using blocks_ok_append [OF body] by auto
      have "children_ok (promoted (lede ?body) (base + 2)) (bk_end b + 1) m (base + 1)"
        using 7(2) [OF Some False refl m(1)] by simp
      moreover have "children_ok (child_sections (after_lede ?body) h (base + 1)) (m + 1) ?fin (base + 1)"
        using 7(3) [OF Some False refl m(2)] by simp
      ultimately have inner: "children_ok (promoted (lede ?body) (base + 2) @
          child_sections (after_lede ?body) h (base + 1)) (bk_end b + 1) ?fin (base + 1)"
        by (rule children_ok_append)
      have b: "bk_start b \<le> bk_end b" "1 \<le> bk_start b" using 7(5) by (cases b; auto)+
      have "bk_end b \<le> ?fin" using blocks_ok_bound [OF body] by simp
      with inner b have "node_ok (Node (bk_start b) ?fin (base + 1) (promoted (lede ?body) (base + 2) @
          child_sections (after_lede ?body) h (base + 1)))"
        by (auto intro: children_ok_mono)
      with 7(4) [OF Some False refl split(2)] 7(5) Some False show ?thesis by (simp add: Let_def)
    qed (use Some blocks_ok_bound [OF 7(5)] in simp)
  qed
next
  case (8 bs base)
  have "blocks_ok (after_title bs) cur e"
    using 8(3) by (cases bs; cases "hd bs") (auto simp: after_title_def intro: blocks_ok_mono)
  then have ok: "blocks_ok (lede (after_title bs) @ after_lede (after_title bs)) cur e" by simp
  obtain m where m: "blocks_ok (lede (after_title bs)) cur m" "blocks_ok (after_lede (after_title bs)) (m + 1) e"
    using blocks_ok_append [OF ok 8(4)] by auto
  have "children_ok (promoted (lede (after_title bs)) (base + 1)) cur m base" using 8(1) m(1) 8(4) by simp
  moreover have "children_ok (child_sections (after_lede (after_title bs)) 0 base) (m + 1) e base"
    using 8(2) m(2) by simp
  ultimately show ?case by (simp add: children_ok_append)
qed auto

lemma content_root_ok:
  assumes "lines_promised parse" "ls \<noteq> []"
  shows "node_ok (content_root parse ls file_path) \<and> cn_start (content_root parse ls file_path) = 1 \<and>
    cn_end (content_root parse ls file_path) = length ls"
proof (cases "detect_content_format file_path")
  case Markdown
  define ts where "ts = parse (let text = py_join [CHR 0x0A] ls
                         in if py_endswith text [CHR 0x0A] then text else text @ [CHR 0x0A])"
  have "1 \<le> length ls" using assms(2) by (cases ls) auto
  moreover have "tokens_ok ts 1 (length ls)" using assms by (simp add: lines_promised_def ts_def)
  ultimately have "children_ok (document_children (annotate_children ts (length ls)) 0) 1 (length ls) 0"
    using annotate_ok [of ts 1 "length ls"] by (intro sections_nest(5)) auto
  moreover have "content_root parse ls file_path =
      Node 1 (length ls) 0 (document_children (annotate_children ts (length ls)) 0)"
    using Markdown assms(2) by (simp add: content_root_def build_markdown_hierarchy_def ts_def Let_def)
  ultimately show ?thesis using \<open>1 \<le> length ls\<close> by simp
next
  case Indentation
  have "compute_depths ls \<noteq> []" using assms(2) length_compute_depths [of ls] by fastforce
  from build_hierarchy_ok [OF this] Indentation show ?thesis by (simp add: content_root_def)
qed

text \<open>C28: The spans of an outline follow each other without gap or overlap from the first line of
  the file to the last, and showing them takes at most the budget of lines; one line more
  only when not even the outermost level fits, and the file is cut off at the budget.\<close>

theorem outline_tiles_the_file:
  assumes "lines_promised parse" "ls \<noteq> []" "1 \<le> budget"
  shows "tiles (compute_outline_spans parse ls budget file_path) 1 (length ls) \<and>
    (output_total (compute_outline_spans parse ls budget file_path) \<le> budget \<or>
     budget < output_total (build_spans (content_root parse ls file_path) (cn_depth (content_root parse ls file_path))) \<and>
     compute_outline_spans parse ls budget file_path = [Span 1 budget True, Span (budget + 1) (length ls) False])"
  using compute_collapse_tile [of "content_root parse ls file_path" budget]
    compute_collapse_output [of "content_root parse ls file_path" budget]
    content_root_ok [OF assms(1,2), of file_path] assms(3)
  by (simp add: compute_outline_spans_def)

text \<open>A parser that finds one title.\<close>

definition section_parser :: md_parser where
  "section_parser text = [Token (MdHeading 1) (Some 1) []]"

lemma section_parser_promise: "lines_promised section_parser"
proof -
  have "1 \<le> length ls" if "ls \<noteq> []" for ls :: "string list" using that by (cases ls) auto
  then show ?thesis by (simp add: lines_promised_def section_parser_def)
qed

theorem outline_tiles_the_file_witness:
  "tiles (compute_outline_spans section_parser (replicate 9 ''text'') 4 (Some ''a.md'')) 1 9"
  using outline_tiles_the_file [OF section_parser_promise, of "replicate 9 ''text''" 4 "Some ''a.md''"] by simp

text \<open>When not even the outermost level fits, one line more than the budget is shown.\<close>

lemma flat_file_exceeds_budget:
  "output_total (compute_outline_spans parse (replicate 9 ''x'') 4 None) = 5"
  unfolding compute_outline_spans_def content_root_def by code_simp

end
