(* ===== verification/File_Tools.thy ===== *)
theory File_Tools
  imports File_Access Edit_Provenance Outline_Markdown Storage
begin

text \<open>
  The file tools of an agent under its access policy (\<open>src/thorn/core/_tools.py\<close> and the
  resolution of paths in \<open>src/thorn/core/_context.py\<close>). The disk is a tree of directories and
  files; where symbolic links are and where they lead is fixed by the environment. Glob and
  fnmatch patterns, compiled searches and text comparison are parameters.
\<close>

section \<open>The disk\<close>

datatype file_data = Text string | Undecodable

record disk =
  dk_files :: "(path \<times> file_data) list"
  dk_dirs :: "path list"

record tools_env =
  te_access :: access_env
  te_policy :: "access_policy option"
  te_workspace :: "path option"
  te_home :: "path option"
  te_cwd :: path
  te_expanduser :: "string \<Rightarrow> string"
  te_links :: "path list"
  te_parser :: md_parser
  te_differ :: differ
  te_glob :: "string \<Rightarrow> path \<Rightarrow> bool"
  te_fnmatch :: "string \<Rightarrow> string \<Rightarrow> bool"
  te_compile :: "string \<Rightarrow> bool \<Rightarrow> bool \<Rightarrow> (string \<Rightarrow> bool) result"

definition is_file :: "tools_env \<Rightarrow> disk \<Rightarrow> path \<Rightarrow> bool" where
  "is_file env d p = (map_of (dk_files d) (ae_resolve (te_access env) p) \<noteq> None)"

definition is_dir :: "tools_env \<Rightarrow> disk \<Rightarrow> path \<Rightarrow> bool" where
  "is_dir env d p = (ae_resolve (te_access env) p = [] \<or> ae_resolve (te_access env) p \<in> set (dk_dirs d))"

definition exists_path :: "tools_env \<Rightarrow> disk \<Rightarrow> path \<Rightarrow> bool" where
  "exists_path env d p = (is_file env d p \<or> is_dir env d p)"

definition read_text :: "tools_env \<Rightarrow> disk \<Rightarrow> path \<Rightarrow> string result" where
  "read_text env d p =
     (case map_of (dk_files d) (ae_resolve (te_access env) p) of
        None \<Rightarrow> Inl (OSError ''no such file'')
      | Some Undecodable \<Rightarrow> Inl (ValueError ''UnicodeDecodeError'')
      | Some (Text t) \<Rightarrow> Inr (universal_newlines t))"

definition entries_of :: "tools_env \<Rightarrow> disk \<Rightarrow> path list" where
  "entries_of env d = map fst (dk_files d) @ dk_dirs d @ te_links env"

text \<open>\<open>sorted(p.iterdir())\<close> as names, and every entry below a directory, sorted.\<close>

definition children_of :: "tools_env \<Rightarrow> disk \<Rightarrow> path \<Rightarrow> string list" where
  "children_of env d p =
     (let r = ae_resolve (te_access env) p
      in sort (remdups (map last (filter (\<lambda>q. q \<noteq> [] \<and> butlast q = r) (entries_of env d)))))"

definition entries_below :: "tools_env \<Rightarrow> disk \<Rightarrow> path \<Rightarrow> path list" where
  "entries_below env d p =
     sort (remdups (filter (\<lambda>q. q \<noteq> p \<and> path_below q p \<noteq> None) (entries_of env d)))"

section \<open>Paths and access\<close>

definition join_path :: "path \<Rightarrow> string \<Rightarrow> path" where
  "join_path base s = (if is_absolute s then path_parts s else base @ path_parts s)"

definition resolve_path :: "tools_env \<Rightarrow> string \<Rightarrow> path" where
  "resolve_path env raw =
     (let r = ae_resolve (te_access env);
          tilde = (raw = ''~'' \<or> py_startswith raw ''~/'')
      in case (if tilde then te_home env else None) of
           Some home \<Rightarrow> if raw = ''~'' then r home else r (join_path home (drop 2 raw))
         | None \<Rightarrow>
             (let s = (if tilde then te_expanduser env raw else raw) in
              if is_absolute s then r (path_parts s)
              else (case te_workspace env of
                  Some ws \<Rightarrow> r (ws @ path_parts s)
                | None \<Rightarrow> r (te_cwd env @ path_parts s))))"

text \<open>The level the policy gives a path; without a policy or a workspace there is no limit.\<close>

definition level_of :: "tools_env \<Rightarrow> path \<Rightarrow> access_level" where
  "level_of env p =
     (case te_policy env of
        None \<Rightarrow> Writable
      | Some pol \<Rightarrow>
          (case te_workspace env of
             None \<Rightarrow> Writable
           | Some _ \<Rightarrow> check (te_access env) pol (ae_resolve (te_access env) p)))"

definition enforce_access :: "tools_env \<Rightarrow> path \<Rightarrow> access_level \<Rightarrow> unit result" where
  "enforce_access env p required =
     (if level_of env p < required then Inl (OSError ''PermissionError'') else Inr ())"

definition check_read_access :: "tools_env \<Rightarrow> path \<Rightarrow> bool" where
  "check_read_access env p = (level_of env p \<ge> Readable)"

definition apply_listing_filter :: "tools_env \<Rightarrow> string list \<Rightarrow> path \<Rightarrow> string list" where
  "apply_listing_filter env names p =
     (case te_policy env of
        None \<Rightarrow> names
      | Some pol \<Rightarrow>
          (case te_workspace env of
             None \<Rightarrow> names
           | Some _ \<Rightarrow> filter_listing (te_access env) pol names (ae_resolve (te_access env) p)))"

section \<open>Reading\<close>

definition max_read_lines :: nat where "max_read_lines = 500"
definition max_read_chars :: nat where "max_read_chars = 50000"
definition outline_threshold :: nat where "outline_threshold = 200"
definition max_search_matches :: nat where "max_search_matches = 100"
definition max_search_chars :: nat where "max_search_chars = 50000"
definition max_find_results :: nat where "max_find_results = 200"
definition max_list_entries :: nat where "max_list_entries = 200"

definition lf :: string where "lf = [CHR 0x0A]"

definition quoted :: "string \<Rightarrow> string" where
  "quoted s = [CHR 0x22] @ s @ [CHR 0x22]"

fun number_lines :: "nat \<Rightarrow> nat \<Rightarrow> string list \<Rightarrow> string list" where
  "number_lines w n [] = []"
| "number_lines w n (l # ls) = (pad_left w (show_nat n) @ ''| '' @ l) # number_lines w (n + 1) ls"

definition format_lines :: "string list \<Rightarrow> nat \<Rightarrow> nat option \<Rightarrow> string" where
  "format_lines ls first width =
     (let w = (case width of Some w \<Rightarrow> w | None \<Rightarrow> max (length (show_nat (first + length ls - 1))) 1)
      in py_join lf (number_lines w first ls))"

text \<open>\<open>xs[:k]\<close> for any integer.\<close>

definition py_take :: "int \<Rightarrow> 'a list \<Rightarrow> 'a list" where
  "py_take k xs = (if k \<ge> 0 then take (nat k) xs else take (nat (int (length xs) + k)) xs)"

text \<open>How many of the lines fit: at least one where there is one.\<close>

fun char_cap :: "nat \<Rightarrow> nat \<Rightarrow> string list \<Rightarrow> nat" where
  "char_cap count i [] = i"
| "char_cap count i (l # ls) =
     (let count' = count + length l + 1
      in if count' > max_read_chars then max i 1 else char_cap count' (i + 1) ls)"

definition read_file :: "tools_env \<Rightarrow> string \<Rightarrow> int \<Rightarrow> int option \<Rightarrow> disk \<Rightarrow> string result" where
  "read_file env path offset limit d =
     (let p = resolve_path env path in
      rbind (enforce_access env p Readable) (\<lambda>_.
        if \<not> is_file env d p then Inl (OSError ''FileNotFoundError'')
        else rbind (read_text env d p) (\<lambda>text.
          let ls = py_splitlines text; n = length ls in
          if offset = 1 \<and> limit = None \<and> n > outline_threshold
          then Inr (outline_and_format (te_parser env) ls outline_threshold max_read_chars (Some path))
          else (let start = nat (max (offset - 1) 0) in
            if start \<ge> n
            then Inr (''[No content: offset '' @ show_int offset @ '' is past end of file ('' @ show_nat n @ '' lines).]'')
            else (let available = drop start ls;
                      requested = (case limit of None \<Rightarrow> int (length available) | Some k \<Rightarrow> min (int (length available)) k);
                      capped = py_take (min requested (int max_read_lines)) available;
                      selected = take (char_cap 0 0 capped) capped;
                      body = format_lines selected (start + 1) None
                  in Inr (if length selected < length available
                          then body @ lf @ ''[Truncated: showing lines '' @ show_nat (start + 1) @ ''-'' @
                            show_nat (start + length selected) @ '' of '' @ show_nat n @
                            '' total. Use offset/limit to read more.]''
                          else body))))))"

section \<open>Editing\<close>

definition edit_context_lines :: nat where "edit_context_lines = 4"

record file_edit =
  ed_old :: string
  ed_new :: string

definition newlines :: "string \<Rightarrow> nat" where
  "newlines s = length (filter (\<lambda>c. c = CHR 0x0A) s)"

text \<open>A region of an earlier edit that lies below this one moves with the lines added or removed.\<close>

definition shift_region :: "nat \<Rightarrow> nat \<Rightarrow> nat \<Rightarrow> nat \<times> nat \<Rightarrow> nat \<times> nat" where
  "shift_region start old_lines new_lines r =
     (if new_lines \<noteq> old_lines \<and> fst r > start + old_lines
      then (fst r + new_lines - old_lines, snd r + new_lines - old_lines) else r)"

fun apply_file_edits :: "string \<Rightarrow> file_edit list \<Rightarrow> (nat \<times> nat) list \<Rightarrow> (string \<times> (nat \<times> nat) list) result" where
  "apply_file_edits content [] regions = Inr (content, regions)"
| "apply_file_edits content (e # es) regions =
     (if ed_old e = [] then Inl (ValueError ''old_string must not be empty'')
      else if py_count (ed_old e) content = 0 then Inl (ValueError ''old_string not found'')
      else if py_count (ed_old e) content > 1 then Inl (ValueError ''old_string has several matches'')
      else (case py_find (ed_old e) content of
          None \<Rightarrow> Inl (ValueError ''substring not found'')
        | Some pos \<Rightarrow>
            (let start = newlines (take pos content) + 1
             in apply_file_edits (take pos content @ ed_new e @ drop (pos + length (ed_old e)) content) es
                  (map (shift_region start (newlines (ed_old e)) (newlines (ed_new e))) regions @
                   [(start, start + newlines (ed_new e))]))))"

definition format_file_result :: "string list \<Rightarrow> (nat \<times> nat) list \<Rightarrow> nat list \<Rightarrow> string" where
  "format_file_result ls regions required =
     (if ls = [] then ''[empty file]''
      else format_outline ls max_read_chars None required (spans_for_regions (length ls) regions edit_context_lines))"

definition write_file :: "path \<Rightarrow> string \<Rightarrow> disk \<Rightarrow> disk" where
  "write_file p text d = d\<lparr>dk_files := dict_set p (Text text) (dk_files d)\<rparr>"

definition edit_file :: "tools_env \<Rightarrow> string \<Rightarrow> file_edit list \<Rightarrow> (disk, string) eff" where
  "edit_file env path edits d =
     (let p = resolve_path env path in
      case rbind (enforce_access env p Writable) (\<lambda>_.
             if \<not> is_file env d p then Inl (OSError ''FileNotFoundError'') else read_text env d p) of
        Inl e \<Rightarrow> (Inl e, d)
      | Inr content \<Rightarrow>
          if edits = []
          then (Inr (''No edits to apply. '' @ path @ '' is unchanged ('' @
            show_nat (length (py_splitlines content)) @ '' lines).''), d)
          else (case apply_file_edits content edits [] of
              Inl e \<Rightarrow> (Inl e, d)
            | Inr (edited, regions) \<Rightarrow>
                (rbind (provenance_between (te_differ env) content edited) (\<lambda>prov.
                   Inr (''Applied '' @ show_nat (length edits) @ '' edit(s) to '' @ path @ ''.'' @ lf @
                     render_result_line prov @ lf @
                     format_file_result (py_splitlines edited) regions (required_line_numbers prov))),
                 write_file (ae_resolve (te_access env) p) edited d)))"

section \<open>Creating, deleting and moving\<close>

text \<open>\<open>p.parent.mkdir(parents=True, exist_ok=True)\<close>: fails where a parent is a file.\<close>

definition make_parents :: "path \<Rightarrow> (disk, unit) eff" where
  "make_parents p d =
     (if list_ex (\<lambda>q. map_of (dk_files d) q \<noteq> None) (prefixes (butlast p))
      then (Inl (OSError ''NotADirectoryError''), d)
      else (Inr (), d\<lparr>dk_dirs := mkdir_parents (butlast p) (dk_dirs d)\<rparr>))"

definition created_text :: "tools_env \<Rightarrow> string \<Rightarrow> string \<Rightarrow> string" where
  "created_text env path content =
     (let ls = py_splitlines content;
          header = ''Created '' @ path @ '' ('' @ show_nat (length ls) @ '' lines).'' in
      if ls = [] then header
      else if length ls \<le> outline_threshold then header @ lf @ format_lines ls 1 None
      else header @ lf @ outline_and_format (te_parser env) ls outline_threshold max_read_chars (Some path))"

definition create_file :: "tools_env \<Rightarrow> string \<Rightarrow> string \<Rightarrow> (disk, string) eff" where
  "create_file env path content =
     (let p = resolve_path env path in
      ebind (elift (enforce_access env p Writable)) (\<lambda>_.
      ebind (eread (\<lambda>d. if exists_path env d p then Inl (OSError ''FileExistsError'') else Inr ())) (\<lambda>_.
      ebind (make_parents p) (\<lambda>_.
      ebind (eupdate (write_file p content)) (\<lambda>_. eret (created_text env path content))))))"

definition delete_file :: "tools_env \<Rightarrow> string \<Rightarrow> (disk, string) eff" where
  "delete_file env path =
     (let p = resolve_path env path in
      ebind (elift (enforce_access env p Writable)) (\<lambda>_.
      ebind (eread (\<lambda>d. if \<not> exists_path env d p then Inl (OSError ''FileNotFoundError'')
                        else if is_dir env d p then Inl (OSError ''IsADirectoryError'') else Inr ())) (\<lambda>_.
      ebind (eupdate (\<lambda>d. d\<lparr>dk_files := dict_del p (dk_files d)\<rparr>)) (\<lambda>_.
      eret (''Deleted '' @ path @ ''.'')))))"

text \<open>A space, the three UTF-8 bytes of the arrow in the message, and a space.\<close>

definition arrow :: string where
  "arrow = [CHR 0x20, CHR 0xE2, CHR 0x86, CHR 0x92, CHR 0x20]"

definition rebase :: "path \<Rightarrow> path \<Rightarrow> path \<Rightarrow> path" where
  "rebase src dst q = (case path_below q src of None \<Rightarrow> q | Some rel \<Rightarrow> dst @ rel)"

text \<open>\<open>shutil.move\<close> to a path that does not exist: the file or the whole tree.\<close>

definition move_tree :: "path \<Rightarrow> path \<Rightarrow> (disk, unit) eff" where
  "move_tree src dst d =
     (if path_below dst src \<noteq> None then (Inl (OSError ''cannot move a directory into itself''), d)
      else (Inr (), d\<lparr>dk_files := map (\<lambda>(q, c). (rebase src dst q, c)) (dk_files d),
                     dk_dirs := map (rebase src dst) (dk_dirs d)\<rparr>))"

definition move_file :: "tools_env \<Rightarrow> string \<Rightarrow> string \<Rightarrow> (disk, string) eff" where
  "move_file env source destination =
     (let src = resolve_path env source; dst = resolve_path env destination in
      ebind (elift (enforce_access env src Writable)) (\<lambda>_.
      ebind (elift (enforce_access env dst Writable)) (\<lambda>_.
      ebind (eread (\<lambda>d. if \<not> exists_path env d src then Inl (OSError ''FileNotFoundError'')
                        else if exists_path env d dst then Inl (OSError ''FileExistsError'') else Inr ())) (\<lambda>_.
      ebind (make_parents dst) (\<lambda>_.
      ebind (move_tree src dst) (\<lambda>_.
      eret (''Moved '' @ source @ arrow @ destination @ ''.'')))))))"

section \<open>Listing and finding\<close>

text \<open>The walk below a directory, with the depth that is left; the pair is the lines so far and
  whether they have reached the limit.\<close>

fun walk_dir :: "tools_env \<Rightarrow> disk \<Rightarrow> nat \<Rightarrow> path \<Rightarrow> string \<Rightarrow> string list \<times> bool \<Rightarrow> string list \<times> bool" where
  "walk_dir env d 0 p indent st = st"
| "walk_dir env d (Suc depth) p indent st =
     (if snd st then st
      else fold (\<lambda>name st.
          if snd st then st
          else if \<not> check_read_access env (p @ [name]) then st
          else (let dir = is_dir env d (p @ [name]);
                    ls = fst st @ [indent @ name @ (if dir then ''/'' else [])]
                in if length ls \<ge> max_list_entries then (ls, True)
                   else if dir then walk_dir env d depth (p @ [name]) (indent @ ''  '') (ls, False)
                   else (ls, False)))
        (children_of env d p) st)"

definition list_recursive :: "tools_env \<Rightarrow> disk \<Rightarrow> path \<Rightarrow> int \<Rightarrow> string" where
  "list_recursive env d root max_depth =
     (case walk_dir env d (nat max_depth) root [] ([], False) of
        (ls, truncated) \<Rightarrow>
          if ls = [] then ''[empty directory]''
          else py_join lf ls @
            (if truncated
             then lf @ ''['' @ show_nat max_list_entries @ '' entries shown. Use find_files for pattern-based search.]''
             else []))"

definition list_directory :: "tools_env \<Rightarrow> string \<Rightarrow> bool \<Rightarrow> int \<Rightarrow> disk \<Rightarrow> string result" where
  "list_directory env path recursive max_depth d =
     (let p = resolve_path env path in
      rbind (enforce_access env p Readable) (\<lambda>_.
        if \<not> is_dir env d p then Inl (OSError ''NotADirectoryError'')
        else if recursive then Inr (list_recursive env d p max_depth)
        else (let names = apply_listing_filter env (children_of env d p) p;
                  formatted = map (\<lambda>n. if is_dir env d (p @ [n]) then n @ ''/'' else n) names
              in Inr (if formatted = [] then ''[empty directory]''
                      else if length formatted > max_list_entries
                      then py_join lf (take max_list_entries formatted) @ lf @ ''['' @ show_nat (length formatted) @
                        '' entries total, showing first '' @ show_nat max_list_entries @
                        ''. Use find_files for pattern-based search.]''
                      else py_join lf formatted))))"

datatype entry_type = OnlyFiles | OnlyDirectories

definition wanted_entry :: "tools_env \<Rightarrow> disk \<Rightarrow> entry_type option \<Rightarrow> path \<Rightarrow> bool" where
  "wanted_entry env d ty q =
     ((ty = Some OnlyFiles \<longrightarrow> is_file env d q) \<and> (ty = Some OnlyDirectories \<longrightarrow> is_dir env d q) \<and>
      check_read_access env q)"

definition find_files :: "tools_env \<Rightarrow> string \<Rightarrow> string \<Rightarrow> entry_type option \<Rightarrow> disk \<Rightarrow> string result" where
  "find_files env pattern path ty d =
     (let p = resolve_path env path in
      rbind (enforce_access env p Readable) (\<lambda>_.
        if \<not> is_dir env d p then Inl (OSError ''NotADirectoryError'')
        else (let found = filter (\<lambda>q. te_glob env pattern (drop (length p) q)) (p # entries_below env d p);
                  matches = take max_find_results (map (\<lambda>q. posix_text (drop (length p) q) @
                    (if is_dir env d q then ''/'' else [])) (filter (wanted_entry env d ty) found))
              in Inr (if matches = [] then ''No matches for pattern '' @ quoted pattern @ '' in '' @ path @ ''.''
                      else py_join lf matches @
                        (if length matches \<ge> max_find_results
                         then lf @ ''[Results capped at '' @ show_nat max_find_results @
                           ''. Narrow your pattern to see more.]''
                         else [])))))"

section \<open>Searching\<close>

fun merge_ranges :: "nat \<Rightarrow> nat \<Rightarrow> nat list \<Rightarrow> (nat \<times> nat) list \<Rightarrow> (nat \<times> nat) list" where
  "merge_ranges n context [] ranges = ranges"
| "merge_ranges n context (i # is) ranges =
     (let s = i - context; e = min (n - 1) (i + context)
      in merge_ranges n context is
           (if ranges \<noteq> [] \<and> s \<le> snd (last ranges) + 1
            then butlast ranges @ [(fst (last ranges), e)] else ranges @ [(s, e)]))"

definition collect_match_groups :: "string list \<Rightarrow> nat list \<Rightarrow> nat \<Rightarrow> (nat \<times> string list) list" where
  "collect_match_groups ls indices context =
     map (\<lambda>(s, e). (s + 1, take (e + 1 - s) (drop s ls))) (merge_ranges (length ls) context indices [])"

definition match_indices :: "(string \<Rightarrow> bool) \<Rightarrow> string list \<Rightarrow> nat list" where
  "match_indices matcher ls = map fst (filter (\<lambda>(i, l). matcher l) (enumerate 0 ls))"

definition search_single_file ::
    "tools_env \<Rightarrow> disk \<Rightarrow> path \<Rightarrow> (string \<Rightarrow> bool) \<Rightarrow> nat \<Rightarrow> nat \<times> (nat \<times> string list) list" where
  "search_single_file env d p matcher context =
     (case read_text env d p of
        Inl _ \<Rightarrow> (0, [])
      | Inr text \<Rightarrow>
          (let ls = py_splitlines text; indices = match_indices matcher ls
           in if indices = [] then (0, []) else (length indices, collect_match_groups ls indices context)))"

definition format_file_matches :: "string \<Rightarrow> (nat \<times> string list) list \<Rightarrow> string" where
  "format_file_matches name groups =
     (let biggest = fold max (map (\<lambda>(s, ls). s + length ls - 1) groups) 0;
          width = max (length (show_nat biggest)) 1
      in py_join lf (name # concat (map (\<lambda>(i, s, ls). (if i > 0 then [''--''] else []) @ [format_lines ls s (Some width)])
           (enumerate 0 groups))))"

record search_state =
  se_parts :: "string list"
  se_shown :: nat
  se_total :: nat
  se_files :: nat
  se_chars :: nat
  se_truncated :: bool

definition absolute_text :: "path \<Rightarrow> string" where
  "absolute_text p = ''/'' @ py_join ''/'' p"

definition search_step ::
    "tools_env \<Rightarrow> disk \<Rightarrow> (string \<Rightarrow> bool) \<Rightarrow> nat \<Rightarrow> path \<Rightarrow> search_state \<Rightarrow> search_state" where
  "search_step env d matcher context f st =
     (case search_single_file env d f matcher context of (count, groups) \<Rightarrow>
        if count = 0 then st
        else (let st = st\<lparr>se_total := se_total st + count, se_files := se_files st + 1\<rparr> in
          if se_truncated st then st
          else (let formatted = format_file_matches (absolute_text f @ '':'') groups in
            if se_parts st \<noteq> [] \<and> (se_shown st + count > max_search_matches \<or>
                                se_chars st + length formatted > max_search_chars)
            then st\<lparr>se_truncated := True\<rparr>
            else st\<lparr>se_parts := se_parts st @ [formatted], se_shown := se_shown st + count,
                    se_chars := se_chars st + length formatted\<rparr>)))"

definition search_targets :: "tools_env \<Rightarrow> disk \<Rightarrow> path \<Rightarrow> string option \<Rightarrow> path list" where
  "search_targets env d p glob =
     filter (\<lambda>f. is_file env d f \<and>
         (case glob of None \<Rightarrow> True | Some g \<Rightarrow> te_fnmatch env (posix_text (drop (length p) f)) g) \<and>
         check_read_access env f)
       (entries_below env d p)"

definition search_files ::
    "tools_env \<Rightarrow> string \<Rightarrow> string \<Rightarrow> string option \<Rightarrow> bool \<Rightarrow> bool \<Rightarrow> nat \<Rightarrow> disk \<Rightarrow> string result" where
  "search_files env pattern path glob use_regex ignore_case context d =
     rbind (te_compile env pattern use_regex ignore_case) (\<lambda>matcher.
       let p = resolve_path env path;
           no_match = ''No matches found for '' @ quoted pattern @ '' in '' @ path @ ''.'' in
       if is_file env d p
       then rbind (enforce_access env p Readable) (\<lambda>_.
         case search_single_file env d p matcher context of (count, groups) \<Rightarrow>
           Inr (if count = 0 then no_match else format_file_matches (path @ '':'') groups))
       else if \<not> is_dir env d p then Inl (OSError ''FileNotFoundError'')
       else rbind (enforce_access env p Readable) (\<lambda>_.
         let st = fold (search_step env d matcher context) (search_targets env d p glob)
               \<lparr>se_parts = [], se_shown = 0, se_total = 0, se_files = 0, se_chars = 0, se_truncated = False\<rparr>
         in Inr (if se_parts st = [] then no_match
                 else py_join (lf @ lf) (se_parts st) @
                   (if se_truncated st
                    then lf @ lf @ ''[Truncated: showing '' @ show_nat (se_shown st) @ '' of '' @ show_nat (se_total st) @
                      '' total matches across '' @ show_nat (se_files st) @
                      '' files. Narrow your pattern or use the glob parameter to filter files.]''
                    else []))))"


section \<open>A workspace with a secret\<close>

definition example_tools :: tools_env where
  "example_tools = \<lparr>te_access = example_access,
     te_policy = Some (session_policy example_access default_file_access (Some [''w'']) None
       (load_global_ignores example_access [''w''] (Some ''.env'') None)),
     te_workspace = Some [''w''], te_home = None, te_cwd = [], te_expanduser = (\<lambda>s. s), te_links = [],
     te_parser = section_parser, te_differ = whole_differ, te_glob = (\<lambda>_ _. True), te_fnmatch = (\<lambda>_ _. True),
     te_compile = (\<lambda>s _ _. Inr (\<lambda>l. py_find s l \<noteq> None))\<rparr>"

definition example_disk :: "string \<Rightarrow> disk" where
  "example_disk secret = \<lparr>dk_files = [([''w'', ''a''], Text ''one''), ([''w'', ''.env''], Text secret)], dk_dirs = [[''w'']]\<rparr>"

lemma example_tools_resolve [simp]: "ae_resolve (te_access example_tools) p = p"
  by (simp add: example_tools_def example_access_def)

lemma example_tools_resolving: "resolving (te_access example_tools)"
  by (simp add: resolving_def)

lemma example_levels:
  "resolve_path example_tools ''a'' = [''w'', ''a'']"
  "level_of example_tools [''w'', ''a''] = Writable"
  "level_of example_tools [''w'', ''.env''] = Hidden"
  by code_simp+

end
