(* ===== verification/File_Safety.thy ===== *)
theory File_Safety
  imports File_Tools
begin

text \<open>
  What the file tools keep and promise: the disk stays a tree, nothing changes that the policy
  does not let the agent write, and nothing that is answered depends on what it may not read.
\<close>

lemma below_writable [simp]: "a < Writable \<longleftrightarrow> a \<noteq> Writable"
  by (cases a) (simp_all add: less_access_level_def)

section \<open>Calls\<close>

datatype file_call =
    ReadCall string int "int option"
  | EditCall string "file_edit list"
  | CreateCall string string
  | DeleteCall string
  | MoveCall string string
  | ListCall string bool int
  | FindCall string string "entry_type option"
  | SearchCall string string "string option" bool bool nat

fun run_call :: "tools_env \<Rightarrow> file_call \<Rightarrow> (disk, string) eff" where
  "run_call env (ReadCall p a l) = eread (read_file env p a l)"
| "run_call env (EditCall p es) = edit_file env p es"
| "run_call env (CreateCall p c) = create_file env p c"
| "run_call env (DeleteCall p) = delete_file env p"
| "run_call env (MoveCall p q) = move_file env p q"
| "run_call env (ListCall p r m) = eread (list_directory env p r m)"
| "run_call env (FindCall g p t) = eread (find_files env g p t)"
| "run_call env (SearchCall s p g x c k) = eread (search_files env s p g x c k)"

section \<open>The tree\<close>

definition disk_ok :: "disk \<Rightarrow> bool" where
  "disk_ok d \<longleftrightarrow>
     distinct (map fst (dk_files d)) \<and>
     set (map fst (dk_files d)) \<inter> set (dk_dirs d) = {} \<and>
     (\<forall>q \<in> set (map fst (dk_files d)) \<union> set (dk_dirs d). q \<noteq> [] \<and> (butlast q = [] \<or> butlast q \<in> set (dk_dirs d)))"

definition tree :: "disk \<Rightarrow> path set" where
  "tree d = set (map fst (dk_files d)) \<union> set (dk_dirs d)"

lemma path_below_iff: "path_below q src \<noteq> None \<longleftrightarrow> prefix src q"
  by (auto simp: path_below_def prefix_def) (metis append_eq_conv_conj append_take_drop_id)

lemma path_below_append [simp]: "path_below (src @ rel) src = Some rel"
  by (simp add: path_below_def)

lemma rebase_below [simp]: "rebase src dst (src @ rel) = dst @ rel"
  by (simp add: rebase_def)

lemma rebase_self [simp]: "rebase src dst src = dst"
  using rebase_below [of src dst "[]"] by simp

lemma rebase_other: "\<not> prefix src q \<Longrightarrow> rebase src dst q = q"
  using path_below_iff [of q src] by (simp add: rebase_def)

lemma above_is_directory:
  assumes "disk_ok d" "q \<in> tree d" "prefix p q" "p \<noteq> q" "p \<noteq> []"
  shows "p \<in> set (dk_dirs d)"
  using assms(2-)
proof (induction "length q" arbitrary: q rule: less_induct)
  case less
  from less.prems assms(1) have q: "q \<noteq> []" "butlast q = [] \<or> butlast q \<in> set (dk_dirs d)"
    by (auto simp: disk_ok_def tree_def)
  have below: "prefix p (butlast q)"
    using less.prems(2,3) by (metis append_butlast_last_id prefix_order.eq_iff prefix_snoc q(1))
  then have "butlast q \<noteq> []" using less.prems(4) by auto
  then have dir: "butlast q \<in> set (dk_dirs d)" using q(2) by blast
  show ?case
  proof (cases "p = butlast q")
    case False
    have "butlast q \<in> tree d" using dir by (simp add: tree_def)
    then show ?thesis using less.hyps [of "butlast q"] below False less.prems(4) q(1) by simp
  qed (use dir in simp)
qed

lemma nothing_below_file:
  assumes "disk_ok d" "p \<in> set (map fst (dk_files d))" "q \<in> tree d" "prefix p q"
  shows "q = p"
proof (rule ccontr)
  assume "q \<noteq> p"
  moreover have "p \<noteq> []" using assms(1,2) by (auto simp: disk_ok_def)
  ultimately have "p \<in> set (dk_dirs d)" using above_is_directory [OF assms(1,3,4)] by simp
  then show False using assms(1,2) by (auto simp: disk_ok_def)
qed

lemma nothing_below_missing:
  assumes "disk_ok d" "p \<notin> tree d" "p \<noteq> []" "q \<in> tree d"
  shows "\<not> prefix p q"
  using above_is_directory [OF assms(1,4), of p] assms(2-4) by (auto simp: tree_def)

section \<open>The disk stays a tree\<close>

lemma write_existing_ok:
  "disk_ok d \<Longrightarrow> p \<in> set (map fst (dk_files d)) \<Longrightarrow> disk_ok (write_file p t d)"
  by (auto simp: disk_ok_def write_file_def keys_dict_set distinct_dict_set)

lemma make_parents_ok:
  assumes "disk_ok d" "make_parents p d = (Inr (), d')"
  shows "disk_ok d'" "dk_files d' = dk_files d"
    "q \<in> set (dk_dirs d') \<longleftrightarrow> q \<in> set (dk_dirs d) \<or> q \<noteq> [] \<and> prefix q (butlast p)"
proof -
  from assms(2) have d': "d' = d\<lparr>dk_dirs := mkdir_parents (butlast p) (dk_dirs d)\<rparr>"
      and free: "\<forall>q. prefix q (butlast p) \<longrightarrow> map_of (dk_files d) q = None"
    by (auto simp: make_parents_def list_ex_iff split: if_splits)
  show "dk_files d' = dk_files d" by (simp add: d')
  have mem: "q \<in> set (dk_dirs d') \<longleftrightarrow> q \<in> set (dk_dirs d) \<or> q \<noteq> [] \<and> prefix q (butlast p)" for q
    by (auto simp: d' mem_mkdir_parents)
  then show "q \<in> set (dk_dirs d') \<longleftrightarrow> q \<in> set (dk_dirs d) \<or> q \<noteq> [] \<and> prefix q (butlast p)" .
  have "q \<notin> set (map fst (dk_files d))" if "prefix q (butlast p)" for q
    using free that by (simp add: map_of_eq_None_iff)
  moreover have "prefix (butlast q) (butlast p)" if "prefix q (butlast p)" for q
    using that prefix_order.trans [of "butlast q" q "butlast p"] prefixeq_butlast by blast
  ultimately show "disk_ok d'"
    using assms(1) unfolding disk_ok_def mem set_eq_iff by (auto simp: d' mem_mkdir_parents)
qed


lemma rebase_inj:
  assumes "disk_ok d" "dst \<notin> tree d" "dst \<noteq> []" "q1 \<in> tree d" "q2 \<in> tree d"
    "rebase src dst q1 = rebase src dst q2"
  shows "q1 = q2"
proof -
  have out: "\<not> prefix dst q" if "q \<in> tree d" for q
    by (rule nothing_below_missing [OF assms(1-3) that])
  show ?thesis
  proof (cases "prefix src q1"; cases "prefix src q2")
    assume "prefix src q1" "prefix src q2"
    then show ?thesis using assms(6) by (auto simp: prefix_def)
  next
    assume "prefix src q1" "\<not> prefix src q2"
    then show ?thesis using assms(6) out [OF assms(5)] by (auto simp: prefix_def rebase_other)
  next
    assume "\<not> prefix src q1" "prefix src q2"
    then show ?thesis using assms(6) out [OF assms(4)] by (auto simp: prefix_def rebase_other)
  next
    assume "\<not> prefix src q1" "\<not> prefix src q2"
    then show ?thesis using assms(6) by (simp add: rebase_other)
  qed
qed

lemma move_tree_ok:
  assumes ok: "disk_ok d" and new: "dst \<notin> tree d" "dst \<noteq> []"
    and parent: "butlast dst = [] \<or> butlast dst \<in> set (dk_dirs d)"
    and move: "move_tree src dst d = (Inr (), d')"
  shows "disk_ok d'"
proof -
  let ?r = "rebase src dst"
  have apart: "\<not> prefix src dst" and
      files: "map fst (dk_files d') = map ?r (map fst (dk_files d))" and dirs: "dk_dirs d' = map ?r (dk_dirs d)"
    using move path_below_iff [of dst src] by (auto simp: move_tree_def case_prod_beta split: if_splits)
  have inj: "inj_on ?r (tree d)" using rebase_inj [OF ok new] by (auto intro!: inj_onI)
  have src: "src \<noteq> []" using apart by auto
  have "distinct (map fst (dk_files d'))"
    using ok inj unfolding files distinct_map disk_ok_def
    by (auto simp: tree_def distinct_map inj_on_def)
  moreover have "set (map fst (dk_files d')) \<inter> set (dk_dirs d') = {}"
  proof -
    have "?r ` set (map fst (dk_files d)) \<inter> ?r ` set (dk_dirs d) = {}"
      using ok inj_on_image_Int [OF inj, of "set (map fst (dk_files d))" "set (dk_dirs d)"]
      by (simp add: tree_def disk_ok_def)
    then show ?thesis unfolding files dirs by (simp add: image_image)
  qed
  moreover have "?r q \<noteq> [] \<and> (butlast (?r q) = [] \<or> butlast (?r q) \<in> set (dk_dirs d'))" if q: "q \<in> tree d" for q
  proof -
    have qne: "q \<noteq> []" and up: "butlast q = [] \<or> butlast q \<in> set (dk_dirs d)"
      using ok q by (auto simp: disk_ok_def tree_def)
    have keep: "?r p = p" if "\<not> prefix src p" for p by (rule rebase_other [OF that])
    consider "q = src" | rel where "q = src @ rel" "rel \<noteq> []" | "\<not> prefix src q"
      by (auto simp: prefix_def)
    then show ?thesis
    proof cases
      case 1
      have "\<not> prefix src (butlast dst)" using apart prefix_order.trans prefixeq_butlast by blast
      then have "butlast dst \<in> set (dk_dirs d) \<Longrightarrow> butlast dst \<in> ?r ` set (dk_dirs d)"
        using keep by (metis imageI)
      with 1 parent new(2) show ?thesis by (auto simp: dirs)
    next
      case 2
      then have b: "butlast q = src @ butlast rel" by (simp add: butlast_append)
      with src up have "src @ butlast rel \<in> set (dk_dirs d)" by simp
      then have "dst @ butlast rel \<in> set (dk_dirs d')" by (metis dirs imageI rebase_below set_map)
      with 2 new(2) show ?thesis by (simp add: butlast_append)
    next
      case 3
      then have "\<not> prefix src (butlast q)" using prefix_order.trans prefixeq_butlast by blast
      with 3 up qne show ?thesis by (auto simp: keep dirs) (metis imageI keep)
    qed
  qed
  then have "\<forall>q \<in> set (map fst (dk_files d')) \<union> set (dk_dirs d').
      q \<noteq> [] \<and> (butlast q = [] \<or> butlast q \<in> set (dk_dirs d'))"
    unfolding files dirs by (auto simp: tree_def)
  ultimately show ?thesis by (simp add: disk_ok_def)
qed


lemma resolve_path_resolved:
  "resolving (te_access env) \<Longrightarrow> ae_resolve (te_access env) (resolve_path env raw) = resolve_path env raw"
  by (simp add: resolve_path_def resolving_def Let_def split: option.splits)

lemma exists_resolved:
  "ae_resolve (te_access env) p = p \<Longrightarrow> exists_path env d p \<longleftrightarrow> p \<in> tree d \<or> p = []"
  by (auto simp: exists_path_def is_file_def is_dir_def tree_def map_of_eq_None_iff)

lemma is_file_resolved:
  "ae_resolve (te_access env) p = p \<Longrightarrow> is_file env d p \<longleftrightarrow> p \<in> set (map fst (dk_files d))"
  by (simp add: is_file_def map_of_eq_None_iff)

lemma make_parents_parent:
  "make_parents p d = (Inr (), d') \<Longrightarrow> butlast p = [] \<or> butlast p \<in> set (dk_dirs d')"
  by (auto simp: make_parents_def mem_mkdir_parents split: if_splits)

lemma missing_after_parents:
  assumes "make_parents p d = (Inr (), d')" "p \<notin> tree d" "p \<noteq> []"
  shows "p \<notin> tree d'"
proof -
  have "\<not> prefix p (butlast p)" using assms(3)
    by (metis append_butlast_last_id not_Cons_self2 prefix_order.antisym prefixeq_butlast self_append_conv)
  then show ?thesis
    using assms(1,2) by (auto simp: make_parents_def mem_mkdir_parents tree_def split: if_splits)
qed

lemma make_parents_cases:
  obtains e where "make_parents p d = (Inl e, d)"
  | d' where "make_parents p d = (Inr (), d')"
  by (cases "make_parents p d") (auto simp: make_parents_def split: if_splits)

lemma edit_cases:
  obtains e where "edit_file env path edits d = (e, d)"
  | old new regions r where
      "is_file env d (resolve_path env path)" "level_of env (resolve_path env path) = Writable" "edits \<noteq> []"
      "read_text env d (resolve_path env path) = Inr old"
      "apply_file_edits old edits [] = Inr (new, regions)"
      "edit_file env path edits d = (r, write_file (ae_resolve (te_access env) (resolve_path env path)) new d)"
proof -
  let ?p = "resolve_path env path"
  show thesis
  proof (cases "level_of env ?p = Writable \<and> is_file env d ?p \<and> edits \<noteq> []")
    case False
    then have "\<exists>e. edit_file env path edits d = (e, d)"
      by (cases "read_text env d ?p") (auto simp: edit_file_def Let_def enforce_access_def)
    then show thesis using that(1) by blast
  next
    case True
    show thesis
    proof (cases "read_text env d ?p")
      case (Inl e)
      with True have "edit_file env path edits d = (Inl e, d)" by (simp add: edit_file_def enforce_access_def)
      then show thesis by (rule that(1))
    next
      case (Inr old)
      show thesis
      proof (cases "apply_file_edits old edits []")
        case (Inl e)
        with True Inr have "edit_file env path edits d = (Inl e, d)"
          by (simp add: edit_file_def enforce_access_def)
        then show thesis by (rule that(1))
      next
        case (Inr result)
        obtain new regions where "result = (new, regions)" by (cases result)
        with True \<open>read_text env d ?p = Inr old\<close> Inr show thesis
          by (intro that(2) [of old new regions]) (simp_all add: edit_file_def enforce_access_def)
      qed
    qed
  qed
qed

lemma create_cases:
  obtains e where "create_file env path content d = (Inl e, d)"
  | d' where "level_of env (resolve_path env path) = Writable" "\<not> exists_path env d (resolve_path env path)"
      "make_parents (resolve_path env path) d = (Inr (), d')"
      "create_file env path content d =
         (Inr (created_text env path content), write_file (resolve_path env path) content d')"
proof (cases "enforce_access env (resolve_path env path) Writable = Inr () \<and>
    \<not> exists_path env d (resolve_path env path)")
  case False
  then obtain e where "create_file env path content d = (Inl e, d)"
    by (cases "enforce_access env (resolve_path env path) Writable")
      (auto simp: create_file_def Let_def ebind_def)
  then show thesis by (rule that(1))
next
  case True
  then have level: "level_of env (resolve_path env path) = Writable"
    by (simp add: enforce_access_def not_less split: if_splits)
  show thesis
  proof (rule make_parents_cases [of "resolve_path env path" d])
    fix e assume "make_parents (resolve_path env path) d = (Inl e, d)"
    with True show thesis by (intro that(1) [of e]) (simp add: create_file_def Let_def ebind_def)
  next
    fix d' assume "make_parents (resolve_path env path) d = (Inr (), d')"
    with True level show thesis by (intro that(2) [of d']) (simp_all add: create_file_def Let_def ebind_def)
  qed
qed

lemma delete_cases:
  obtains e where "delete_file env path d = (Inl e, d)"
  | "level_of env (resolve_path env path) = Writable"
    "exists_path env d (resolve_path env path)" "\<not> is_dir env d (resolve_path env path)"
    "delete_file env path d =
       (Inr (''Deleted '' @ path @ ''.''), d\<lparr>dk_files := dict_del (resolve_path env path) (dk_files d)\<rparr>)"
  by (cases "level_of env (resolve_path env path) < Writable";
      cases "exists_path env d (resolve_path env path)"; cases "is_dir env d (resolve_path env path)")
    (auto simp: delete_file_def Let_def ebind_def enforce_access_def not_less)

lemma move_cases:
  obtains e d' where "move_file env source destination d = (Inl e, d')" "d' = d"
  | e d' where "make_parents (resolve_path env destination) d = (Inr (), d')"
      "move_file env source destination d = (Inl e, d')"
  | d' d'' where
      "level_of env (resolve_path env source) = Writable" "level_of env (resolve_path env destination) = Writable"
      "exists_path env d (resolve_path env source)" "\<not> exists_path env d (resolve_path env destination)"
      "make_parents (resolve_path env destination) d = (Inr (), d')"
      "move_tree (resolve_path env source) (resolve_path env destination) d' = (Inr (), d'')"
      "move_file env source destination d = (Inr (''Moved '' @ source @ arrow @ destination @ ''.''), d'')"
proof -
  let ?s = "resolve_path env source" and ?t = "resolve_path env destination"
  show thesis
  proof (cases "level_of env ?s = Writable \<and> level_of env ?t = Writable \<and> exists_path env d ?s \<and>
      \<not> exists_path env d ?t")
    case False
    then have "\<exists>e. move_file env source destination d = (Inl e, d)"
      by (auto simp: move_file_def Let_def ebind_def enforce_access_def not_le)
    then show thesis using that(1) by blast
  next
    case True
    show thesis
    proof (rule make_parents_cases [of ?t d])
      fix e assume "make_parents ?t d = (Inl e, d)"
      with True show thesis
        by (intro that(1) [of e d]) (simp_all add: move_file_def Let_def ebind_def enforce_access_def)
    next
      fix d' assume p: "make_parents ?t d = (Inr (), d')"
      show thesis
      proof (cases "path_below ?t ?s")
        case None
        define d'' where "d'' = snd (move_tree ?s ?t d')"
        have "move_tree ?s ?t d' = (Inr (), d'')" using None by (simp add: d''_def move_tree_def)
        with True p show thesis
          by (intro that(3) [of d' d'']) (simp_all add: move_file_def Let_def ebind_def enforce_access_def)
      next
        case (Some rel)
        then have "move_tree ?s ?t d' = (Inl (OSError ''cannot move a directory into itself''), d')"
          by (simp add: move_tree_def)
        with True p show thesis
          by (intro that(2)) (simp_all add: move_file_def Let_def ebind_def enforce_access_def)
      qed
    qed
  qed
qed

lemma run_call_ok:
  assumes "resolving (te_access env)" "disk_ok d"
  shows "disk_ok (snd (run_call env c d))"
proof -
  note res = resolve_path_resolved [OF assms(1)]
  show ?thesis
  proof (cases c)
    case (EditCall path es)
    have "disk_ok (snd (edit_file env path es d))"
      by (rule edit_cases [of env path es d])
        (simp_all add: assms(2) res is_file_resolved [OF res] write_existing_ok)
    then show ?thesis by (simp add: EditCall)
  next
    case (CreateCall path t)
    let ?p = "resolve_path env path"
    have "disk_ok (write_file ?p t d')" if "make_parents ?p d = (Inr (), d')" "?p \<notin> tree d" "?p \<noteq> []" for d'
      using make_parents_ok(1) [OF assms(2) that(1)] missing_after_parents [OF that] make_parents_parent [OF that(1)] that(3)
      by (auto simp: disk_ok_def write_file_def keys_dict_set tree_def distinct_dict_set)
    then have "disk_ok (snd (create_file env path t d))"
      by (rule_tac create_cases [of env path t d]) (auto simp: assms(2) exists_resolved [OF res])
    then show ?thesis by (simp add: CreateCall)
  next
    case (DeleteCall path)
    have "disk_ok (snd (delete_file env path d))"
      using assms(2) by (rule_tac delete_cases [of env path d]) (auto simp: disk_ok_def dict_del_def distinct_map_filter)
    then show ?thesis by (simp add: DeleteCall)
  next
    case (MoveCall source destination)
    have "disk_ok (snd (move_file env source destination d))"
    proof (rule move_cases [of env source destination d])
      fix d' d''
      assume a: "\<not> exists_path env d (resolve_path env destination)"
        "make_parents (resolve_path env destination) d = (Inr (), d')"
        "move_tree (resolve_path env source) (resolve_path env destination) d' = (Inr (), d'')"
        "move_file env source destination d = (Inr (''Moved '' @ source @ arrow @ destination @ ''.''), d'')"
      then have new: "resolve_path env destination \<notin> tree d" "resolve_path env destination \<noteq> []"
        by (simp_all add: exists_resolved [OF res])
      have "disk_ok d''"
        by (rule move_tree_ok [OF make_parents_ok(1) [OF assms(2) a(2)] missing_after_parents [OF a(2) new] new(2)
            make_parents_parent [OF a(2)] a(3)])
      with a(4) show ?thesis by simp
    qed (use assms(2) make_parents_ok(1) [OF assms(2)] in auto)
    then show ?thesis by (simp add: MoveCall)
  qed (simp_all add: assms(2))
qed


text \<open>C36: Every call of a file tool, failed or not, leaves the disk a tree: no two files of one
  path, no file inside a file, every entry in a directory that exists.\<close>

theorem file_tools_keep_the_tree:
  assumes "resolving (te_access env)" "disk_ok d"
  shows "disk_ok (snd (run_call env c d))"
  by (rule run_call_ok [OF assms])

section \<open>What may change\<close>

lemma level_resolved:
  "ae_resolve (te_access env) p = ae_resolve (te_access env) q \<Longrightarrow> level_of env p = level_of env q"
  by (simp add: level_of_def split: option.splits)

lemma map_of_move_file:
  assumes "\<And>q. q \<in> fst ` set fs \<Longrightarrow> prefix src q \<Longrightarrow> q = src" "dst \<notin> fst ` set fs" "q \<noteq> dst" "q \<noteq> src"
  shows "map_of (map (\<lambda>(q, c). (rebase src dst q, c)) fs) q = map_of fs q"
  using assms
proof (induction fs)
  case (Cons x fs)
  obtain k v where x: "x = (k, v)" by (cases x)
  have "map_of (map (\<lambda>(q, c). (rebase src dst q, c)) fs) q = map_of fs q"
    using Cons.prems by (intro Cons.IH) auto
  moreover have "rebase src dst k = (if k = src then dst else k)"
    using Cons.prems(1) [of k] rebase_other [of src k dst] by (auto simp: x)
  ultimately show ?case using Cons.prems(3,4) by (auto simp: x)
qed simp

lemma changed_file_writable:
  assumes res: "resolving (te_access env)" and ok: "disk_ok d"
    and single: "\<And>s t. c = MoveCall s t \<Longrightarrow> \<not> is_dir env d (resolve_path env s)"
    and changed: "map_of (dk_files (snd (run_call env c d))) q \<noteq> map_of (dk_files d) q"
  shows "level_of env q = Writable"
proof -
  note fixed = resolve_path_resolved [OF res]
  show ?thesis
  proof (cases c)
    case (EditCall path es)
    with changed show ?thesis
      by (rule_tac edit_cases [of env path es d]) (auto simp: fixed write_file_def split: if_splits)
  next
    case (CreateCall path t)
    with changed show ?thesis
      by (rule_tac create_cases [of env path t d])
        (auto simp: write_file_def make_parents_ok(2) [OF ok] split: if_splits)
  next
    case (DeleteCall path)
    with changed show ?thesis
      by (rule_tac delete_cases [of env path d]) (auto split: if_splits)
  next
    case (MoveCall source destination)
    let ?s = "resolve_path env source" and ?t = "resolve_path env destination"
    have dir: "\<not> is_dir env d ?s" by (rule single [OF MoveCall])
    have "map_of (dk_files (snd (move_file env source destination d))) q \<noteq> map_of (dk_files d) q"
      using changed by (simp add: MoveCall)
    then show ?thesis
    proof (rule_tac move_cases [of env source destination d])
      fix d' d''
      assume a: "level_of env ?s = Writable" "level_of env ?t = Writable" "exists_path env d ?s"
          "\<not> exists_path env d ?t" "make_parents ?t d = (Inr (), d')" "move_tree ?s ?t d' = (Inr (), d'')"
          "move_file env source destination d = (Inr (''Moved '' @ source @ arrow @ destination @ ''.''), d'')"
      have files: "dk_files d' = dk_files d" by (rule make_parents_ok(2) [OF ok a(5)])
      have present: "?s \<in> fst ` set (dk_files d)"
        using a(3) dir is_file_resolved [OF fixed, of d source] by (auto simp: exists_path_def)
      have new: "?t \<notin> fst ` set (dk_files d)"
        using a(4) is_file_resolved [OF fixed, of d destination] by (auto simp: exists_path_def)
      have "p = ?s" if "p \<in> fst ` set (dk_files d)" "prefix ?s p" for p
        using nothing_below_file [OF ok, of ?s p] present that by (auto simp: tree_def)
      then have same: "map_of (map (\<lambda>(q, c). (rebase ?s ?t q, c)) (dk_files d)) q = map_of (dk_files d) q"
        if "q \<noteq> ?t" "q \<noteq> ?s"
        using that new by (intro map_of_move_file) auto
      have "dk_files d'' = map (\<lambda>(q, c). (rebase ?s ?t q, c)) (dk_files d)"
        using a(6) files by (auto simp: move_tree_def split: if_splits)
      with changed a(7) same have "q = ?t \<or> q = ?s" by (auto simp: MoveCall)
      with a(1,2) show ?thesis by auto
    qed (use make_parents_ok(2) [OF ok] in auto)
  qed (use changed in simp_all)
qed

text \<open>C9: A call changes, creates or removes no file that the policy does not let the agent write,
  unless it moves a whole directory.\<close>

theorem only_writable_files_change:
  assumes "resolving (te_access env)" "disk_ok d"
    and "\<And>s t. c = MoveCall s t \<Longrightarrow> \<not> is_dir env d (resolve_path env s)"
    and "map_of (dk_files (snd (run_call env c d))) q \<noteq> map_of (dk_files d) q"
  shows "level_of env q = Writable"
  by (rule changed_file_writable [OF assms])

section \<open>Edits\<close>

text \<open>The chain of single replacements that a list of edits stands for.\<close>

inductive edits_to :: "string \<Rightarrow> file_edit list \<Rightarrow> string \<Rightarrow> bool" where
  no_edits: "edits_to t [] t"
| one_edit: "ed_old e \<noteq> [] \<Longrightarrow> (\<And>j. j < length pre \<Longrightarrow> take (length (ed_old e)) (drop j (pre @ ed_old e @ post)) \<noteq> ed_old e) \<Longrightarrow>
    (\<And>j. j + length (ed_old e) \<le> length post \<Longrightarrow> take (length (ed_old e)) (drop j post) \<noteq> ed_old e) \<Longrightarrow>
    edits_to (pre @ ed_new e @ post) es t \<Longrightarrow> edits_to (pre @ ed_old e @ post) (e # es) t"

inductive_cases edits_to_Nil [elim!]: "edits_to t [] u"
inductive_cases edits_to_Cons: "edits_to t (e # es) u"

lemma py_count_one:
  "old \<noteq> [] \<Longrightarrow> py_count old s = 1 \<longleftrightarrow>
     (\<exists>pos. py_find old s = Some pos \<and> py_find old (drop (pos + length old) s) = None)"
  by (subst py_count.simps) (auto split: option.splits simp: py_count.simps [of old "drop _ _"])

lemma apply_file_edits_Cons:
  "apply_file_edits t (e # es) regions = Inr (u, rs) \<longleftrightarrow>
     ed_old e \<noteq> [] \<and> (\<exists>pos. py_find (ed_old e) t = Some pos \<and>
       py_find (ed_old e) (drop (pos + length (ed_old e)) t) = None \<and>
       (let start = newlines (take pos t) + 1
        in apply_file_edits (take pos t @ ed_new e @ drop (pos + length (ed_old e)) t) es
             (map (shift_region start (newlines (ed_old e)) (newlines (ed_new e))) regions @
              [(start, start + newlines (ed_new e))]) = Inr (u, rs)))"
proof (cases "ed_old e = [] \<or> py_count (ed_old e) t \<noteq> 1")
  case False
  then show ?thesis using py_count_one [of "ed_old e" t] by (auto simp: Let_def)
next
  case True
  then show ?thesis using py_count_one [of "ed_old e" t] by (auto simp: Let_def split: if_splits)
qed

lemma apply_file_edits_iff:
  "(\<exists>rs. apply_file_edits t es regions = Inr (u, rs)) \<longleftrightarrow> edits_to t es u"
proof (induction es arbitrary: t regions)
  case Nil
  then show ?case by (auto intro: no_edits)
next
  case (Cons e es)
  show ?case
  proof
    assume "\<exists>rs. apply_file_edits t (e # es) regions = Inr (u, rs)"
    then obtain pos rs rs' where old: "ed_old e \<noteq> []" and pos: "py_find (ed_old e) t = Some pos"
      and post: "py_find (ed_old e) (drop (pos + length (ed_old e)) t) = None"
      and rest: "apply_file_edits (take pos t @ ed_new e @ drop (pos + length (ed_old e)) t) es rs' = Inr (u, rs)"
      unfolding apply_file_edits_Cons Let_def by blast
    from rest have "edits_to (take pos t @ ed_new e @ drop (pos + length (ed_old e)) t) es u"
      using Cons.IH by blast
    then have "edits_to (take pos t @ ed_old e @ drop (pos + length (ed_old e)) t) (e # es) u"
      using old pos post
      by (intro one_edit) (auto simp: py_find_Some py_find_None py_find_split [OF pos, symmetric])
    then show "edits_to t (e # es) u" by (simp add: py_find_split [OF pos, symmetric])
  next
    assume "edits_to t (e # es) u"
    then obtain pre post where t: "t = pre @ ed_old e @ post" "ed_old e \<noteq> []"
        "\<And>j. j < length pre \<Longrightarrow> take (length (ed_old e)) (drop j (pre @ ed_old e @ post)) \<noteq> ed_old e"
        "\<And>j. j + length (ed_old e) \<le> length post \<Longrightarrow> take (length (ed_old e)) (drop j post) \<noteq> ed_old e"
        "edits_to (pre @ ed_new e @ post) es u"
      by (rule edits_to_Cons) (rule that, simp_all)
    have "py_find (ed_old e) t = Some (length pre)" "py_find (ed_old e) post = None"
      using t(1,3,4) by (auto simp: py_find_Some py_find_None)
    moreover obtain rs where "apply_file_edits (pre @ ed_new e @ post) es
        (map (shift_region (newlines pre + 1) (newlines (ed_old e)) (newlines (ed_new e))) regions @
          [(newlines pre + 1, newlines pre + 1 + newlines (ed_new e))]) = Inr (u, rs)"
      using t(5) Cons.IH by blast
    ultimately have "apply_file_edits t (e # es) regions = Inr (u, rs)"
      using t(1,2) unfolding apply_file_edits_Cons by (simp add: Let_def)
    then show "\<exists>rs. apply_file_edits t (e # es) regions = Inr (u, rs)" by blast
  qed
qed


text \<open>C23: An edit of a writable file either replaces its text by the one that the chain of single
  replacements leads to, or fails and leaves the disk as it was; it fails exactly when some step of
  the chain has nothing to replace, or more than one place.\<close>

theorem edits_are_all_or_nothing:
  assumes "resolving (te_access env)" "level_of env (resolve_path env path) = Writable" "edits \<noteq> []"
    and "map_of (dk_files d) (resolve_path env path) = Some (Text t)"
  shows "if \<exists>u. edits_to (universal_newlines t) edits u
    then \<exists>u r. edits_to (universal_newlines t) edits u \<and>
      edit_file env path edits d = (r, write_file (resolve_path env path) u d)
    else \<exists>e. edit_file env path edits d = (Inl e, d)"
proof -
  have fixed: "ae_resolve (te_access env) (resolve_path env path) = resolve_path env path"
    by (rule resolve_path_resolved [OF assms(1)])
  then have run: "edit_file env path edits d =
      (case apply_file_edits (universal_newlines t) edits [] of
         Inl e \<Rightarrow> (Inl e, d)
       | Inr (u, regions) \<Rightarrow> (rbind (provenance_between (te_differ env) (universal_newlines t) u) (\<lambda>prov.
           Inr (''Applied '' @ show_nat (length edits) @ '' edit(s) to '' @ path @ ''.'' @ lf @
             render_result_line prov @ lf @
             format_file_result (py_splitlines u) regions (required_line_numbers prov))),
           write_file (resolve_path env path) u d))"
    using assms(2-4) by (simp add: edit_file_def enforce_access_def is_file_def read_text_def split: sum.split)
  show ?thesis
  proof (cases "apply_file_edits (universal_newlines t) edits []")
    case (Inl e)
    then have "\<not> (\<exists>u. edits_to (universal_newlines t) edits u)" by (simp flip: apply_file_edits_iff [of _ _ "[]"])
    with Inl run show ?thesis by simp
  next
    case (Inr x)
    obtain u rs where "x = (u, rs)" by (cases x)
    with Inr have "edits_to (universal_newlines t) edits u" using apply_file_edits_iff [of _ _ "[]"] by blast
    with Inr run \<open>x = (u, rs)\<close> show ?thesis by auto
  qed
qed

section \<open>What an answer depends on\<close>

text \<open>Two disks that agree on everything the agent may read, and on which of the other files that
  are not hidden exist.\<close>

definition same_view :: "tools_env \<Rightarrow> disk \<Rightarrow> disk \<Rightarrow> bool" where
  "same_view env d d' \<longleftrightarrow>
     dk_dirs d = dk_dirs d' \<and>
     (\<forall>q \<in> set (map fst (dk_files d)) \<union> set (map fst (dk_files d')). ae_resolve (te_access env) q = q) \<and>
     (\<forall>q. Readable \<le> level_of env q \<longrightarrow>
        map_of (dk_files d) (ae_resolve (te_access env) q) = map_of (dk_files d') (ae_resolve (te_access env) q)) \<and>
     (\<forall>q. Hidden < level_of env q \<longrightarrow>
        (map_of (dk_files d) (ae_resolve (te_access env) q) = None) =
        (map_of (dk_files d') (ae_resolve (te_access env) q) = None))"

fun reading :: "tools_env \<Rightarrow> file_call \<Rightarrow> bool" where
  "reading env (SearchCall s p g x c k) = (Readable \<le> level_of env (resolve_path env p))"
| "reading env (ReadCall p a l) = True"
| "reading env (ListCall p r m) = True"
| "reading env (FindCall g p t) = True"
| "reading env c = False"

lemma filter_sort_same:
  assumes "\<And>x. P x \<Longrightarrow> x \<in> set xs \<longleftrightarrow> x \<in> set (ys :: 'a :: linorder list)"
  shows "filter P (sort (remdups xs)) = filter P (sort (remdups ys))"
proof (rule sorted_distinct_set_unique)
  show "sorted (filter P (sort (remdups xs)))" "sorted (filter P (sort (remdups ys)))"
    by (rule sorted_wrt_filter, rule sorted_sort)+
qed (use assms in auto)

lemma same_dirs: "same_view env d d' \<Longrightarrow> dk_dirs d = dk_dirs d'"
  by (simp add: same_view_def)

lemma same_is_dir: "same_view env d d' \<Longrightarrow> is_dir env d = is_dir env d'"
  by (simp add: is_dir_def same_dirs fun_eq_iff)

lemma same_read: "same_view env d d' \<Longrightarrow> Readable \<le> level_of env p \<Longrightarrow> read_text env d p = read_text env d' p"
  by (simp add: same_view_def read_text_def)

lemma same_is_file: "same_view env d d' \<Longrightarrow> Hidden < level_of env p \<Longrightarrow> is_file env d p = is_file env d' p"
  by (simp add: same_view_def is_file_def)

lemma same_entry:
  assumes same: "same_view env d d'" and "Hidden < level_of env q"
  shows "q \<in> set (entries_of env d) \<longleftrightarrow> q \<in> set (entries_of env d')"
proof -
  have "q \<in> fst ` set (dk_files d) \<longleftrightarrow> q \<in> fst ` set (dk_files d')"
  proof (cases "ae_resolve (te_access env) q = q")
    case True
    then show ?thesis using assms unfolding same_view_def by (metis map_of_eq_None_iff)
  next
    case False
    then have "q \<notin> fst ` set (dk_files d)" "q \<notin> fst ` set (dk_files d')"
      using same by (auto simp: same_view_def)
    then show ?thesis by simp
  qed
  then show ?thesis by (auto simp: entries_of_def same_dirs [OF same])
qed

lemma same_entries_below:
  assumes "same_view env d d'" "\<And>q. P q \<Longrightarrow> Hidden < level_of env q"
  shows "filter P (entries_below env d p) = filter P (entries_below env d' p)"
  unfolding entries_below_def
  by (rule filter_sort_same) (use same_entry [OF assms(1)] assms(2) in auto)

lemma child_entry:
  "n \<in> set (map last (filter (\<lambda>q. q \<noteq> [] \<and> butlast q = r) es)) \<longleftrightarrow> r @ [n] \<in> set es"
proof
  assume "n \<in> set (map last (filter (\<lambda>q. q \<noteq> [] \<and> butlast q = r) es))"
  then obtain q where "q \<in> set es" "q \<noteq> []" "butlast q = r" "last q = n" by auto
  then show "r @ [n] \<in> set es" by (metis append_butlast_last_id)
qed (force simp: image_iff)

lemma same_children:
  assumes "same_view env d d'" "\<And>n. P n \<Longrightarrow> Hidden < level_of env (ae_resolve (te_access env) p @ [n])"
  shows "filter P (children_of env d p) = filter P (children_of env d' p)"
  unfolding children_of_def Let_def
  by (rule filter_sort_same) (use same_entry [OF assms(1)] assms(2) in \<open>simp only: child_entry\<close>)


lemma fold_skip: "(\<And>x st. \<not> P x \<Longrightarrow> f x st = st) \<Longrightarrow> fold f xs st = fold f (filter P xs) st"
  by (induction xs arbitrary: st) auto

lemma fold_cong_filtered:
  assumes "filter P xs = filter P ys" "\<And>x st. \<not> P x \<Longrightarrow> f x st = st" "\<And>x st. P x \<Longrightarrow> f x st = g x st"
    "\<And>x st. \<not> P x \<Longrightarrow> g x st = st"
  shows "fold f xs st = fold g ys st"
proof -
  have "fold f (filter P xs) st = fold g (filter P xs) st" by (rule fold_cong) (auto simp: assms(3))
  then show ?thesis using fold_skip [of P f xs st] fold_skip [of P g ys st] assms(1,2,4) by simp
qed

lemma child_level:
  "resolving (te_access env) \<Longrightarrow> level_of env (ae_resolve (te_access env) p) = level_of env p"
  by (rule level_resolved) (simp add: resolving_def)

lemma readable_visible: "Readable \<le> a \<Longrightarrow> Hidden < a"
  by (cases a) (auto simp: less_eq_access_level_def less_access_level_def)

text \<open>Appending a name commutes with resolving the directory.\<close>

definition steps_resolve :: "access_env \<Rightarrow> bool" where
  "steps_resolve ae \<longleftrightarrow> (\<forall>p q. ae_resolve ae (ae_resolve ae p @ q) = ae_resolve ae (p @ q))"

lemma steps_resolve_resolving: "steps_resolve ae \<Longrightarrow> resolving ae"
  unfolding steps_resolve_def resolving_def by (metis append_Nil2)

lemma level_of_child:
  "steps_resolve (te_access env) \<Longrightarrow>
     level_of env (ae_resolve (te_access env) p @ [n]) = level_of env (p @ [n])"
  by (rule level_resolved) (simp add: steps_resolve_def)

lemma same_walk:
  assumes "same_view env d d'" "steps_resolve (te_access env)"
  shows "walk_dir env d depth p indent st = walk_dir env d' depth p indent st"
proof (induction depth arbitrary: p indent st)
  case (Suc depth)
  have "filter (\<lambda>n. check_read_access env (p @ [n])) (children_of env d p) =
      filter (\<lambda>n. check_read_access env (p @ [n])) (children_of env d' p)"
    by (rule same_children [OF assms(1)]) (simp add: check_read_access_def level_of_child [OF assms(2)] readable_visible)
  then show ?case
    by (simp only: walk_dir.simps Suc.IH same_is_dir [OF assms(1)])
      (intro if_cong refl fold_cong_filtered [where P = "\<lambda>n. check_read_access env (p @ [n])"]; simp)
qed simp

lemma same_listing:
  assumes "same_view env d d'" "steps_resolve (te_access env)"
  shows "apply_listing_filter env (children_of env d p) p = apply_listing_filter env (children_of env d' p) p"
proof -
  let ?r = "ae_resolve (te_access env) p"
  have again: "check (te_access env) pol (ae_resolve (te_access env) q) = check (te_access env) pol q" for pol q
    using steps_resolve_resolving [OF assms(2)] by (intro check_resolved) (simp add: resolving_def)
  have "apply_listing_filter env ns p = filter (\<lambda>n. Hidden < level_of env (?r @ [n])) ns" for ns
    using again by (simp add: apply_listing_filter_def level_of_def filter_listing_def split: option.split)
  then show ?thesis by (simp add: same_children [OF assms(1)])
qed

lemma same_find:
  assumes "same_view env d d'"
  shows "filter (wanted_entry env d ty) (filter g (p # entries_below env d p)) =
    filter (wanted_entry env d' ty) (filter g (p # entries_below env d' p))"
proof -
  have wanted: "wanted_entry env d ty q = wanted_entry env d' ty q" for q
    using same_is_file [OF assms, of q] readable_visible [of "level_of env q"]
    by (auto simp: wanted_entry_def same_is_dir [OF assms] check_read_access_def)
  have below: "filter (\<lambda>q. wanted_entry env d' ty q \<and> g q) (entries_below env d p) =
      filter (\<lambda>q. wanted_entry env d' ty q \<and> g q) (entries_below env d' p)"
    by (rule same_entries_below [OF assms]) (auto simp: wanted_entry_def check_read_access_def readable_visible)
  have fn: "wanted_entry env d ty = wanted_entry env d' ty" by (rule ext) (rule wanted)
  show ?thesis using below by (simp add: fn conj_commute)
qed

lemma same_search:
  assumes "same_view env d d'"
  shows "Readable \<le> level_of env f \<Longrightarrow> search_single_file env d f m k = search_single_file env d' f m k"
    "search_targets env d p g = search_targets env d' p g"
proof -
  show "Readable \<le> level_of env f \<Longrightarrow> search_single_file env d f m k = search_single_file env d' f m k"
    by (simp add: search_single_file_def same_read [OF assms])
  let ?ok = "\<lambda>e f. is_file env e f \<and>
      (case g of None \<Rightarrow> True | Some w \<Rightarrow> te_fnmatch env (posix_text (drop (length p) f)) w) \<and> check_read_access env f"
  have "?ok d f = ?ok d' f" for f
    using same_is_file [OF assms, of f] readable_visible [of "level_of env f"] by (auto simp: check_read_access_def)
  then have "?ok d = ?ok d'" by (intro ext)
  then have "search_targets env d p g = filter (?ok d') (entries_below env d p)"
    unfolding search_targets_def by metis
  also have "\<dots> = search_targets env d' p g"
    unfolding search_targets_def
    by (rule same_entries_below [OF assms]) (auto simp: check_read_access_def readable_visible)
  finally show "search_targets env d p g = search_targets env d' p g" .
qed


lemma enforce_ok: "enforce_access env p l = Inr u \<Longrightarrow> l \<le> level_of env p"
  by (simp add: enforce_access_def not_less del: below_writable split: if_splits)

lemma rbind_enforce:
  "(Readable \<le> level_of env p \<Longrightarrow> f () = g ()) \<Longrightarrow>
     rbind (enforce_access env p Readable) f = rbind (enforce_access env p Readable) g"
  by (cases "enforce_access env p Readable") (use enforce_ok [of env p Readable] in auto)

lemma reading_same_view:
  assumes same: "same_view env d d'" and res: "steps_resolve (te_access env)" and "reading env c"
  shows "fst (run_call env c d) = fst (run_call env c d')"
proof (cases c)
  case (ReadCall path a l)
  have "read_file env path a l d = read_file env path a l d'"
    unfolding read_file_def Let_def
    by (rule rbind_enforce) (simp add: same_is_file [OF same readable_visible] same_read [OF same])
  then show ?thesis by (simp add: ReadCall)
next
  case (ListCall path r m)
  have "list_directory env path r m d = list_directory env path r m d'"
    unfolding list_directory_def Let_def list_recursive_def
    by (rule rbind_enforce)
      (simp add: same_walk [OF same res] same_is_dir [OF same] same_listing [OF same res])
  then show ?thesis by (simp add: ListCall)
next
  case (FindCall g path ty)
  have "find_files env g path ty d = find_files env g path ty d'"
    unfolding find_files_def Let_def same_find [OF same] same_is_dir [OF same] ..
  then show ?thesis by (simp add: FindCall)
next
  case (SearchCall s path g x i k)
  let ?p = "resolve_path env path"
  have level: "Readable \<le> level_of env ?p" using assms(3) by (simp add: SearchCall)
  have scan: "fold (search_step env d m k) (search_targets env d ?p g) st =
      fold (search_step env d' m k) (search_targets env d' ?p g) st" for m st
  proof -
    have "fold (search_step env d m k) (search_targets env d' ?p g) st =
        fold (search_step env d' m k) (search_targets env d' ?p g) st"
      by (rule fold_cong)
        (auto simp: search_targets_def check_read_access_def search_step_def same_search(1) [OF same] fun_eq_iff)
    then show ?thesis by (simp add: same_search(2) [OF same])
  qed
  have "search_files env s path g x i k d = search_files env s path g x i k d'"
    by (simp only: search_files_def Let_def same_is_dir [OF same]
        same_is_file [OF same readable_visible [OF level]] same_search(1) [OF same level] scan)
  then show ?thesis by (simp add: SearchCall)
qed (use assms(3) in simp_all)



section \<open>Calls in a workspace with a secret\<close>

lemma example_disk_ok: "disk_ok (example_disk s)"
  by (simp add: disk_ok_def example_disk_def)

lemma example_steps: "steps_resolve (te_access example_tools)"
  by (simp add: steps_resolve_def)

theorem file_tools_keep_the_tree_witness:
  "disk_ok (snd (run_call example_tools (MoveCall ''a'' ''b/c'') (example_disk ''k'')))"
  by (rule file_tools_keep_the_tree [OF example_tools_resolving example_disk_ok])

theorem only_writable_files_change_witness:
  "level_of example_tools [''w'', ''a''] = Writable"
proof (rule only_writable_files_change [OF example_tools_resolving example_disk_ok])
  show "map_of (dk_files (snd (run_call example_tools (DeleteCall ''a'') (example_disk ''k'')))) [''w'', ''a''] \<noteq>
      map_of (dk_files (example_disk ''k'')) [''w'', ''a'']"
    by code_simp
qed simp

theorem edits_are_all_or_nothing_witness:
  "if \<exists>u. edits_to (universal_newlines ''one'') [\<lparr>ed_old = ''n'', ed_new = ''th''\<rparr>] u
   then \<exists>u r. edits_to (universal_newlines ''one'') [\<lparr>ed_old = ''n'', ed_new = ''th''\<rparr>] u \<and>
     edit_file example_tools ''a'' [\<lparr>ed_old = ''n'', ed_new = ''th''\<rparr>] (example_disk ''k'') =
       (r, write_file (resolve_path example_tools ''a'') u (example_disk ''k''))
   else \<exists>e. edit_file example_tools ''a'' [\<lparr>ed_old = ''n'', ed_new = ''th''\<rparr>] (example_disk ''k'') =
     (Inl e, example_disk ''k'')"
  by (rule edits_are_all_or_nothing [OF example_tools_resolving])
    (simp_all add: example_levels example_disk_def)

lemma example_same_view: "same_view example_tools (example_disk s) (example_disk t)"
proof -
  have "q \<noteq> [''w'', ''.env'']" if "Hidden < level_of example_tools q" for q
    using that example_levels(3) by auto
  then show ?thesis
    using readable_visible by (fastforce simp: same_view_def example_disk_def)
qed


section \<open>Where the tools do less than they say\<close>

text \<open>A search of a hidden file itself tells whether the file exists.\<close>

lemma search_tells_existence:
  "fst (run_call example_tools (SearchCall ''k'' ''.env'' None False False 0) (example_disk ''key'')) =
     Inl (OSError ''PermissionError'')"
  "fst (run_call example_tools (SearchCall ''k'' ''.env'' None False False 0)
     ((example_disk ''key'')\<lparr>dk_files := [([''w'', ''a''], Text ''one'')]\<rparr>)) =
     Inl (OSError ''FileNotFoundError'')"
  by code_simp+

text \<open>Moving a directory moves the files in it that the agent may neither read nor write.\<close>

definition tools_hiding :: "string \<Rightarrow> tools_env" where
  "tools_hiding pattern = example_tools\<lparr>te_policy :=
     Some (session_policy example_access default_file_access (Some [''w'']) None
       (load_global_ignores example_access [''w''] (Some pattern) None))\<rparr>"

lemma moved_directory_uncovers_files:
  "level_of (tools_hiding ''d/k'') [''w'', ''d'', ''k''] = Hidden"
  "fst (run_call (tools_hiding ''d/k'') (ReadCall ''e/k'' 1 None)
     (snd (run_call (tools_hiding ''d/k'') (MoveCall ''d'' ''e'')
       \<lparr>dk_files = [([''w'', ''d'', ''k''], Text ''key'')], dk_dirs = [[''w''], [''w'', ''d'']]\<rparr>))) =
     Inr ''1| key''"
  by code_simp+

text \<open>Every line end of an edited file becomes a line feed.\<close>

lemma edit_rewrites_line_ends:
  "map_of (dk_files (snd (run_call example_tools (EditCall ''a'' [\<lparr>ed_old = ''x'', ed_new = ''y''\<rparr>])
     \<lparr>dk_files = [([''w'', ''a''], Text [CHR ''a'', CHR 0x0D, CHR 0x0A, CHR ''x''])], dk_dirs = [[''w'']]\<rparr>)))
     [''w'', ''a''] = Some (Text [CHR ''a'', CHR 0x0A, CHR ''y''])"
proof -
  have "apply_file_edits (universal_newlines [CHR ''a'', CHR 0x0D, CHR 0x0A, CHR ''x''])
      [\<lparr>ed_old = ''x'', ed_new = ''y''\<rparr>] [] = Inr ([CHR ''a'', CHR 0x0A, CHR ''y''], [(2, 2)])"
    by code_simp
  then show ?thesis
    by (simp add: edit_file_def enforce_access_def is_file_def read_text_def write_file_def example_levels
        del: universal_newlines.simps apply_file_edits.simps)
qed

text \<open>Two occurrences that overlap count as one.\<close>

lemma overlapping_match_accepted:
  "apply_file_edits ''aaa'' [\<lparr>ed_old = ''aa'', ed_new = ''b''\<rparr>] [] = Inr (''ba'', [(1, 1)])"
  by code_simp

text \<open>The region of an edit counts line feeds, the view of the file every line boundary.\<close>

lemma region_is_not_the_line_shown:
  "apply_file_edits (''a'' @ [CHR 0x0C] @ ''b'' @ lf @ ''old'') [\<lparr>ed_old = ''old'', ed_new = ''new''\<rparr>] [] =
     Inr (''a'' @ [CHR 0x0C] @ ''b'' @ lf @ ''new'', [(2, 2)])"
  "py_splitlines (''a'' @ [CHR 0x0C] @ ''b'' @ lf @ ''new'') = [''a'', ''b'', ''new'']"
  by code_simp+

text \<open>The region of an edit whose text a later edit removes is kept: the view then offers lines
  past the end of the file.\<close>

lemma view_names_missing_lines:
  "apply_file_edits (py_join lf [''a'', ''b'', ''c'', ''d'', ''e'', ''f'', ''g'', ''h'', ''i''])
     [\<lparr>ed_old = ''h'', ed_new = ''x''\<rparr>,
      \<lparr>ed_old = py_join lf [''b'', ''c'', ''d'', ''e'', ''f'', ''g'', ''x'', ''i''], ed_new = ''y''\<rparr>] [] =
     Inr (py_join lf [''a'', ''y''], [(8, 8), (2, 2)])"
  "spans_for_regions 2 [(8, 8), (2, 2)] edit_context_lines = [Span 1 2 True, Span 3 3 False, Span 4 2 True]"
  by code_simp+

end
