(* ===== verification/File_Search.thy ===== *)
theory File_Search
  imports File_Tools
begin

text \<open>
  What the file tools show: the lines of a search with their context
  (\<open>_collect_match_groups\<close> of \<open>src/thorn/core/_tools.py\<close>) and the pages of a read.
\<close>

section \<open>Matches and their context\<close>

definition in_window :: "nat \<Rightarrow> nat \<Rightarrow> nat \<Rightarrow> bool" where
  "in_window context m i \<longleftrightarrow> m \<le> i + context \<and> i \<le> m + context"

definition covered :: "(nat \<times> nat) list \<Rightarrow> nat \<Rightarrow> bool" where
  "covered ranges i \<longleftrightarrow> (\<exists>(s, e) \<in> set ranges. s \<le> i \<and> i \<le> e)"

text \<open>Ranges in order, with a line between two of them that belongs to neither.\<close>

definition apart :: "(nat \<times> nat) list \<Rightarrow> bool" where
  "apart ranges \<longleftrightarrow> (\<forall>(s, e) \<in> set ranges. s \<le> e) \<and> sorted_wrt (\<lambda>(s, e) (s', e'). e + 1 < s') ranges"

lemma covered_append [simp]: "covered (xs @ ys) i \<longleftrightarrow> covered xs i \<or> covered ys i"
  by (auto simp: covered_def)

lemma covered_one [simp]: "covered [(s, e)] i \<longleftrightarrow> s \<le> i \<and> i \<le> e"
  by (simp add: covered_def)


definition merge_one :: "nat \<Rightarrow> nat \<Rightarrow> (nat \<times> nat) list \<Rightarrow> (nat \<times> nat) list" where
  "merge_one s e ranges =
     (if ranges \<noteq> [] \<and> s \<le> snd (last ranges) + 1
      then butlast ranges @ [(fst (last ranges), e)] else ranges @ [(s, e)])"

definition before :: "nat \<Rightarrow> nat \<Rightarrow> (nat \<times> nat) list \<Rightarrow> bool" where
  "before s e ranges \<longleftrightarrow> (\<forall>r \<in> set ranges. fst r \<le> s \<and> snd r \<le> e)"

lemma merge_one_append:
  "merge_one s e (rs @ [(a, b)]) = (if s \<le> b + 1 then rs @ [(a, e)] else rs @ [(a, b), (s, e)])"
  by (simp add: merge_one_def)

lemma merge_one_exact:
  assumes "apart ranges" "before s e ranges" "s \<le> e"
  shows "apart (merge_one s e ranges)" "before s e (merge_one s e ranges)"
    "covered (merge_one s e ranges) i \<longleftrightarrow> covered ranges i \<or> s \<le> i \<and> i \<le> e"
proof -
  show "apart (merge_one s e ranges)"
  proof (cases ranges rule: rev_cases)
    case Nil
    then show ?thesis using assms(3) by (simp add: merge_one_def apart_def)
  next
    case (snoc rs r)
    obtain a b where r: "r = (a, b)" by (cases r)
    have "a \<le> e" using assms(2,3) by (auto simp: before_def snoc r)
    then show ?thesis using assms(1,3) unfolding snoc r merge_one_append
      by (auto simp: apart_def sorted_wrt_append)
  qed
  show "before s e (merge_one s e ranges)"
  proof (cases ranges rule: rev_cases)
    case (snoc rs r)
    then show ?thesis using assms(2) by (cases r) (simp add: merge_one_append before_def)
  qed (simp add: merge_one_def before_def)
  show "covered (merge_one s e ranges) i \<longleftrightarrow> covered ranges i \<or> s \<le> i \<and> i \<le> e"
  proof (cases ranges rule: rev_cases)
    case (snoc rs r)
    obtain a b where r: "r = (a, b)" by (cases r)
    have "a \<le> b" "a \<le> s" "b \<le> e" using assms(1,2) by (auto simp: apart_def before_def snoc r)
    moreover have "rs @ [(a, b), (s, e)] = rs @ [(a, b)] @ [(s, e)]" by simp
    ultimately show ?thesis unfolding snoc r merge_one_append by (simp only: covered_append covered_one split: if_split) linarith
  qed (simp add: merge_one_def covered_def)
qed

lemma merge_ranges_exact:
  assumes "sorted is" "\<forall>m \<in> set is. m < n" "apart ranges"
    and "\<forall>m \<in> set is. before (m - context) (min (n - 1) (m + context)) ranges"
  shows "apart (merge_ranges n context is ranges) \<and>
    (covered (merge_ranges n context is ranges) i \<longleftrightarrow>
       covered ranges i \<or> (i < n \<and> (\<exists>m \<in> set is. in_window context m i)))"
  using assms
proof (induction "is" arbitrary: ranges)
  case (Cons m ms)
  let ?s = "m - context" and ?e = "min (n - 1) (m + context)"
  have m: "m < n" and later: "\<forall>m' \<in> set ms. m \<le> m'" and ms: "sorted ms" "\<forall>m' \<in> set ms. m' < n"
    using Cons.prems(1,2) by auto
  have window: "?s \<le> i \<and> i \<le> ?e \<longleftrightarrow> i < n \<and> in_window context m i"
    using m by (auto simp: in_window_def)
  have "?s \<le> ?e" using m by auto
  note one = merge_one_exact [OF Cons.prems(3) _ this]
  have b: "before ?s ?e ranges" using Cons.prems(4) by simp
  have "before (m' - context) (min (n - 1) (m' + context)) (merge_one ?s ?e ranges)" if "m' \<in> set ms" for m'
  proof -
    have "?s \<le> m' - context \<and> ?e \<le> min (n - 1) (m' + context)" using later that by auto
    then show ?thesis using one(2) [OF b] by (fastforce simp: before_def)
  qed
  then have next_prems: "\<forall>m' \<in> set ms. before (m' - context) (min (n - 1) (m' + context)) (merge_one ?s ?e ranges)"
    by blast
  have unfold: "merge_ranges n context (m # ms) ranges = merge_ranges n context ms (merge_one ?s ?e ranges)"
    by (simp add: merge_one_def Let_def)
  from Cons.IH [OF ms one(1) [OF b] next_prems] one(3) [OF b, of i] window
  show ?case unfolding unfold by auto
qed simp_all


text \<open>The numbered lines of the groups of one file.\<close>

definition group_lines :: "(nat \<times> string list) list \<Rightarrow> (nat \<times> string) list" where
  "group_lines groups = concat (map (\<lambda>(s, ls). enumerate s ls) groups)"

lemma match_indices_set: "m \<in> set (match_indices matcher ls) \<longleftrightarrow> m < length ls \<and> matcher (ls ! m)"
  by (auto simp: match_indices_def in_set_enumerate_eq image_iff)

lemma match_indices_sorted: "sorted (match_indices matcher ls)"
proof -
  have "sorted (map fst (enumerate 0 ls))" by simp
  then show ?thesis unfolding match_indices_def by (rule sorted_filter)
qed

lemma mem_enumerate_slice:
  "(k, l) \<in> set (enumerate (s + 1) (take (e + 1 - s) (drop s ls))) \<longleftrightarrow>
     0 < k \<and> k \<le> length ls \<and> l = ls ! (k - 1) \<and> s \<le> k - 1 \<and> k - 1 \<le> e"
proof -
  have "(k, l) \<in> set (enumerate (s + 1) (take (e + 1 - s) (drop s ls))) \<longleftrightarrow>
      s + 1 \<le> k \<and> k < s + 1 + min (length ls - s) (e + 1 - s) \<and> (take (e + 1 - s) (drop s ls)) ! (k - (s + 1)) = l"
    by (auto simp: in_set_enumerate_eq)
  also have "\<dots> \<longleftrightarrow> s + 1 \<le> k \<and> k < s + 1 + min (length ls - s) (e + 1 - s) \<and> ls ! (k - 1) = l"
    by (rule conj_cong refl)+ simp
  finally show ?thesis by auto
qed

lemma increasing_append:
  "sorted_wrt (<) (xs @ ys) \<longleftrightarrow> sorted_wrt (<) xs \<and> sorted_wrt (<) ys \<and> (\<forall>x \<in> set xs. \<forall>y \<in> set ys. x < (y :: nat))"
  by (simp add: sorted_wrt_append)

lemma group_lines_increasing:
  assumes "apart ranges"
  shows "sorted_wrt (<) (map fst (group_lines (map (\<lambda>(s, e). (s + 1, take (e + 1 - s) (drop s ls))) ranges)))"
  using assms
proof (induction ranges)
  case (Cons r ranges)
  obtain s e where r: "r = (s, e)" by (cases r)
  let ?g = "\<lambda>(s, e). (s + 1, take (e + 1 - s) (drop s ls))"
  let ?first = "enumerate (s + 1) (take (e + 1 - s) (drop s ls))"
  have rest: "sorted_wrt (<) (map fst (group_lines (map ?g ranges)))"
    by (rule Cons.IH) (use Cons.prems in \<open>simp add: apart_def\<close>)
  have less: "a < b" if a: "a \<in> set (map fst ?first)" and b: "b \<in> set (map fst (group_lines (map ?g ranges)))" for a b
  proof -
    have "a \<le> e + 1" using a by auto
    moreover obtain s' e' where "(s', e') \<in> set ranges" "s' + 1 \<le> b"
      using b by (auto simp: group_lines_def in_set_enumerate_eq)
    moreover from this Cons.prems have "e + 1 < s'" by (auto simp: apart_def r)
    ultimately show ?thesis by linarith
  qed
  have "map fst (group_lines (map ?g (r # ranges))) = map fst ?first @ map fst (group_lines (map ?g ranges))"
    by (simp only: group_lines_def r list.map concat.simps map_append prod.case)
  moreover have "sorted_wrt (<) (map fst ?first)" by (simp only: map_fst_enumerate sorted_wrt_upt)
  ultimately show ?case using rest less by (simp only: increasing_append) blast
qed (simp add: group_lines_def)

lemma mem_group_lines:
  "(k, l) \<in> set (group_lines (map (\<lambda>(s, e). (s + 1, take (e + 1 - s) (drop s ls))) ranges)) \<longleftrightarrow>
     0 < k \<and> k \<le> length ls \<and> l = ls ! (k - 1) \<and> covered ranges (k - 1)"
proof (induction ranges)
  case (Cons r ranges)
  obtain s e where r: "r = (s, e)" by (cases r)
  have "covered (r # ranges) i \<longleftrightarrow> s \<le> i \<and> i \<le> e \<or> covered ranges i" for i by (simp add: r covered_def)
  with Cons show ?case
    by (simp only: group_lines_def r list.map concat.simps prod.case set_append Un_iff mem_enumerate_slice) blast
qed (simp add: group_lines_def covered_def)

lemma increasing_pairs_unique:
  assumes "sorted_wrt (<) (map fst xs)" "sorted_wrt (<) (map fst ys)" "set xs = set (ys :: (nat \<times> 'a) list)"
  shows "xs = ys"
proof (rule map_sorted_distinct_set_unique [of fst])
  have "distinct (map fst ys)" using assms(2) by (simp add: strict_sorted_iff)
  then show "inj_on fst (set xs \<union> set ys)" unfolding assms(3) by (simp add: distinct_map)
qed (use assms in \<open>simp_all add: strict_sorted_iff\<close>)

lemma shown_group_lines:
  "group_lines (collect_match_groups ls (match_indices matcher ls) context) =
     filter (\<lambda>(k, l). \<exists>m < length ls. matcher (ls ! m) \<and> in_window context m (k - 1)) (enumerate 1 ls)"
    (is "?groups = filter ?P _")
proof (rule increasing_pairs_unique)
  let ?ms = "match_indices matcher ls"
  note exact = merge_ranges_exact [OF match_indices_sorted, of matcher ls "length ls" "[]" "context"]
  have apart: "apart (merge_ranges (length ls) context ?ms [])"
    using exact by (simp add: match_indices_set apart_def before_def)
  have cov: "covered (merge_ranges (length ls) context ?ms []) i \<longleftrightarrow>
      i < length ls \<and> (\<exists>m < length ls. matcher (ls ! m) \<and> in_window context m i)" for i
    using exact [of i] by (auto simp: match_indices_set apart_def before_def covered_def)
  show "sorted_wrt (<) (map fst ?groups)"
    unfolding collect_match_groups_def by (rule group_lines_increasing [OF apart])
  show "sorted_wrt (<) (map fst (filter ?P (enumerate 1 ls)))"
    unfolding strict_sorted_iff by (intro conjI sorted_filter distinct_map_filter) (simp_all del: upt_Suc)
  show "set ?groups = set (filter ?P (enumerate 1 ls))"
  proof (rule set_eqI)
    fix x :: "nat \<times> string"
    obtain k l where x: "x = (k, l)" by (cases x)
    have "(k, l) \<in> set (enumerate 1 ls) \<longleftrightarrow> 0 < k \<and> k \<le> length ls \<and> l = ls ! (k - 1)"
      by (auto simp: in_set_enumerate_eq)
    then show "x \<in> set ?groups \<longleftrightarrow> x \<in> set (filter ?P (enumerate 1 ls))"
      unfolding x collect_match_groups_def mem_group_lines cov set_filter mem_Collect_eq prod.case by auto
  qed
qed

text \<open>C39: What a search shows of a file are its lines that match and those within the requested
  distance of one, each once, in order, under their own numbers, and no other.\<close>

theorem search_shows_matches_in_context:
  "group_lines (collect_match_groups ls (match_indices matcher ls) context) =
     filter (\<lambda>(k, l). \<exists>m < length ls. matcher (ls ! m) \<and> in_window context m (k - 1)) (enumerate 1 ls)"
  by (rule shown_group_lines)


section \<open>Pages\<close>

text \<open>What lines count for the limit on characters: each with its line end.\<close>

definition char_weight :: "string list \<Rightarrow> nat" where
  "char_weight ls = sum_list (map (\<lambda>l. length l + 1) ls)"

lemma char_weight_simps [simp]:
  "char_weight [] = 0" "char_weight (l # ls) = length l + 1 + char_weight ls"
  by (simp_all add: char_weight_def)

lemma char_cap_from:
  assumes "0 < i" "c \<le> max_read_chars"
  shows "\<exists>j. char_cap c i ls = i + j \<and> j \<le> length ls \<and> c + char_weight (take j ls) \<le> max_read_chars \<and>
    (j < length ls \<longrightarrow> max_read_chars < c + char_weight (take (j + 1) ls))"
  using assms
proof (induction ls arbitrary: i c)
  case (Cons l ls)
  show ?case
  proof (cases "c + length l + 1 > max_read_chars")
    case True
    then show ?thesis using Cons.prems by (intro exI [of _ 0]) simp
  next
    case False
    with Cons.IH [of "i + 1" "c + length l + 1"] obtain j where
      "char_cap (c + length l + 1) (i + 1) ls = i + 1 + j" "j \<le> length ls"
      "c + length l + 1 + char_weight (take j ls) \<le> max_read_chars"
      "j < length ls \<longrightarrow> max_read_chars < c + length l + 1 + char_weight (take (j + 1) ls)"
      by auto
    with False show ?thesis by (intro exI [of _ "j + 1"]) auto
  qed
qed simp

lemma char_cap_page:
  assumes "ls \<noteq> []"
  shows "1 \<le> char_cap 0 0 ls" "char_cap 0 0 ls \<le> length ls"
    "char_cap 0 0 ls = 1 \<or> char_weight (take (char_cap 0 0 ls) ls) \<le> max_read_chars"
    "char_cap 0 0 ls < length ls \<Longrightarrow> max_read_chars < char_weight (take (char_cap 0 0 ls + 1) ls)"
proof -
  obtain l ls' where ls: "ls = l # ls'" using assms by (cases ls) auto
  have "1 \<le> char_cap 0 0 ls \<and> char_cap 0 0 ls \<le> length ls \<and>
      (char_cap 0 0 ls = 1 \<or> char_weight (take (char_cap 0 0 ls) ls) \<le> max_read_chars) \<and>
      (char_cap 0 0 ls < length ls \<longrightarrow> max_read_chars < char_weight (take (char_cap 0 0 ls + 1) ls))"
  proof (cases "length l + 1 > max_read_chars")
    case True
    then show ?thesis by (simp add: ls)
  next
    case False
    then obtain j where "char_cap (length l + 1) 1 ls' = 1 + j" "j \<le> length ls'"
      "length l + 1 + char_weight (take j ls') \<le> max_read_chars"
      "j < length ls' \<longrightarrow> max_read_chars < length l + 1 + char_weight (take (j + 1) ls')"
      using char_cap_from [of 1 "length l + 1" ls'] by auto
    with False show ?thesis by (simp add: ls)
  qed
  then show "1 \<le> char_cap 0 0 ls" "char_cap 0 0 ls \<le> length ls"
    "char_cap 0 0 ls = 1 \<or> char_weight (take (char_cap 0 0 ls) ls) \<le> max_read_chars"
    "char_cap 0 0 ls < length ls \<Longrightarrow> max_read_chars < char_weight (take (char_cap 0 0 ls + 1) ls)"
    by blast+
qed


text \<open>The page that starts at an index, and how many lines it may have.\<close>

definition page_size :: "string list \<Rightarrow> nat \<Rightarrow> nat option \<Rightarrow> nat \<Rightarrow> bool" where
  "page_size ls start limit k \<longleftrightarrow>
     (let most = min (length ls - start) (case limit of None \<Rightarrow> max_read_lines | Some m \<Rightarrow> min m max_read_lines)
      in 1 \<le> k \<and> k \<le> most \<and>
         (k = 1 \<or> char_weight (take k (drop start ls)) \<le> max_read_chars) \<and>
         (k < most \<longrightarrow> max_read_chars < char_weight (take (k + 1) (drop start ls))))"

lemma read_file_pages:
  assumes "Readable \<le> level_of env (resolve_path env path)" "is_file env d (resolve_path env path)"
    and "read_text env d (resolve_path env path) = Inr t" "ls = py_splitlines t"
    and "start < length ls" "limit \<noteq> Some 0" "start = 0 \<Longrightarrow> limit = None \<Longrightarrow> length ls \<le> outline_threshold"
  shows "\<exists>k. page_size ls start limit k \<and>
    read_file env path (int start + 1) (map_option int limit) d =
      Inr (format_lines (take k (drop start ls)) (start + 1) None @
        (if start + k < length ls
         then lf @ ''[Truncated: showing lines '' @ show_nat (start + 1) @ ''-'' @ show_nat (start + k) @ '' of '' @
           show_nat (length ls) @ '' total. Use offset/limit to read more.]''
         else []))"
proof -
  let ?rest = "drop start ls"
  let ?most = "min (length ?rest) (case limit of None \<Rightarrow> max_read_lines | Some m \<Rightarrow> min m max_read_lines)"
  let ?capped = "take ?most ?rest"
  let ?k = "char_cap 0 0 ?capped"
  have most: "1 \<le> ?most" using assms(5,6) by (auto simp: max_read_lines_def split: option.split)
  then have ne: "?capped \<noteq> []" by (simp add: Suc_le_eq)
  have len: "length ?capped = ?most" by simp
  note page = char_cap_page [OF ne, unfolded len]
  have "take ?k ?capped = take ?k ?rest" using page(2) by (simp add: min.absorb1 del: length_drop)
  moreover have "?k < ?most \<Longrightarrow> take (?k + 1) ?capped = take (?k + 1) ?rest"
    by (simp add: min.absorb1 del: length_drop)
  ultimately have size: "page_size ls start limit ?k"
    using page unfolding page_size_def Let_def by (simp del: take_take)
  have capped: "py_take (min (case map_option int limit of None \<Rightarrow> int (length ?rest) | Some k \<Rightarrow> min (int (length ?rest)) k)
      (int max_read_lines)) ?rest = ?capped"
  proof (cases limit)
    case (Some m)
    then show ?thesis by (simp add: py_take_def min.assoc del: length_drop flip: of_nat_min)
  qed (simp add: py_take_def del: length_drop flip: of_nat_min)
  have selected: "take ?k ?capped = take ?k ?rest" using page(2) by (simp add: min.absorb1 del: length_drop)
  have shown: "length (take ?k ?rest) = ?k" using page(2) by simp
  have "read_file env path (int start + 1) (map_option int limit) d =
      Inr (format_lines (take ?k ?rest) (start + 1) None @
        (if start + ?k < length ls
         then lf @ ''[Truncated: showing lines '' @ show_nat (start + 1) @ ''-'' @ show_nat (start + ?k) @ '' of '' @
           show_nat (length ls) @ '' total. Use offset/limit to read more.]''
         else []))"
  proof -
    have ok: "enforce_access env (resolve_path env path) Readable = Inr ()"
      using assms(1) by (simp add: enforce_access_def not_less [symmetric])
    have whole: "\<not> (int start + 1 = 1 \<and> map_option int limit = None \<and> length ls > outline_threshold)"
      using assms(7) by auto
    have start: "nat (max (int start + 1 - 1) 0) = start" by simp
    have few: "length (take ?k ?rest) < length ?rest \<longleftrightarrow> start + ?k < length ls"
      using shown by auto
    show ?thesis
      unfolding read_file_def Let_def ok rbind.simps assms(3) assms(4) [symmetric] start capped selected few shown
        if_not_P [OF whole]
      using assms(2,5) by (simp add: less_diff_conv add.commute)
  qed
  with size show ?thesis by blast
qed


text \<open>A read of a file gives the page that starts at the requested line: at least one line, at
  most 500 and at most what was asked for, more than one only within the limit on characters, and
  as many as these limits allow; a page that is not the end says so.\<close>

theorem reads_give_whole_pages:
  assumes "Readable \<le> level_of env (resolve_path env path)" "is_file env d (resolve_path env path)"
    and "read_text env d (resolve_path env path) = Inr t" "ls = py_splitlines t"
    and "start < length ls" "limit \<noteq> Some 0" "start = 0 \<Longrightarrow> limit = None \<Longrightarrow> length ls \<le> outline_threshold"
  shows "\<exists>k. page_size ls start limit k \<and>
    read_file env path (int start + 1) (map_option int limit) d =
      Inr (format_lines (take k (drop start ls)) (start + 1) None @
        (if start + k < length ls
         then lf @ ''[Truncated: showing lines '' @ show_nat (start + 1) @ ''-'' @ show_nat (start + k) @ '' of '' @
           show_nat (length ls) @ '' total. Use offset/limit to read more.]''
         else []))"
  by (rule read_file_pages [OF assms])

lemma example_read:
  "Readable \<le> level_of example_tools (resolve_path example_tools ''a'')"
  "is_file example_tools (example_disk s) (resolve_path example_tools ''a'')"
  "read_text example_tools (example_disk s) (resolve_path example_tools ''a'') = Inr ''one''"
  "[''one''] = py_splitlines ''one''"
  by (simp_all add: is_file_def read_text_def example_disk_def example_levels) code_simp

theorem reads_give_whole_pages_witness:
  "\<exists>k. page_size [''one''] 0 None k \<and>
    read_file example_tools ''a'' (int 0 + 1) (map_option int None) (example_disk ''k'') =
      Inr (format_lines (take k (drop 0 [''one''])) (0 + 1) None @
        (if 0 + k < length [''one'']
         then lf @ ''[Truncated: showing lines '' @ show_nat (0 + 1) @ ''-'' @ show_nat (0 + k) @ '' of '' @
           show_nat (length [''one'']) @ '' total. Use offset/limit to read more.]''
         else []))"
  by (rule reads_give_whole_pages [OF example_read(1,2,3) example_read(4)]) (simp_all add: outline_threshold_def)

text \<open>A negative limit is taken from the end of the file, past the limit on lines.\<close>

lemma negative_limit_exceeds_cap:
  "length (py_take (min (min (int n) (- 1)) (int max_read_lines)) (replicate n ''x'')) = n - 1"
  by (simp add: py_take_def)

end
