(* ===== verification/History.thy ===== *)
theory History
  imports JsonText Timestamps Complex_Main
begin

text \<open>
  The history of a session as a sequence of prompts, turns, tool calls and advisories, each shown
  in full or collapsed, the compaction that collapses them (\<open>src/thorn/core/_history.py\<close>) and the
  trimming of housekeeping (\<open>src/thorn/core/_housekeeping.py\<close>). The caches of the source, whose
  inputs do not change, are left out. Parsing of JSON arguments and the weight of a salience at an
  age (a floating-point exponential) are parameters; watermarks and saliences are rationals.
\<close>

section \<open>Messages\<close>

record tool_request =
  tc_id :: string
  tc_name :: string
  tc_arguments :: string

datatype content_peer_status = FromPeer | FromNonPeer | FromUnknown

record tool_result =
  tr_id :: string
  tr_content :: string
  tr_error :: bool
  tr_statuses :: "content_peer_status set"

datatype message =
    UserMessage string
  | AssistantMessage string "tool_request list"
  | ToolResult tool_result

section \<open>Texts\<close>

definition chars_per_token :: nat where "chars_per_token = 4"
definition long_content_threshold :: nat where "long_content_threshold = 2000"
definition truncated_prefix_chars :: nat where "truncated_prefix_chars = 500"
definition summary_prefix_chars :: nat where "summary_prefix_chars = 200"
definition abbreviated_value_max :: nat where "abbreviated_value_max = 60"

definition estimate_tokens :: "string \<Rightarrow> nat" where
  "estimate_tokens s = max 1 (length s div chars_per_token)"

definition truncate_content :: "string \<Rightarrow> nat \<Rightarrow> string" where
  "truncate_content s n =
     (if length s \<le> n then s
      else take n s @ [CHR 0x0A] @ ''[... '' @ show_nat (length s - n) @ '' more characters]'')"

definition brief :: "string \<Rightarrow> nat \<Rightarrow> string" where
  "brief s n = (if length s \<le> n then s else take (n - 3) s @ ''...'')"

text \<open>What \<open>json.loads\<close> makes of a text; \<open>None\<close> is a \<open>JSONDecodeError\<close>.\<close>

type_synonym json_parser = "string \<Rightarrow> json option"

definition abbreviate_value :: "nat \<Rightarrow> json \<Rightarrow> json" where
  "abbreviate_value n v =
     (case v of
        JStr s \<Rightarrow> if length s > n then JStr (brief s n) else v
      | JArr xs \<Rightarrow> if length (json_dumps v) > n then JStr (''['' @ show_nat (length xs) @ '' items]'') else v
      | JObj m \<Rightarrow> if length (json_dumps v) > n then JStr (''{'' @ show_nat (length m) @ '' keys}'') else v
      | _ \<Rightarrow> v)"

definition abbreviate_arguments :: "json_parser \<Rightarrow> string \<Rightarrow> nat \<Rightarrow> string" where
  "abbreviate_arguments loads arguments n =
     (case (if arguments = [] then Some (JObj []) else loads arguments) of
        None \<Rightarrow> brief arguments (n * 2)
      | Some (JObj m) \<Rightarrow> json_dumps (JObj (map (\<lambda>(k, v). (k, abbreviate_value n v)) m))
      | Some _ \<Rightarrow> brief arguments (n * 2))"

text \<open>The calls on the arguments raise an \<open>AttributeError\<close> when they are not a dictionary.\<close>

definition first_arg_repr :: "json \<Rightarrow> string result" where
  "first_arg_repr args =
     (if \<not> truthy args then Inr []
      else rbind (jdict args) (\<lambda>m. Inr (py_repr (brief (json_str (snd (hd m))) 40))))"

definition arg_text :: "json \<Rightarrow> string \<Rightarrow> string \<Rightarrow> string result" where
  "arg_text args key dflt =
     rbind (jdict args) (\<lambda>m. Inr (case map_of m key of None \<Rightarrow> dflt | Some v \<Rightarrow> json_str v))"

definition summary_args :: "json_parser \<Rightarrow> tool_request \<Rightarrow> json" where
  "summary_args loads c =
     (if tc_arguments c = [] then JObj []
      else (case loads (tc_arguments c) of None \<Rightarrow> JObj [] | Some j \<Rightarrow> j))"

definition call_text :: "string \<Rightarrow> string \<Rightarrow> string" where
  "call_text name arg = name @ ''('' @ arg @ '')''"

definition single_quoted :: "string \<Rightarrow> string" where
  "single_quoted s = [CHR 0x27] @ s @ [CHR 0x27]"

definition entry_lines :: "string \<Rightarrow> string list" where
  "entry_lines content =
     filter (\<lambda>l. l \<noteq> [] \<and> \<not> py_startswith l ''['') (py_split_str [CHR 0x0A] (py_strip content))"

definition edit_count :: "json \<Rightarrow> string result" where
  "edit_count args =
     rbind (jdict args) (\<lambda>m. Inr (case map_of m ''edits'' of
         None \<Rightarrow> show_nat 0
       | Some (JArr xs) \<Rightarrow> show_nat (length xs)
       | Some _ \<Rightarrow> ''?''))"

definition tool_call_summary :: "json_parser \<Rightarrow> tool_request \<Rightarrow> tool_result \<Rightarrow> string result" where
  "tool_call_summary loads c r =
     (let name = tc_name c; args = summary_args loads c; arg = arg_text args in
      if tr_error r
      then rbind (first_arg_repr args) (\<lambda>first. Inr (call_text name first @ '' -> error: '' @ brief (tr_content r) 60))
      else if name = ''read_file''
      then rbind (arg ''path'' ''?'') (\<lambda>p. Inr (call_text name (single_quoted p) @ '' -> '' @
             show_nat (length (filter (\<lambda>x. x = CHR 0x0A) (tr_content r)) + 1) @ '' lines''))
      else if name = ''edit_file''
      then rbind (arg ''path'' ''?'') (\<lambda>p. rbind (edit_count args) (\<lambda>n.
             Inr (call_text name (single_quoted p) @ '' -> applied '' @ n @ '' edit(s)'')))
      else if name = ''create_file'' \<or> name = ''delete_file''
      then rbind (arg ''path'' ''?'') (\<lambda>p. Inr (call_text name (single_quoted p)))
      else if name = ''move_file''
      then rbind (arg ''source'' ''?'') (\<lambda>s. rbind (arg ''destination'' ''?'') (\<lambda>d.
             Inr (call_text name (single_quoted s @ '' -> '' @ single_quoted d))))
      else if name = ''search_files''
      then rbind (arg ''pattern'' ''?'') (\<lambda>p. Inr (call_text name (single_quoted p) @ '' -> '' @ brief (tr_content r) 40))
      else if name = ''find_files''
      then rbind (arg ''pattern'' ''?'') (\<lambda>p. Inr (call_text name (single_quoted p) @ '' -> '' @
             show_nat (length (entry_lines (tr_content r))) @ '' entries''))
      else if name = ''list_directory''
      then rbind (arg ''path'' ''.'') (\<lambda>p. Inr (call_text name (single_quoted p)))
      else if name = ''run_shell''
      then rbind (arg ''command'' ''?'') (\<lambda>s. Inr (call_text name (py_repr (brief s 40))))
      else if name = ''return_result'' then Inr ''return_result(...)''
      else rbind (first_arg_repr args) (\<lambda>first. Inr (call_text name first)))"

section \<open>Nodes\<close>

text \<open>The subclass of a tool call node; it only tells the nodes apart.\<close>

datatype call_class = PlainCall | FileRead | DirectoryList

record call_node =
  cl_call :: tool_request
  cl_result :: tool_result
  cl_collapsed :: bool
  cl_salience :: rat
  cl_class :: call_class

record advisory_node =
  av_source :: string
  av_content :: string
  av_collapsed :: bool
  av_salience :: rat

record prompt_node =
  pn_content :: string
  pn_collapsed :: bool
  pn_salience :: rat

record turn_node =
  tn_content :: string
  tn_calls :: "call_node list"
  tn_advisories :: "advisory_node list"
  tn_collapsed :: bool
  tn_salience :: rat

datatype history_node =
    UserPrompt prompt_node
  | Turn turn_node
  | ArchiveMarker timestamp string nat string
  | Housekeeping "history_node list"

record history_env =
  he_loads :: json_parser
  he_weigh :: "rat \<Rightarrow> nat \<Rightarrow> rat"

text \<open>The summary of a call node where it exists; the operations check first that it does.\<close>

definition call_summary :: "history_env \<Rightarrow> call_node \<Rightarrow> string" where
  "call_summary env n =
     (case tool_call_summary (he_loads env) (cl_call n) (cl_result n) of Inl _ \<Rightarrow> [] | Inr s \<Rightarrow> s)"

definition call_arguments :: "history_env \<Rightarrow> call_node \<Rightarrow> string" where
  "call_arguments env n = abbreviate_arguments (he_loads env) (tc_arguments (cl_call n)) abbreviated_value_max"

definition call_expanded_cost :: "call_node \<Rightarrow> nat" where
  "call_expanded_cost n =
     estimate_tokens (tc_name (cl_call n)) + estimate_tokens (tc_arguments (cl_call n)) +
     estimate_tokens (tr_content (cl_result n))"

definition call_collapsed_cost :: "history_env \<Rightarrow> call_node \<Rightarrow> nat" where
  "call_collapsed_cost env n =
     estimate_tokens (tc_name (cl_call n)) + estimate_tokens (call_arguments env n) +
     estimate_tokens (call_summary env n)"

definition call_cost :: "history_env \<Rightarrow> call_node \<Rightarrow> nat" where
  "call_cost env n = (if cl_collapsed n then call_collapsed_cost env n else call_expanded_cost n)"

definition call_savings :: "history_env \<Rightarrow> call_node \<Rightarrow> nat" where
  "call_savings env n = call_expanded_cost n - call_collapsed_cost env n"

definition call_collapsible :: "history_env \<Rightarrow> call_node \<Rightarrow> bool" where
  "call_collapsible env n = (\<not> cl_collapsed n \<and> call_savings env n > 0)"

definition render_tool_call :: "history_env \<Rightarrow> call_node \<Rightarrow> tool_request" where
  "render_tool_call env n =
     (if cl_collapsed n then (cl_call n)\<lparr>tc_arguments := call_arguments env n\<rparr> else cl_call n)"

definition render_result :: "history_env \<Rightarrow> call_node \<Rightarrow> tool_result" where
  "render_result env n =
     (if cl_collapsed n
      then \<lparr>tr_id = tr_id (cl_result n), tr_content = call_summary env n, tr_error = False, tr_statuses = {}\<rparr>
      else cl_result n)"

definition advisory_summary :: "advisory_node \<Rightarrow> string" where
  "advisory_summary a = ''['' @ av_source a @ '' advisory]''"

definition advisory_cost :: "advisory_node \<Rightarrow> nat" where
  "advisory_cost a = estimate_tokens (if av_collapsed a then advisory_summary a else av_content a)"

definition advisory_savings :: "advisory_node \<Rightarrow> nat" where
  "advisory_savings a = estimate_tokens (av_content a) - estimate_tokens (advisory_summary a)"

definition advisory_collapsible :: "advisory_node \<Rightarrow> bool" where
  "advisory_collapsible a = (\<not> av_collapsed a \<and> advisory_savings a > 0)"

definition prompt_summary :: "prompt_node \<Rightarrow> string" where
  "prompt_summary p = truncate_content (pn_content p) truncated_prefix_chars"

definition prompt_cost :: "prompt_node \<Rightarrow> nat" where
  "prompt_cost p = estimate_tokens (if pn_collapsed p then prompt_summary p else pn_content p)"

definition prompt_savings :: "prompt_node \<Rightarrow> nat" where
  "prompt_savings p = estimate_tokens (pn_content p) - estimate_tokens (prompt_summary p)"

definition prompt_collapsible :: "prompt_node \<Rightarrow> bool" where
  "prompt_collapsible p = (\<not> pn_collapsed p \<and> length (pn_content p) > long_content_threshold)"

definition turn_summary :: "history_env \<Rightarrow> turn_node \<Rightarrow> string" where
  "turn_summary env t =
     (let parts = (if tn_content t = [] then [] else [truncate_content (tn_content t) summary_prefix_chars]) @
                  map (call_summary env) (tn_calls t) @
                  (if tn_advisories t = [] then []
                   else [''[advisories: '' @ py_join '', '' (map av_source (tn_advisories t)) @ '']''])
      in if parts = [] then ''[empty turn]'' else py_join '' | '' parts)"

definition turn_collapsed_cost :: "history_env \<Rightarrow> turn_node \<Rightarrow> nat" where
  "turn_collapsed_cost env t = estimate_tokens (turn_summary env t)"

definition turn_cost :: "history_env \<Rightarrow> turn_node \<Rightarrow> nat" where
  "turn_cost env t =
     (if tn_collapsed t then turn_collapsed_cost env t
      else estimate_tokens (tn_content t) + sum_list (map (call_cost env) (tn_calls t)) +
           sum_list (map advisory_cost (tn_advisories t)))"

definition turn_savings :: "history_env \<Rightarrow> turn_node \<Rightarrow> nat" where
  "turn_savings env t = turn_cost env t - turn_collapsed_cost env t"

definition archive_text :: "nat \<Rightarrow> string \<Rightarrow> string" where
  "archive_text count date =
     ''[Earlier conversation ('' @ show_nat count @ '' '' @ (if count = 1 then ''turn'' else ''turns'') @
     '', archived '' @ date @ '') is available in the agent journal. Use read_journal('' @ single_quoted date @
     '') to review if needed.]''"

fun node_cost :: "history_env \<Rightarrow> history_node \<Rightarrow> nat" where
  "node_cost env (UserPrompt p) = prompt_cost p"
| "node_cost env (Turn t) = turn_cost env t"
| "node_cost env (ArchiveMarker stamp note count date) = estimate_tokens (archive_text count date)"
| "node_cost env (Housekeeping ns) = 0"

definition estimated_tokens :: "history_env \<Rightarrow> history_node list \<Rightarrow> nat" where
  "estimated_tokens env ns = sum_list (map (node_cost env) ns)"

section \<open>Rendering\<close>

definition blank_line :: string where
  "blank_line = [CHR 0x0A, CHR 0x0A]"

definition render_advisories :: "turn_node \<Rightarrow> string" where
  "render_advisories t =
     py_join blank_line (map (\<lambda>a. if av_collapsed a then advisory_summary a else av_content a) (tn_advisories t))"

text \<open>The advisories go behind the last result, which keeps its other fields.\<close>

definition with_advisories :: "string \<Rightarrow> tool_result list \<Rightarrow> tool_result list" where
  "with_advisories note results =
     (if note \<noteq> [] \<and> results \<noteq> []
      then butlast results @ [(last results)\<lparr>tr_content := tr_content (last results) @ blank_line @ note\<rparr>]
      else results)"

definition render_turn :: "history_env \<Rightarrow> turn_node \<Rightarrow> message list" where
  "render_turn env t =
     (if tn_collapsed t then [AssistantMessage (turn_summary env t) []]
      else AssistantMessage (tn_content t) (map (render_tool_call env) (tn_calls t)) #
           map ToolResult (with_advisories (render_advisories t) (map (render_result env) (tn_calls t))))"

fun render_node :: "history_env \<Rightarrow> history_node \<Rightarrow> message list" where
  "render_node env (UserPrompt p) = [UserMessage (if pn_collapsed p then prompt_summary p else pn_content p)]"
| "render_node env (Turn t) = render_turn env t"
| "render_node env (ArchiveMarker stamp note count date) = [UserMessage (archive_text count date)]"
| "render_node env (Housekeeping ns) = []"


section \<open>Growth\<close>

definition append_user_prompt :: "string \<Rightarrow> rat \<Rightarrow> history_node list \<Rightarrow> history_node list" where
  "append_user_prompt content salience ns =
     ns @ [UserPrompt \<lparr>pn_content = content, pn_collapsed = False, pn_salience = salience\<rparr>]"

definition default_tool_call_salience :: rat where "default_tool_call_salience = 4 / 5"

text \<open>Calls without a result are left out; of several results with one id the last one counts.\<close>

definition call_nodes :: "tool_request list \<Rightarrow> tool_result list \<Rightarrow> (string \<times> call_class) list \<Rightarrow> call_node list" where
  "call_nodes calls results classes =
     List.map_filter (\<lambda>c. map_option (\<lambda>r. \<lparr>cl_call = c, cl_result = r, cl_collapsed = False,
         cl_salience = default_tool_call_salience,
         cl_class = (case map_of classes (tc_id c) of None \<Rightarrow> PlainCall | Some k \<Rightarrow> k)\<rparr>)
       (find (\<lambda>r. tr_id r = tc_id c) (rev results))) calls"

definition append_turn ::
    "string \<Rightarrow> tool_request list \<Rightarrow> tool_result list \<Rightarrow> advisory_node list \<Rightarrow> rat \<Rightarrow> (string \<times> call_class) list \<Rightarrow>
     history_node list \<Rightarrow> history_node list" where
  "append_turn content calls results advisories salience classes ns =
     ns @ [Turn \<lparr>tn_content = content, tn_calls = call_nodes calls results classes,
                 tn_advisories = advisories, tn_collapsed = False, tn_salience = salience\<rparr>]"

section \<open>Compaction\<close>

definition is_prompt :: "history_node \<Rightarrow> bool" where
  "is_prompt n = (case n of UserPrompt _ \<Rightarrow> True | _ \<Rightarrow> False)"

definition turn_calls :: "history_node \<Rightarrow> call_node list" where
  "turn_calls n = (case n of Turn t \<Rightarrow> tn_calls t | _ \<Rightarrow> [])"

text \<open>From the newest node back: the turns with the most recent tool calls.\<close>

fun recent_callers :: "(nat \<times> history_node) list \<Rightarrow> int \<Rightarrow> nat list" where
  "recent_callers [] remaining = []"
| "recent_callers ((i, n) # ns) remaining =
     (if remaining \<le> 0 then []
      else if turn_calls n \<noteq> [] then i # recent_callers ns (remaining - int (length (turn_calls n)))
      else recent_callers ns remaining)"

definition protected_indices :: "history_node list \<Rightarrow> nat \<Rightarrow> int \<Rightarrow> nat set" where
  "protected_indices ns tail_nodes tail_calls =
     (let backwards = rev (enumerate 0 ns)
      in {length ns - tail_nodes..<length ns} \<union>
         (case find (\<lambda>(i, n). is_prompt n) backwards of None \<Rightarrow> {} | Some (i, _) \<Rightarrow> {i}) \<union>
         set (recent_callers backwards tail_calls))"

datatype collapse_target = CallAt nat nat | AdvisoryAt nat nat | TurnAt nat | PromptAt nat

record candidate =
  ca_salience :: rat
  ca_savings :: nat
  ca_target :: collapse_target

definition call_candidates :: "history_env \<Rightarrow> nat \<Rightarrow> nat \<Rightarrow> turn_node \<Rightarrow> candidate list" where
  "call_candidates env age i t =
     map (\<lambda>(j, c). \<lparr>ca_salience = he_weigh env (cl_salience c) age, ca_savings = call_savings env c, ca_target = CallAt i j\<rparr>)
       (filter (\<lambda>(j, c). call_collapsible env c) (enumerate 0 (tn_calls t)))"

definition advisory_candidates :: "history_env \<Rightarrow> nat \<Rightarrow> nat \<Rightarrow> turn_node \<Rightarrow> candidate list" where
  "advisory_candidates env age i t =
     map (\<lambda>(j, a). \<lparr>ca_salience = he_weigh env (av_salience a) age, ca_savings = advisory_savings a, ca_target = AdvisoryAt i j\<rparr>)
       (filter (\<lambda>(j, a). advisory_collapsible a) (enumerate 0 (tn_advisories t)))"

fun node_candidates :: "history_env \<Rightarrow> nat \<Rightarrow> nat \<Rightarrow> history_node \<Rightarrow> candidate list" where
  "node_candidates env age i (Turn t) =
     (if tn_collapsed t then []
      else call_candidates env age i t @ advisory_candidates env age i t @
           (if turn_savings env t > 0
            then [\<lparr>ca_salience = he_weigh env (tn_salience t) age + 1 / 1000, ca_savings = turn_savings env t,
                   ca_target = TurnAt i\<rparr>] else []))"
| "node_candidates env age i (UserPrompt p) =
     (if prompt_collapsible p \<and> prompt_savings p > 0
      then [\<lparr>ca_salience = he_weigh env (pn_salience p) age, ca_savings = prompt_savings p, ca_target = PromptAt i\<rparr>]
      else [])"
| "node_candidates env age i _ = []"

definition build_candidates :: "history_env \<Rightarrow> nat set \<Rightarrow> history_node list \<Rightarrow> candidate list" where
  "build_candidates env protected ns =
     concat (map (\<lambda>(i, n). if i \<in> protected then [] else node_candidates env (length ns - 1 - i) i n)
       (enumerate 0 ns))"

definition update_turn :: "(turn_node \<Rightarrow> turn_node) \<Rightarrow> nat \<Rightarrow> history_node list \<Rightarrow> history_node list" where
  "update_turn f i ns = (case ns ! i of Turn t \<Rightarrow> ns[i := Turn (f t)] | _ \<Rightarrow> ns)"

definition update_prompt :: "(prompt_node \<Rightarrow> prompt_node) \<Rightarrow> nat \<Rightarrow> history_node list \<Rightarrow> history_node list" where
  "update_prompt f i ns = (case ns ! i of UserPrompt p \<Rightarrow> ns[i := UserPrompt (f p)] | _ \<Rightarrow> ns)"

fun apply_target :: "collapse_target \<Rightarrow> history_node list \<Rightarrow> history_node list" where
  "apply_target (CallAt i j) ns =
     update_turn (\<lambda>t. t\<lparr>tn_calls := (tn_calls t)[j := (tn_calls t ! j)\<lparr>cl_collapsed := True\<rparr>]\<rparr>) i ns"
| "apply_target (AdvisoryAt i j) ns =
     update_turn (\<lambda>t. t\<lparr>tn_advisories := (tn_advisories t)[j := (tn_advisories t ! j)\<lparr>av_collapsed := True\<rparr>]\<rparr>) i ns"
| "apply_target (TurnAt i) ns = update_turn (\<lambda>t. t\<lparr>tn_collapsed := True\<rparr>) i ns"
| "apply_target (PromptAt i) ns = update_prompt (\<lambda>p. p\<lparr>pn_collapsed := True\<rparr>) i ns"

fun parent_collapsed :: "collapse_target \<Rightarrow> history_node list \<Rightarrow> bool" where
  "parent_collapsed (CallAt i j) ns = (case ns ! i of Turn t \<Rightarrow> tn_collapsed t | _ \<Rightarrow> False)"
| "parent_collapsed (AdvisoryAt i j) ns = (case ns ! i of Turn t \<Rightarrow> tn_collapsed t | _ \<Rightarrow> False)"
| "parent_collapsed _ ns = False"

record compaction_result =
  cr_nodes :: nat
  cr_calls :: nat
  cr_savings :: int
  cr_before :: int
  cr_after :: int

text \<open>The greedy loop; the counts are of whole nodes and of tool calls.\<close>

fun collapse_loop ::
    "history_env \<Rightarrow> int \<Rightarrow> int \<Rightarrow> int \<Rightarrow> candidate list \<Rightarrow> int \<Rightarrow> nat \<Rightarrow> nat \<Rightarrow> history_node list \<Rightarrow>
     nat \<times> nat \<times> history_node list" where
  "collapse_loop env overhead whole needed [] savings nodes calls ns = (nodes, calls, ns)"
| "collapse_loop env overhead whole needed (c # cs) savings nodes calls ns =
     (if savings \<ge> needed then (nodes, calls, ns)
      else if parent_collapsed (ca_target c) ns then collapse_loop env overhead whole needed cs savings nodes calls ns
      else (let ns' = apply_target (ca_target c) ns;
                savings' = whole - (int (estimated_tokens env ns') + overhead)
            in case ca_target c of
                 CallAt _ _ \<Rightarrow> collapse_loop env overhead whole needed cs savings' nodes (calls + 1) ns'
               | AdvisoryAt _ _ \<Rightarrow> collapse_loop env overhead whole needed cs savings' nodes calls ns'
               | _ \<Rightarrow> collapse_loop env overhead whole needed cs savings' (nodes + 1) calls ns'))"

text \<open>\<open>int(x)\<close> cuts off towards zero.\<close>

definition py_trunc :: "rat \<Rightarrow> int" where
  "py_trunc x = (if x \<ge> 0 then \<lfloor>x\<rfloor> else \<lceil>x\<rceil>)"

text \<open>The savings to reach; \<open>None\<close> when there is nothing to do.\<close>

definition savings_needed :: "int \<Rightarrow> int \<Rightarrow> int option \<Rightarrow> int option result" where
  "savings_needed whole target actual =
     (case actual of
        None \<Rightarrow> Inr (if whole - target \<le> 0 then None else Some (whole - target))
      | Some prompt \<Rightarrow>
          if prompt - target \<le> 0 then Inr None
          else if prompt = 0 then Inl ZeroDivisionError
          else Inr (Some (max 1 (py_trunc (of_int whole * (of_int (prompt - target) / of_int prompt))))))"

text \<open>The calls whose summaries the costs and the candidates of a node ask for.\<close>

definition summarised_for_cost :: "history_node \<Rightarrow> call_node list" where
  "summarised_for_cost n =
     (case n of Turn t \<Rightarrow> (if tn_collapsed t then tn_calls t else filter cl_collapsed (tn_calls t)) | _ \<Rightarrow> [])"

definition summarised_for_candidates :: "nat set \<Rightarrow> history_node list \<Rightarrow> call_node list" where
  "summarised_for_candidates protected ns =
     concat (map (\<lambda>(i, n). case n of Turn t \<Rightarrow> if i \<in> protected \<or> tn_collapsed t then [] else tn_calls t | _ \<Rightarrow> [])
       (enumerate 0 ns))"

definition summaries :: "history_env \<Rightarrow> call_node list \<Rightarrow> string list result" where
  "summaries env cs = rmap_list (\<lambda>c. tool_call_summary (he_loads env) (cl_call c) (cl_result c)) cs"

definition compact ::
    "history_env \<Rightarrow> int \<Rightarrow> rat \<Rightarrow> int \<Rightarrow> int option \<Rightarrow> nat \<Rightarrow> int \<Rightarrow> (history_node list, compaction_result) eff" where
  "compact env budget low overhead actual tail_nodes tail_calls ns =
     (let whole = int (estimated_tokens env ns) + overhead;
          protected = protected_indices ns tail_nodes tail_calls in
      case rbind (summaries env (concat (map summarised_for_cost ns))) (\<lambda>_.
             savings_needed whole (py_trunc (of_int budget * low)) actual) of
        Inl e \<Rightarrow> (Inl e, ns)
      | Inr None \<Rightarrow> (Inr \<lparr>cr_nodes = 0, cr_calls = 0, cr_savings = 0, cr_before = whole, cr_after = whole\<rparr>, ns)
      | Inr (Some needed) \<Rightarrow>
          (case summaries env (summarised_for_candidates protected ns) of
             Inl e \<Rightarrow> (Inl e, ns)
           | Inr _ \<Rightarrow>
               (case collapse_loop env overhead whole needed (sort_key ca_salience (build_candidates env protected ns)) 0 0 0 ns of
                  (nodes, calls, ns') \<Rightarrow>
                    (let after = int (estimated_tokens env ns') + overhead
                     in (Inr \<lparr>cr_nodes = nodes, cr_calls = calls, cr_savings = whole - after, cr_before = whole,
                              cr_after = after\<rparr>, ns')))))"


section \<open>Housekeeping\<close>

definition context_boundary_text :: string where
  "context_boundary_text =
     ''[CONTEXT BOUNDARY: Everything above this point will be removed from your message history after this turn. If any of that content is important, write it to your journal now.]''"

definition select_cut_point :: "history_node list \<Rightarrow> nat set \<Rightarrow> nat option" where
  "select_cut_point ns protected =
     (if ns = [] then None
      else if protected = {} then Some (length ns - 1)
      else if Min protected = 0 then None
      else Some (Min protected - 1))"

definition housekeeping_tools :: "string list" where
  "housekeeping_tools = [''write_journal'', ''read_journal'', ''read_file'']"

definition filter_housekeeping_tools :: "string list \<Rightarrow> string list" where
  "filter_housekeeping_tools tools = filter (\<lambda>t. t \<in> set housekeeping_tools) tools"

text \<open>How the loop of the agent ends: normally, by one of the two errors that are caught, or by
  another one. What it does to the history is a parameter; it changes nodes in place and appends, so the
  boundary marker is the node at the place where it was inserted.\<close>

datatype loop_end = LoopDone | LoopStopped | LoopRaised py_error

type_synonym sub_loop = "history_node list \<Rightarrow> loop_end \<times> history_node list"

record housekeeping_result =
  hk_trimmed :: nat
  hk_date :: string

definition boundary_node :: history_node where
  "boundary_node = UserPrompt \<lparr>pn_content = context_boundary_text, pn_collapsed = False, pn_salience = 1\<rparr>"

text \<open>\<open>strftime\<close> with the format of a date.\<close>

definition journal_date :: "timestamp \<Rightarrow> string" where
  "journal_date t = fixed_digits 4 (ts_year t) @ ''-'' @ fixed_digits 2 (ts_month t) @ ''-'' @ fixed_digits 2 (ts_day t)"

definition archive_node :: "timestamp \<Rightarrow> nat \<Rightarrow> history_node" where
  "archive_node now count =
     ArchiveMarker now (''Archived '' @ show_nat count @ '' history nodes'') count (journal_date now)"

definition perform_housekeeping ::
    "sub_loop \<Rightarrow> timestamp \<Rightarrow> (history_node list, housekeeping_result option) eff" where
  "perform_housekeeping loop now ns =
     (case select_cut_point ns (protected_indices ns 4 6) of
        None \<Rightarrow> (Inr None, ns)
      | Some point \<Rightarrow>
          (case loop (take (point + 1) ns @ [boundary_node] @ drop (point + 1) ns) of
             (LoopRaised e, ns') \<Rightarrow> (Inl e, ns')
           | (_, ns') \<Rightarrow>
               (let stop = length ns + 1;
                    recent = take (stop - (point + 2)) (drop (point + 2) ns');
                    inner = (ns' ! (point + 1)) # drop stop ns'
                in (Inr (Some \<lparr>hk_trimmed = point + 1, hk_date = journal_date now\<rparr>),
                    archive_node now (point + 1) # recent @ [Housekeeping inner]))))"

end
