(* ===== verification/Compaction.thy ===== *)
theory Compaction
  imports History
begin

text \<open>
  What compaction promises: it only collapses, it leaves the recent nodes alone, it never makes
  the history longer, and it stops only when it has saved enough or nothing is left to collapse.
\<close>

section \<open>Versions of a node\<close>

definition call_version :: "history_env \<Rightarrow> call_node \<Rightarrow> call_node \<Rightarrow> bool" where
  "call_version env c c' \<longleftrightarrow> c' = c \<or> (call_collapsible env c \<and> c' = c\<lparr>cl_collapsed := True\<rparr>)"

definition advisory_version :: "advisory_node \<Rightarrow> advisory_node \<Rightarrow> bool" where
  "advisory_version a a' \<longleftrightarrow> a' = a \<or> (advisory_collapsible a \<and> a' = a\<lparr>av_collapsed := True\<rparr>)"

definition turn_version :: "history_env \<Rightarrow> turn_node \<Rightarrow> turn_node \<Rightarrow> bool" where
  "turn_version env t t' \<longleftrightarrow>
     t' = t \<or>
     (\<not> tn_collapsed t \<and> tn_content t' = tn_content t \<and> tn_salience t' = tn_salience t \<and>
      list_all2 (call_version env) (tn_calls t) (tn_calls t') \<and>
      list_all2 advisory_version (tn_advisories t) (tn_advisories t') \<and>
      (tn_collapsed t' \<longrightarrow> turn_savings env t > 0))"

fun node_version :: "history_env \<Rightarrow> history_node \<Rightarrow> history_node \<Rightarrow> bool" where
  "node_version env (Turn t) n' = (\<exists>t'. n' = Turn t' \<and> turn_version env t t')"
| "node_version env (UserPrompt p) n' =
     (n' = UserPrompt p \<or> (prompt_collapsible p \<and> prompt_savings p > 0 \<and> n' = UserPrompt (p\<lparr>pn_collapsed := True\<rparr>)))"
| "node_version env n n' = (n' = n)"

lemma call_version_refl [simp]: "call_version env c c"
  by (simp add: call_version_def)

lemma advisory_version_refl [simp]: "advisory_version a a"
  by (simp add: advisory_version_def)

lemma node_version_refl [simp]: "node_version env n n"
  by (cases n) (simp_all add: turn_version_def)

lemma call_version_fields:
  assumes "call_version env c c'"
  shows "call_summary env c' = call_summary env c" "call_expanded_cost c' = call_expanded_cost c"
    "call_collapsed_cost env c' = call_collapsed_cost env c" "call_cost env c' \<le> call_cost env c"
    "cl_call c' = cl_call c" "cl_result c' = cl_result c"
  using assms
  by (auto simp: call_version_def call_summary_def call_expanded_cost_def call_collapsed_cost_def call_arguments_def
      call_cost_def call_collapsible_def call_savings_def)

lemma advisory_version_fields:
  assumes "advisory_version a a'"
  shows "av_source a' = av_source a" "av_content a' = av_content a" "advisory_cost a' \<le> advisory_cost a"
  using assms
  by (auto simp: advisory_version_def advisory_cost_def advisory_collapsible_def advisory_savings_def advisory_summary_def)

lemma map_eq_list_all2: "list_all2 R xs ys \<Longrightarrow> (\<And>x y. R x y \<Longrightarrow> f y = f x) \<Longrightarrow> map f ys = map f xs"
  by (induction rule: list_all2_induct) auto

lemma sum_le_list_all2:
  "list_all2 R xs ys \<Longrightarrow> (\<And>x y. R x y \<Longrightarrow> f y \<le> (f x :: nat)) \<Longrightarrow> sum_list (map f ys) \<le> sum_list (map f xs)"
  by (induction rule: list_all2_induct) (auto simp: add_mono)

lemma turn_version_summary: "turn_version env t t' \<Longrightarrow> turn_summary env t' = turn_summary env t"
proof (cases "t' = t")
  case False
  moreover assume "turn_version env t t'"
  ultimately have v: "tn_content t' = tn_content t" "list_all2 (call_version env) (tn_calls t) (tn_calls t')"
      "list_all2 advisory_version (tn_advisories t) (tn_advisories t')"
    by (auto simp: turn_version_def)
  have "map (call_summary env) (tn_calls t') = map (call_summary env) (tn_calls t)"
    by (rule map_eq_list_all2 [OF v(2)]) (rule call_version_fields)
  moreover have "map av_source (tn_advisories t') = map av_source (tn_advisories t)"
    by (rule map_eq_list_all2 [OF v(3)]) (rule advisory_version_fields)
  moreover have "tn_advisories t' = [] \<longleftrightarrow> tn_advisories t = []" using v(3) by auto
  ultimately show ?thesis by (simp add: turn_summary_def v(1))
qed simp

lemma turn_version_cost:
  assumes "turn_version env t t'"
  shows "turn_cost env t' \<le> turn_cost env t"
proof (cases "t' = t")
  case False
  with assms have v: "\<not> tn_collapsed t" "tn_content t' = tn_content t"
      "list_all2 (call_version env) (tn_calls t) (tn_calls t')"
      "list_all2 advisory_version (tn_advisories t) (tn_advisories t')"
      "tn_collapsed t' \<longrightarrow> turn_savings env t > 0"
    by (auto simp: turn_version_def)
  show ?thesis
  proof (cases "tn_collapsed t'")
    case True
    then show ?thesis using v(5) turn_version_summary [OF assms]
      by (simp add: turn_savings_def turn_collapsed_cost_def turn_cost_def [of env t'])
  next
    case False
    have "sum_list (map (call_cost env) (tn_calls t')) \<le> sum_list (map (call_cost env) (tn_calls t))"
      by (rule sum_le_list_all2 [OF v(3)]) (rule call_version_fields)
    moreover have "sum_list (map advisory_cost (tn_advisories t')) \<le> sum_list (map advisory_cost (tn_advisories t))"
      by (rule sum_le_list_all2 [OF v(4)]) (rule advisory_version_fields)
    ultimately show ?thesis using False v(1,2) by (simp add: turn_cost_def)
  qed
qed simp

lemma node_version_cost: "node_version env n n' \<Longrightarrow> node_cost env n' \<le> node_cost env n"
  by (cases n) (auto simp: turn_version_cost prompt_cost_def prompt_savings_def prompt_summary_def prompt_collapsible_def)

section \<open>Applying a candidate\<close>

definition good_target :: "history_env \<Rightarrow> nat set \<Rightarrow> history_node list \<Rightarrow> collapse_target \<Rightarrow> bool" where
  "good_target env protected ns x \<longleftrightarrow>
     (case x of
        CallAt i j \<Rightarrow> i < length ns \<and> i \<notin> protected \<and>
          (\<exists>t. ns ! i = Turn t \<and> \<not> tn_collapsed t \<and> j < length (tn_calls t) \<and> call_collapsible env (tn_calls t ! j))
      | AdvisoryAt i j \<Rightarrow> i < length ns \<and> i \<notin> protected \<and>
          (\<exists>t. ns ! i = Turn t \<and> \<not> tn_collapsed t \<and> j < length (tn_advisories t) \<and>
             advisory_collapsible (tn_advisories t ! j))
      | TurnAt i \<Rightarrow> i < length ns \<and> i \<notin> protected \<and>
          (\<exists>t. ns ! i = Turn t \<and> \<not> tn_collapsed t \<and> turn_savings env t > 0)
      | PromptAt i \<Rightarrow> i < length ns \<and> i \<notin> protected \<and>
          (\<exists>p. ns ! i = UserPrompt p \<and> prompt_collapsible p \<and> prompt_savings p > 0))"

lemma call_targets:
  "ca_target ` set (call_candidates env age i t) =
     CallAt i ` {j. j < length (tn_calls t) \<and> call_collapsible env (tn_calls t ! j)}"
proof -
  have "ca_target ` set (call_candidates env age i t) =
      (\<lambda>(j, c). CallAt i j) ` {(j, c) \<in> set (enumerate 0 (tn_calls t)). call_collapsible env c}"
    by (force simp: call_candidates_def image_iff)
  then show ?thesis by (force simp: in_set_enumerate_eq)
qed

lemma advisory_targets:
  "ca_target ` set (advisory_candidates env age i t) =
     AdvisoryAt i ` {j. j < length (tn_advisories t) \<and> advisory_collapsible (tn_advisories t ! j)}"
proof -
  have "ca_target ` set (advisory_candidates env age i t) =
      (\<lambda>(j, c). AdvisoryAt i j) ` {(j, c) \<in> set (enumerate 0 (tn_advisories t)). advisory_collapsible c}"
    by (force simp: advisory_candidates_def image_iff)
  then show ?thesis by (force simp: in_set_enumerate_eq)
qed

lemma build_candidates_targets:
  "x \<in> ca_target ` set (build_candidates env protected ns) \<longleftrightarrow> good_target env protected ns x"
proof -
  have "c \<in> set (build_candidates env protected ns) \<longleftrightarrow>
      (\<exists>i < length ns. i \<notin> protected \<and> c \<in> set (node_candidates env (length ns - 1 - i) i (ns ! i)))" for c
  proof -
    have "c \<in> set (build_candidates env protected ns) \<longleftrightarrow> (\<exists>(i, n) \<in> set (enumerate 0 ns). i \<notin> protected \<and>
        c \<in> set (node_candidates env (length ns - 1 - i) i n))"
      by (auto simp: build_candidates_def split: if_splits)
    then show ?thesis by (force simp: in_set_enumerate_eq)
  qed
  then have "x \<in> ca_target ` set (build_candidates env protected ns) \<longleftrightarrow>
      (\<exists>i < length ns. i \<notin> protected \<and> x \<in> ca_target ` set (node_candidates env (length ns - 1 - i) i (ns ! i)))"
    by (simp add: image_iff Bex_def) blast
  moreover have "x \<in> ca_target ` set (node_candidates env age i n) \<longleftrightarrow>
      (case x of
         CallAt i' j \<Rightarrow> i' = i \<and> (\<exists>t. n = Turn t \<and> \<not> tn_collapsed t \<and> j < length (tn_calls t) \<and>
           call_collapsible env (tn_calls t ! j))
       | AdvisoryAt i' j \<Rightarrow> i' = i \<and> (\<exists>t. n = Turn t \<and> \<not> tn_collapsed t \<and> j < length (tn_advisories t) \<and>
           advisory_collapsible (tn_advisories t ! j))
       | TurnAt i' \<Rightarrow> i' = i \<and> (\<exists>t. n = Turn t \<and> \<not> tn_collapsed t \<and> turn_savings env t > 0)
       | PromptAt i' \<Rightarrow> i' = i \<and> (\<exists>p. n = UserPrompt p \<and> prompt_collapsible p \<and> prompt_savings p > 0))" for age i n
    by (cases n; cases x) (auto simp: image_Un call_targets advisory_targets)
  ultimately show ?thesis by (cases x) (auto simp: good_target_def)
qed


definition tree_version :: "history_env \<Rightarrow> nat set \<Rightarrow> history_node list \<Rightarrow> history_node list \<Rightarrow> bool" where
  "tree_version env protected ns ns' \<longleftrightarrow>
     list_all2 (node_version env) ns ns' \<and> (\<forall>i \<in> protected. i < length ns \<longrightarrow> ns' ! i = ns ! i)"

lemma tree_version_refl: "tree_version env protected ns ns"
  by (simp add: tree_version_def list_all2_refl)

lemma tree_version_nth:
  "tree_version env protected ns ns' \<Longrightarrow> i < length ns \<Longrightarrow> length ns' = length ns \<and> node_version env (ns ! i) (ns' ! i)"
  by (auto simp: tree_version_def list_all2_conv_all_nth)

lemma tree_version_update:
  assumes "tree_version env protected ns ns'" "i < length ns" "i \<notin> protected" "node_version env (ns ! i) n"
  shows "tree_version env protected ns (ns'[i := n])"
  using assms by (auto simp: tree_version_def list_all2_conv_all_nth nth_list_update)

lemma list_all2_update:
  "list_all2 R xs ys \<Longrightarrow> j < length xs \<Longrightarrow> R (xs ! j) y \<Longrightarrow> list_all2 R xs (ys[j := y])"
  by (auto simp: list_all2_conv_all_nth nth_list_update)

lemma turn_version_open:
  "turn_version env t t' \<Longrightarrow> \<not> tn_collapsed t \<Longrightarrow>
     tn_content t' = tn_content t \<and> tn_salience t' = tn_salience t \<and>
     list_all2 (call_version env) (tn_calls t) (tn_calls t') \<and>
     list_all2 advisory_version (tn_advisories t) (tn_advisories t') \<and> (tn_collapsed t' \<longrightarrow> turn_savings env t > 0)"
  by (auto simp: turn_version_def list_all2_refl)

lemma apply_target_version:
  assumes v: "tree_version env protected ns ns'" and g: "good_target env protected ns x"
  shows "tree_version env protected ns (apply_target x ns')"
proof (cases x)
  case (CallAt i j)
  with g obtain t where t: "i < length ns" "i \<notin> protected" "ns ! i = Turn t" "\<not> tn_collapsed t" "j < length (tn_calls t)"
      "call_collapsible env (tn_calls t ! j)" by (auto simp: good_target_def)
  with tree_version_nth [OF v t(1)] obtain t' where t': "ns' ! i = Turn t'" "turn_version env t t'" by auto
  note o = turn_version_open [OF t'(2) t(4)]
  then have "call_version env (tn_calls t ! j) (tn_calls t' ! j)" using t(5) by (auto simp: list_all2_conv_all_nth)
  then have "call_version env (tn_calls t ! j) ((tn_calls t' ! j)\<lparr>cl_collapsed := True\<rparr>)"
    using t(6) by (auto simp: call_version_def)
  then have "turn_version env t (t'\<lparr>tn_calls := (tn_calls t')[j := (tn_calls t' ! j)\<lparr>cl_collapsed := True\<rparr>]\<rparr>)"
    using o t(4,5) by (auto simp: turn_version_def list_all2_update)
  then show ?thesis using tree_version_update [OF v t(1,2)] by (simp add: CallAt update_turn_def t' t(3))
next
  case (AdvisoryAt i j)
  with g obtain t where t: "i < length ns" "i \<notin> protected" "ns ! i = Turn t" "\<not> tn_collapsed t"
      "j < length (tn_advisories t)" "advisory_collapsible (tn_advisories t ! j)" by (auto simp: good_target_def)
  with tree_version_nth [OF v t(1)] obtain t' where t': "ns' ! i = Turn t'" "turn_version env t t'" by auto
  note o = turn_version_open [OF t'(2) t(4)]
  then have "advisory_version (tn_advisories t ! j) (tn_advisories t' ! j)" using t(5) by (auto simp: list_all2_conv_all_nth)
  then have "advisory_version (tn_advisories t ! j) ((tn_advisories t' ! j)\<lparr>av_collapsed := True\<rparr>)"
    using t(6) by (auto simp: advisory_version_def)
  then have "turn_version env t (t'\<lparr>tn_advisories := (tn_advisories t')[j := (tn_advisories t' ! j)\<lparr>av_collapsed := True\<rparr>]\<rparr>)"
    using o t(4,5) by (auto simp: turn_version_def list_all2_update)
  then show ?thesis using tree_version_update [OF v t(1,2)] by (simp add: AdvisoryAt update_turn_def t' t(3))
next
  case (TurnAt i)
  with g obtain t where t: "i < length ns" "i \<notin> protected" "ns ! i = Turn t" "\<not> tn_collapsed t" "turn_savings env t > 0"
    by (auto simp: good_target_def)
  with tree_version_nth [OF v t(1)] obtain t' where t': "ns' ! i = Turn t'" "turn_version env t t'" by auto
  have "turn_version env t (t'\<lparr>tn_collapsed := True\<rparr>)"
    using turn_version_open [OF t'(2) t(4)] t(4,5) by (auto simp: turn_version_def)
  then show ?thesis using tree_version_update [OF v t(1,2)] by (simp add: TurnAt update_turn_def t' t(3))
next
  case (PromptAt i)
  with g obtain p where p: "i < length ns" "i \<notin> protected" "ns ! i = UserPrompt p" "prompt_collapsible p" "prompt_savings p > 0"
    by (auto simp: good_target_def)
  with tree_version_nth [OF v p(1)] obtain p' where p': "ns' ! i = UserPrompt p'" "p' = p \<or> p' = p\<lparr>pn_collapsed := True\<rparr>"
    by auto
  then have "node_version env (ns ! i) (UserPrompt (p'\<lparr>pn_collapsed := True\<rparr>))" using p by auto
  then show ?thesis using tree_version_update [OF v p(1,2)] by (simp add: PromptAt update_prompt_def p')
qed

section \<open>What has been applied\<close>

definition target_done :: "collapse_target \<Rightarrow> history_node list \<Rightarrow> bool" where
  "target_done x ns \<longleftrightarrow>
     (case x of
        CallAt i j \<Rightarrow> (\<exists>t. ns ! i = Turn t \<and> (tn_collapsed t \<or> cl_collapsed (tn_calls t ! j)))
      | AdvisoryAt i j \<Rightarrow> (\<exists>t. ns ! i = Turn t \<and> (tn_collapsed t \<or> av_collapsed (tn_advisories t ! j)))
      | TurnAt i \<Rightarrow> (\<exists>t. ns ! i = Turn t \<and> tn_collapsed t)
      | PromptAt i \<Rightarrow> (\<exists>p. ns ! i = UserPrompt p \<and> pn_collapsed p))"

lemma update_turn_done:
  assumes "target_done x ns"
    "\<And>t. tn_collapsed t \<Longrightarrow> tn_collapsed (f t)"
    "\<And>t k. cl_collapsed (tn_calls t ! k) \<Longrightarrow> cl_collapsed (tn_calls (f t) ! k)"
    "\<And>t k. av_collapsed (tn_advisories t ! k) \<Longrightarrow> av_collapsed (tn_advisories (f t) ! k)"
  shows "target_done x (update_turn f i ns)"
proof (cases "i < length ns")
  case True
  then show ?thesis using assms
    by (cases "ns ! i") (auto simp: target_done_def update_turn_def nth_list_update split: collapse_target.splits)
qed (use assms(1) in \<open>auto simp: update_turn_def not_less list_update_beyond split: history_node.splits\<close>)

lemma nth_update_true: "P (xs ! k) \<Longrightarrow> P y \<Longrightarrow> P (xs[j := y] ! k)"
  by (cases "j < length xs") (auto simp: nth_list_update not_less list_update_beyond)

lemma update_prompt_done: "target_done x ns \<Longrightarrow> target_done x (update_prompt (\<lambda>p. p\<lparr>pn_collapsed := True\<rparr>) i ns)"
proof (cases "i < length ns")
  case True
  assume "target_done x ns"
  with True show ?thesis
    by (cases "ns ! i"; cases x) (auto simp: target_done_def update_prompt_def nth_list_update)
next
  case False
  assume "target_done x ns"
  with False show ?thesis by (cases "ns ! i") (simp_all add: update_prompt_def not_less list_update_beyond)
qed

lemma apply_target_done:
  assumes "target_done x ns"
  shows "target_done x (apply_target y ns)"
proof (cases y)
  case (PromptAt i)
  then show ?thesis using update_prompt_done [OF assms] by simp
next
  case (CallAt i j)
  show ?thesis unfolding CallAt apply_target.simps
    by (rule update_turn_done [OF assms]) (simp_all add: nth_update_true)
next
  case (AdvisoryAt i j)
  show ?thesis unfolding AdvisoryAt apply_target.simps
    by (rule update_turn_done [OF assms]) (simp_all add: nth_update_true)
next
  case (TurnAt i)
  show ?thesis unfolding TurnAt apply_target.simps by (rule update_turn_done [OF assms]) simp_all
qed

lemma good_target_applied:
  assumes "tree_version env protected ns ns'" "good_target env protected ns x"
  shows "target_done x (apply_target x ns')"
proof (cases x)
  case (CallAt i j)
  with assms(2) obtain t where t: "i < length ns" "ns ! i = Turn t" "\<not> tn_collapsed t" "j < length (tn_calls t)"
    by (auto simp: good_target_def)
  with tree_version_nth [OF assms(1) t(1)] obtain t' where t': "ns' ! i = Turn t'" "turn_version env t t'" "length ns' = length ns"
    by auto
  have "length (tn_calls t') = length (tn_calls t)"
    using turn_version_open [OF t'(2) t(3)] by (auto dest: list_all2_lengthD)
  then show ?thesis using t t' by (simp add: CallAt target_done_def update_turn_def)
next
  case (AdvisoryAt i j)
  with assms(2) obtain t where t: "i < length ns" "ns ! i = Turn t" "\<not> tn_collapsed t" "j < length (tn_advisories t)"
    by (auto simp: good_target_def)
  with tree_version_nth [OF assms(1) t(1)] obtain t' where t': "ns' ! i = Turn t'" "turn_version env t t'" "length ns' = length ns"
    by auto
  have "length (tn_advisories t') = length (tn_advisories t)"
    using turn_version_open [OF t'(2) t(3)] by (auto dest: list_all2_lengthD)
  then show ?thesis using t t' by (simp add: AdvisoryAt target_done_def update_turn_def)
next
  case (TurnAt i)
  with assms(2) obtain t where "i < length ns" "ns ! i = Turn t" by (auto simp: good_target_def)
  with tree_version_nth [OF assms(1)] show ?thesis by (fastforce simp: TurnAt target_done_def update_turn_def)
next
  case (PromptAt i)
  with assms(2) obtain p where "i < length ns" "ns ! i = UserPrompt p" by (auto simp: good_target_def)
  with tree_version_nth [OF assms(1)] show ?thesis by (fastforce simp: PromptAt target_done_def update_prompt_def)
qed

lemma parent_collapsed_done: "parent_collapsed x ns \<Longrightarrow> target_done x ns"
  by (cases x) (auto simp: target_done_def split: history_node.splits)


section \<open>The greedy loop\<close>

abbreviation kept :: "nat \<times> nat \<times> history_node list \<Rightarrow> history_node list" where
  "kept r \<equiv> snd (snd r)"

lemma collapse_loop_Cons:
  "\<exists>nodes' calls'. collapse_loop env overhead whole needed (c # cs) savings nodes calls ns =
     (if savings \<ge> needed then (nodes, calls, ns)
      else if parent_collapsed (ca_target c) ns then collapse_loop env overhead whole needed cs savings nodes calls ns
      else collapse_loop env overhead whole needed cs
             (whole - (int (estimated_tokens env (apply_target (ca_target c) ns)) + overhead)) nodes' calls'
             (apply_target (ca_target c) ns))"
  by (cases "ca_target c") (auto simp: Let_def)

lemma collapse_loop_spec:
  assumes "tree_version env protected ns0 ns" "\<forall>c \<in> set cs. good_target env protected ns0 (ca_target c)"
    and "savings = whole - (int (estimated_tokens env ns) + overhead)"
  shows "tree_version env protected ns0 (kept (collapse_loop env overhead whole needed cs savings nodes calls ns)) \<and>
    (\<forall>x. target_done x ns \<longrightarrow> target_done x (kept (collapse_loop env overhead whole needed cs savings nodes calls ns))) \<and>
    (needed \<le> whole - (int (estimated_tokens env (kept (collapse_loop env overhead whole needed cs savings nodes calls ns))) + overhead) \<or>
     (\<forall>c \<in> set cs. target_done (ca_target c) (kept (collapse_loop env overhead whole needed cs savings nodes calls ns))))"
  using assms
proof (induction cs arbitrary: ns savings nodes calls)
  case (Cons c cs)
  let ?ns = "apply_target (ca_target c) ns"
  have good: "good_target env protected ns0 (ca_target c)" using Cons.prems(2) by simp
  have v: "tree_version env protected ns0 ?ns" by (rule apply_target_version [OF Cons.prems(1) good])
  have done_now: "target_done (ca_target c) ?ns" by (rule good_target_applied [OF Cons.prems(1) good])
  have keep: "target_done x ns \<Longrightarrow> target_done x ?ns" for x by (rule apply_target_done)
  obtain nodes' calls' where step: "collapse_loop env overhead whole needed (c # cs) savings nodes calls ns =
     (if savings \<ge> needed then (nodes, calls, ns)
      else if parent_collapsed (ca_target c) ns then collapse_loop env overhead whole needed cs savings nodes calls ns
      else collapse_loop env overhead whole needed cs
             (whole - (int (estimated_tokens env ?ns) + overhead)) nodes' calls' ?ns)"
    using collapse_loop_Cons by blast
  consider "savings \<ge> needed" | "\<not> savings \<ge> needed" "parent_collapsed (ca_target c) ns"
    | "\<not> savings \<ge> needed" "\<not> parent_collapsed (ca_target c) ns" by blast
  then show ?case
  proof cases
    case 1
    then show ?thesis unfolding step using Cons.prems(1,3) by simp
  next
    case 2
    have "target_done (ca_target c) ns" by (rule parent_collapsed_done [OF 2(2)])
    with 2 Cons.IH [OF Cons.prems(1) _ Cons.prems(3), of nodes calls] Cons.prems(2) show ?thesis
      unfolding step by simp
  next
    case 3
    with Cons.IH [OF v _ refl, of nodes' calls'] Cons.prems(2) done_now keep show ?thesis
      unfolding step by simp
  qed
qed simp

lemma version_savings: "turn_version env t t' \<Longrightarrow> turn_savings env t' \<le> turn_savings env t"
  using turn_version_cost [of env t t'] turn_version_summary [of env t t']
  by (simp add: turn_savings_def turn_collapsed_cost_def diff_le_mono)

lemma version_collapsible:
  "call_version env c c' \<Longrightarrow> call_collapsible env c' \<Longrightarrow> call_collapsible env c \<and> \<not> cl_collapsed c'"
  "advisory_version a a' \<Longrightarrow> advisory_collapsible a' \<Longrightarrow> advisory_collapsible a \<and> \<not> av_collapsed a'"
  by (auto simp: call_version_def call_collapsible_def advisory_version_def advisory_collapsible_def)

lemma nothing_left:
  assumes v: "tree_version env protected ns ns'" and all: "\<And>x. good_target env protected ns x \<Longrightarrow> target_done x ns'"
  shows "\<not> good_target env protected ns' x"
proof
  assume g: "good_target env protected ns' x"
  have len: "length ns' = length ns" using v by (auto simp: tree_version_def list_all2_lengthD)
  have turn: "\<exists>t. ns ! i = Turn t \<and> turn_version env t t'" if "i < length ns" "ns' ! i = Turn t'" for i t'
    using tree_version_nth [OF v that(1)] that(2) by (cases "ns ! i") auto
  have opened: "\<not> tn_collapsed t" if "turn_version env t t'" "\<not> tn_collapsed t'" for t t'
    using that by (auto simp: turn_version_def)
  show False
  proof (cases x)
    case (CallAt i j)
    with g len obtain t' where t': "i < length ns" "i \<notin> protected" "ns' ! i = Turn t'" "\<not> tn_collapsed t'"
        "j < length (tn_calls t')" "call_collapsible env (tn_calls t' ! j)" by (auto simp: good_target_def)
    with turn obtain t where t: "ns ! i = Turn t" "turn_version env t t'" by blast
    have c: "j < length (tn_calls t) \<and> call_version env (tn_calls t ! j) (tn_calls t' ! j)"
      using turn_version_open [OF t(2) opened [OF t(2) t'(4)]] t'(5) by (auto simp: list_all2_conv_all_nth)
    with version_collapsible(1) t'(6) have "call_collapsible env (tn_calls t ! j)" "\<not> cl_collapsed (tn_calls t' ! j)"
      by blast+
    with all [of x] t t' c opened [OF t(2) t'(4)] show False by (simp add: CallAt good_target_def target_done_def)
  next
    case (AdvisoryAt i j)
    with g len obtain t' where t': "i < length ns" "i \<notin> protected" "ns' ! i = Turn t'" "\<not> tn_collapsed t'"
        "j < length (tn_advisories t')" "advisory_collapsible (tn_advisories t' ! j)" by (auto simp: good_target_def)
    with turn obtain t where t: "ns ! i = Turn t" "turn_version env t t'" by blast
    have c: "j < length (tn_advisories t) \<and> advisory_version (tn_advisories t ! j) (tn_advisories t' ! j)"
      using turn_version_open [OF t(2) opened [OF t(2) t'(4)]] t'(5) by (auto simp: list_all2_conv_all_nth)
    with version_collapsible(2) t'(6) have "advisory_collapsible (tn_advisories t ! j)" "\<not> av_collapsed (tn_advisories t' ! j)"
      by blast+
    with all [of x] t t' c opened [OF t(2) t'(4)] show False by (simp add: AdvisoryAt good_target_def target_done_def)
  next
    case (TurnAt i)
    with g len obtain t' where t': "i < length ns" "i \<notin> protected" "ns' ! i = Turn t'" "\<not> tn_collapsed t'"
        "turn_savings env t' > 0" by (auto simp: good_target_def)
    with turn obtain t where t: "ns ! i = Turn t" "turn_version env t t'" by blast
    with version_savings [OF t(2)] t'(5) have "turn_savings env t > 0" by simp
    with all [of x] t t' opened [OF t(2) t'(4)] show False by (simp add: TurnAt good_target_def target_done_def)
  next
    case (PromptAt i)
    with g len obtain p' where p': "i < length ns" "i \<notin> protected" "ns' ! i = UserPrompt p'" "prompt_collapsible p'"
        "prompt_savings p' > 0" by (auto simp: good_target_def)
    then have "ns ! i = UserPrompt p'"
      using tree_version_nth [OF v p'(1)] by (cases "ns ! i") (auto simp: prompt_collapsible_def)
    with all [of x] p' show False by (simp add: PromptAt good_target_def target_done_def prompt_collapsible_def)
  qed
qed

section \<open>Compaction as a whole\<close>

lemma compact_cases:
  assumes "compact env budget low overhead actual tail_nodes tail_calls ns = (Inr r, ns')"
  obtains (idle) "ns' = ns" "cr_before r = int (estimated_tokens env ns) + overhead" "cr_after r = cr_before r" "cr_savings r = 0"
      "savings_needed (int (estimated_tokens env ns) + overhead) (py_trunc (of_int budget * low)) actual = Inr None"
  | (ran) needed nodes calls where
      "savings_needed (int (estimated_tokens env ns) + overhead) (py_trunc (of_int budget * low)) actual = Inr (Some needed)"
      "ns' = kept (collapse_loop env overhead (int (estimated_tokens env ns) + overhead) needed
         (sort_key ca_salience (build_candidates env (protected_indices ns tail_nodes tail_calls) ns)) 0 0 0 ns)"
      "cr_before r = int (estimated_tokens env ns) + overhead" "cr_after r = int (estimated_tokens env ns') + overhead"
      "cr_savings r = cr_before r - cr_after r"
  using assms
  by (auto simp: compact_def Let_def split: sum.splits option.splits prod.splits)


lemma compact_effect:
  assumes "compact env budget low overhead actual tail_nodes tail_calls ns = (res, ns')"
  shows "tree_version env (protected_indices ns tail_nodes tail_calls) ns ns'"
    "res = Inr r \<Longrightarrow> cr_before r = int (estimated_tokens env ns) + overhead \<and>
       cr_after r = int (estimated_tokens env ns') + overhead \<and> cr_savings r = cr_before r - cr_after r"
    "res = Inl e \<Longrightarrow> ns' = ns"
    "res = Inr r \<Longrightarrow>
       savings_needed (cr_before r) (py_trunc (of_int budget * low)) actual = Inr (Some needed) \<Longrightarrow>
       needed \<le> cr_savings r \<or> build_candidates env (protected_indices ns tail_nodes tail_calls) ns' = []"
proof -
  let ?p = "protected_indices ns tail_nodes tail_calls"
  show raised: "res = Inl e \<Longrightarrow> ns' = ns" for e
    using assms by (auto simp: compact_def Let_def split: sum.splits option.splits prod.splits)
  have good: "\<forall>c \<in> set (sort_key ca_salience (build_candidates env ?p ns)). good_target env ?p ns (ca_target c)"
    using build_candidates_targets [of _ env ?p ns] by auto
  let ?run = "\<lambda>k. kept (collapse_loop env overhead (int (estimated_tokens env ns) + overhead) k
      (sort_key ca_salience (build_candidates env ?p ns)) 0 0 0 ns)"
  have loop: "tree_version env ?p ns (?run k) \<and> (\<forall>x. target_done x ns \<longrightarrow> target_done x (?run k)) \<and>
      (k \<le> int (estimated_tokens env ns) + overhead - (int (estimated_tokens env (?run k)) + overhead) \<or>
       (\<forall>c \<in> set (sort_key ca_salience (build_candidates env ?p ns)). target_done (ca_target c) (?run k)))" for k
    by (rule collapse_loop_spec [OF tree_version_refl good]) simp
  show "tree_version env ?p ns ns'"
  proof (cases res)
    case (Inl e)
    then show ?thesis using raised tree_version_refl by simp
  next
    case (Inr r)
    from assms [unfolded Inr] show ?thesis by (rule compact_cases) (simp_all add: tree_version_refl loop)
  qed
  show "res = Inr r \<Longrightarrow> cr_before r = int (estimated_tokens env ns) + overhead \<and>
      cr_after r = int (estimated_tokens env ns') + overhead \<and> cr_savings r = cr_before r - cr_after r"
    using assms by (auto elim!: compact_cases)
  assume r: "res = Inr r" and needed: "savings_needed (cr_before r) (py_trunc (of_int budget * low)) actual = Inr (Some needed)"
  from assms [unfolded r] show "needed \<le> cr_savings r \<or> build_candidates env ?p ns' = []"
  proof (rule compact_cases)
    assume "cr_before r = int (estimated_tokens env ns) + overhead"
      "savings_needed (int (estimated_tokens env ns) + overhead) (py_trunc (of_int budget * low)) actual = Inr None"
    with needed show ?thesis by simp
  next
    fix k nodes calls
    assume k: "savings_needed (int (estimated_tokens env ns) + overhead) (py_trunc (of_int budget * low)) actual = Inr (Some k)"
      and ns': "ns' = kept (collapse_loop env overhead (int (estimated_tokens env ns) + overhead) k
        (sort_key ca_salience (build_candidates env ?p ns)) 0 0 0 ns)"
      and r': "cr_before r = int (estimated_tokens env ns) + overhead" "cr_after r = int (estimated_tokens env ns') + overhead"
        "cr_savings r = cr_before r - cr_after r"
    from k needed r'(1) have "k = needed" by simp
    have v: "tree_version env ?p ns ns'" using loop [of k] unfolding ns' by blast
    have "needed \<le> cr_savings r \<or> (\<forall>c \<in> set (build_candidates env ?p ns). target_done (ca_target c) ns')"
      using loop [of k] \<open>k = needed\<close> r' unfolding ns' by simp
    moreover have "build_candidates env ?p ns' = []"
      if "\<forall>c \<in> set (build_candidates env ?p ns). target_done (ca_target c) ns'"
    proof -
      have "target_done x ns'" if "good_target env ?p ns x" for x
        using that build_candidates_targets [of x env ?p ns] \<open>\<forall>c \<in> set (build_candidates env ?p ns). target_done (ca_target c) ns'\<close>
        by auto
      then have "\<not> good_target env ?p ns' x" for x using nothing_left [OF v] by blast
      then show ?thesis using build_candidates_targets [of _ env ?p ns'] by (cases "build_candidates env ?p ns'") auto
    qed
    ultimately show ?thesis by blast
  qed
qed

lemma version_tokens: "tree_version env protected ns ns' \<Longrightarrow> estimated_tokens env ns' \<le> estimated_tokens env ns"
  unfolding estimated_tokens_def tree_version_def
  by (rule sum_le_list_all2 [where R = "node_version env"]) (auto simp: node_version_cost)

section \<open>The protected nodes\<close>

definition later_calls :: "history_node list \<Rightarrow> nat \<Rightarrow> nat" where
  "later_calls ns i = sum_list (map (length \<circ> turn_calls) (drop (i + 1) ns))"

lemma recent_callers_complete:
  "turn_calls n \<noteq> [] \<Longrightarrow> int (sum_list (map (length \<circ> turn_calls \<circ> snd) xs)) < k \<Longrightarrow>
     i \<in> set (recent_callers (xs @ (i, n) # ys) k)"
proof (induction xs arbitrary: k)
  case (Cons x xs)
  obtain j m where x: "x = (j, m)" by (cases x)
  show ?case
  proof (cases "turn_calls m = []")
    case True
    then show ?thesis using Cons by (auto simp: x)
  next
    case False
    then show ?thesis using Cons.prems Cons.IH [of "k - int (length (turn_calls m))"] by (auto simp: x)
  qed
qed simp

lemma enumerate_split: "i < length ns \<Longrightarrow> enumerate 0 ns = enumerate 0 (take i ns) @ (i, ns ! i) # enumerate (i + 1) (drop (i + 1) ns)"
  by (metis Suc_eq_plus1 add_0 enumerate_append_eq enumerate_simps(2) id_take_nth_drop length_take min.absorb4)

lemma find_first: "P x \<Longrightarrow> (\<And>y. y \<in> set xs \<Longrightarrow> \<not> P y) \<Longrightarrow> find P (xs @ x # ys) = Some x"
  by (induction xs) auto

lemma protected_recent:
  assumes "i < length ns"
    and "length ns \<le> i + tail_nodes \<or> (is_prompt (ns ! i) \<and> (\<forall>j. i < j \<and> j < length ns \<longrightarrow> \<not> is_prompt (ns ! j))) \<or>
         (turn_calls (ns ! i) \<noteq> [] \<and> int (later_calls ns i) < tail_calls)"
  shows "i \<in> protected_indices ns tail_nodes tail_calls"
proof -
  let ?after = "rev (enumerate (i + 1) (drop (i + 1) ns))"
  have backwards: "rev (enumerate 0 ns) = ?after @ (i, ns ! i) # rev (enumerate 0 (take i ns))"
    using enumerate_split [OF assms(1)] by simp
  consider "length ns \<le> i + tail_nodes"
    | "is_prompt (ns ! i)" "\<forall>j. i < j \<and> j < length ns \<longrightarrow> \<not> is_prompt (ns ! j)"
    | "turn_calls (ns ! i) \<noteq> []" "int (later_calls ns i) < tail_calls"
    using assms(2) by blast
  then show ?thesis
  proof cases
    case 1
    then show ?thesis using assms(1) by (auto simp: protected_indices_def Let_def)
  next
    case 2
    have "find (\<lambda>(i, n). is_prompt n) (rev (enumerate 0 ns)) = Some (i, ns ! i)"
      unfolding backwards by (rule find_first) (use 2 in \<open>auto simp: in_set_enumerate_eq\<close>)
    then show ?thesis by (simp add: protected_indices_def Let_def)
  next
    case 3
    have "sum_list (map (length \<circ> turn_calls \<circ> snd) ?after) = later_calls ns i"
      by (simp add: later_calls_def rev_map [symmetric] sum_list_rev o_assoc [symmetric] flip: map_map)
    then have "i \<in> set (recent_callers (rev (enumerate 0 ns)) tail_calls)"
      unfolding backwards using 3 by (intro recent_callers_complete) auto
    then show ?thesis by (simp add: protected_indices_def Let_def)
  qed
qed


lemma compact_tree:
  "tree_version env (protected_indices ns tail_nodes tail_calls) ns
     (snd (compact env budget low overhead actual tail_nodes tail_calls ns))"
  using compact_effect(1) [OF surjective_pairing] .

text \<open>C11: compaction never changes the most recent nodes, the last prompt, or a turn with one of the
  most recent tool calls.\<close>

theorem compaction_spares_recent_work:
  assumes "i < length ns"
    and "length ns \<le> i + tail_nodes \<or> (is_prompt (ns ! i) \<and> (\<forall>j. i < j \<and> j < length ns \<longrightarrow> \<not> is_prompt (ns ! j))) \<or>
         (turn_calls (ns ! i) \<noteq> [] \<and> int (later_calls ns i) < tail_calls)"
  shows "snd (compact env budget low overhead actual tail_nodes tail_calls ns) ! i = ns ! i"
  using compact_tree [of env ns tail_nodes tail_calls budget low overhead actual] protected_recent [OF assms] assms(1)
  by (simp add: tree_version_def)

text \<open>C33: compaction only collapses: node for node the history is a version of the one before, with
  some tool calls, advisories, turns and prompts collapsed that saved tokens, and it is never
  estimated longer than before.\<close>

theorem compaction_only_shortens:
  "list_all2 (node_version env) ns (snd (compact env budget low overhead actual tail_nodes tail_calls ns)) \<and>
   estimated_tokens env (snd (compact env budget low overhead actual tail_nodes tail_calls ns)) \<le> estimated_tokens env ns"
  using compact_tree version_tokens by (simp add: tree_version_def) blast

text \<open>C32: a compaction with something to save ends with that much saved, or with nothing left that
  it may collapse and that would save anything.\<close>

theorem compaction_saves_enough_or_everything:
  assumes "fst (compact env budget low overhead actual tail_nodes tail_calls ns) = Inr r"
    and "savings_needed (cr_before r) (py_trunc (of_int budget * low)) actual = Inr (Some needed)"
  shows "needed \<le> cr_savings r \<or>
    build_candidates env (protected_indices ns tail_nodes tail_calls)
      (snd (compact env budget low overhead actual tail_nodes tail_calls ns)) = []"
  by (rule compact_effect(4) [OF surjective_pairing assms])

text \<open>A compaction that raises changes nothing.\<close>

lemma failed_compaction_changes_nothing:
  "fst (compact env budget low overhead actual tail_nodes tail_calls ns) = Inl e \<Longrightarrow>
     snd (compact env budget low overhead actual tail_nodes tail_calls ns) = ns"
  by (rule compact_effect(3) [OF surjective_pairing])

section \<open>Small histories\<close>

definition example_history :: history_env where
  "example_history = \<lparr>he_loads = (\<lambda>s. if s = ''[1]'' then Some (JArr [JInt 1]) else Some (JObj [])),
     he_weigh = (\<lambda>s age. s / of_nat (age + 1))\<rparr>"

definition example_turn :: history_node where
  "example_turn = Turn \<lparr>tn_content = ''x'', tn_calls = [],
     tn_advisories = [\<lparr>av_source = ''s'', av_content = replicate 400 CHR ''a'', av_collapsed = False, av_salience = 1 / 5\<rparr>],
     tn_collapsed = False, tn_salience = 1\<rparr>"

theorem compaction_spares_recent_work_witness:
  "snd (compact example_history 10 (1 / 2) 0 None 1 0 [example_turn, example_turn]) ! 1 = example_turn"
  using compaction_spares_recent_work [of 1 "[example_turn, example_turn]" 1 0 example_history 10 "1 / 2" 0 None] by simp

lemma example_compaction:
  "fst (compact example_history 10 (1 / 2) 0 None 0 0 [example_turn]) =
     Inr \<lparr>cr_nodes = 0, cr_calls = 0, cr_savings = 97, cr_before = 101, cr_after = 4\<rparr>"
  by code_simp

lemma example_savings: "savings_needed 101 (py_trunc (of_int 10 * (1 / 2))) None = Inr (Some 96)"
  by code_simp

theorem compaction_saves_enough_or_everything_witness:
  "(96 :: int) \<le> 97 \<or> build_candidates example_history (protected_indices [example_turn] 0 0)
     (snd (compact example_history 10 (1 / 2) 0 None 0 0 [example_turn])) = []"
  using compaction_saves_enough_or_everything [OF example_compaction, of 96] example_savings by simp

text \<open>Arguments that are JSON but not an object break the summary of a failed call, and with it
  every compaction that looks at the turn.\<close>

definition list_call :: call_node where
  "list_call = \<lparr>cl_call = \<lparr>tc_id = ''c'', tc_name = ''t'', tc_arguments = ''[1]''\<rparr>,
     cl_result = \<lparr>tr_id = ''c'', tr_content = ''Error'', tr_error = True, tr_statuses = {}\<rparr>,
     cl_collapsed = False, cl_salience = 4 / 5, cl_class = PlainCall\<rparr>"

lemma list_arguments_break_compaction:
  "fst (compact example_history 0 0 0 None 0 0
     [Turn \<lparr>tn_content = [], tn_calls = [list_call], tn_advisories = [], tn_collapsed = False, tn_salience = 1\<rparr>]) =
   Inl (AttributeError ''get'')"
  by code_simp

text \<open>Shortened arguments need not be JSON.\<close>

lemma shortened_list_is_cut:
  assumes "loads s = Some (JArr xs)" "length s > n * 2" "n \<ge> 2" "s \<noteq> []"
  shows "abbreviate_arguments loads s n = take (n * 2 - 3) s @ ''...''"
  using assms by (simp add: abbreviate_arguments_def brief_def)

text \<open>A turn whose calls have been collapsed already can cost more when it is collapsed as a whole:
  the loop applies its candidate all the same.\<close>

definition short_turn :: "bool \<Rightarrow> turn_node" where
  "short_turn collapsed = \<lparr>tn_content = replicate 201 CHR ''a'',
     tn_calls = [\<lparr>cl_call = \<lparr>tc_id = ''c'', tc_name = ''t'', tc_arguments = []\<rparr>,
       cl_result = \<lparr>tr_id = ''c'', tr_content = replicate 100 CHR ''r'', tr_error = False, tr_statuses = {}\<rparr>,
       cl_collapsed = collapsed, cl_salience = 4 / 5, cl_class = PlainCall\<rparr>],
     tn_advisories = [], tn_collapsed = False, tn_salience = 1\<rparr>"

lemma collapsing_a_turn_can_cost:
  "turn_savings example_history (short_turn False) > 0"
  "turn_cost example_history ((short_turn True)\<lparr>tn_collapsed := True\<rparr>) > turn_cost example_history (short_turn True)"
  by code_simp+

end
