(* ===== verification/Housekeeping_Laws.thy ===== *)
theory Housekeeping_Laws
  imports Compaction
begin

text \<open>
  What trimming keeps, and what the provider is given: in every history that prompts, turns,
  compactions and housekeeping can build, each tool result follows the call it answers.
\<close>

section \<open>Trimming\<close>

text \<open>The loop of the agent adds nodes behind those it was given and only collapses these.\<close>

definition loop_extends :: "history_env \<Rightarrow> sub_loop \<Rightarrow> bool" where
  "loop_extends env loop \<longleftrightarrow>
     (\<forall>ns. \<exists>ns1 extra. snd (loop ns) = ns1 @ extra \<and> list_all2 (node_version env) ns ns1)"

lemma protected_finite [simp]: "finite (protected_indices ns tail_nodes tail_calls)"
  by (simp add: protected_indices_def Let_def split: option.split)

lemma find_member: "find P xs = Some x \<Longrightarrow> x \<in> set xs \<and> P x"
  by (auto simp: find_Some_iff)

lemma recent_callers_subset: "set (recent_callers xs k) \<subseteq> fst ` set xs"
  by (induction xs k rule: recent_callers.induct) auto

lemma protected_range: "i \<in> protected_indices ns tail_nodes tail_calls \<Longrightarrow> i < length ns"
  using recent_callers_subset [of "rev (enumerate 0 ns)" tail_calls]
  by (auto simp: protected_indices_def Let_def in_set_enumerate_eq dest!: find_member split: option.splits)

lemma cut_point_before_protected:
  assumes "select_cut_point ns protected = Some point" "finite protected" "\<forall>i \<in> protected. i < length ns"
  shows "point < length ns" "i \<in> protected \<Longrightarrow> point < i"
proof -
  show "point < length ns"
  proof (cases "protected = {}")
    case False
    then have "Min protected < length ns" using assms(2,3) by simp
    then show ?thesis using assms(1) False by (auto simp: select_cut_point_def split: if_splits)
  qed (use assms(1) in \<open>auto simp: select_cut_point_def split: if_splits\<close>)
  show "point < i" if "i \<in> protected"
  proof -
    have "Min protected \<le> i" using assms(2) that by simp
    moreover have "point = Min protected - 1" "Min protected \<noteq> 0"
      using assms(1) that by (auto simp: select_cut_point_def split: if_splits)
    ultimately show ?thesis by simp
  qed
qed

lemma housekeeping_cases:
  assumes "perform_housekeeping loop now ns = (Inr (Some r), ns')"
  obtains point ns2 where "select_cut_point ns (protected_indices ns 4 6) = Some point"
    "snd (loop (take (point + 1) ns @ [boundary_node] @ drop (point + 1) ns)) = ns2"
    "hk_trimmed r = point + 1"
    "ns' = archive_node now (point + 1) # take (length ns + 1 - (point + 2)) (drop (point + 2) ns2) @
       [Housekeeping ((ns2 ! (point + 1)) # drop (length ns + 1) ns2)]"
  using assms
  by (auto simp: perform_housekeeping_def Let_def split: option.splits prod.splits loop_end.splits)


text \<open>A prompt at the very beginning that is the only one keeps everything from being trimmed.\<close>

lemma prompt_at_start_blocks_trimming:
  assumes "ns \<noteq> []" "is_prompt (ns ! 0)" "\<forall>j. 0 < j \<and> j < length ns \<longrightarrow> \<not> is_prompt (ns ! j)"
  shows "perform_housekeeping loop now ns = (Inr None, ns)"
proof -
  have "0 \<in> protected_indices ns 4 6" using assms by (intro protected_recent) auto
  then have "Min (protected_indices ns 4 6) = 0"
    by (metis Min_le bot_nat_0.extremum_uniqueI protected_finite)
  then have "select_cut_point ns (protected_indices ns 4 6) = None"
    using \<open>0 \<in> protected_indices ns 4 6\<close> assms(1) by (auto simp: select_cut_point_def)
  then show ?thesis by (simp add: perform_housekeeping_def)
qed

text \<open>Another error of the loop leaves the boundary marker in the history.\<close>

lemma raised_housekeeping_keeps_boundary:
  assumes "select_cut_point ns (protected_indices ns 4 6) = Some point"
  shows "perform_housekeeping (\<lambda>ns. (LoopRaised e, ns)) now ns =
    (Inl e, take (point + 1) ns @ [boundary_node] @ drop (point + 1) ns)"
  using assms by (simp add: perform_housekeeping_def)

section \<open>The sequence of messages\<close>

text \<open>The calls that still wait for their results come next, in order.\<close>

fun well_sequenced :: "message list \<Rightarrow> tool_request list \<Rightarrow> bool" where
  "well_sequenced [] waiting = (waiting = [])"
| "well_sequenced (ToolResult r # ms) waiting =
     (case waiting of [] \<Rightarrow> False | c # cs \<Rightarrow> tr_id r = tc_id c \<and> well_sequenced ms cs)"
| "well_sequenced (AssistantMessage s cs # ms) waiting = (waiting = [] \<and> well_sequenced ms cs)"
| "well_sequenced (UserMessage s # ms) waiting = (waiting = [] \<and> well_sequenced ms [])"

definition matched :: "history_node \<Rightarrow> bool" where
  "matched n \<longleftrightarrow> (\<forall>c \<in> set (turn_calls n). tr_id (cl_result c) = tc_id (cl_call c))"

lemma results_sequenced:
  "map tr_id rs = map tc_id cs \<Longrightarrow> well_sequenced (map ToolResult rs @ ms) cs = well_sequenced ms []"
  by (induction rs arbitrary: cs) auto

lemma with_advisories_ids: "map tr_id (with_advisories note rs) = map tr_id rs"
  by (cases rs rule: rev_cases) (auto simp: with_advisories_def)

lemma rendered_node_sequenced:
  assumes "matched n"
  shows "well_sequenced (render_node env n @ ms) [] = well_sequenced ms []"
proof (cases n)
  case (Turn t)
  have "map tr_id (map (render_result env) (tn_calls t)) = map tc_id (map (render_tool_call env) (tn_calls t))"
    using assms by (auto simp: matched_def turn_calls_def Turn render_result_def render_tool_call_def)
  then show ?thesis
    by (simp add: Turn render_turn_def results_sequenced with_advisories_ids)
qed simp_all

lemma rendered_sequenced: "\<forall>n \<in> set ns. matched n \<Longrightarrow> well_sequenced (concat (map (render_node env) ns)) []"
  by (induction ns) (simp_all add: rendered_node_sequenced)

section \<open>Histories that can arise\<close>

inductive history_steps :: "history_env \<Rightarrow> history_node list \<Rightarrow> history_node list \<Rightarrow> bool" for env where
  steps_refl: "history_steps env ns ns"
| steps_trans: "history_steps env a b \<Longrightarrow> history_steps env b c \<Longrightarrow> history_steps env a c"
| steps_prompt: "history_steps env ns (append_user_prompt content salience ns)"
| steps_turn: "history_steps env ns (append_turn content calls results advisories salience classes ns)"
| steps_compact: "history_steps env ns (snd (compact env budget low overhead actual tail_nodes tail_calls ns))"
| steps_housekeeping: "select_cut_point ns (protected_indices ns 4 6) = Some point \<Longrightarrow>
    history_steps env (take (point + 1) ns @ [boundary_node] @ drop (point + 1) ns) ns2 \<Longrightarrow>
    history_steps env ns (snd (perform_housekeeping (\<lambda>_. (e, ns2)) now ns))"

lemma matched_version: "node_version env n n' \<Longrightarrow> matched n \<Longrightarrow> matched n'"
proof (cases n)
  case (Turn t)
  assume "node_version env n n'" "matched n"
  then obtain t' where t': "n' = Turn t'" "turn_version env t t'" by (auto simp: Turn)
  show ?thesis
  proof (cases "t' = t")
    case False
    with t'(2) have "list_all2 (call_version env) (tn_calls t) (tn_calls t')" by (auto simp: turn_version_def)
    then show ?thesis using \<open>matched n\<close> call_version_fields(5,6)
      by (fastforce simp: matched_def turn_calls_def Turn t'(1) in_set_conv_nth list_all2_conv_all_nth)
  qed (use \<open>matched n\<close> t' Turn in simp)
qed (auto simp: matched_def turn_calls_def)

lemma matched_versions:
  "list_all2 (node_version env) ns ns' \<Longrightarrow> \<forall>n \<in> set ns. matched n \<Longrightarrow> \<forall>n \<in> set ns'. matched n"
  by (induction rule: list_all2_induct) (auto intro: matched_version)

lemma call_nodes_matched: "c \<in> set (call_nodes calls results classes) \<Longrightarrow> tr_id (cl_result c) = tc_id (cl_call c)"
proof (induction calls)
  case (Cons x calls)
  then show ?case
    by (cases "find (\<lambda>r. tr_id r = tc_id x) (rev results)")
      (auto simp: call_nodes_def map_filter_simps dest: find_member)
qed (simp add: call_nodes_def map_filter_simps)

lemma steps_matched: "history_steps env ns ns' \<Longrightarrow> \<forall>n \<in> set ns. matched n \<Longrightarrow> \<forall>n \<in> set ns'. matched n"
proof (induction rule: history_steps.induct)
  case (steps_prompt ns content salience)
  then show ?case by (simp add: append_user_prompt_def matched_def turn_calls_def)
next
  case (steps_turn ns content calls results advisories salience classes)
  then show ?case using call_nodes_matched by (auto simp: append_turn_def matched_def turn_calls_def)
next
  case (steps_compact ns budget low overhead actual tail_nodes tail_calls)
  then show ?case using compact_tree [of env ns] matched_versions unfolding tree_version_def by blast
next
  case (steps_housekeeping ns point ns2 e now)
  have "matched boundary_node" by (simp add: matched_def turn_calls_def boundary_node_def)
  with steps_housekeeping.prems have "\<forall>n \<in> set (take (point + 1) ns @ [boundary_node] @ drop (point + 1) ns). matched n"
    by (auto dest: in_set_takeD in_set_dropD)
  then have all: "\<forall>n \<in> set ns2. matched n" by (rule steps_housekeeping.IH)
  have special: "matched (archive_node now k)" "matched (Housekeeping inner)" for k inner
    by (simp_all add: matched_def turn_calls_def archive_node_def)
  show ?case
    using all special steps_housekeeping.hyps(1)
    by (cases e) (auto simp: perform_housekeeping_def Let_def dest!: in_set_takeD dest: in_set_dropD)
qed auto

text \<open>C22: whatever prompts, turns, compactions and housekeeping have built a history, its messages
  give after every message of the assistant the results of exactly its calls, in their order, and
  no result elsewhere.\<close>

theorem rendered_history_is_well_sequenced:
  assumes "history_steps env [] ns"
  shows "well_sequenced (concat (map (render_node env) ns)) []"
  using rendered_sequenced steps_matched [OF assms] by simp

section \<open>A history of six prompts\<close>

definition prompt_history :: "nat \<Rightarrow> history_node list" where
  "prompt_history n = fold (\<lambda>i ns. append_user_prompt ''p'' 1 ns) [0..<n] []"

definition adding_loop :: sub_loop where
  "adding_loop ns = (LoopDone, append_user_prompt ''q'' 1 ns)"

lemma adding_loop_extends: "loop_extends env adding_loop"
  by (auto simp: loop_extends_def adding_loop_def append_user_prompt_def list_all2_refl)

definition housekeeping_time :: timestamp where
  "housekeeping_time = \<lparr>ts_year = 2025, ts_month = 1, ts_day = 2, ts_hour = 3, ts_minute = 4, ts_second = 5, ts_micro = 6\<rparr>"

lemma example_housekeeping:
  "perform_housekeeping adding_loop housekeeping_time (prompt_history 6) =
     (Inr (Some \<lparr>hk_trimmed = 2, hk_date = ''2025-01-02''\<rparr>),
      archive_node housekeeping_time 2 # drop 2 (prompt_history 6) @
      [Housekeeping [boundary_node, UserPrompt \<lparr>pn_content = ''q'', pn_collapsed = False, pn_salience = 1\<rparr>]])"
  by code_simp


lemma one_turn_steps:
  "history_steps example_history []
     (append_turn ''t'' [\<lparr>tc_id = ''c'', tc_name = ''f'', tc_arguments = []\<rparr>]
       [\<lparr>tr_id = ''c'', tr_content = ''r'', tr_error = False, tr_statuses = {}\<rparr>] [] 1 [] [])"
  by (rule steps_turn)

theorem rendered_history_is_well_sequenced_witness:
  "well_sequenced (concat (map (render_node example_history)
     (append_turn ''t'' [\<lparr>tc_id = ''c'', tc_name = ''f'', tc_arguments = []\<rparr>]
       [\<lparr>tr_id = ''c'', tr_content = ''r'', tr_error = False, tr_statuses = {}\<rparr>] [] 1 [] []))) []"
  by (rule rendered_history_is_well_sequenced [OF one_turn_steps])

end
