(* ===== verification/History_Store.thy ===== *)
theory History_Store
  imports History
begin

text \<open>
  Histories as JSON (the helpers for histories of \<open>src/thorn/runtime/_serializer.py\<close>). How a
  salience is written as a JSON number and read back is a pair of parameters.
\<close>

record salience_codec =
  sx_out :: "rat \<Rightarrow> json"
  sx_in :: "json \<Rightarrow> rat result"

definition statuses :: "content_peer_status list" where
  "statuses = [FromNonPeer, FromUnknown, FromPeer]"

fun status_text :: "content_peer_status \<Rightarrow> string" where
  "status_text FromPeer = ''yes''"
| "status_text FromNonPeer = ''no''"
| "status_text FromUnknown = ''unknown''"

fun collapse_text :: "bool \<Rightarrow> string" where
  "collapse_text True = ''collapsed''"
| "collapse_text False = ''expanded''"

text \<open>The values in ascending order, as \<open>sorted\<close> gives them.\<close>

definition status_values :: "content_peer_status set \<Rightarrow> json list" where
  "status_values S = map (\<lambda>s. JStr (status_text s)) (filter (\<lambda>s. s \<in> S) statuses)"

definition serialize_call :: "salience_codec \<Rightarrow> call_node \<Rightarrow> json" where
  "serialize_call sx n =
     JObj ([(''call_id'', JStr (tc_id (cl_call n))), (''name'', JStr (tc_name (cl_call n))),
            (''arguments'', JStr (tc_arguments (cl_call n))), (''result_content'', JStr (tr_content (cl_result n))),
            (''result_is_error'', JBool (tr_error (cl_result n))), (''detail_collapsed'', JBool (cl_collapsed n)),
            (''intrinsic_salience'', sx_out sx (cl_salience n))] @
           (if tr_statuses (cl_result n) = {} then []
            else [(''external_content_peer_statuses'', JArr (status_values (tr_statuses (cl_result n))))]))"

definition serialize_advisory :: "salience_codec \<Rightarrow> advisory_node \<Rightarrow> json" where
  "serialize_advisory sx a =
     JObj [(''source'', JStr (av_source a)), (''content'', JStr (av_content a)),
           (''collapse_state'', JStr (collapse_text (av_collapsed a))),
           (''intrinsic_salience'', sx_out sx (av_salience a))]"

fun serialize_node :: "salience_codec \<Rightarrow> history_node \<Rightarrow> json" where
  "serialize_node sx (UserPrompt p) =
     JObj [(''type'', JStr ''user_prompt''), (''content'', JStr (pn_content p)),
           (''collapse_state'', JStr (collapse_text (pn_collapsed p))),
           (''intrinsic_salience'', sx_out sx (pn_salience p))]"
| "serialize_node sx (Turn t) =
     JObj ([(''type'', JStr ''turn''), (''assistant_content'', JStr (tn_content t)),
            (''collapse_state'', JStr (collapse_text (tn_collapsed t))),
            (''intrinsic_salience'', sx_out sx (tn_salience t)),
            (''tool_calls'', JArr (map (serialize_call sx) (tn_calls t)))] @
           (if tn_advisories t = [] then []
            else [(''advisories'', JArr (map (serialize_advisory sx) (tn_advisories t)))]))"
| "serialize_node sx (ArchiveMarker now note count date) =
     JObj [(''type'', JStr ''archive_marker''), (''archived_at'', JStr (isoformat now)), (''summary'', JStr note),
           (''node_count'', JInt (int count)), (''journal_date'', JStr date)]"
| "serialize_node sx (Housekeeping ns) =
     JObj [(''type'', JStr ''housekeeping''), (''inner_nodes'', JArr (map (serialize_node sx) ns))]"

definition serialize_history :: "salience_codec \<Rightarrow> history_node list \<Rightarrow> json list" where
  "serialize_history sx ns = map (serialize_node sx) ns"

section \<open>Reading\<close>

definition collapse_of :: "json \<Rightarrow> bool result" where
  "collapse_of j = enum_from_value collapse_text [False, True] j"

definition jget_default :: "json_object \<Rightarrow> string \<Rightarrow> json \<Rightarrow> json" where
  "jget_default m k d = (case map_of m k of None \<Rightarrow> d | Some v \<Rightarrow> v)"

text \<open>A field annotated \<open>bool\<close>, a list, or an \<open>int\<close> that is stored without a check.\<close>

fun as_bool :: "json \<Rightarrow> bool result" where
  "as_bool (JBool b) = Inr b"
| "as_bool _ = Inl (UntypedValue ''bool'')"

fun as_list :: "json \<Rightarrow> json list result" where
  "as_list (JArr xs) = Inr xs"
| "as_list _ = Inl (UntypedValue ''list'')"

fun as_count :: "json \<Rightarrow> nat result" where
  "as_count (JInt i) = (if i \<ge> 0 then Inr (nat i) else Inl (UntypedValue ''negative count''))"
| "as_count _ = Inl (UntypedValue ''int'')"

definition salience_field :: "salience_codec \<Rightarrow> json_object \<Rightarrow> rat \<Rightarrow> rat result" where
  "salience_field sx m d =
     (case map_of m ''intrinsic_salience'' of None \<Rightarrow> Inr d | Some j \<Rightarrow> sx_in sx j)"

definition text_field :: "json_object \<Rightarrow> string \<Rightarrow> string result" where
  "text_field m k = rbind (jitem m k) as_str"

definition deserialize_call :: "salience_codec \<Rightarrow> json \<Rightarrow> call_node result" where
  "deserialize_call sx j =
     rbind (jmapping j) (\<lambda>m.
     rbind (text_field m ''call_id'') (\<lambda>cid.
     rbind (text_field m ''name'') (\<lambda>name.
     rbind (text_field m ''arguments'') (\<lambda>arguments.
     rbind (text_field m ''result_content'') (\<lambda>content.
     rbind (as_bool (jget_default m ''result_is_error'' (JBool False))) (\<lambda>err.
     rbind (rbind (as_list (jget_default m ''external_content_peer_statuses'' (JArr [])))
              (rmap_list (enum_from_value status_text statuses))) (\<lambda>ss.
     rbind (salience_field sx m (4 / 5)) (\<lambda>salience.
     rbind (as_bool (jget_default m ''detail_collapsed'' (JBool False))) (\<lambda>collapsed.
     Inr \<lparr>cl_call = \<lparr>tc_id = cid, tc_name = name, tc_arguments = arguments\<rparr>,
          cl_result = \<lparr>tr_id = cid, tr_content = content, tr_error = err, tr_statuses = set ss\<rparr>,
          cl_collapsed = collapsed, cl_salience = salience, cl_class = PlainCall\<rparr>)))))))))"

definition deserialize_advisory :: "salience_codec \<Rightarrow> json \<Rightarrow> advisory_node result" where
  "deserialize_advisory sx j =
     rbind (jdict j) (\<lambda>m.
     rbind (text_field m ''source'') (\<lambda>source.
     rbind (text_field m ''content'') (\<lambda>content.
     rbind (collapse_of (jget_default m ''collapse_state'' (JStr ''expanded''))) (\<lambda>collapsed.
     rbind (salience_field sx m (1 / 5)) (\<lambda>salience.
     Inr \<lparr>av_source = source, av_content = content, av_collapsed = collapsed, av_salience = salience\<rparr>)))))"

definition deserialize_prompt :: "salience_codec \<Rightarrow> json_object \<Rightarrow> history_node result" where
  "deserialize_prompt sx m =
     rbind (text_field m ''content'') (\<lambda>content.
     rbind (salience_field sx m 1) (\<lambda>salience.
     rbind (collapse_of (jget_default m ''collapse_state'' (JStr ''expanded''))) (\<lambda>collapsed.
     Inr (UserPrompt \<lparr>pn_content = content, pn_collapsed = collapsed, pn_salience = salience\<rparr>))))"

definition deserialize_turn :: "salience_codec \<Rightarrow> json_object \<Rightarrow> history_node result" where
  "deserialize_turn sx m =
     rbind (rbind (as_list (jget_default m ''tool_calls'' (JArr []))) (rmap_list (deserialize_call sx))) (\<lambda>calls.
     rbind (rbind (as_list (jget_default m ''advisories'' (JArr []))) (rmap_list (deserialize_advisory sx))) (\<lambda>advisories.
     rbind (as_str (jget_default m ''assistant_content'' (JStr []))) (\<lambda>content.
     rbind (salience_field sx m 1) (\<lambda>salience.
     rbind (collapse_of (jget_default m ''collapse_state'' (JStr ''expanded''))) (\<lambda>collapsed.
     Inr (Turn \<lparr>tn_content = content, tn_calls = calls, tn_advisories = advisories, tn_collapsed = collapsed,
                tn_salience = salience\<rparr>))))))"

definition deserialize_archive :: "json_object \<Rightarrow> history_node result" where
  "deserialize_archive m =
     rbind (rbind (jitem m ''archived_at'') fromisoformat) (\<lambda>now.
     rbind (text_field m ''summary'') (\<lambda>note.
     rbind (rbind (jitem m ''node_count'') as_count) (\<lambda>count.
     rbind (text_field m ''journal_date'') (\<lambda>date.
     Inr (ArchiveMarker now note count date)))))"

text \<open>Housekeeping nodes nest; the size of the document bounds the depth.\<close>

fun deserialize_node :: "salience_codec \<Rightarrow> nat \<Rightarrow> json \<Rightarrow> history_node result" where
  "deserialize_node sx 0 j = Inl (RuntimeError ''RecursionError'')"
| "deserialize_node sx (Suc depth) j =
     rbind (jmapping j) (\<lambda>m.
     rbind (jitem m ''type'') (\<lambda>kind.
       if kind = JStr ''user_prompt'' then deserialize_prompt sx m
       else if kind = JStr ''turn'' then deserialize_turn sx m
       else if kind = JStr ''archive_marker'' then deserialize_archive m
       else if kind = JStr ''housekeeping''
       then rbind (rbind (as_list (jget_default m ''inner_nodes'' (JArr []))) (rmap_list (deserialize_node sx depth)))
              (\<lambda>ns. Inr (Housekeeping ns))
       else Inl (ValueError ''Unknown history node type'')))"

definition deserialize_history :: "salience_codec \<Rightarrow> json list \<Rightarrow> history_node list result" where
  "deserialize_history sx js = rmap_list (\<lambda>j. deserialize_node sx (size j) j) js"

section \<open>What comes back\<close>

text \<open>The class of a tool call node is not written.\<close>

definition unclassed :: "turn_node \<Rightarrow> turn_node" where
  "unclassed t = t\<lparr>tn_calls := map (\<lambda>c. c\<lparr>cl_class := PlainCall\<rparr>) (tn_calls t)\<rparr>"

fun reread :: "history_node \<Rightarrow> history_node" where
  "reread (Turn t) = Turn (unclassed t)"
| "reread (Housekeeping ns) = Housekeeping (map reread ns)"
| "reread n = n"

definition salience_roundtrip :: "salience_codec \<Rightarrow> bool" where
  "salience_roundtrip sx \<longleftrightarrow> (\<forall>q. sx_in sx (sx_out sx q) = Inr q)"

definition storable_turn :: "turn_node \<Rightarrow> bool" where
  "storable_turn t \<longleftrightarrow> (\<forall>c \<in> set (tn_calls t). tr_id (cl_result c) = tc_id (cl_call c))"

fun storable :: "history_node \<Rightarrow> bool" where
  "storable (Turn t) = storable_turn t"
| "storable (ArchiveMarker now note count date) = valid_timestamp now"
| "storable (Housekeeping ns) = (\<forall>n \<in> set ns. storable n)"
| "storable (UserPrompt p) = True"

lemma status_of_text: "enum_from_value status_text statuses (JStr (status_text s)) = Inr s"
  by (cases s) (simp_all add: enum_from_value_def statuses_def)

interpretation status_codec: codec "\<lambda>s. JStr (status_text s)" "enum_from_value status_text statuses" "\<lambda>_. True"
  by unfold_locales (rule status_of_text)

lemma statuses_roundtrip [simp]:
  "rmap_list (enum_from_value status_text statuses) (status_values S) = Inr (filter (\<lambda>s. s \<in> S) statuses)"
  unfolding status_values_def by (rule status_codec.dec_enc_list) simp

lemma all_statuses: "set statuses = UNIV"
  by (auto simp: statuses_def) (metis content_peer_status.exhaust)

lemma collapse_of_text [simp]: "collapse_of (JStr (collapse_text b)) = Inr b"
  by (cases b) (simp_all add: collapse_of_def enum_from_value_def)

section \<open>Reading back\<close>

lemma call_roundtrip:
  assumes "salience_roundtrip sx" "tr_id (cl_result c) = tc_id (cl_call c)"
  shows "deserialize_call sx (serialize_call sx c) = Inr (c\<lparr>cl_class := PlainCall\<rparr>)"
  using assms all_statuses
  by (cases c; cases "cl_call c"; cases "cl_result c")
     (auto simp: deserialize_call_def serialize_call_def text_field_def jitem_def jget_default_def
        salience_field_def salience_roundtrip_def)

lemma advisory_roundtrip:
  assumes "salience_roundtrip sx"
  shows "deserialize_advisory sx (serialize_advisory sx a) = Inr a"
  using assms
  by (cases a) (simp add: deserialize_advisory_def serialize_advisory_def text_field_def jitem_def jget_default_def
        salience_field_def salience_roundtrip_def)

lemma calls_roundtrip:
  assumes "salience_roundtrip sx" "storable_turn t"
  shows "rmap_list (deserialize_call sx) (map (serialize_call sx) (tn_calls t)) = Inr (tn_calls (unclassed t))"
proof -
  have "rmap_list (deserialize_call sx) (map (serialize_call sx) cs) = Inr (map (\<lambda>c. c\<lparr>cl_class := PlainCall\<rparr>) cs)"
    if "\<forall>c \<in> set cs. tr_id (cl_result c) = tc_id (cl_call c)" for cs
    using that call_roundtrip [OF assms(1)] by (induction cs) simp_all
  with assms(2) show ?thesis by (simp add: storable_turn_def unclassed_def)
qed

lemma advisories_roundtrip:
  "salience_roundtrip sx \<Longrightarrow> rmap_list (deserialize_advisory sx) (map (serialize_advisory sx) ads) = Inr ads"
  by (induction ads) (simp_all add: advisory_roundtrip)

lemma node_roundtrip:
  assumes "salience_roundtrip sx"
  shows "storable n \<Longrightarrow> size (serialize_node sx n) \<le> depth \<Longrightarrow>
    deserialize_node sx depth (serialize_node sx n) = Inr (reread n)"
proof (induction n arbitrary: depth)
  case (UserPrompt p)
  then obtain d where "depth = Suc d" by (cases depth) simp_all
  then show ?case using assms
    by (cases p) (simp add: jitem_def deserialize_prompt_def text_field_def jget_default_def salience_field_def
        salience_roundtrip_def)
next
  case (Turn t)
  then obtain d where "depth = Suc d" by (cases depth) simp_all
  then show ?case using Turn assms calls_roundtrip [OF assms, of t] advisories_roundtrip [OF assms, of "tn_advisories t"]
    by (cases t) (auto simp: jitem_def deserialize_turn_def jget_default_def salience_field_def
        salience_roundtrip_def unclassed_def)
next
  case (ArchiveMarker now summary count date)
  then obtain d where "depth = Suc d" by (cases depth) simp_all
  then show ?case using ArchiveMarker
    by (simp add: jitem_def deserialize_archive_def text_field_def iso_of_isoformat)
next
  case (Housekeeping ns)
  then obtain d where d: "depth = Suc d" by (cases depth) simp_all
  have "size (serialize_node sx n) \<le> size_list (size \<circ> serialize_node sx) ns" if "n \<in> set ns" for n
    using that by (induction ns) (auto simp: comp_def)
  moreover have "size_list (size \<circ> serialize_node sx) ns \<le> d"
    using Housekeeping.prems(2) d by simp
  ultimately have "size (serialize_node sx n) \<le> d" if "n \<in> set ns" for n
    using that order_trans by blast
  then have "deserialize_node sx d (serialize_node sx n) = Inr (reread n)" if "n \<in> set ns" for n
    using Housekeeping that by simp
  then have "rmap_list (deserialize_node sx d) (map (serialize_node sx) ns) = Inr (map reread ns)"
    by (induction ns) simp_all
  then show ?case using d by (simp add: jitem_def jget_default_def)
qed

text \<open>C26: A history that is saved and loaded again has the same nodes, texts, collapse states and saliences,
  down to the results and their content statuses and through nested housekeeping. Only the class of
  a tool call node is not restored.
\<close>

theorem history_survives_storage:
  assumes "salience_roundtrip sx" "\<forall>n \<in> set ns. storable n"
  shows "deserialize_history sx (serialize_history sx ns) = Inr (map reread ns)"
  using assms(2) node_roundtrip [OF assms(1)]
  by (induction ns) (simp_all add: deserialize_history_def serialize_history_def)

definition unit_codec :: salience_codec where
  "unit_codec =
     \<lparr>sx_out = (\<lambda>q. JArr [JInt (fst (quotient_of q)), JInt (snd (quotient_of q))]),
      sx_in = (\<lambda>j. case j of JArr [JInt a, JInt b] \<Rightarrow> Inr (of_int a / of_int b) | _ \<Rightarrow> Inl (TypeError ''salience''))\<rparr>"

lemma unit_codec_roundtrip: "salience_roundtrip unit_codec"
  by (simp add: salience_roundtrip_def unit_codec_def quotient_of_div [symmetric, OF prod.collapse [symmetric]])

definition sample_read :: call_node where
  "sample_read =
     \<lparr>cl_call = \<lparr>tc_id = ''c1'', tc_name = ''read_file'', tc_arguments = ''{}''\<rparr>,
      cl_result = \<lparr>tr_id = ''c1'', tr_content = ''x = 1'', tr_error = False, tr_statuses = {FromPeer, FromUnknown}\<rparr>,
      cl_collapsed = True, cl_salience = 4 / 5, cl_class = FileRead\<rparr>"

definition sample_nodes :: "history_node list" where
  "sample_nodes =
     [UserPrompt \<lparr>pn_content = ''go'', pn_collapsed = False, pn_salience = 1\<rparr>,
      Housekeeping [Turn \<lparr>tn_content = ''ok'', tn_calls = [sample_read], tn_advisories = [], tn_collapsed = False, tn_salience = 1\<rparr>]]"

lemma sample_storable: "\<forall>n \<in> set sample_nodes. storable n"
  by (simp add: sample_nodes_def sample_read_def storable_turn_def)

lemma history_survives_storage_witness:
  "deserialize_history unit_codec (serialize_history unit_codec sample_nodes) = Inr (map reread sample_nodes)"
  by (rule history_survives_storage [OF unit_codec_roundtrip sample_storable])

text \<open>
  The call node of \<open>read_file\<close> is a \<open>FileReadCallNode\<close>; after a reload of the session it is a plain node.
\<close>

lemma reload_forgets_call_class:
  "reread (Turn \<lparr>tn_content = ''ok'', tn_calls = [sample_read], tn_advisories = [], tn_collapsed = False, tn_salience = 1\<rparr>)
     = Turn \<lparr>tn_content = ''ok'', tn_calls = [sample_read\<lparr>cl_class := PlainCall\<rparr>], tn_advisories = [], tn_collapsed = False,
             tn_salience = 1\<rparr> \<and>
   deserialize_call unit_codec (serialize_call unit_codec sample_read) = Inr (sample_read\<lparr>cl_class := PlainCall\<rparr>)"
  by (simp add: unclassed_def call_roundtrip [OF unit_codec_roundtrip] sample_read_def)

end
