(* ===== verification/Visibility.thy ===== *)
theory Visibility
  imports File_Tools History
begin

text \<open>
  What a rendered prompt shows of the files of the workspace
  (\<open>src/thorn/core/_prompt_visibility.py\<close>): reading numbered lines back out of a tool result,
  the identity of a file named by a tool call, and the record of the lines shown. A line of a file
  is its number and its text. The hash of a line (SHA-256) is a parameter.
\<close>

type_synonym file_line = "nat \<times> string"

section \<open>Numbered lines\<close>

definition make_file_line :: "nat \<Rightarrow> string \<Rightarrow> file_line result" where
  "make_file_line n s = (if n < 1 then Inl (ValueError ''line_number must be >= 1'') else Inr (n, s))"

definition make_line_range :: "nat \<Rightarrow> nat \<Rightarrow> (nat \<times> nat) result" where
  "make_line_range s e =
     (if s < 1 then Inl (ValueError ''start_line must be >= 1'')
      else if e < s then Inl (ValueError ''end_line must be >= start_line'')
      else Inr (s, e))"

definition is_digit :: "char \<Rightarrow> bool" where
  "is_digit c = (digit_val c \<noteq> None)"

text \<open>White space and digits at the start of a line, and what follows; \<open>None\<close> without a digit.\<close>

definition line_number_prefix :: "string \<Rightarrow> (nat \<times> string) option" where
  "line_number_prefix l =
     (let t = py_lstrip l; ds = takeWhile is_digit t
      in if ds = [] then None else Some (numeral_value ds, dropWhile is_digit t))"

text \<open>The pattern \<open>\s*\d+[^|\d]?\| ?.*\<close> on a line.\<close>

definition after_bar :: "string \<Rightarrow> string option" where
  "after_bar r =
     (case r of
        [] \<Rightarrow> None
      | c # r1 \<Rightarrow>
          if c = CHR ''|'' then Some r1
          else (case r1 of [] \<Rightarrow> None | d # r2 \<Rightarrow> if d = CHR ''|'' then Some r2 else None))"

definition numbered_line :: "string \<Rightarrow> (nat \<times> string) option" where
  "numbered_line l =
     (case line_number_prefix l of
        None \<Rightarrow> None
      | Some (n, r) \<Rightarrow>
          map_option (\<lambda>s. (n, if s \<noteq> [] \<and> hd s = CHR '' '' then tl s else s)) (after_bar r))"

definition parse_line_numbered :: "string \<Rightarrow> file_line list result" where
  "parse_line_numbered content =
     rmap_list (\<lambda>(n, s). make_file_line n s) (List.map_filter numbered_line (py_splitlines content))"

section \<open>Which file a path names\<close>

definition sandbox_relative :: "string \<Rightarrow> path option" where
  "sandbox_relative raw =
     (if \<not> is_absolute raw \<or> (py_startswith raw ''//'' \<and> \<not> py_startswith raw ''///'') then None
      else (case path_below (path_parts raw) [''agent'', ''workspace''] of
          None \<Rightarrow> None
        | Some rel \<Rightarrow> if ''..'' \<in> set rel then None else Some rel))"

text \<open>The longest prefix of the path that is also the end of the workspace is dropped.\<close>

definition relative_to_active :: "path \<Rightarrow> path \<Rightarrow> path" where
  "relative_to_active rel ws =
     (case find (\<lambda>k. take k rel = drop (length ws - k) ws) (rev [1..<min (length rel) (length ws) + 1]) of
        None \<Rightarrow> rel
      | Some k \<Rightarrow> drop k rel)"

text \<open>The key of a file is its resolved path. Resolving a path that need not exist does not fail in
  the model, so the answer \<open>None\<close> of the source for an \<open>OSError\<close> does not occur.\<close>

definition file_content_key :: "tools_env \<Rightarrow> string \<Rightarrow> path option \<Rightarrow> path" where
  "file_content_key env raw ws_root =
     (let resolve = ae_resolve (te_access env) in
      case ws_root of
        Some ws \<Rightarrow>
          (case sandbox_relative raw of
             Some rel \<Rightarrow> resolve (ws @ relative_to_active rel ws)
           | None \<Rightarrow> resolve (if is_absolute raw then path_parts raw else ws @ path_parts raw))
      | None \<Rightarrow>
          (let s = (if is_absolute raw then raw else te_expanduser env raw)
           in resolve (if is_absolute s then path_parts s else te_cwd env @ path_parts s)))"

section \<open>Snapshots of a prompt\<close>

record prompt_snapshot =
  vs_visible :: "(path \<times> (nat \<times> string) list) list"
  vs_collapsed :: "(path \<times> (nat \<times> nat) list) list"

definition empty_snapshot :: prompt_snapshot where
  "empty_snapshot = \<lparr>vs_visible = [], vs_collapsed = []\<rparr>"

definition record_visible :: "(string \<Rightarrow> string) \<Rightarrow> path \<Rightarrow> file_line list \<Rightarrow> prompt_snapshot \<Rightarrow> prompt_snapshot" where
  "record_visible hash key ls b =
     (let old = (case map_of (vs_visible b) key of None \<Rightarrow> [] | Some m \<Rightarrow> m)
      in b\<lparr>vs_visible := dict_set key (fold (\<lambda>(n, s). dict_set n (hash s)) ls old) (vs_visible b)\<rparr>)"

definition record_collapsed :: "path \<Rightarrow> (nat \<times> nat) list \<Rightarrow> prompt_snapshot \<Rightarrow> prompt_snapshot" where
  "record_collapsed key rs b =
     (let old = (case map_of (vs_collapsed b) key of None \<Rightarrow> [] | Some m \<Rightarrow> m)
      in b\<lparr>vs_collapsed := dict_set key (old @ rs) (vs_collapsed b)\<rparr>)"

record comparison =
  vc_key :: path
  vc_compared :: nat
  vc_exact :: nat
  vc_mismatch :: nat
  vc_hidden :: nat

definition shown_hash :: "prompt_snapshot \<Rightarrow> path \<Rightarrow> nat \<Rightarrow> string option" where
  "shown_hash b key n = (case map_of (vs_visible b) key of None \<Rightarrow> None | Some m \<Rightarrow> map_of m n)"

fun count_lines ::
    "(string \<Rightarrow> string) \<Rightarrow> (nat \<Rightarrow> string option) \<Rightarrow> file_line list \<Rightarrow> nat \<times> nat \<times> nat \<Rightarrow> nat \<times> nat \<times> nat" where
  "count_lines hash visible [] counts = counts"
| "count_lines hash visible ((n, s) # ls) (exact, mismatch, hidden) =
     count_lines hash visible ls
       (case visible n of
          None \<Rightarrow> (exact, mismatch, hidden + 1)
        | Some h \<Rightarrow> if h = hash s then (exact + 1, mismatch, hidden) else (exact, mismatch + 1, hidden))"

definition compare_file_content :: "(string \<Rightarrow> string) \<Rightarrow> prompt_snapshot \<Rightarrow> path \<Rightarrow> file_line list \<Rightarrow> comparison" where
  "compare_file_content hash b key ls =
     (case count_lines hash (shown_hash b key) ls (0, 0, 0) of (exact, mismatch, hidden) \<Rightarrow>
        \<lparr>vc_key = key, vc_compared = length ls, vc_exact = exact, vc_mismatch = mismatch, vc_hidden = hidden\<rparr>)"

definition exact_visible_fraction :: "comparison \<Rightarrow> rat" where
  "exact_visible_fraction c = (if vc_compared c = 0 then 0 else of_nat (vc_exact c) / of_nat (vc_compared c))"

section \<open>Snapshots of recent prompts\<close>

text \<open>The oldest snapshots are dropped; a size that is not positive keeps none.\<close>

record visibility_store =
  st_max :: int
  st_snapshots :: "(string \<times> prompt_snapshot) list"

definition remember :: "string \<Rightarrow> prompt_snapshot \<Rightarrow> visibility_store \<Rightarrow> visibility_store" where
  "remember i b st =
     (if st_max st \<le> 0 then st
      else (let kept = dict_del i (st_snapshots st) @ [(i, b)]
            in st\<lparr>st_snapshots := drop (length kept - nat (st_max st)) kept\<rparr>))"

definition store_compare ::
    "tools_env \<Rightarrow> (string \<Rightarrow> string) \<Rightarrow> visibility_store \<Rightarrow> string \<Rightarrow> string \<Rightarrow> path option \<Rightarrow> file_line list \<Rightarrow>
     comparison option" where
  "store_compare env hash st i raw ws_root ls =
     map_option (\<lambda>b. compare_file_content hash b (file_content_key env raw ws_root) ls) (map_of (st_snapshots st) i)"

end
