(* ===== verification/Observations.thy ===== *)
theory Observations
  imports Visibility
begin

text \<open>
  What the file tools of a conversation observed, and which of their results a request may replace
  (the first half of \<open>src/thorn/core/_file_context_folding.py\<close>, and the render plans of
  \<open>src/thorn/core/_history.py\<close>). An execution context is active or not; the snapshot of the live
  files reads every path at most once, so it is the function from paths to what that read gave.
\<close>

datatype live_content = ReadableLive "string list" | MissingLive | UnknownLive

record fold_env =
  fo_tools :: tools_env
  fo_active :: bool
  fo_live :: "path \<Rightarrow> live_content"
  fo_history :: history_env
  fo_hash :: "string \<Rightarrow> string"

text \<open>A path below a file, or one that is a directory, raises another \<open>OSError\<close> than a missing file.\<close>

definition load_live :: "tools_env \<Rightarrow> disk \<Rightarrow> path \<Rightarrow> live_content" where
  "load_live env d p =
     (let q = ae_resolve (te_access env) p in
      case map_of (dk_files d) q of
        Some (Text t) \<Rightarrow> ReadableLive (py_splitlines (universal_newlines t))
      | Some Undecodable \<Rightarrow> UnknownLive
      | None \<Rightarrow>
          if q = [] \<or> q \<in> set (dk_dirs d) \<or> list_ex (\<lambda>k. map_of (dk_files d) (take k q) \<noteq> None) [0..<length q]
          then UnknownLive else MissingLive)"

datatype result_state = CurrentResult | StaleResult | UnknownResult
datatype search_policy = ExactDuplicateOnly | CompleteCurrentRead
datatype collection_mode = LegacyReadable | ProjectedReadable | ProjectedAllowed

section \<open>Render plans\<close>

datatype replacement_reason = StaleObservation | RedundantObservation
datatype folding_mode = LegacyMinimum | FoldOlderSingle

record replacement =
  rp_id :: string
  rp_content :: string
  rp_reason :: replacement_reason
  rp_superseding :: "string option"

record render_plan =
  pl_replacements :: "replacement list"
  pl_details :: "string set"
  pl_turns :: "nat set"
  pl_mode :: folding_mode
  pl_protected :: "string set"

definition plain_plan :: render_plan where
  "plain_plan = \<lparr>pl_replacements = [], pl_details = {}, pl_turns = {}, pl_mode = LegacyMinimum, pl_protected = {}\<rparr>"

definition replacement_for :: "render_plan \<Rightarrow> string \<Rightarrow> replacement option" where
  "replacement_for plan i = find (\<lambda>r. rp_id r = i) (pl_replacements plan)"

definition with_detail_collapsed :: "string \<Rightarrow> render_plan \<Rightarrow> render_plan" where
  "with_detail_collapsed i plan = plan\<lparr>pl_details := insert i (pl_details plan)\<rparr>"

definition with_turn_collapsed :: "nat \<Rightarrow> render_plan \<Rightarrow> render_plan" where
  "with_turn_collapsed k plan = plan\<lparr>pl_turns := insert k (pl_turns plan)\<rparr>"

section \<open>Reading tool calls\<close>

definition lower_char :: "char \<Rightarrow> char" where
  "lower_char c =
     (let n = of_char c :: nat
      in if 65 \<le> n \<and> n \<le> 90 \<or> 192 \<le> n \<and> n \<le> 222 \<and> n \<noteq> 215 then char_of (n + 32) else c)"

definition normalized_tool_name :: "string \<Rightarrow> string" where
  "normalized_tool_name s =
     map (\<lambda>c. if c = CHR ''-'' \<or> c = CHR '' '' then CHR ''_'' else c) (map lower_char s)"

definition call_name :: "call_node \<Rightarrow> string" where
  "call_name c = normalized_tool_name (tc_name (cl_call c))"

definition tool_arguments :: "fold_env \<Rightarrow> call_node \<Rightarrow> json_object" where
  "tool_arguments env c =
     (let s = tc_arguments (cl_call c) in
      case (if s = [] then Some (JObj []) else he_loads (fo_history env) s) of
        Some (JObj m) \<Rightarrow> m
      | _ \<Rightarrow> [])"

definition positive_argument :: "json option \<Rightarrow> nat option" where
  "positive_argument v = (case v of Some (JInt i) \<Rightarrow> if i > 0 then Some (nat i) else None | _ \<Rightarrow> None)"

text \<open>\<open>json.dumps\<close> with sorted keys and without spaces.\<close>

fun json_dumps_canonical :: "json \<Rightarrow> string" where
  "json_dumps_canonical JNull = ''null''"
| "json_dumps_canonical (JBool b) = (if b then ''true'' else ''false'')"
| "json_dumps_canonical (JInt i) = show_int i"
| "json_dumps_canonical (JStr s) = dump_string s"
| "json_dumps_canonical (JArr xs) = ''['' @ py_join '','' (map json_dumps_canonical xs) @ '']''"
| "json_dumps_canonical (JObj m) =
     ''{'' @ py_join '','' (map snd (sort_key fst (map (\<lambda>(k, v). (k, dump_string k @ '':'' @ json_dumps_canonical v)) m))) @ ''}''"

definition canonical_arguments :: "fold_env \<Rightarrow> string \<Rightarrow> string" where
  "canonical_arguments env s =
     (case (if s = [] then Some (JObj []) else he_loads (fo_history env) s) of
        None \<Rightarrow> s
      | Some j \<Rightarrow> json_dumps_canonical j)"

section \<open>Paths\<close>

definition resolve_live_path :: "fold_env \<Rightarrow> string \<Rightarrow> path" where
  "resolve_live_path env raw =
     (let te = fo_tools env in
      case te_workspace te of
        None \<Rightarrow> resolve_path te raw
      | Some ws \<Rightarrow>
          (case sandbox_relative raw of
             None \<Rightarrow> resolve_path te raw
           | Some rel \<Rightarrow> ae_resolve (te_access te) (ws @ relative_to_active rel ws)))"

definition policy_allows :: "fold_env \<Rightarrow> path \<Rightarrow> bool" where
  "policy_allows env p =
     (case (te_policy (fo_tools env), te_workspace (fo_tools env)) of
        (Some pol, Some _) \<Rightarrow> \<not> check (te_access (fo_tools env)) pol p < Readable
      | _ \<Rightarrow> True)"

definition resolve_allowed :: "fold_env \<Rightarrow> path option \<Rightarrow> collection_mode \<Rightarrow> string \<Rightarrow> path option" where
  "resolve_allowed env ws_root mode raw =
     (if fo_active env
      then (let p = resolve_live_path env raw in if policy_allows env p then Some p else None)
      else (case ws_root of
          None \<Rightarrow> None
        | Some ws \<Rightarrow>
            if mode = LegacyReadable then None
            else (let key = file_content_key (fo_tools env) raw (Some ws)
                  in if path_below key (ae_resolve (te_access (fo_tools env)) ws) = None then None else Some key)))"

definition shown_path :: "fold_env \<Rightarrow> string \<Rightarrow> path \<Rightarrow> string" where
  "shown_path env raw p =
     (if \<not> fo_active env then raw
      else (case te_workspace (fo_tools env) of
          None \<Rightarrow> raw
        | Some ws \<Rightarrow> (case path_below p ws of None \<Rightarrow> raw | Some q \<Rightarrow> posix_text q)))"

section \<open>Observations\<close>

record observation =
  ob_id :: string
  ob_tool :: string
  ob_display :: string
  ob_path :: path
  ob_seq :: nat
  ob_range :: "(nat \<times> nat) option"
  ob_whole :: bool
  ob_pattern :: "string option"
  ob_search :: "nat list"
  ob_complete :: bool
  ob_edited :: "nat list"
  ob_context :: "nat list"
  ob_lines :: "file_line list"

definition blank_observation :: "string \<Rightarrow> string \<Rightarrow> string \<Rightarrow> path \<Rightarrow> nat \<Rightarrow> observation" where
  "blank_observation i tool display p n =
     \<lparr>ob_id = i, ob_tool = tool, ob_display = display, ob_path = p, ob_seq = n, ob_range = None, ob_whole = False,
      ob_pattern = None, ob_search = [], ob_complete = False, ob_edited = [], ob_context = [], ob_lines = []\<rparr>"

fun contiguous_from :: "nat \<Rightarrow> file_line list \<Rightarrow> nat option" where
  "contiguous_from n [] = Some n"
| "contiguous_from n ((k, s) # ls) = (if k \<noteq> n then None else contiguous_from (n + 1) ls)"

definition contiguous_range :: "file_line list \<Rightarrow> (nat \<times> nat) option" where
  "contiguous_range ls =
     (case ls of [] \<Rightarrow> None | (k, s) # _ \<Rightarrow> map_option (\<lambda>n. (k, n - 1)) (contiguous_from k ls))"

definition read_observation ::
    "fold_env \<Rightarrow> path option \<Rightarrow> collection_mode \<Rightarrow> call_node \<Rightarrow> nat \<Rightarrow> observation option result" where
  "read_observation env ws_root mode c n =
     (let args = tool_arguments env c in
      case map_of args ''path'' of
        Some (JStr raw) \<Rightarrow>
          (case resolve_allowed env ws_root mode raw of
             None \<Rightarrow> Inr None
           | Some p \<Rightarrow>
               rbind (parse_line_numbered (tr_content (cl_result c))) (\<lambda>ls.
                 let offset = (case positive_argument (map_of args ''offset'') of None \<Rightarrow> 1 | Some k \<Rightarrow> k);
                     asked = map_option (\<lambda>k. (offset, offset + k - 1)) (positive_argument (map_of args ''limit''))
                 in Inr (Some ((blank_observation (tc_id (cl_call c)) ''read_file'' (shown_path env raw p) p n)\<lparr>
                      ob_range := (if ls = [] then asked else contiguous_range ls),
                      ob_whole := (map_of args ''limit'' \<in> {None, Some JNull} \<and> offset = 1),
                      ob_lines := ls\<rparr>))))
      | _ \<Rightarrow> Inr None)"

subsection \<open>Results of searches\<close>

definition header_path :: "string \<Rightarrow> string option" where
  "header_path l = (if length l \<ge> 2 \<and> last l = CHR '':'' then Some (butlast l) else None)"

definition plain_number :: "string \<Rightarrow> nat option" where
  "plain_number l =
     (case line_number_prefix l of
        None \<Rightarrow> None
      | Some (n, r) \<Rightarrow> if r \<noteq> [] \<and> hd r = CHR ''|'' then Some n else None)"

definition header_of :: "string \<Rightarrow> string option" where
  "header_of l = (if plain_number l = None then header_path l else None)"

fun search_lines ::
    "string list \<Rightarrow> string option \<Rightarrow> (string \<times> file_line list) list \<Rightarrow> (string \<times> file_line list) list result" where
  "search_lines [] cur m = Inr m"
| "search_lines (l # ls) cur m =
     (case header_of l of
        Some p \<Rightarrow> search_lines ls (Some p) m
      | None \<Rightarrow>
          (case cur of
             None \<Rightarrow> search_lines ls cur m
           | Some p \<Rightarrow>
               if plain_number l = None then search_lines ls cur m
               else rbind (parse_line_numbered l) (\<lambda>parsed.
                 search_lines ls cur
                   (case parsed of
                      [] \<Rightarrow> m
                    | x # _ \<Rightarrow> dict_set p ((case map_of m p of None \<Rightarrow> [] | Some xs \<Rightarrow> xs) @ [x]) m))))"

definition parse_search_result :: "string \<Rightarrow> (string \<times> file_line list) list result" where
  "parse_search_result content =
     rbind (search_lines (py_splitlines content) None []) (\<lambda>m. Inr (map (\<lambda>(p, ls). (p, sort_key fst ls)) m))"

fun complete_lines :: "string list \<Rightarrow> string option \<Rightarrow> bool \<Rightarrow> bool result" where
  "complete_lines [] cur has_line = Inr (cur \<noteq> None \<and> has_line)"
| "complete_lines (l # ls) cur has_line =
     (if py_strip l = [] then complete_lines ls cur has_line
      else (case header_of l of
          Some p \<Rightarrow> if cur \<noteq> None \<and> \<not> has_line then Inr False else complete_lines ls (Some p) False
        | None \<Rightarrow>
            if l = ''--'' \<and> cur \<noteq> None then complete_lines ls cur has_line
            else if cur \<noteq> None \<and> plain_number l \<noteq> None
            then rbind (parse_line_numbered l) (\<lambda>parsed.
              if parsed = [] then Inr False else complete_lines ls cur True)
            else Inr False))"

definition search_result_complete :: "string \<Rightarrow> bool result" where
  "search_result_complete content = complete_lines (py_splitlines content) None False"

text \<open>One path that may not be resolved discards the whole search.\<close>

definition search_observations ::
    "fold_env \<Rightarrow> path option \<Rightarrow> collection_mode \<Rightarrow> call_node \<Rightarrow> nat \<Rightarrow> observation list result" where
  "search_observations env ws_root mode c n =
     rbind (parse_search_result (tr_content (cl_result c))) (\<lambda>hits.
     rbind (search_result_complete (tr_content (cl_result c))) (\<lambda>complete.
       let pattern = (case map_of (tool_arguments env c) ''pattern'' of Some (JStr s) \<Rightarrow> Some s | _ \<Rightarrow> None) in
       if list_ex (\<lambda>(raw, _). resolve_allowed env ws_root mode raw = None) hits then Inr []
       else Inr (List.map_filter (\<lambda>(raw, ls).
         map_option (\<lambda>p. (blank_observation (tc_id (cl_call c)) ''search_files'' (shown_path env raw p) p n)\<lparr>
             ob_pattern := pattern, ob_search := map fst ls, ob_complete := complete, ob_lines := ls\<rparr>)
           (resolve_allowed env ws_root mode raw)) hits)))"

subsection \<open>Results of writes\<close>

definition parse_line_numbers :: "string \<Rightarrow> nat list" where
  "parse_line_numbers content = sort (remdups (List.map_filter plain_number (py_splitlines content)))"

definition write_observation ::
    "fold_env \<Rightarrow> path option \<Rightarrow> collection_mode \<Rightarrow> call_node \<Rightarrow> nat \<Rightarrow> observation option" where
  "write_observation env ws_root mode c n =
     (case map_of (tool_arguments env c) ''path'' of
        Some (JStr raw) \<Rightarrow>
          (case resolve_allowed env ws_root mode raw of
             None \<Rightarrow> None
           | Some p \<Rightarrow>
               (let content = tr_content (cl_result c); numbers = parse_line_numbers content;
                    (edited, around) =
                      (if call_name c = ''edit_file''
                       then (case from_tool_result content of
                           None \<Rightarrow> ([], numbers)
                         | Some prov \<Rightarrow> (changed_line_numbers (pv_ranges prov), pv_anchors prov))
                       else (numbers, []))
                in Some ((blank_observation (tc_id (cl_call c)) (call_name c) (shown_path env raw p) p n)\<lparr>
                     ob_edited := edited, ob_context := around\<rparr>)))
      | _ \<Rightarrow> None)"

definition observations_for ::
    "fold_env \<Rightarrow> path option \<Rightarrow> collection_mode \<Rightarrow> call_node \<Rightarrow> nat \<Rightarrow> observation list result" where
  "observations_for env ws_root mode c n =
     (let name = call_name c; opt = (\<lambda>r. case r of None \<Rightarrow> [] | Some x \<Rightarrow> [x]) in
      if tr_error (cl_result c) then Inr []
      else if name = ''read_file'' then rbind (read_observation env ws_root mode c n) (\<lambda>r. Inr (opt r))
      else if name = ''search_files'' then search_observations env ws_root mode c n
      else if name = ''edit_file'' \<or> name = ''create_file'' then Inr (opt (write_observation env ws_root mode c n))
      else Inr [])"

section \<open>Collecting them by file\<close>

record accumulator =
  ac_display :: string
  ac_path :: path
  ac_obs :: "observation list"

definition read_search :: "accumulator \<Rightarrow> observation list" where
  "read_search a = filter (\<lambda>x. ob_tool x = ''read_file'' \<or> ob_tool x = ''search_files'') (ac_obs a)"

definition last_sequence :: "accumulator \<Rightarrow> nat" where
  "last_sequence a = Max (set (map ob_seq (ac_obs a)))"

definition latest_read_range :: "accumulator \<Rightarrow> (nat \<times> nat) option" where
  "latest_read_range a =
     (case find (\<lambda>x. ob_tool x = ''read_file'' \<and> ob_range x \<noteq> None) (rev (ac_obs a)) of
        None \<Rightarrow> None
      | Some x \<Rightarrow> ob_range x)"

definition add_observation ::
    "observation \<Rightarrow> (path \<times> accumulator) list \<Rightarrow> (path \<times> accumulator) list" where
  "add_observation x m =
     dict_set (ob_path x)
       (case map_of m (ob_path x) of
          None \<Rightarrow> \<lparr>ac_display = ob_display x, ac_path = ob_path x, ac_obs = [x]\<rparr>
        | Some a \<Rightarrow> a\<lparr>ac_obs := ac_obs a @ [x]\<rparr>) m"

definition readable_live :: "fold_env \<Rightarrow> path \<Rightarrow> bool" where
  "readable_live env p = (case fo_live env p of ReadableLive _ \<Rightarrow> True | _ \<Rightarrow> False)"

definition call_skipped :: "render_plan \<Rightarrow> collection_mode \<Rightarrow> call_node \<Rightarrow> bool" where
  "call_skipped plan mode c =
     (tc_id (cl_call c) \<in> pl_details plan \<or> replacement_for plan (tc_id (cl_call c)) \<noteq> None \<or>
      mode \<noteq> LegacyReadable \<and> cl_collapsed c)"

fun collect_calls ::
    "fold_env \<Rightarrow> path option \<Rightarrow> render_plan \<Rightarrow> collection_mode \<Rightarrow> call_node list \<Rightarrow> nat \<Rightarrow>
     (path \<times> accumulator) list \<Rightarrow> (path \<times> accumulator) list result" where
  "collect_calls env ws_root plan mode [] n m = Inr m"
| "collect_calls env ws_root plan mode (c # cs) n m =
     (if call_skipped plan mode c then collect_calls env ws_root plan mode cs (n + 1) m
      else rbind (observations_for env ws_root mode c n) (\<lambda>xs.
        collect_calls env ws_root plan mode cs (n + 1)
          (fold add_observation (filter (\<lambda>x. mode = ProjectedAllowed \<or> readable_live env (ob_path x)) xs) m)))"

fun collect_nodes ::
    "fold_env \<Rightarrow> path option \<Rightarrow> render_plan \<Rightarrow> collection_mode \<Rightarrow> (nat \<times> history_node) list \<Rightarrow> nat \<Rightarrow>
     (path \<times> accumulator) list \<Rightarrow> (path \<times> accumulator) list result" where
  "collect_nodes env ws_root plan mode [] n m = Inr m"
| "collect_nodes env ws_root plan mode ((i, x) # xs) n m =
     (case x of
        Turn t \<Rightarrow>
          if i \<in> pl_turns plan \<or> mode \<noteq> LegacyReadable \<and> tn_collapsed t
          then collect_nodes env ws_root plan mode xs (n + length (tn_calls t)) m
          else rbind (collect_calls env ws_root plan mode (tn_calls t) n m) (\<lambda>m'.
            collect_nodes env ws_root plan mode xs (n + length (tn_calls t)) m')
      | _ \<Rightarrow> collect_nodes env ws_root plan mode xs (n + 1) m)"

definition collect_file_context ::
    "fold_env \<Rightarrow> path option \<Rightarrow> render_plan \<Rightarrow> collection_mode \<Rightarrow> history_node list \<Rightarrow> accumulator list result" where
  "collect_file_context env ws_root plan mode ns =
     rbind (collect_nodes env ws_root plan mode (enumerate 0 ns) 0 []) (\<lambda>m. Inr (map snd m))"

section \<open>Planning replacements\<close>

definition returned_lines_state :: "string list option \<Rightarrow> file_line list \<Rightarrow> result_state" where
  "returned_lines_state live ls =
     (case live of
        None \<Rightarrow> UnknownResult
      | Some texts \<Rightarrow>
          if ls = [] then UnknownResult
          else if list_all (\<lambda>(n, s). 1 \<le> n \<and> n \<le> length texts \<and> texts ! (n - 1) = s) ls then CurrentResult
          else StaleResult)"

definition observation_state :: "live_content \<Rightarrow> file_line list \<Rightarrow> result_state" where
  "observation_state live ls =
     (case live of
        MissingLive \<Rightarrow> if ls = [] then UnknownResult else StaleResult
      | UnknownLive \<Rightarrow> UnknownResult
      | ReadableLive texts \<Rightarrow> returned_lines_state (Some texts) ls)"

definition visible_calls :: "history_node list \<Rightarrow> call_node list" where
  "visible_calls ns =
     concat (map (\<lambda>n. case n of Turn t \<Rightarrow> if tn_collapsed t then [] else filter (\<lambda>c. \<not> cl_collapsed c) (tn_calls t)
                              | _ \<Rightarrow> []) ns)"

definition is_search :: "call_node \<Rightarrow> bool" where
  "is_search c = (\<not> tr_error (cl_result c) \<and> call_name c = ''search_files'')"

definition read_note :: "observation \<Rightarrow> string \<Rightarrow> string" where
  "read_note x note = ''read_file('' @ py_repr (ob_display x) @ '') ['' @ note"

definition stale_replacement :: "observation \<Rightarrow> replacement" where
  "stale_replacement x =
     \<lparr>rp_id = ob_id x,
      rp_content = read_note x ''stale file observation omitted; returned lines no longer match the live workspace; raw result remains in session history.]'',
      rp_reason = StaleObservation, rp_superseding = None\<rparr>"

definition redundant_replacement :: "observation \<Rightarrow> observation \<Rightarrow> replacement" where
  "redundant_replacement x newer =
     \<lparr>rp_id = ob_id x,
      rp_content = read_note x (''redundant file observation omitted; identical current lines are retained by tool call '' @
        ob_id newer @ ''; raw result remains in session history.]''),
      rp_reason = RedundantObservation, rp_superseding = Some (ob_id newer)\<rparr>"

text \<open>The summary of a call in folded output; that of a search has its pattern and path.\<close>

definition folded_summary :: "fold_env \<Rightarrow> call_node \<Rightarrow> string result" where
  "folded_summary env c =
     (if call_name c \<noteq> ''search_files''
      then tool_call_summary (he_loads (fo_history env)) (cl_call c) (cl_result c)
      else (let args = tool_arguments env c;
                pattern = json_repr (case map_of args ''pattern'' of None \<Rightarrow> JStr ''?'' | Some v \<Rightarrow> v) in
            case map_of args ''path'' of
              None \<Rightarrow> Inr (''search_files('' @ pattern @ '')'')
            | Some JNull \<Rightarrow> Inr (''search_files('' @ pattern @ '')'')
            | Some v \<Rightarrow> Inr (''search_files('' @ pattern @ '', path='' @ json_repr v @ '')'')))"

definition search_replacement :: "fold_env \<Rightarrow> call_node \<Rightarrow> string \<Rightarrow> string \<Rightarrow> replacement result" where
  "search_replacement env c note newer =
     rbind (folded_summary env c) (\<lambda>s.
       Inr \<lparr>rp_id = tc_id (cl_call c),
            rp_content = s @ '' [redundant file observation omitted; '' @ note @ newer @ ''; raw result remains in session history.]'',
            rp_reason = RedundantObservation, rp_superseding = Some newer\<rparr>)"

definition reads_of :: "accumulator \<Rightarrow> observation list" where
  "reads_of a = filter (\<lambda>x. ob_tool x = ''read_file'') (read_search a)"

definition current_reads :: "fold_env \<Rightarrow> accumulator \<Rightarrow> observation list" where
  "current_reads env a =
     filter (\<lambda>x. observation_state (fo_live env (ac_path a)) (ob_lines x) = CurrentResult \<and> ob_lines x \<noteq> []) (reads_of a)"

fun redundant_pairs :: "observation list \<Rightarrow> (observation \<times> observation) list" where
  "redundant_pairs [] = []"
| "redundant_pairs (x # xs) =
     (case find (\<lambda>y. set (ob_lines x) \<subseteq> set (ob_lines y)) xs of None \<Rightarrow> [] | Some y \<Rightarrow> [(x, y)]) @ redundant_pairs xs"

text \<open>A dictionary of replacements by call; a later entry replaces an earlier one in its place.\<close>

definition put_replacement :: "replacement \<Rightarrow> (string \<times> replacement) list \<Rightarrow> (string \<times> replacement) list" where
  "put_replacement r m = dict_set (rp_id r) r m"

definition read_replacements :: "fold_env \<Rightarrow> accumulator \<Rightarrow> replacement list" where
  "read_replacements env a =
     map stale_replacement
       (filter (\<lambda>x. observation_state (fo_live env (ac_path a)) (ob_lines x) = StaleResult) (reads_of a)) @
     map (\<lambda>(x, y). redundant_replacement x y) (redundant_pairs (current_reads env a))"

definition keep_new :: "replacement \<Rightarrow> (string \<times> replacement) list \<Rightarrow> (string \<times> replacement) list" where
  "keep_new r m = (if map_of m (rp_id r) = None then put_replacement r m else m)"

text \<open>The latest search with the same arguments and the same result, from the newest back.\<close>

fun duplicate_pairs_back ::
    "fold_env \<Rightarrow> call_node list \<Rightarrow> ((string \<times> string) \<times> call_node) list \<Rightarrow> (call_node \<times> call_node) list" where
  "duplicate_pairs_back env [] latest = []"
| "duplicate_pairs_back env (c # cs) latest =
     (let signature = (canonical_arguments env (tc_arguments (cl_call c)), tr_content (cl_result c)) in
      case map_of latest signature of
        Some newer \<Rightarrow> (c, newer) # duplicate_pairs_back env cs latest
      | None \<Rightarrow> duplicate_pairs_back env cs ((signature, c) # latest))"

definition duplicate_search_pairs :: "fold_env \<Rightarrow> history_node list \<Rightarrow> (call_node \<times> call_node) list" where
  "duplicate_search_pairs env ns = rev (duplicate_pairs_back env (rev (filter is_search (visible_calls ns))) [])"

definition superseding_read :: "fold_env \<Rightarrow> observation \<Rightarrow> accumulator \<Rightarrow> observation option" where
  "superseding_read env s a =
     find (\<lambda>x. ob_tool x = ''read_file'' \<and> ob_seq s < ob_seq x \<and> ob_lines x \<noteq> [] \<and>
         observation_state (fo_live env (ob_path x)) (ob_lines x) = CurrentResult \<and>
         set (ob_lines s) \<subseteq> set (ob_lines x)) (rev (read_search a))"

definition search_groups :: "accumulator list \<Rightarrow> (string \<times> (observation \<times> accumulator) list) list" where
  "search_groups accs =
     fold (\<lambda>(x, a) m. dict_set (ob_id x) ((case map_of m (ob_id x) of None \<Rightarrow> [] | Some xs \<Rightarrow> xs) @ [(x, a)]) m)
       (concat (map (\<lambda>a. map (\<lambda>x. (x, a)) (filter (\<lambda>x. ob_tool x = ''search_files'') (read_search a))) accs)) []"

text \<open>Searches whose only file is covered by one later read that is still current.\<close>

definition subsumed_searches ::
    "fold_env \<Rightarrow> history_node list \<Rightarrow> accumulator list \<Rightarrow> (call_node \<times> observation) list" where
  "subsumed_searches env ns accs =
     List.map_filter (\<lambda>(i, xs).
       case (find (\<lambda>c. tc_id (cl_call c) = i) (rev (filter is_search (visible_calls ns))), xs) of
         (Some c, [(s, a)]) \<Rightarrow>
           if ob_lines s = [] \<or> \<not> ob_complete s then None
           else map_option (\<lambda>x. (c, x)) (superseding_read env s a)
       | _ \<Rightarrow> None) (search_groups accs)"

definition call_order :: "history_node list \<Rightarrow> string \<Rightarrow> int" where
  "call_order ns i =
     (case map_of (rev (map (\<lambda>(k, c). (tc_id (cl_call c), k)) (enumerate 0 (visible_calls ns)))) i of
        None \<Rightarrow> -1
      | Some k \<Rightarrow> int k)"

definition put_searches ::
    "fold_env \<Rightarrow> string \<Rightarrow> (call_node \<times> string) list \<Rightarrow> (string \<times> replacement) list \<Rightarrow>
     (string \<times> replacement) list result" where
  "put_searches env note pairs m =
     rbind (rmap_list (\<lambda>(c, newer). search_replacement env c note newer) pairs) (\<lambda>rs. Inr (fold keep_new rs m))"

definition plan_replacements ::
    "fold_env \<Rightarrow> path option \<Rightarrow> search_policy \<Rightarrow> history_node list \<Rightarrow> replacement list result" where
  "plan_replacements env ws_root policy ns =
     rbind (collect_file_context env ws_root plain_plan ProjectedAllowed ns) (\<lambda>accs.
     let m0 = fold put_replacement (concat (map (read_replacements env) accs)) [] in
     rbind (if policy = CompleteCurrentRead
            then put_searches env ''current search evidence is retained by tool call ''
                   (map (\<lambda>(c, x). (c, ob_id x)) (subsumed_searches env ns accs)) m0
            else Inr m0) (\<lambda>m1.
     rbind (put_searches env ''identical result is retained by tool call ''
              (map (\<lambda>(c, newer). (c, tc_id (cl_call newer))) (duplicate_search_pairs env ns)) m1) (\<lambda>m2.
     Inr (sort_key (\<lambda>r. call_order ns (rp_id r)) (map snd m2)))))"

text \<open>Searches with anything in their results that is not a matching line of a named file.\<close>

definition searches_requiring_evidence :: "history_node list \<Rightarrow> string set result" where
  "searches_requiring_evidence ns =
     rbind (rmap_list (\<lambda>c. rbind (search_result_complete (tr_content (cl_result c))) (\<lambda>b. Inr (tc_id (cl_call c), b)))
              (filter is_search (visible_calls ns)))
       (\<lambda>xs. Inr (fst ` set (filter (\<lambda>(i, complete). \<not> complete) xs)))"

section \<open>A workspace with one file\<close>

definition example_fold :: fold_env where
  "example_fold = \<lparr>fo_tools = example_tools, fo_active = False,
     fo_live = (\<lambda>p. if p = [''w'', ''a''] then ReadableLive [''one'', ''two''] else MissingLive),
     fo_history = \<lparr>he_loads = (\<lambda>_. Some (JObj [(''path'', JStr ''a'')])), he_weigh = (\<lambda>q _. q)\<rparr>,
     fo_hash = (\<lambda>s. s)\<rparr>"

end
