(* ===== verification/Folding.thy ===== *)
theory Folding
  imports Observations
begin

text \<open>
  The provider's view of a conversation with repeated file output folded (the second half of
  \<open>src/thorn/core/_file_context_folding.py\<close>): the current view of a file around the lines that were
  read, found or edited, and the messages of the nodes under a render plan. Saliences are rationals.
\<close>

definition folded_max_files :: nat where "folded_max_files = 6"
definition folded_line_budget :: nat where "folded_line_budget = 80"
definition folded_char_budget :: nat where "folded_char_budget = 20000"
definition around_salient_line :: nat where "around_salient_line = 2"
definition folded_outline_budget :: nat where "folded_outline_budget = 18"
definition folded_min_observations :: nat where "folded_min_observations = 2"
definition salience_decay :: rat where "salience_decay = 88 / 100"

section \<open>The lines of a view\<close>

datatype line_marker = ReadMark | SearchMark | EditMark | ContextMark

fun marker_sign :: "line_marker \<Rightarrow> string" where
  "marker_sign ReadMark = ''*''"
| "marker_sign SearchMark = ''!''"
| "marker_sign EditMark = ''~''"
| "marker_sign ContextMark = ''-''"

type_synonym line_scores = "(nat \<times> rat) list \<times> (nat \<times> line_marker list) list"

definition clamp_range :: "nat \<Rightarrow> nat \<times> nat \<Rightarrow> (nat \<times> nat) option" where
  "clamp_range n r =
     (if n = 0 then None
      else (let s = max 1 (fst r); e = min n (snd r) in if s > e then None else Some (s, e)))"

definition add_line_salience :: "nat \<Rightarrow> rat \<Rightarrow> line_marker \<Rightarrow> nat \<Rightarrow> line_scores \<Rightarrow> line_scores" where
  "add_line_salience n salience marker line st =
     (if line < 1 \<or> line > n then st
      else (case st of (scores, marks) \<Rightarrow>
        (dict_set line ((case map_of scores line of None \<Rightarrow> 0 | Some q \<Rightarrow> q) + salience) scores,
         dict_set line (marker # (case map_of marks line of None \<Rightarrow> [] | Some ms \<Rightarrow> ms)) marks)))"

definition add_range_salience :: "nat \<Rightarrow> rat \<Rightarrow> line_marker \<Rightarrow> nat \<times> nat \<Rightarrow> line_scores \<Rightarrow> line_scores" where
  "add_range_salience n salience marker r st =
     (case clamp_range n r of
        None \<Rightarrow> st
      | Some (s, e) \<Rightarrow> fold (add_line_salience n salience marker) [s..<e + 1] st)"

definition dominant_marker :: "line_marker list \<Rightarrow> line_marker" where
  "dominant_marker ms =
     (case find (\<lambda>m. m \<in> set ms) [EditMark, ContextMark, SearchMark, ReadMark] of None \<Rightarrow> ReadMark | Some m \<Rightarrow> m)"

definition score_observation :: "nat \<Rightarrow> nat \<Rightarrow> observation \<Rightarrow> line_scores \<Rightarrow> line_scores" where
  "score_observation n latest x st =
     (let decay = salience_decay ^ (latest - ob_seq x);
          st1 = (case ob_range x of None \<Rightarrow> st | Some r \<Rightarrow> add_range_salience n (4 * decay) ReadMark r st);
          st2 = fold (add_line_salience n (5 * decay) SearchMark) (ob_search x) st1;
          st3 = fold (add_line_salience n (6 * decay) EditMark) (ob_edited x) st2
      in fold (add_line_salience n (6 * decay) ContextMark) (ob_context x) st3)"

definition score_file_lines ::
    "observation list \<Rightarrow> nat \<Rightarrow> (nat \<times> rat) list \<times> (nat \<times> line_marker) list \<times> bool" where
  "score_file_lines xs n =
     (let latest = Max (set (map ob_seq xs)) in
      case fold (score_observation n latest) xs ([], []) of
        (scores, marks) \<Rightarrow> (scores, map (\<lambda>(l, ms). (l, dominant_marker ms)) marks, list_ex ob_whole xs))"

text \<open>Lines by falling salience, then by number.\<close>

definition by_salience :: "(nat \<times> rat) list \<Rightarrow> (nat \<times> rat) list" where
  "by_salience scores = sort_key (\<lambda>(l, q). (- q, l)) scores"

definition salient_regions :: "(nat \<times> rat) list \<Rightarrow> nat \<Rightarrow> (nat \<times> nat) list" where
  "salient_regions scores n =
     map (\<lambda>(l, q). (max 1 (l - around_salient_line), min n (l + around_salient_line))) (by_salience scores)"

definition visible_regions :: "output_span list \<Rightarrow> (nat \<times> nat) list" where
  "visible_regions ps = map (\<lambda>p. (os_start p, os_end p)) (filter os_visible ps)"

text \<open>Lines of the regions in their order until the budget is used up.\<close>

fun take_lines :: "nat \<Rightarrow> nat list \<Rightarrow> nat list \<Rightarrow> nat list" where
  "take_lines budget [] selected = selected"
| "take_lines budget (l # ls) selected =
     (if l \<in> set selected then take_lines budget ls selected
      else if length selected + 1 = budget then l # selected
      else take_lines budget ls (l # selected))"

fun merge_sorted_regions :: "(nat \<times> nat) list \<Rightarrow> (nat \<times> nat) list \<Rightarrow> (nat \<times> nat) list" where
  "merge_sorted_regions [] out = out"
| "merge_sorted_regions ((s, e) # rs) out =
     merge_sorted_regions rs
       (if out = [] \<or> s > snd (last out) + 1 then out @ [(s, e)]
        else butlast out @ [(fst (last out), max (snd (last out)) e)])"

definition regions_of_lines :: "nat list \<Rightarrow> (nat \<times> nat) list" where
  "regions_of_lines ls = merge_sorted_regions (sort (map (\<lambda>l. (l, l)) ls)) []"

definition limit_regions :: "(nat \<times> nat) list \<Rightarrow> nat \<Rightarrow> (nat \<times> nat) list" where
  "limit_regions rs budget = regions_of_lines (take_lines budget (concat (map (\<lambda>(s, e). [s..<e + 1]) rs)) [])"

definition spans_for_folded ::
    "md_parser \<Rightarrow> string list \<Rightarrow> string \<Rightarrow> (nat \<times> rat) list \<Rightarrow> nat list \<Rightarrow> (nat \<times> nat) option \<Rightarrow> bool \<Rightarrow>
     output_span list" where
  "spans_for_folded parse ls display scores required latest whole =
     (let n = length ls in
      if n \<le> folded_line_budget then spans_for_regions n [(1, n)] 0
      else (let edited = filter (\<lambda>(l, q). l \<in> set required) scores;
                regions = salient_regions edited n @
                  (case (case latest of None \<Rightarrow> None | Some r \<Rightarrow> clamp_range n r) of None \<Rightarrow> [] | Some r \<Rightarrow> [r]) @
                  salient_regions (filter (\<lambda>(l, q). l \<notin> set required) scores) n @
                  (if whole then visible_regions (compute_outline_spans parse ls folded_outline_budget (Some display)) else [])
            in if regions = [] then compute_outline_spans parse ls folded_line_budget (Some display)
               else spans_for_regions n (limit_regions regions folded_line_budget) 0))"

section \<open>The text of a view\<close>

definition format_source :: "observation \<Rightarrow> string" where
  "format_source x =
     (if ob_tool x = ''read_file''
      then (case ob_range x of
          None \<Rightarrow> ''read_file '' @ ob_id x @ '' whole file''
        | Some r \<Rightarrow> ''read_file '' @ ob_id x @ '' lines '' @ show_nat (fst r) @ ''-'' @ show_nat (snd r))
      else if ob_tool x = ''search_files''
      then ''search_files '' @ ob_id x @ '' pattern='' @
             py_repr (case ob_pattern x of None \<Rightarrow> ''?'' | Some s \<Rightarrow> if s = [] then ''?'' else s)
      else ob_tool x @ '' '' @ ob_id x)"

definition format_sources :: "observation list \<Rightarrow> string" where
  "format_sources xs =
     py_join ''; '' (map format_source (take 8 xs) @
       (if length xs > 8 then [show_nat (length xs - 8) @ '' more''] else []))"

definition marker_legend :: "line_marker set \<Rightarrow> string" where
  "marker_legend used =
     (let labels = (if SearchMark \<in> used then [''! search hit''] else []) @
                   (if ReadMark \<in> used then [''* requested/read line''] else []) @
                   (if EditMark \<in> used then [''~ edited line''] else []) @
                   (if ContextMark \<in> used then [''- edit boundary/context line''] else [])
      in if labels = [] then [] else ''Legend: '' @ py_join '', '' labels)"

record folded_context =
  fc_text :: string
  fc_key :: path
  fc_visible :: "file_line list"
  fc_collapsed :: "(nat \<times> nat) list"

definition context_head :: "accumulator \<Rightarrow> string list" where
  "context_head a =
     [''[Current file context: '' @ ac_display a @ '']'', ''Sources: '' @ format_sources (ac_obs a)]"

definition required_edit_lines :: "(nat \<times> rat) list \<Rightarrow> (nat \<times> line_marker) list \<Rightarrow> nat list" where
  "required_edit_lines scores markers =
     filter (\<lambda>l. map_of markers l \<in> {Some EditMark, Some ContextMark}) (map fst (by_salience scores))"

definition render_folded :: "fold_env \<Rightarrow> accumulator \<Rightarrow> folded_context option" where
  "render_folded env a =
     (case fo_live env (ac_path a) of
        ReadableLive ls \<Rightarrow>
          if ls = []
          then Some \<lparr>fc_text = py_join lf (context_head a @ [''[empty file]'']), fc_key = ac_path a, fc_visible = [],
                     fc_collapsed = []\<rparr>
          else (case score_file_lines (ac_obs a) (length ls) of
            (scores, markers, whole) \<Rightarrow>
              (let required = required_edit_lines scores markers;
                   spans = spans_for_folded (te_parser (fo_tools env)) ls (ac_display a) scores required
                     (latest_read_range a) whole;
                   legend = marker_legend (snd ` set markers);
                   outline = render_outline ls folded_char_budget
                     (if markers = [] then None else Some (map (\<lambda>(l, m). (l, marker_sign m)) markers)) required spans
               in Some \<lparr>fc_text = py_join lf (context_head a @ (if legend = [] then [] else [legend]) @ [ro_text outline]),
                        fc_key = ac_path a, fc_visible = ro_visible outline, fc_collapsed = ro_collapsed outline\<rparr>))
      | _ \<Rightarrow> None)"

section \<open>What is folded\<close>

definition should_fold :: "folding_mode \<Rightarrow> string set \<Rightarrow> accumulator \<Rightarrow> bool" where
  "should_fold mode newest a =
     (let xs = read_search a in
      if xs = [] then False
      else if list_ex (\<lambda>x. ob_tool x = ''search_files'') xs then True
      else if length xs \<ge> folded_min_observations then True
      else if mode = LegacyMinimum then False
      else list_all (\<lambda>x. ob_id x \<notin> newest) xs)"

definition raw_file_calls :: "render_plan \<Rightarrow> turn_node \<Rightarrow> string set" where
  "raw_file_calls plan t =
     (\<lambda>c. tc_id (cl_call c)) ` set (filter (\<lambda>c. \<not> tr_error (cl_result c) \<and> replacement_for plan (tc_id (cl_call c)) = None \<and>
        (call_name c = ''read_file'' \<or> call_name c = ''search_files'')) (tn_calls t))"

text \<open>The file calls of the newest turn that has any, from the last node back.\<close>

fun newest_file_calls :: "render_plan \<Rightarrow> (nat \<times> history_node) list \<Rightarrow> string set" where
  "newest_file_calls plan [] = {}"
| "newest_file_calls plan ((i, x) # xs) =
     (case x of
        Turn t \<Rightarrow>
          if i \<in> pl_turns plan \<or> pl_mode plan \<noteq> LegacyMinimum \<and> tn_collapsed t then newest_file_calls plan xs
          else if raw_file_calls plan t \<noteq> {} then raw_file_calls plan t
          else newest_file_calls plan xs
      | _ \<Rightarrow> newest_file_calls plan xs)"

definition stale_protected :: "fold_env \<Rightarrow> string set \<Rightarrow> accumulator list \<Rightarrow> string set" where
  "stale_protected env protected accs =
     ob_id ` set (concat (map (\<lambda>a.
       filter (\<lambda>x. ob_id x \<in> protected \<and> ob_tool x = ''read_file'' \<and>
           returned_lines_state (case fo_live env (ac_path a) of ReadableLive ls \<Rightarrow> Some ls | _ \<Rightarrow> None) (ob_lines x)
             = StaleResult)
         (read_search a)) accs))"

definition paths_of_calls :: "accumulator list \<Rightarrow> (string \<times> path list) list" where
  "paths_of_calls accs =
     fold (\<lambda>(i, p) m. dict_set i (List.insert p (case map_of m i of None \<Rightarrow> [] | Some ps \<Rightarrow> ps)) m)
       (concat (map (\<lambda>a. map (\<lambda>x. (ob_id x, ac_path a)) (read_search a)) accs)) []"

definition foldable_calls :: "accumulator list \<Rightarrow> accumulator list \<Rightarrow> string set \<Rightarrow> string list" where
  "foldable_calls candidates selected protected =
     map fst (filter (\<lambda>(i, ps). set ps \<subseteq> ac_path ` set selected \<and> i \<notin> protected) (paths_of_calls candidates))"

section \<open>The messages of a node\<close>

definition visibility_key :: "fold_env \<Rightarrow> path option \<Rightarrow> string \<Rightarrow> path" where
  "visibility_key env ws_root raw =
     file_content_key (fo_tools env) raw
       (if ws_root = None \<and> fo_active env then te_workspace (fo_tools env) else ws_root)"

definition record_visible_result ::
    "fold_env \<Rightarrow> path option \<Rightarrow> call_node \<Rightarrow> tool_result \<Rightarrow> prompt_snapshot \<Rightarrow> prompt_snapshot result" where
  "record_visible_result env ws_root c r b =
     (if tr_error r \<or> call_name c \<noteq> ''read_file'' then Inr b
      else (case map_of (tool_arguments env c) ''path'' of
          Some (JStr raw) \<Rightarrow>
            rbind (parse_line_numbered (tr_content r)) (\<lambda>ls.
              Inr (if ls = [] then b else record_visible (fo_hash env) (visibility_key env ws_root raw) ls b))
        | _ \<Rightarrow> Inr b))"

fun record_visible_results ::
    "fold_env \<Rightarrow> path option \<Rightarrow> tool_result list \<Rightarrow> call_node list \<Rightarrow> prompt_snapshot \<Rightarrow> prompt_snapshot result" where
  "record_visible_results env ws_root rs [] b = Inr b"
| "record_visible_results env ws_root rs (c # cs) b =
     (case find (\<lambda>r. tr_id r = tc_id (cl_call c)) (rev rs) of
        None \<Rightarrow> record_visible_results env ws_root rs cs b
      | Some r \<Rightarrow> rbind (record_visible_result env ws_root c r b) (record_visible_results env ws_root rs cs))"

definition plan_tool_call :: "fold_env \<Rightarrow> render_plan \<Rightarrow> call_node \<Rightarrow> tool_request" where
  "plan_tool_call env plan c =
     (if tc_id (cl_call c) \<notin> pl_details plan then render_tool_call (fo_history env) c
      else (cl_call c)\<lparr>tc_arguments := call_arguments (fo_history env) c\<rparr>)"

text \<open>The summary of a call, which may raise; the text of its result under the plan.\<close>

definition checked_summary :: "fold_env \<Rightarrow> call_node \<Rightarrow> string result" where
  "checked_summary env c = tool_call_summary (he_loads (fo_history env)) (cl_call c) (cl_result c)"

definition result_with_plan :: "fold_env \<Rightarrow> render_plan \<Rightarrow> call_node \<Rightarrow> tool_result result" where
  "result_with_plan env plan c =
     (if tc_id (cl_call c) \<notin> pl_details plan
      then (if cl_collapsed c then rbind (checked_summary env c) (\<lambda>_. Inr (render_result (fo_history env) c))
            else Inr (cl_result c))
      else rbind (checked_summary env c) (\<lambda>s. Inr ((cl_result c)\<lparr>tr_content := s\<rparr>)))"

definition render_tool_result ::
    "fold_env \<Rightarrow> path option \<Rightarrow> render_plan \<Rightarrow> string list \<Rightarrow> call_node \<Rightarrow> prompt_snapshot \<Rightarrow>
     (tool_result \<times> prompt_snapshot) result" where
  "render_tool_result env ws_root plan folded c b =
     (case replacement_for plan (tc_id (cl_call c)) of
        Some r \<Rightarrow> Inr ((cl_result c)\<lparr>tr_content := rp_content r\<rparr>, b)
      | None \<Rightarrow>
          if tc_id (cl_call c) \<in> set folded
          then rbind (folded_summary env c) (\<lambda>s.
            Inr ((cl_result c)\<lparr>tr_content := s @ '' [folded into current file context below; raw result remains in session history.]''\<rparr>, b))
          else rbind (result_with_plan env plan c) (\<lambda>r.
            if tc_id (cl_call c) \<in> pl_details plan then Inr (r, b)
            else rbind (record_visible_result env ws_root c r b) (\<lambda>b'. Inr (r, b'))))"

fun render_tool_results ::
    "fold_env \<Rightarrow> path option \<Rightarrow> render_plan \<Rightarrow> string list \<Rightarrow> call_node list \<Rightarrow> prompt_snapshot \<Rightarrow>
     (tool_result list \<times> prompt_snapshot) result" where
  "render_tool_results env ws_root plan folded [] b = Inr ([], b)"
| "render_tool_results env ws_root plan folded (c # cs) b =
     rbind (render_tool_result env ws_root plan folded c b) (\<lambda>(r, b1).
     rbind (render_tool_results env ws_root plan folded cs b1) (\<lambda>(rs, b2). Inr (r # rs, b2)))"

definition projected_call :: "render_plan \<Rightarrow> string list \<Rightarrow> call_node \<Rightarrow> bool" where
  "projected_call plan folded c =
     (tc_id (cl_call c) \<in> set folded \<or> tc_id (cl_call c) \<in> pl_details plan \<or>
      replacement_for plan (tc_id (cl_call c)) \<noteq> None)"

definition render_turn_plan ::
    "fold_env \<Rightarrow> path option \<Rightarrow> render_plan \<Rightarrow> string list \<Rightarrow> nat \<Rightarrow> turn_node \<Rightarrow> prompt_snapshot \<Rightarrow>
     (message list \<times> prompt_snapshot) result" where
  "render_turn_plan env ws_root plan folded i t b =
     (if tn_collapsed t \<or> i \<in> pl_turns plan
      then rbind (rmap_list (checked_summary env) (tn_calls t)) (\<lambda>_.
        Inr ([AssistantMessage (turn_summary (fo_history env) t) []], b))
      else if \<not> list_ex (projected_call plan folded) (tn_calls t)
      then rbind (rmap_list (checked_summary env) (filter cl_collapsed (tn_calls t))) (\<lambda>_.
        let results = with_advisories (render_advisories t) (map (render_result (fo_history env)) (tn_calls t)) in
        rbind (record_visible_results env ws_root results (tn_calls t) b) (\<lambda>b'.
          Inr (render_turn (fo_history env) t, b')))
      else rbind (render_tool_results env ws_root plan folded (tn_calls t) b) (\<lambda>(results, b').
        Inr (AssistantMessage (tn_content t) (map (plan_tool_call env plan) (tn_calls t)) #
               map ToolResult (with_advisories (render_advisories t) results), b')))"

fun render_plan_nodes ::
    "fold_env \<Rightarrow> path option \<Rightarrow> render_plan \<Rightarrow> string list \<Rightarrow> (nat \<times> history_node) list \<Rightarrow> prompt_snapshot \<Rightarrow>
     (message list \<times> prompt_snapshot) result" where
  "render_plan_nodes env ws_root plan folded [] b = Inr ([], b)"
| "render_plan_nodes env ws_root plan folded ((i, x) # xs) b =
     rbind (case x of
              Turn t \<Rightarrow> render_turn_plan env ws_root plan folded i t b
            | _ \<Rightarrow> Inr (render_node (fo_history env) x, b)) (\<lambda>(ms, b1).
     rbind (render_plan_nodes env ws_root plan folded xs b1) (\<lambda>(rest, b2). Inr (ms @ rest, b2)))"

section \<open>Rendering a history\<close>

record rendered_history =
  rh_messages :: "message list"
  rh_visibility :: prompt_snapshot
  rh_folded :: "string list"

definition render_unfolded ::
    "fold_env \<Rightarrow> path option \<Rightarrow> render_plan \<Rightarrow> history_node list \<Rightarrow> rendered_history result" where
  "render_unfolded env ws_root plan ns =
     rbind (render_plan_nodes env ws_root plan [] (enumerate 0 ns) empty_snapshot) (\<lambda>(ms, b).
       Inr \<lparr>rh_messages = ms, rh_visibility = b, rh_folded = []\<rparr>)"

definition join_contexts :: "string list \<Rightarrow> string" where
  "join_contexts sections = (if sections = [] then [] else py_join blank_line (''[Folded file context]'' # sections))"

definition record_context :: "fold_env \<Rightarrow> folded_context \<Rightarrow> prompt_snapshot \<Rightarrow> prompt_snapshot" where
  "record_context env s b =
     record_collapsed (fc_key s) (fc_collapsed s) (record_visible (fo_hash env) (fc_key s) (fc_visible s) b)"

definition select_contexts :: "fold_env \<Rightarrow> accumulator list \<Rightarrow> (accumulator \<times> folded_context) list" where
  "select_contexts env candidates =
     List.map_filter (\<lambda>a. map_option (\<lambda>s. (a, s)) (render_folded env a))
       (take folded_max_files (sort_key (\<lambda>a. - int (last_sequence a)) candidates))"

definition render_with_visibility ::
    "fold_env \<Rightarrow> path option \<Rightarrow> render_plan \<Rightarrow> history_node list \<Rightarrow> rendered_history result" where
  "render_with_visibility env ws_root plan ns =
     rbind (collect_file_context env ws_root plan
              (if pl_mode plan = LegacyMinimum then LegacyReadable else ProjectedReadable) ns) (\<lambda>accs.
     let newest = newest_file_calls plan (rev (enumerate 0 ns));
         candidates = filter (should_fold (pl_mode plan) newest) accs in
     if candidates = [] then render_unfolded env ws_root plan ns
     else
       (let contexts = select_contexts env candidates;
            protected = newest \<union> pl_protected plan;
            folded = foldable_calls candidates (map fst contexts) (protected - stale_protected env protected candidates) in
        if folded = [] then render_unfolded env ws_root plan ns
        else rbind (render_plan_nodes env ws_root plan folded (enumerate 0 ns) empty_snapshot) (\<lambda>(ms, b).
          let sections = map snd (filter (\<lambda>(a, s). list_ex (\<lambda>x. ob_id x \<in> set folded) (read_search a)) contexts);
              text = join_contexts (map fc_text sections)
          in Inr \<lparr>rh_messages = ms @ (if text = [] then [] else [UserMessage text]),
                  rh_visibility = fold (record_context env) sections b, rh_folded = folded\<rparr>)))"

end
