(* ===== verification/Context_Ledger.thy ===== *)
theory Context_Ledger
  imports Folding
begin

text \<open>
  The projection of a conversation for one request of the provider
  (\<open>src/thorn/core/_context_ledger.py\<close>): replacements of stale and redundant results, folding, and
  collapsing until the budget is met, with an account of what each step saved.
\<close>

section \<open>Budgets\<close>

definition token_count :: "int \<Rightarrow> nat result" where
  "token_count v = (if v < 0 then Inl (ValueError ''estimated token count must be >= 0'') else Inr (nat v))"

definition window_fraction :: "rat \<Rightarrow> rat result" where
  "window_fraction q =
     (if 0 < q \<and> q \<le> 1 then Inr q else Inl (ValueError ''context window fraction must be in (0, 1]''))"

datatype budget_source = FixedDefault | RelativeWindow | FixedMaximum

record resolved_budget =
  rb_history :: nat
  rb_source :: budget_source
  rb_hard :: "nat option"

record budget_policy =
  bp_default :: nat
  bp_maximum :: nat
  bp_soft :: rat
  bp_hard :: rat
  bp_search :: search_policy

definition make_budget_policy :: "int \<Rightarrow> int \<Rightarrow> rat \<Rightarrow> rat \<Rightarrow> search_policy \<Rightarrow> budget_policy result" where
  "make_budget_policy dflt maximum soft hard search =
     rbind (token_count dflt) (\<lambda>d. rbind (token_count maximum) (\<lambda>m.
     rbind (window_fraction soft) (\<lambda>s. rbind (window_fraction hard) (\<lambda>h.
       if d > m then Inl (ValueError ''default history budget must not exceed maximum history budget'')
       else if s > h then Inl (ValueError ''soft context fraction must not exceed hard context fraction'')
       else Inr \<lparr>bp_default = d, bp_maximum = m, bp_soft = s, bp_hard = h, bp_search = search\<rparr>))))"

definition default_budget_policy :: budget_policy where
  "default_budget_policy =
     \<lparr>bp_default = 12000, bp_maximum = 24000, bp_soft = 60 / 100, bp_hard = 80 / 100, bp_search = ExactDuplicateOnly\<rparr>"

definition bounded_history_policy :: budget_policy where
  "bounded_history_policy = default_budget_policy\<lparr>bp_search := CompleteCurrentRead\<rparr>"

definition resolve_budget :: "budget_policy \<Rightarrow> int option \<Rightarrow> nat \<Rightarrow> resolved_budget result" where
  "resolve_budget p window overhead =
     (case window of
        None \<Rightarrow> Inr \<lparr>rb_history = bp_default p, rb_source = FixedDefault, rb_hard = None\<rparr>
      | Some w \<Rightarrow>
          if w \<le> 0 then Inl (ValueError ''context_window must be > 0 when provided'')
          else (let relative = nat (max 0 (py_trunc (of_int w * bp_soft p) - int overhead));
                    (history, source) =
                      (if relative > bp_maximum p then (bp_maximum p, FixedMaximum) else (relative, RelativeWindow))
                in rbind (token_count (py_trunc (of_int w * bp_hard p))) (\<lambda>hard.
                     Inr \<lparr>rb_history = history, rb_source = source, rb_hard = Some hard\<rparr>)))"

section \<open>The ledger\<close>

datatype disposition = StaleDisposed | RedundantDisposed | ContextFolded | DetailCollapsed | TurnCollapsed

text \<open>Each entry ends with the tokens before and after its step.\<close>

datatype ledger_entry =
    CallEntry string string disposition "string option" nat nat
  | ProjectionEntry "string list" nat nat
  | TurnEntry nat nat nat

fun entry_before :: "ledger_entry \<Rightarrow> nat" where
  "entry_before (CallEntry i name d newer prior later) = prior"
| "entry_before (ProjectionEntry ids prior later) = prior"
| "entry_before (TurnEntry k prior later) = prior"

fun entry_after :: "ledger_entry \<Rightarrow> nat" where
  "entry_after (CallEntry i name d newer prior later) = later"
| "entry_after (ProjectionEntry ids prior later) = later"
| "entry_after (TurnEntry k prior later) = later"

definition entry_savings :: "ledger_entry \<Rightarrow> nat" where
  "entry_savings e = entry_before e - entry_after e"

definition entry_growth :: "ledger_entry \<Rightarrow> nat" where
  "entry_growth e = entry_after e - entry_before e"

record ledger =
  lg_policy :: budget_policy
  lg_budget :: resolved_budget
  lg_baseline :: nat
  lg_required :: nat
  lg_final :: nat
  lg_overhead :: nat
  lg_protected :: nat
  lg_entries :: "ledger_entry list"

fun chain_end :: "nat \<Rightarrow> ledger_entry list \<Rightarrow> nat option" where
  "chain_end expected [] = Some expected"
| "chain_end expected (e # es) = (if entry_before e \<noteq> expected then None else chain_end (entry_after e) es)"

definition make_ledger :: "ledger \<Rightarrow> ledger result" where
  "make_ledger l =
     (case chain_end (lg_baseline l) (lg_entries l) of
        None \<Rightarrow> Inl (ValueError ''provider context ledger entries must form a contiguous marginal token-accounting chain'')
      | Some n \<Rightarrow>
          if n \<noteq> lg_final l
          then Inl (ValueError ''provider context ledger entries must account for the final provider-history token count'')
          else Inr l)"

definition over_budget :: "ledger \<Rightarrow> bool" where
  "over_budget l = (lg_final l > rb_history (lg_budget l))"

definition total_savings :: "ledger \<Rightarrow> nat" where
  "total_savings l = sum_list (map entry_savings (lg_entries l))"

definition total_growth :: "ledger \<Rightarrow> nat" where
  "total_growth l = sum_list (map entry_growth (lg_entries l))"

section \<open>Tokens of the messages\<close>

fun metric_payload :: "message \<Rightarrow> json" where
  "metric_payload (UserMessage s) = JObj [(''role'', JStr ''user''), (''content'', JStr s)]"
| "metric_payload (AssistantMessage s cs) =
     JObj ([(''role'', JStr ''assistant''), (''content'', JStr s)] @
       (if cs = [] then []
        else [(''tool_calls'', JArr (map (\<lambda>c. JObj [(''name'', JStr (tc_name c)), (''arguments'', JStr (tc_arguments c))]) cs))]))"
| "metric_payload (ToolResult r) =
     JObj [(''role'', JStr ''tool''), (''content'', JStr (tr_content r)), (''call_id'', JStr (tr_id r))]"

definition provider_tokens :: "message list \<Rightarrow> nat" where
  "provider_tokens ms = sum_list (map (\<lambda>m. estimate_tokens (json_dumps (metric_payload m))) ms)"

section \<open>Candidates\<close>

datatype projection_candidate =
    DetailCandidate nat nat rat call_node
  | TurnCandidate nat rat

fun candidate_key :: "projection_candidate \<Rightarrow> rat \<times> nat \<times> int" where
  "candidate_key (DetailCandidate i j q c) = (q, i, int j)"
| "candidate_key (TurnCandidate i q) = (q + 1 / 1000, i, -1)"

fun candidate_plan :: "projection_candidate \<Rightarrow> render_plan \<Rightarrow> render_plan" where
  "candidate_plan (DetailCandidate i j q c) plan = with_detail_collapsed (tc_id (cl_call c)) plan"
| "candidate_plan (TurnCandidate i q) plan = with_turn_collapsed i plan"

fun candidate_no_op :: "projection_candidate \<Rightarrow> render_plan \<Rightarrow> bool" where
  "candidate_no_op (DetailCandidate i j q c) plan = (i \<in> pl_turns plan \<or> tc_id (cl_call c) \<in> pl_details plan)"
| "candidate_no_op (TurnCandidate i q) plan = (i \<in> pl_turns plan)"

fun candidate_entry :: "projection_candidate \<Rightarrow> nat \<Rightarrow> nat \<Rightarrow> ledger_entry" where
  "candidate_entry (DetailCandidate i j q c) prior later =
     CallEntry (tc_id (cl_call c)) (tc_name (cl_call c)) DetailCollapsed None prior later"
| "candidate_entry (TurnCandidate i q) prior later = TurnEntry i prior later"

definition projection_protected :: "history_node list \<Rightarrow> string set \<Rightarrow> nat set" where
  "projection_protected ns ids =
     protected_indices ns 4 6 \<union>
     fst ` set (filter (\<lambda>(i, n). list_ex (\<lambda>c. tc_id (cl_call c) \<in> ids) (turn_calls n)) (enumerate 0 ns))"

definition turn_candidates :: "history_env \<Rightarrow> nat \<Rightarrow> nat \<Rightarrow> turn_node \<Rightarrow> projection_candidate list" where
  "turn_candidates env age i t =
     map (\<lambda>(j, c). DetailCandidate i j (he_weigh env (cl_salience c) age) c)
       (filter (\<lambda>(j, c). call_collapsible env c) (enumerate 0 (tn_calls t))) @
     (if turn_savings env t > 0 then [TurnCandidate i (he_weigh env (tn_salience t) age)] else [])"

definition projection_candidates :: "history_env \<Rightarrow> history_node list \<Rightarrow> string set \<Rightarrow> projection_candidate list" where
  "projection_candidates env ns ids =
     sort_key candidate_key (concat (map (\<lambda>(i, n).
       case n of
         Turn t \<Rightarrow>
           if i \<in> projection_protected ns ids \<or> tn_collapsed t then []
           else turn_candidates env (length ns - 1 - i) i t
       | _ \<Rightarrow> []) (enumerate 0 ns)))"

section \<open>The projection\<close>

record projection =
  pj_plan :: render_plan
  pj_rendered :: rendered_history
  pj_tokens :: nat
  pj_entries :: "ledger_entry list"

definition tool_name_of :: "history_node list \<Rightarrow> string \<Rightarrow> string" where
  "tool_name_of ns i =
     (case find (\<lambda>c. tc_id (cl_call c) = i) (rev (concat (map turn_calls ns))) of
        None \<Rightarrow> ''unknown''
      | Some c \<Rightarrow> tc_name (cl_call c))"

definition replacement_entry :: "history_node list \<Rightarrow> replacement \<Rightarrow> nat \<Rightarrow> nat \<Rightarrow> ledger_entry" where
  "replacement_entry ns r prior later =
     CallEntry (rp_id r) (tool_name_of ns (rp_id r))
       (if rp_reason r = StaleObservation then StaleDisposed else RedundantDisposed) (rp_superseding r) prior later"

fun replace_results ::
    "fold_env \<Rightarrow> path option \<Rightarrow> history_node list \<Rightarrow> replacement list \<Rightarrow> projection \<Rightarrow> projection result" where
  "replace_results env ws_root ns [] p = Inr p"
| "replace_results env ws_root ns (r # rs) p =
     (let plan = (pj_plan p)\<lparr>pl_replacements := pl_replacements (pj_plan p) @ [r]\<rparr> in
      rbind (render_with_visibility env ws_root plan ns) (\<lambda>rendered.
        let tokens = provider_tokens (rh_messages rendered) in
        replace_results env ws_root ns rs
          \<lparr>pj_plan = plan, pj_rendered = rendered, pj_tokens = tokens,
           pj_entries = pj_entries p @ [replacement_entry ns r (pj_tokens p) tokens]\<rparr>))"

text \<open>Equality of dictionaries whatever the order of their keys.\<close>

definition same_dict :: "('v \<Rightarrow> 'v \<Rightarrow> bool) \<Rightarrow> ('k \<times> 'v) list \<Rightarrow> ('k \<times> 'v) list \<Rightarrow> bool" where
  "same_dict eq a b \<longleftrightarrow>
     fst ` set a = fst ` set b \<and>
     list_all (\<lambda>(k, v). case map_of b k of None \<Rightarrow> False | Some w \<Rightarrow> eq v w) a"

definition same_snapshot :: "prompt_snapshot \<Rightarrow> prompt_snapshot \<Rightarrow> bool" where
  "same_snapshot a b \<longleftrightarrow>
     same_dict (same_dict (=)) (vs_visible a) (vs_visible b) \<and> same_dict (=) (vs_collapsed a) (vs_collapsed b)"

definition switch_folding :: "fold_env \<Rightarrow> path option \<Rightarrow> history_node list \<Rightarrow> projection \<Rightarrow> projection result" where
  "switch_folding env ws_root ns p =
     (let plan = (pj_plan p)\<lparr>pl_mode := FoldOlderSingle\<rparr>; old = pj_rendered p in
      rbind (render_with_visibility env ws_root plan ns) (\<lambda>rendered.
        let tokens = provider_tokens (rh_messages rendered);
            changed = (rh_messages rendered \<noteq> rh_messages old \<or>
              \<not> same_snapshot (rh_visibility rendered) (rh_visibility old) \<or>
              set (rh_folded rendered) \<noteq> set (rh_folded old));
            ids = sort (remdups (rh_folded old @ rh_folded rendered))
        in Inr \<lparr>pj_plan = plan, pj_rendered = rendered, pj_tokens = tokens,
                pj_entries = pj_entries p @ (if changed then [ProjectionEntry ids (pj_tokens p) tokens] else [])\<rparr>))"

fun collapse_candidates ::
    "fold_env \<Rightarrow> path option \<Rightarrow> history_node list \<Rightarrow> nat \<Rightarrow> projection_candidate list \<Rightarrow> projection \<Rightarrow>
     projection result" where
  "collapse_candidates env ws_root ns budget [] p = Inr p"
| "collapse_candidates env ws_root ns budget (c # cs) p =
     (if pj_tokens p \<le> budget then Inr p
      else if candidate_no_op c (pj_plan p) then collapse_candidates env ws_root ns budget cs p
      else (let plan = candidate_plan c (pj_plan p) in
        rbind (render_with_visibility env ws_root plan ns) (\<lambda>rendered.
          let tokens = provider_tokens (rh_messages rendered) in
          if tokens \<ge> pj_tokens p then collapse_candidates env ws_root ns budget cs p
          else collapse_candidates env ws_root ns budget cs
            \<lparr>pj_plan = plan, pj_rendered = rendered, pj_tokens = tokens,
             pj_entries = pj_entries p @ [candidate_entry c (pj_tokens p) tokens]\<rparr>)))"

definition protected_nodes :: "history_node list \<Rightarrow> string set \<Rightarrow> history_node list" where
  "protected_nodes ns ids = map snd (filter (\<lambda>(i, n). i \<in> projection_protected ns ids) (enumerate 0 ns))"

definition project_history ::
    "fold_env \<Rightarrow> path option \<Rightarrow> int option \<Rightarrow> int \<Rightarrow> budget_policy \<Rightarrow> history_node list \<Rightarrow>
     (projection \<times> ledger) result" where
  "project_history env ws_root window overhead policy ns =
     rbind (token_count overhead) (\<lambda>over.
     rbind (resolve_budget policy window over) (\<lambda>budget.
     rbind (if bp_search policy = CompleteCurrentRead then searches_requiring_evidence ns else Inr {}) (\<lambda>ids.
     let plan0 = plain_plan\<lparr>pl_protected := ids\<rparr> in
     rbind (render_with_visibility env ws_root plan0 ns) (\<lambda>baseline.
     let tokens0 = provider_tokens (rh_messages baseline) in
     rbind (plan_replacements env ws_root (bp_search policy) ns) (\<lambda>replacements.
     rbind (replace_results env ws_root ns replacements
              \<lparr>pj_plan = plan0, pj_rendered = baseline, pj_tokens = tokens0, pj_entries = []\<rparr>) (\<lambda>p1.
     rbind (switch_folding env ws_root ns p1) (\<lambda>p2.
     rbind (summaries (fo_history env) (summarised_for_candidates (projection_protected ns ids) ns)) (\<lambda>_.
     rbind (collapse_candidates env ws_root ns (rb_history budget)
              (projection_candidates (fo_history env) ns ids) p2) (\<lambda>p3.
     rbind (summaries (fo_history env) (concat (map summarised_for_cost (protected_nodes ns ids)))) (\<lambda>_.
     rbind (make_ledger
       \<lparr>lg_policy = policy, lg_budget = budget, lg_baseline = tokens0, lg_required = pj_tokens p2,
        lg_final = pj_tokens p3, lg_overhead = over,
        lg_protected = sum_list (map (node_cost (fo_history env)) (protected_nodes ns ids)),
        lg_entries = pj_entries p3\<rparr>) (\<lambda>l.
     Inr (p3, l))))))))))))"

end
