(* ===== verification/Folding_Laws.thy ===== *)
theory Folding_Laws
  imports Folding
begin

text \<open>
  What the folded view of a file shows: only lines of the live file, each under its own number, at
  most eighty of them, with the rest accounted for by ranges.
\<close>

section \<open>Regions\<close>

definition points :: "(nat \<times> nat) list \<Rightarrow> nat set" where
  "points rs = (\<Union>r \<in> set rs. {fst r..snd r})"

lemma points_simps [simp]:
  "points [] = {}" "points (r # rs) = {fst r..snd r} \<union> points rs" "points (rs @ qs) = points rs \<union> points qs"
  by (auto simp: points_def)

definition regions_within :: "nat \<Rightarrow> (nat \<times> nat) list \<Rightarrow> bool" where
  "regions_within n rs \<longleftrightarrow> list_all (\<lambda>r. 1 \<le> fst r \<and> fst r \<le> snd r \<and> snd r \<le> n) rs"

lemma regions_within_simps [simp]:
  "regions_within n []" "regions_within n (rs @ qs) \<longleftrightarrow> regions_within n rs \<and> regions_within n qs"
  by (simp_all add: regions_within_def)

lemma points_butlast_last: "out \<noteq> [] \<Longrightarrow> points out = points (butlast out) \<union> {fst (last out)..snd (last out)}"
  by (metis append_butlast_last_id points_simps(1,2,3) sup_bot.right_neutral)

lemma merge_sorted_points: "points (merge_sorted_regions rs out) \<subseteq> points rs \<union> points out"
proof (induction rs out rule: merge_sorted_regions.induct)
  case (2 s e rs out)
  let ?out = "if out = [] \<or> s > snd (last out) + 1 then out @ [(s, e)]
        else butlast out @ [(fst (last out), max (snd (last out)) e)]"
  have "points ?out \<subseteq> points out \<union> {s..e}"
    using points_butlast_last [of out] by auto
  moreover have "points (merge_sorted_regions ((s, e) # rs) out) \<subseteq> points rs \<union> points ?out" using 2 by simp
  ultimately show ?case unfolding points_simps fst_conv snd_conv by blast
qed simp

lemma merge_sorted_within:
  "regions_within n rs \<Longrightarrow> regions_within n out \<Longrightarrow> regions_within n (merge_sorted_regions rs out)"
proof (induction rs out rule: merge_sorted_regions.induct)
  case (2 s e rs out)
  let ?out = "if out = [] \<or> s > snd (last out) + 1 then out @ [(s, e)]
        else butlast out @ [(fst (last out), max (snd (last out)) e)]"
  have "regions_within n ?out"
  proof (cases "out = [] \<or> s > snd (last out) + 1")
    case False
    then have "1 \<le> fst (last out) \<and> fst (last out) \<le> snd (last out) \<and> snd (last out) \<le> n"
      using 2(3) last_in_set [of out] by (simp add: regions_within_def list_all_iff)
    with False 2(2,3) show ?thesis by (auto simp: regions_within_def list_all_iff le_max_iff_disj dest: in_set_butlastD)
  qed (use 2(2,3) in \<open>auto simp: regions_within_def\<close>)
  with 2 show ?case by (simp add: regions_within_def)
qed simp

lemma take_lines_subset: "set (take_lines budget ls sel) \<subseteq> set ls \<union> set sel"
  by (induction budget ls sel rule: take_lines.induct) auto

lemma take_lines_card:
  "distinct sel \<Longrightarrow> length sel < budget \<Longrightarrow> distinct (take_lines budget ls sel) \<and> length (take_lines budget ls sel) \<le> budget"
  by (induction budget ls sel rule: take_lines.induct) auto

lemma points_upt: "set (concat (map (\<lambda>(s, e). [s..<e + 1]) rs)) = points rs"
  by (induction rs) auto

lemma limit_regions_points:
  assumes "regions_within n rs" "1 \<le> budget"
  shows "regions_within n (limit_regions rs budget) \<and> card (points (limit_regions rs budget)) \<le> budget"
proof -
  define sel where "sel = take_lines budget (concat (map (\<lambda>(s, e). [s..<e + 1]) rs)) []"
  have "set sel \<subseteq> points rs" unfolding sel_def
    using take_lines_subset [of budget "concat (map (\<lambda>(s, e). [s..<e + 1]) rs)" "[]"]
    by (simp only: points_upt set_simps Un_empty_right)
  moreover have "points rs \<subseteq> {1..n}"
    using assms(1) by (fastforce simp: points_def regions_within_def list_all_iff)
  ultimately have "regions_within n (sort (map (\<lambda>l. (l, l)) sel))"
    by (auto simp: regions_within_def list_all_iff)
  then have "regions_within n (regions_of_lines sel)"
    unfolding regions_of_lines_def by (rule merge_sorted_within) simp
  moreover have "points (sort (map (\<lambda>l. (l, l)) sel)) = set sel" by (auto simp: points_def)
  then have "points (regions_of_lines sel) \<subseteq> set sel"
    unfolding regions_of_lines_def
    using merge_sorted_points [of "sort (map (\<lambda>l. (l, l)) sel)" "[]"] by simp
  then have "card (points (regions_of_lines sel)) \<le> card (set sel)" by (simp add: card_mono)
  moreover have "card (set sel) \<le> budget"
    using take_lines_card [of "[]" budget] assms(2) by (simp add: sel_def distinct_card)
  ultimately show ?thesis by (simp add: limit_regions_def sel_def)
qed

lemma add_window_points: "points (add_window w ws) \<subseteq> {fst w..snd w} \<union> points ws"
  using points_butlast_last [of ws] by (auto simp: add_window_def)

lemma merge_windows_points: "points (merge_windows n 0 rs ws) \<subseteq> points rs \<union> points ws"
proof (induction rs arbitrary: ws)
  case (Cons r rs)
  let ?w = "(max 1 (fst r - 0), min n (snd r + 0))"
  have "points (add_window ?w ws) \<subseteq> {fst r..snd r} \<union> points ws"
    using add_window_points [of ?w ws] by auto
  with Cons [of "add_window ?w ws"] show ?case
    unfolding merge_windows_Cons points_simps by blast
qed simp

lemma window_spans_points: "set (shown_lines (rows_of (window_spans n cur ws))) \<subseteq> points ws"
  unfolding shown_rows_of by (induction n cur ws rule: window_spans.induct) auto

lemma regions_shown: "set (shown_lines (rows_of (spans_for_regions n regions 0))) \<subseteq> points regions"
proof -
  have "points (sort regions) = points regions" by (simp add: points_def)
  then show ?thesis
    using window_spans_points [of n 1 "merge_windows n 0 (sort regions) []"] merge_windows_points [of n "sort regions" "[]"]
    by (auto simp: spans_for_regions_def) 
qed

lemma regions_tile: "1 \<le> n \<Longrightarrow> regions_within n rs \<Longrightarrow> tiles (spans_for_regions n rs 0) 1 n"
  by (rule spans_for_regions_tile) (auto simp: regions_within_def region_ok_def list_all_iff)


section \<open>The spans of a view\<close>

lemma shown_count: "length (shown_lines (rows_of ps)) \<le> output_total ps"
proof (induction ps)
  case (Cons p ps)
  have "length (shown_lines (map Shown xs)) = length xs" for xs by (induction xs) simp_all
  with Cons show ?case
    by (cases "os_visible p") (simp_all add: output_lines_def span_lines_def del: upt_Suc)
qed simp

lemma compute_outline_ok:
  assumes "lines_promised parse" "ls \<noteq> []" "1 \<le> budget"
  shows "tiles (compute_outline_spans parse ls budget file_path) 1 (length ls)"
    and "card (set (shown_lines (rows_of (compute_outline_spans parse ls budget file_path)))) \<le> budget"
proof -
  note root = content_root_ok [OF assms(1,2), of file_path]
  show "tiles (compute_outline_spans parse ls budget file_path) 1 (length ls)"
    using compute_collapse_tile [of "content_root parse ls file_path" budget] root assms(3)
    by (simp add: compute_outline_spans_def)
  let ?ps = "compute_outline_spans parse ls budget file_path"
  have "output_total ?ps \<le> budget \<or> ?ps = [Span 1 budget True, Span (budget + 1) (length ls) False]"
    using compute_collapse_output [of "content_root parse ls file_path" budget] root assms(3)
    by (auto simp: compute_outline_spans_def)
  then have "length (shown_lines (rows_of ?ps)) \<le> budget"
  proof
    assume "output_total ?ps \<le> budget"
    then show ?thesis using shown_count [of ?ps] by simp
  next
    assume "?ps = [Span 1 budget True, Span (budget + 1) (length ls) False]"
    moreover have "length (shown_lines (map Shown xs)) = length xs" for xs by (induction xs) simp_all
    ultimately show ?thesis by (simp del: upt_Suc)
  qed
  then show "card (set (shown_lines (rows_of ?ps))) \<le> budget"
    using card_length order_trans by blast
qed

lemma visible_regions_within: "tiles ps 1 n \<Longrightarrow> regions_within n (visible_regions ps)"
proof -
  assume t: "tiles ps 1 n"
  have "os_start p \<le> os_end p" if "p \<in> set ps" "tiles ps a b" for p a b
    using that by (induction ps a b rule: tiles.induct) auto
  with t tiles_range [OF t] show ?thesis by (auto simp: regions_within_def visible_regions_def list_all_iff)
qed

lemma salient_within: "1 \<le> n \<Longrightarrow> \<forall>(l, q) \<in> set scores. l \<le> n \<and> 1 \<le> l \<Longrightarrow> regions_within n (salient_regions scores n)"
  by (fastforce simp: regions_within_def salient_regions_def by_salience_def list_all_iff)

lemma clamp_within: "clamp_range n r = Some q \<Longrightarrow> regions_within n [q]"
  by (auto simp: clamp_range_def regions_within_def Let_def split: if_splits)

lemma spans_for_folded_ok:
  assumes "lines_promised parse" "ls \<noteq> []" "\<forall>(l, q) \<in> set scores. l \<le> length ls \<and> 1 \<le> l"
  shows "tiles (spans_for_folded parse ls display scores required latest whole) 1 (length ls) \<and>
    card (set (shown_lines (rows_of (spans_for_folded parse ls display scores required latest whole)))) \<le> folded_line_budget"
proof -
  let ?n = "length ls"
  have n: "1 \<le> ?n" using assms(2) by (cases ls) auto
  have budget: "1 \<le> folded_line_budget" "1 \<le> folded_outline_budget"
    by (simp_all add: folded_line_budget_def folded_outline_budget_def)
  show ?thesis
  proof (cases "?n \<le> folded_line_budget")
    case True
    have "card (set (shown_lines (rows_of (spans_for_regions ?n [(1, ?n)] 0)))) \<le> card {1..?n}"
      using regions_shown [of ?n "[(1, ?n)]"] by (intro card_mono) auto
    with True n regions_tile [of ?n "[(1, ?n)]"] show ?thesis
      by (simp add: spans_for_folded_def regions_within_def Let_def)
  next
    case False
    let ?outline = "compute_outline_spans parse ls folded_outline_budget (Some display)"
    define regions where "regions = salient_regions (filter (\<lambda>(l, q). l \<in> set required) scores) ?n @
      (case (case latest of None \<Rightarrow> None | Some r \<Rightarrow> clamp_range ?n r) of None \<Rightarrow> [] | Some r \<Rightarrow> [r]) @
      salient_regions (filter (\<lambda>(l, q). l \<notin> set required) scores) ?n @
      (if whole then visible_regions ?outline else [])"
    have spans: "spans_for_folded parse ls display scores required latest whole =
        (if regions = [] then compute_outline_spans parse ls folded_line_budget (Some display)
         else spans_for_regions ?n (limit_regions regions folded_line_budget) 0)"
      using False by (simp add: spans_for_folded_def regions_def Let_def)
    have "regions_within ?n regions"
      unfolding regions_def regions_within_simps
    proof (intro conjI)
      show "regions_within ?n (case (case latest of None \<Rightarrow> None | Some r \<Rightarrow> clamp_range ?n r) of None \<Rightarrow> [] | Some r \<Rightarrow> [r])"
        using clamp_within by (auto split: option.splits)
      show "regions_within ?n (if whole then visible_regions ?outline else [])"
        using visible_regions_within [OF compute_outline_ok(1) [OF assms(1,2) budget(2)]] by simp
    qed (use n assms(3) in \<open>auto intro!: salient_within\<close>)
    note limit = limit_regions_points [OF this budget(1)]
    have "card (set (shown_lines (rows_of (spans_for_regions ?n (limit_regions regions folded_line_budget) 0)))) \<le>
        card (points (limit_regions regions folded_line_budget))"
      by (intro card_mono regions_shown) (simp add: points_def)
    with limit n show ?thesis
      using compute_outline_ok [OF assms(1,2) budget(1)] regions_tile [of ?n "limit_regions regions folded_line_budget"]
      by (auto simp: spans)
  qed
qed


section \<open>Scores\<close>

definition scored_within :: "nat \<Rightarrow> line_scores \<Rightarrow> bool" where
  "scored_within n st \<longleftrightarrow> fst ` set (fst st) \<subseteq> {1..n}"

lemma add_line_within: "scored_within n st \<Longrightarrow> scored_within n (add_line_salience n q marker l st)"
  by (cases st) (simp add: scored_within_def add_line_salience_def dict_set_fst)

lemma fold_within:
  assumes "\<And>x st. scored_within n st \<Longrightarrow> scored_within n (f x st)" "scored_within n st"
  shows "scored_within n (fold f xs st)"
  using assms(2) by (induction xs arbitrary: st) (simp_all add: assms(1))

lemma score_observation_within: "scored_within n st \<Longrightarrow> scored_within n (score_observation n latest x st)"
  by (auto simp: score_observation_def add_range_salience_def Let_def split: option.splits
      intro!: fold_within add_line_within)

lemma score_file_lines_within:
  "score_file_lines xs n = (scores, markers, whole) \<Longrightarrow> \<forall>(l, q) \<in> set scores. l \<le> n \<and> 1 \<le> l"
proof -
  assume a: "score_file_lines xs n = (scores, markers, whole)"
  have "scored_within n (fold (score_observation n (Max (set (map ob_seq xs)))) xs ([], []))"
    by (intro fold_within score_observation_within) (simp_all add: scored_within_def)
  with a show ?thesis
    by (fastforce simp: score_file_lines_def scored_within_def Let_def split: prod.splits)
qed

section \<open>The view of a file\<close>

lemma preserved_subset:
  assumes "tiles ps 1 (length ls)" "1 \<le> length ls"
  shows "set (shown_lines (rows_of (spans_that_preserve_required_lines ls budget markers required ps)))
    \<subseteq> set (shown_lines (rows_of ps))"
proof -
  let ?sel = "choose_lines ls budget markers (line_candidates ps required) []"
  have "points (map (\<lambda>n. (n, n)) ?sel) = set ?sel" by (auto simp: points_def)
  moreover have "set ?sel \<subseteq> set (shown_lines (rows_of ps))"
    using choose_lines_subset [of ls budget markers "line_candidates ps required" "[]"] line_candidates_visible [of ps required]
    by auto
  ultimately show ?thesis
    using regions_shown [of "length ls" "map (\<lambda>n. (n, n)) ?sel"]
    by (simp add: spans_that_preserve_required_lines_def spans_of_lines_def)
qed

lemma folded_ranges_rows: "(x, y) \<in> set (folded_ranges (rows_of ps)) \<Longrightarrow> \<exists>p \<in> set ps. x = os_start p \<and> y = os_end p"
  by (induction ps) (auto simp: folded_ranges_def List.map_filter_def split: if_splits)

text \<open>Rows that cover the file from the first line on: what is shown and what is left out.\<close>

lemma outline_rows:
  assumes "tiles ps 1 (length ls)" "1 \<le> length ls" "card (set (shown_lines (rows_of ps))) \<le> budget"
  obtains rs m where "m \<le> length ls" "concat (map row_lines rs) = [1..<m + 1]"
    "ro_visible (render_outline ls chars markers required ps) = map (\<lambda>n. (n, ls ! (n - 1))) (shown_lines rs)"
    "ro_collapsed (render_outline ls chars markers required ps) = folded_ranges rs"
    "card (set (shown_lines rs)) \<le> budget"
proof -
  let ?ps = "if required = [] then ps else spans_that_preserve_required_lines ls chars markers required ps"
  have t: "tiles ?ps 1 (length ls)" using assms(1,2) preserving_spans_tile by presburger
  obtain rs complete where f: "fitting_rows ls markers chars 0 (rows_of ?ps) = (rs, complete)" by (metis surj_pair)
  from fitting_rows_prefix [OF f] obtain rest where rest: "rows_of ?ps = rs @ rest" by auto
  have "concat (map row_lines rs) @ concat (map row_lines rest) = [1..<length ls + 1]"
    using rows_cover [OF t] by (simp add: rest)
  note p = prefix_of_upt [OF this]
  have "set (shown_lines rs) \<subseteq> set (shown_lines (rows_of ?ps))" by (simp add: rest)
  also have "\<dots> \<subseteq> set (shown_lines (rows_of ps))" using preserved_subset [OF assms(1,2)] by simp
  finally have "card (set (shown_lines rs)) \<le> budget"
    using assms(3) card_mono [of "set (shown_lines (rows_of ps))" "set (shown_lines rs)"] by simp
  with p f that [of "length (concat (map row_lines rs))" rs] show ?thesis
    by (simp add: render_outline_def render_rows_def)
qed

lemma shown_in_rows: "set (shown_lines rs) \<subseteq> set (concat (map row_lines rs))"
proof (induction rs)
  case (Cons r rs)
  then show ?case by (cases r) auto
qed simp

lemma shown_lines_sorted: "sorted_wrt (<) (concat (map row_lines rs)) \<Longrightarrow> sorted_wrt (<) (shown_lines rs)"
proof (induction rs)
  case (Cons r rs)
  then have "sorted_wrt (<) (shown_lines rs)" by (simp add: sorted_wrt_append)
  with Cons(2) shown_in_rows [of rs] show ?case by (cases r) (auto simp: sorted_wrt_append)
qed simp

lemma rows_points: "set (shown_lines qs) \<union> points (folded_ranges qs) = set (concat (map row_lines qs))"
proof (induction qs)
  case (Cons q qs)
  then show ?case by (cases q) (auto simp: folded_ranges_def List.map_filter_def)
qed (simp add: folded_ranges_def List.map_filter_def)

definition view_outline :: "fold_env \<Rightarrow> accumulator \<Rightarrow> string list \<Rightarrow> rendered_outline" where
  "view_outline env a ls =
     (case score_file_lines (ac_obs a) (length ls) of
        (scores, markers, whole) \<Rightarrow>
          render_outline ls folded_char_budget
            (if markers = [] then None else Some (map (\<lambda>(l, m). (l, marker_sign m)) markers))
            (required_edit_lines scores markers)
            (spans_for_folded (te_parser (fo_tools env)) ls (ac_display a) scores (required_edit_lines scores markers)
               (latest_read_range a) whole))"

lemma render_folded_fields:
  assumes "fo_live env (ac_path a) = ReadableLive ls" "ls \<noteq> []" "render_folded env a = Some s"
  shows "fc_key s = ac_path a \<and> fc_visible s = ro_visible (view_outline env a ls) \<and>
    fc_collapsed s = ro_collapsed (view_outline env a ls)"
proof -
  obtain scores markers whole where sc: "score_file_lines (ac_obs a) (length ls) = (scores, markers, whole)"
    by (metis surj_pair)
  show ?thesis
    using assms(3) [symmetric]
    by (simp only: render_folded_def view_outline_def assms(1,2) live_content.case if_False sc prod.case Let_def option.inject
        folded_context.select_convs simp_thms)
qed

lemma view_outline_ok:
  assumes "lines_promised (te_parser (fo_tools env))" "ls \<noteq> []"
  shows "\<forall>(n, t) \<in> set (ro_visible (view_outline env a ls)). 1 \<le> n \<and> n \<le> length ls \<and> t = ls ! (n - 1)"
    and "sorted_wrt (<) (map fst (ro_visible (view_outline env a ls)))"
    and "length (ro_visible (view_outline env a ls)) \<le> folded_line_budget"
    and "\<exists>m \<le> length ls. fst ` set (ro_visible (view_outline env a ls)) \<union>
      points (ro_collapsed (view_outline env a ls)) = {1..m}"
proof -
  obtain scores markers whole where sc: "score_file_lines (ac_obs a) (length ls) = (scores, markers, whole)"
    by (metis surj_pair)
  define spans where "spans = spans_for_folded (te_parser (fo_tools env)) ls (ac_display a) scores
    (required_edit_lines scores markers) (latest_read_range a) whole"
  have n: "1 \<le> length ls" using assms(2) by (cases ls) auto
  have spans: "tiles spans 1 (length ls)" "card (set (shown_lines (rows_of spans))) \<le> folded_line_budget"
    using spans_for_folded_ok [OF assms score_file_lines_within [OF sc]] by (simp_all add: spans_def)
  obtain rs m where rs: "m \<le> length ls" "concat (map row_lines rs) = [1..<m + 1]"
    "ro_visible (view_outline env a ls) = map (\<lambda>n. (n, ls ! (n - 1))) (shown_lines rs)"
    "ro_collapsed (view_outline env a ls) = folded_ranges rs"
    "card (set (shown_lines rs)) \<le> folded_line_budget"
    unfolding view_outline_def sc prod.case spans_def [symmetric] by (rule outline_rows [OF spans(1) n spans(2)])
  have sorted: "sorted_wrt (<) (shown_lines rs)" by (intro shown_lines_sorted) (simp only: rs(2) sorted_wrt_upt)
  have "set (shown_lines rs) \<union> points (folded_ranges rs) = set [1..<m + 1]"
    unfolding rs(2) [symmetric] by (rule rows_points)
  then have cover: "set (shown_lines rs) \<union> points (folded_ranges rs) = {1..m}"
    by (simp only: set_upt atLeastLessThanSuc_atLeastAtMost Suc_eq_plus1 [symmetric])
  then have sub: "set (shown_lines rs) \<subseteq> {1..m}" by blast
  show "sorted_wrt (<) (map fst (ro_visible (view_outline env a ls)))"
    using sorted by (simp add: rs(3) comp_def)
  show "length (ro_visible (view_outline env a ls)) \<le> folded_line_budget"
    using rs(5) sorted by (simp add: rs(3) strict_sorted_iff distinct_card)
  show "\<exists>m \<le> length ls. fst ` set (ro_visible (view_outline env a ls)) \<union>
      points (ro_collapsed (view_outline env a ls)) = {1..m}"
    using cover rs(1) by (intro exI [of _ m]) (simp add: rs(3,4) image_image)
  show "\<forall>(n, t) \<in> set (ro_visible (view_outline env a ls)). 1 \<le> n \<and> n \<le> length ls \<and> t = ls ! (n - 1)"
  proof (clarify)
    fix n t assume "(n, t) \<in> set (ro_visible (view_outline env a ls))"
    then have "n \<in> set (shown_lines rs) \<and> t = ls ! (n - 1)" unfolding rs(3) set_map by blast
    moreover from this have "n \<in> {1..m}" using sub by blast
    ultimately show "1 \<le> n \<and> n \<le> length ls \<and> t = ls ! (n - 1)" using rs(1) by simp
  qed
qed



end
