(* ===== verification/Replacement_Laws.thy ===== *)
theory Replacement_Laws
  imports Observations
begin

text \<open>
  What the plan of replacements for file reads and searches takes out of a prompt: results that no
  longer match the files, and results whose lines stay in the prompt with another call.
\<close>

section \<open>Dictionaries filled in order\<close>

text \<open>The observations of a file are those of the whole sequence that are about it, in order.\<close>

definition filed :: "(path \<times> accumulator) list \<Rightarrow> observation list \<Rightarrow> bool" where
  "filed m xs \<longleftrightarrow> fst ` set m = ob_path ` set xs \<and> distinct (map fst m) \<and>
     (\<forall>(p, a) \<in> set m. ac_path a = p \<and> ac_obs a = filter (\<lambda>x. ob_path x = p) xs)"

lemma filed_Nil [simp]: "filed [] []"
  by (simp add: filed_def)

lemma filed_find: "filed m xs \<Longrightarrow> map_of m p = None \<longleftrightarrow> filter (\<lambda>x. ob_path x = p) xs = []"
  by (auto simp: filed_def map_of_eq_None_iff filter_empty_conv)

lemma filed_add:
  assumes "filed m xs"
  shows "filed (add_observation x m) (xs @ [x])"
proof -
  define a where "a = (case map_of m (ob_path x) of
      None \<Rightarrow> \<lparr>ac_display = ob_display x, ac_path = ob_path x, ac_obs = [x]\<rparr>
    | Some a \<Rightarrow> a\<lparr>ac_obs := ac_obs a @ [x]\<rparr>)"
  have "ac_path a = ob_path x \<and> ac_obs a = filter (\<lambda>y. ob_path y = ob_path x) (xs @ [x])"
  proof (cases "map_of m (ob_path x)")
    case None
    then show ?thesis using filed_find [OF assms, of "ob_path x"] by (simp add: a_def)
  next
    case (Some b)
    then have "(ob_path x, b) \<in> set m" by (rule map_of_SomeD)
    with assms have "ac_path b = ob_path x \<and> ac_obs b = filter (\<lambda>y. ob_path y = ob_path x) xs"
      by (auto simp: filed_def)
    with Some show ?thesis by (simp add: a_def)
  qed
  note a = this
  have add: "add_observation x m = dict_set (ob_path x) a m" by (simp add: add_observation_def a_def)
  have d: "distinct (map fst m)" using assms by (simp add: filed_def)
  have keep: "ac_path b = p \<and> ac_obs b = filter (\<lambda>y. ob_path y = p) (xs @ [x])" if "(p, b) \<in> set (dict_set (ob_path x) a m)" for p b
  proof -
    have "map_of (dict_set (ob_path x) a m) p = Some b" using that d by (intro map_of_is_SomeI distinct_dict_set)
    then consider "p = ob_path x" "b = a" | "p \<noteq> ob_path x" "(p, b) \<in> set m"
      by (auto split: if_splits dest: map_of_SomeD)
    then show ?thesis
    proof cases
      case 2
      then have "ac_path b = p \<and> ac_obs b = filter (\<lambda>y. ob_path y = p) xs" using assms unfolding filed_def by blast
      with 2 show ?thesis by simp
    qed (simp add: a)
  qed
  have "fst ` set (add_observation x m) = ob_path ` set (xs @ [x])"
    using assms by (simp add: add dict_set_fst filed_def)
  with keep d show ?thesis unfolding filed_def add by (blast intro: distinct_dict_set)
qed

lemma filed_fold: "filed m ys \<Longrightarrow> filed (fold add_observation xs m) (ys @ xs)"
proof (induction xs arbitrary: m ys)
  case (Cons x xs)
  from Cons.IH [OF filed_add [OF Cons.prems, of x]] show ?case by simp
qed simp

section \<open>Collected observations\<close>

definition open_calls :: "call_node list \<Rightarrow> nat \<Rightarrow> (nat \<times> call_node) list" where
  "open_calls cs n = filter (\<lambda>(k, c). \<not> cl_collapsed c) (enumerate n cs)"

fun numbered_calls :: "history_node list \<Rightarrow> nat \<Rightarrow> (nat \<times> call_node) list" where
  "numbered_calls [] n = []"
| "numbered_calls (Turn t # ns) n =
     (if tn_collapsed t then [] else open_calls (tn_calls t) n) @ numbered_calls ns (n + length (tn_calls t))"
| "numbered_calls (_ # ns) n = numbered_calls ns (n + 1)"

definition observed :: "fold_env \<Rightarrow> path option \<Rightarrow> (nat \<times> call_node) list \<Rightarrow> observation list result" where
  "observed env ws xs = rbind (rmap_list (\<lambda>(n, c). observations_for env ws ProjectedAllowed c n) xs) (\<lambda>ys. Inr (concat ys))"

lemma observed_Nil [simp]: "observed env ws [] = Inr []"
  by (simp add: observed_def)

lemma observed_Cons [simp]:
  "observed env ws ((n, c) # xs) = Inr zs \<longleftrightarrow>
     (\<exists>ys ws'. observations_for env ws ProjectedAllowed c n = Inr ys \<and> observed env ws xs = Inr ws' \<and> zs = ys @ ws')"
  by (auto simp: observed_def)

lemma observed_append:
  "observed env ws xs = Inr as \<Longrightarrow> observed env ws ys = Inr bs \<Longrightarrow> observed env ws (xs @ ys) = Inr (as @ bs)"
proof (induction xs arbitrary: as)
  case (Cons x xs)
  then show ?case by (cases x) fastforce
qed simp

lemma observed_in: "observed env ws xs = Inr zs \<Longrightarrow> z \<in> set zs \<Longrightarrow>
  \<exists>n c ys. (n, c) \<in> set xs \<and> observations_for env ws ProjectedAllowed c n = Inr ys \<and> z \<in> set ys"
proof (induction xs arbitrary: zs)
  case (Cons x xs)
  then show ?case by (cases x) fastforce
qed simp

lemma open_calls_simps [simp]:
  "open_calls [] n = []"
  "open_calls (c # cs) n = (if cl_collapsed c then [] else [(n, c)]) @ open_calls cs (n + 1)"
  by (simp_all add: open_calls_def)

lemma skipped_plain [simp]: "call_skipped plain_plan ProjectedAllowed c \<longleftrightarrow> cl_collapsed c"
  by (simp add: call_skipped_def plain_plan_def replacement_for_def)

lemma collect_calls_observed:
  "collect_calls env ws plain_plan ProjectedAllowed cs n m = Inr m' \<Longrightarrow>
     \<exists>xs. observed env ws (open_calls cs n) = Inr xs \<and> m' = fold add_observation xs m"
proof (induction cs arbitrary: n m)
  case (Cons c cs)
  show ?case
  proof (cases "cl_collapsed c")
    case False
    then obtain ys where ys: "observations_for env ws ProjectedAllowed c n = Inr ys"
      "collect_calls env ws plain_plan ProjectedAllowed cs (n + 1) (fold add_observation ys m) = Inr m'"
      using Cons.prems by auto
    from Cons.IH [OF ys(2)] obtain xs where "observed env ws (open_calls cs (n + 1)) = Inr xs"
      "m' = fold add_observation xs (fold add_observation ys m)" by auto
    with ys(1) False show ?thesis by (auto intro!: exI [of _ "ys @ xs"])
  qed (use Cons in auto)
qed simp

lemma collect_nodes_observed:
  "collect_nodes env ws plain_plan ProjectedAllowed (enumerate i ns) n m = Inr m' \<Longrightarrow>
     \<exists>xs. observed env ws (numbered_calls ns n) = Inr xs \<and> m' = fold add_observation xs m"
proof (induction ns arbitrary: i n m)
  case (Cons x ns)
  show ?case
  proof (cases "\<exists>t. x = Turn t \<and> \<not> tn_collapsed t")
    case True
    then obtain t where t: "x = Turn t" "\<not> tn_collapsed t" by auto
    with Cons.prems obtain m1 where m1: "collect_calls env ws plain_plan ProjectedAllowed (tn_calls t) n m = Inr m1"
      "collect_nodes env ws plain_plan ProjectedAllowed (enumerate (Suc i) ns) (n + length (tn_calls t)) m1 = Inr m'"
      by (auto simp: plain_plan_def)
    from collect_calls_observed [OF m1(1)] Cons.IH [OF m1(2)] obtain xs ys where
      "observed env ws (open_calls (tn_calls t) n) = Inr xs" "m1 = fold add_observation xs m"
      "observed env ws (numbered_calls ns (n + length (tn_calls t))) = Inr ys" "m' = fold add_observation ys m1" by auto
    with t show ?thesis by (auto intro!: exI [of _ "xs @ ys"] observed_append)
  next
    case False
    then show ?thesis using Cons by (cases x) (auto simp: plain_plan_def)
  qed
qed simp

lemma collected:
  assumes "collect_file_context env ws plain_plan ProjectedAllowed ns = Inr accs"
  obtains xs where "observed env ws (numbered_calls ns 0) = Inr xs"
    "distinct (map ac_path accs)" "ac_path ` set accs = ob_path ` set xs"
    "\<And>a. a \<in> set accs \<Longrightarrow> ac_obs a = filter (\<lambda>x. ob_path x = ac_path a) xs"
proof -
  from assms obtain m where m: "collect_nodes env ws plain_plan ProjectedAllowed (enumerate 0 ns) 0 [] = Inr m"
    "accs = map snd m" by (auto simp: collect_file_context_def)
  from collect_nodes_observed [OF m(1)] obtain xs where xs: "observed env ws (numbered_calls ns 0) = Inr xs"
    "m = fold add_observation xs []" by blast
  have f: "filed m xs" using filed_fold [OF filed_Nil, of xs] by (simp add: xs(2))
  have e: "ac_path (snd q) = fst q \<and> ac_obs (snd q) = filter (\<lambda>x. ob_path x = fst q) xs" if "q \<in> set m" for q
    using f that unfolding filed_def by (cases q) auto
  have p: "map ac_path accs = map fst m" unfolding m(2) using e by simp
  show ?thesis
  proof (rule that [OF xs(1)])
    show "distinct (map ac_path accs)" using f unfolding p filed_def by blast
    show "ac_path ` set accs = ob_path ` set xs" using f p unfolding filed_def by (metis list.set_map)
    show "ac_obs a = filter (\<lambda>x. ob_path x = ac_path a) xs" if "a \<in> set accs" for a
      using that e unfolding m(2) by auto
  qed
qed

lemma numbered_visible: "map snd (numbered_calls ns n) = visible_calls ns"
proof -
  have calls: "map snd (open_calls cs n) = filter (\<lambda>c. \<not> cl_collapsed c) cs" for cs n
    by (induction cs arbitrary: n) simp_all
  show ?thesis
    by (induction ns n rule: numbered_calls.induct) (auto simp: visible_calls_def calls)
qed

lemma numbered_bounds: "(k, c) \<in> set (numbered_calls ns n) \<Longrightarrow> n \<le> k"
  by (induction ns n rule: numbered_calls.induct) (fastforce simp: open_calls_def in_set_enumerate_eq split: if_splits)+

lemma sorted_filter_fst: "sorted_wrt (<) (map fst xs) \<Longrightarrow> sorted_wrt (<) (map fst (filter P xs))"
  by (induction xs) auto

lemma numbered_sorted: "sorted_wrt (<) (map fst (numbered_calls ns n))"
proof (induction ns n rule: numbered_calls.induct)
  case (2 t ns n)
  have "sorted_wrt (<) (map fst (open_calls (tn_calls t) n))"
    unfolding open_calls_def enumerate_eq_zip by (intro sorted_filter_fst) (simp del: upt_Suc)
  moreover have "k < l" if "(k, c) \<in> set (open_calls (tn_calls t) n)" "(l, d) \<in> set (numbered_calls ns (n + length (tn_calls t)))" for k c l d
    using that numbered_bounds [OF that(2)] by (auto simp: open_calls_def in_set_enumerate_eq)
  ultimately show ?case using 2 by (fastforce simp: sorted_wrt_append)
qed simp_all

lemma observed_each:
  "observed env ws qs = Inr zs \<Longrightarrow> (n, c) \<in> set qs \<Longrightarrow>
     \<exists>ys. observations_for env ws ProjectedAllowed c n = Inr ys \<and> set ys \<subseteq> set zs"
proof (induction qs arbitrary: zs)
  case (Cons q qs)
  then show ?case by (cases q) fastforce
qed simp

section \<open>Reads of files\<close>

text \<open>A call that read a file, with the lines that its result shows.\<close>

definition file_read :: "fold_env \<Rightarrow> path option \<Rightarrow> call_node \<Rightarrow> path \<Rightarrow> file_line list \<Rightarrow> bool" where
  "file_read env ws c p ls \<longleftrightarrow>
     call_name c = ''read_file'' \<and> \<not> tr_error (cl_result c) \<and>
     (case map_of (tool_arguments env c) ''path'' of
        Some (JStr raw) \<Rightarrow> resolve_allowed env ws ProjectedAllowed raw = Some p
      | _ \<Rightarrow> False) \<and>
     parse_line_numbered (tr_content (cl_result c)) = Inr ls"

definition live_line :: "fold_env \<Rightarrow> path \<Rightarrow> file_line \<Rightarrow> bool" where
  "live_line env p l =
     (case fo_live env p of
        ReadableLive texts \<Rightarrow> 1 \<le> fst l \<and> fst l \<le> length texts \<and> texts ! (fst l - 1) = snd l
      | _ \<Rightarrow> False)"

lemma blank_fields [simp]:
  "ob_id (blank_observation i tool display p n) = i" "ob_tool (blank_observation i tool display p n) = tool"
  "ob_path (blank_observation i tool display p n) = p" "ob_seq (blank_observation i tool display p n) = n"
  by (simp_all add: blank_observation_def)

lemma read_observation_fields:
  "read_observation env ws mode c n = Inr (Some x) \<Longrightarrow>
     ob_id x = tc_id (cl_call c) \<and> ob_tool x = ''read_file'' \<and> ob_seq x = n \<and>
     parse_line_numbered (tr_content (cl_result c)) = Inr (ob_lines x) \<and>
     (\<exists>raw. map_of (tool_arguments env c) ''path'' = Some (JStr raw) \<and> resolve_allowed env ws mode raw = Some (ob_path x))"
  by (auto simp: read_observation_def Let_def split: option.splits json.splits)

lemma search_observation_fields:
  "search_observations env ws mode c n = Inr xs \<Longrightarrow> x \<in> set xs \<Longrightarrow>
     ob_id x = tc_id (cl_call c) \<and> ob_tool x = ''search_files'' \<and> ob_seq x = n"
  by (auto simp: search_observations_def Let_def List.map_filter_def split: if_splits)

lemma write_observation_fields:
  "write_observation env ws mode c n = Some x \<Longrightarrow>
     ob_id x = tc_id (cl_call c) \<and> ob_tool x = call_name c \<and> ob_seq x = n"
  by (auto simp: write_observation_def Let_def split: option.splits json.splits prod.splits if_splits)

lemma observations_for_cases:
  assumes "observations_for env ws mode c n = Inr xs" "x \<in> set xs"
  shows "\<not> tr_error (cl_result c) \<and>
    (call_name c = ''read_file'' \<and> read_observation env ws mode c n = Inr (Some x) \<or>
     call_name c = ''search_files'' \<and> search_observations env ws mode c n = Inr xs \<or>
     call_name c \<in> {''edit_file'', ''create_file''} \<and> write_observation env ws mode c n = Some x)"
proof -
  consider "tr_error (cl_result c)" | "\<not> tr_error (cl_result c)" "call_name c = ''read_file''"
    | "\<not> tr_error (cl_result c)" "call_name c = ''search_files''"
    | "\<not> tr_error (cl_result c)" "call_name c \<in> {''edit_file'', ''create_file''}"
    | "call_name c \<notin> {''read_file'', ''search_files'', ''edit_file'', ''create_file''}" by auto
  then show ?thesis
    using assms by cases (auto simp: observations_for_def Let_def split: option.splits if_splits)
qed

lemma observation_fields:
  assumes "observations_for env ws mode c n = Inr xs" "x \<in> set xs"
  shows "ob_id x = tc_id (cl_call c) \<and> ob_tool x = call_name c \<and> ob_seq x = n"
  using observations_for_cases [OF assms] assms(2)
  by (elim conjE disjE) (simp_all add: search_observation_fields read_observation_fields write_observation_fields)

lemma read_observed:
  assumes "observations_for env ws ProjectedAllowed c n = Inr xs" "x \<in> set xs" "call_name c = ''read_file''"
  shows "file_read env ws c (ob_path x) (ob_lines x)"
proof -
  have "\<not> tr_error (cl_result c)" "read_observation env ws ProjectedAllowed c n = Inr (Some x)"
    using observations_for_cases [OF assms(1,2)] assms(3) by simp_all
  with read_observation_fields [OF this(2)] assms(3) show ?thesis by (auto simp: file_read_def)
qed

lemma read_observes:
  assumes "file_read env ws c p ls" "observations_for env ws ProjectedAllowed c n = Inr xs"
  obtains x where "xs = [x]" "ob_id x = tc_id (cl_call c)" "ob_tool x = ''read_file''" "ob_seq x = n"
    "ob_path x = p" "ob_lines x = ls"
proof -
  obtain raw where raw: "map_of (tool_arguments env c) ''path'' = Some (JStr raw)"
    "resolve_allowed env ws ProjectedAllowed raw = Some p" "call_name c = ''read_file''" "\<not> tr_error (cl_result c)"
    "parse_line_numbered (tr_content (cl_result c)) = Inr ls"
    using assms(1) by (auto simp: file_read_def split: option.splits json.splits)
  then obtain x where x: "read_observation env ws ProjectedAllowed c n = Inr (Some x)"
    by (simp add: read_observation_def Let_def)
  with raw(3,4) assms(2) have "xs = [x]" by (simp add: observations_for_def)
  with read_observation_fields [OF x] raw that show ?thesis by auto
qed

lemma current_iff:
  "observation_state (fo_live env p) ls = CurrentResult \<longleftrightarrow> ls \<noteq> [] \<and> (\<forall>l \<in> set ls. live_line env p l)"
  by (cases ls; cases "fo_live env p")
    (simp_all add: observation_state_def returned_lines_state_def live_line_def list_all_iff case_prod_beta
      ex_disj_distrib del: One_nat_def split_paired_Ex split_paired_All)

lemma stale_iff:
  "observation_state (fo_live env p) ls = StaleResult \<longleftrightarrow>
     fo_live env p \<noteq> UnknownLive \<and> (\<exists>l \<in> set ls. \<not> live_line env p l)"
  by (cases ls; cases "fo_live env p")
    (simp_all add: observation_state_def returned_lines_state_def live_line_def list_all_iff case_prod_beta
      ex_disj_distrib del: One_nat_def split_paired_Ex split_paired_All)

lemma reads_sorted:
  "observed env ws qs = Inr xs \<Longrightarrow> sorted_wrt (<) (map fst qs) \<Longrightarrow>
     sorted_wrt (\<lambda>x y. ob_seq x < ob_seq y) (filter (\<lambda>x. ob_tool x = ''read_file'') xs)"
proof (induction qs arbitrary: xs)
  case (Cons q qs)
  obtain n c where q: "q = (n, c)" by (cases q)
  with Cons.prems obtain ys zs where ys: "observations_for env ws ProjectedAllowed c n = Inr ys"
    "observed env ws qs = Inr zs" "xs = ys @ zs" by auto
  have "sorted_wrt (\<lambda>x y. ob_seq x < ob_seq y) (filter (\<lambda>x. ob_tool x = ''read_file'') ys)"
  proof (cases "call_name c = ''read_file''")
    case True
    then have "length ys \<le> 1" using ys(1) by (auto simp: observations_for_def Let_def split: if_splits option.splits)
    then show ?thesis by (cases ys) simp_all
  next
    case False
    then have "filter (\<lambda>x. ob_tool x = ''read_file'') ys = []"
      using observation_fields [OF ys(1)] by (simp add: filter_empty_conv)
    then show ?thesis by simp
  qed
  moreover have "ob_seq x < ob_seq y" if "x \<in> set ys" "y \<in> set zs" for x y
  proof -
    from observed_in [OF ys(2) that(2)] obtain m d us where d: "(m, d) \<in> set qs"
      "observations_for env ws ProjectedAllowed d m = Inr us" "y \<in> set us" by blast
    have "n < m" using Cons.prems(2) q d(1) by force
    then show ?thesis using observation_fields [OF ys(1) that(1)] observation_fields [OF d(2,3)] by simp
  qed
  ultimately show ?case using Cons ys q by (simp add: sorted_wrt_append)
qed simp

section \<open>Chains of reads\<close>

lemma redundant_pairs_in:
  "sorted_wrt (\<lambda>x y. ob_seq x < ob_seq y) qs \<Longrightarrow> (x, y) \<in> set (redundant_pairs qs) \<Longrightarrow>
     x \<in> set qs \<and> y \<in> set qs \<and> ob_seq x < ob_seq y \<and> set (ob_lines x) \<subseteq> set (ob_lines y)"
proof (induction qs)
  case (Cons q qs)
  show ?case
  proof (cases "(x, y) \<in> set (redundant_pairs qs)")
    case False
    with Cons.prems(2) have "x = q" "find (\<lambda>y. set (ob_lines q) \<subseteq> set (ob_lines y)) qs = Some y"
      by (auto split: option.splits)
    with Cons.prems(1) show ?thesis by (auto simp: find_Some_iff)
  qed (use Cons in auto)
qed simp

lemma redundant_first:
  assumes "sorted_wrt (\<lambda>x y. ob_seq x < ob_seq y) qs"
  shows "x \<in> fst ` set (redundant_pairs qs) \<longleftrightarrow>
    x \<in> set qs \<and> (\<exists>y \<in> set qs. ob_seq x < ob_seq y \<and> set (ob_lines x) \<subseteq> set (ob_lines y))"
proof
  assume "x \<in> fst ` set (redundant_pairs qs)"
  then show "x \<in> set qs \<and> (\<exists>y \<in> set qs. ob_seq x < ob_seq y \<and> set (ob_lines x) \<subseteq> set (ob_lines y))"
    using redundant_pairs_in [OF assms] by fastforce
next
  assume "x \<in> set qs \<and> (\<exists>y \<in> set qs. ob_seq x < ob_seq y \<and> set (ob_lines x) \<subseteq> set (ob_lines y))"
  with assms show "x \<in> fst ` set (redundant_pairs qs)"
  proof (induction qs)
    case (Cons q qs)
    show ?case
    proof (cases "x = q")
      case True
      with Cons.prems have "find (\<lambda>y. set (ob_lines q) \<subseteq> set (ob_lines y)) qs \<noteq> None"
        by (auto simp: find_None_iff)
      with True show ?thesis by auto
    next
      case False
      with Cons.prems have "x \<in> set qs" by simp
      with Cons show ?thesis by (auto simp: image_Un)
    qed
  qed simp
qed

lemma chain_ends:
  assumes "sorted_wrt (\<lambda>x y. ob_seq x < ob_seq y) qs" "x \<in> fst ` set (redundant_pairs qs)"
  obtains y where "y \<in> set qs" "ob_seq x < ob_seq y" "set (ob_lines x) \<subseteq> set (ob_lines y)"
    "y \<notin> fst ` set (redundant_pairs qs)"
proof -
  let ?S = "{y \<in> set qs. ob_seq x < ob_seq y \<and> set (ob_lines x) \<subseteq> set (ob_lines y)}"
  have S: "?S \<noteq> {}" using assms by (auto simp: redundant_first)
  then have "Max (ob_seq ` ?S) \<in> ob_seq ` ?S" by (intro Max_in) simp_all
  then obtain y where y: "y \<in> ?S" "ob_seq y = Max (ob_seq ` ?S)" by auto
  have "\<not> (ob_seq y < ob_seq z \<and> set (ob_lines y) \<subseteq> set (ob_lines z))" if "z \<in> set qs" for z
  proof
    assume z: "ob_seq y < ob_seq z \<and> set (ob_lines y) \<subseteq> set (ob_lines z)"
    then have "z \<in> ?S" using y(1) that by auto
    then have "ob_seq z \<le> ob_seq y" unfolding y(2) by (intro Max_ge) simp_all
    with z show False by simp
  qed
  then have "y \<notin> fst ` set (redundant_pairs qs)" using assms(1) by (auto simp: redundant_first)
  with y(1) that show ?thesis by blast
qed

section \<open>The plan\<close>

definition keyed :: "(string \<times> replacement) list \<Rightarrow> bool" where
  "keyed m \<longleftrightarrow> (\<forall>(k, r) \<in> set m. k = rp_id r)"

lemma keyed_ids: "keyed m \<Longrightarrow> rp_id ` snd ` set m = fst ` set m"
  by (force simp: keyed_def)

lemma put_one:
  shows "fst ` set (put_replacement r m) = insert (rp_id r) (fst ` set m)"
    and "snd ` set (put_replacement r m) \<subseteq> insert r (snd ` set m)"
    and "keyed m \<Longrightarrow> keyed (put_replacement r m)"
proof -
  show "fst ` set (put_replacement r m) = insert (rp_id r) (fst ` set m)"
    by (simp add: put_replacement_def dict_set_fst)
  have "snd ` set (put_replacement r m) \<subseteq> snd ` insert (rp_id r, r) (set m)"
    unfolding put_replacement_def by (intro image_mono dict_set_subset)
  then show "snd ` set (put_replacement r m) \<subseteq> insert r (snd ` set m)" by simp
  show "keyed (put_replacement r m)" if "keyed m"
    using that dict_set_subset [of "rp_id r" r m] unfolding keyed_def put_replacement_def by (blast dest: subsetD)
qed

lemma keep_one:
  shows "fst ` set (keep_new r m) = insert (rp_id r) (fst ` set m)"
    and "snd ` set (keep_new r m) \<subseteq> insert r (snd ` set m)"
    and "keyed m \<Longrightarrow> keyed (keep_new r m)"
proof -
  show "fst ` set (keep_new r m) = insert (rp_id r) (fst ` set m)"
  proof (cases "map_of m (rp_id r)")
    case (Some q)
    then have "rp_id r \<in> fst ` set m" using map_of_eq_None_iff [of m "rp_id r"] by simp
    with Some show ?thesis by (simp add: keep_new_def insert_absorb)
  qed (simp add: keep_new_def put_one(1))
  show "snd ` set (keep_new r m) \<subseteq> insert r (snd ` set m)"
    using put_one(2) [of r m] by (auto simp only: keep_new_def split: if_splits)
  show "keyed (keep_new r m)" if "keyed m" using that by (simp add: keep_new_def put_one(3))
qed

lemma fold_ids:
  "(\<And>r m. fst ` set (f r m) = insert (rp_id r) (fst ` set m)) \<Longrightarrow>
     fst ` set (fold f rs m) = rp_id ` set rs \<union> fst ` set m"
  by (induction rs arbitrary: m) simp_all

lemma fold_values:
  assumes "\<And>r m. snd ` set (f r m) \<subseteq> insert r (snd ` set m)"
  shows "snd ` set (fold f rs m) \<subseteq> set rs \<union> snd ` set m"
proof (induction rs arbitrary: m)
  case (Cons r rs)
  show ?case unfolding fold_simps list.set
    using assms [of r m] by (intro order_trans [OF Cons [of "f r m"]]) auto
qed simp

lemma fold_keyed: "(\<And>r m. keyed m \<Longrightarrow> keyed (f r m)) \<Longrightarrow> keyed m \<Longrightarrow> keyed (fold f rs m)"
  by (induction rs arbitrary: m) simp_all

definition search_note :: "(call_node \<times> string) list \<Rightarrow> replacement \<Rightarrow> bool" where
  "search_note pairs r \<longleftrightarrow> (\<exists>(c, newer) \<in> set pairs. rp_id r = tc_id (cl_call c) \<and>
     rp_reason r = RedundantObservation \<and> rp_superseding r = Some newer)"

lemma put_searches_keeps:
  assumes "put_searches env note pairs m = Inr m'" "keyed m"
  shows "keyed m'" "fst ` set m' = (\<lambda>(c, newer). tc_id (cl_call c)) ` set pairs \<union> fst ` set m"
    "\<And>r. r \<in> snd ` set m' \<Longrightarrow> search_note pairs r \<or> r \<in> snd ` set m"
proof -
  from assms(1) obtain rs where rs: "rmap_list (\<lambda>(c, newer). search_replacement env c note newer) pairs = Inr rs"
    "m' = fold keep_new rs m" by (auto simp: put_searches_def)
  show "keyed m'" unfolding rs(2) by (rule fold_keyed [OF keep_one(3) assms(2)])
  have noted: "rp_id ` set rs = (\<lambda>(c, newer). tc_id (cl_call c)) ` set pairs \<and> (\<forall>r \<in> set rs. search_note pairs r)"
    using rs(1)
  proof (induction pairs arbitrary: rs)
    case (Cons q qs)
    obtain c newer where q: "q = (c, newer)" by (cases q)
    with Cons.prems obtain r us where r: "search_replacement env c note newer = Inr r" "rs = r # us"
      "rmap_list (\<lambda>(c, newer). search_replacement env c note newer) qs = Inr us" by auto
    from r(1) have "rp_id r = tc_id (cl_call c) \<and> rp_reason r = RedundantObservation \<and> rp_superseding r = Some newer"
      by (auto simp: search_replacement_def)
    with Cons.IH [OF r(3)] q r(2) show ?case by (auto simp: search_note_def)
  qed simp
  then show "fst ` set m' = (\<lambda>(c, newer). tc_id (cl_call c)) ` set pairs \<union> fst ` set m"
    unfolding rs(2) by (simp only: fold_ids [OF keep_one(1)])
  show "search_note pairs r \<or> r \<in> snd ` set m" if "r \<in> snd ` set m'" for r
    using noted subsetD [OF fold_values [OF keep_one(2)] that [unfolded rs(2)]] by blast
qed

text \<open>The calls of a plan: reads of the collected files and searches.\<close>

lemma duplicate_pairs_search:
  "(c, d) \<in> set (duplicate_search_pairs env ns) \<Longrightarrow> c \<in> set (visible_calls ns) \<and> is_search c"
proof -
  have "(c, d) \<in> set (duplicate_pairs_back env cs m) \<Longrightarrow> c \<in> set cs" for cs m
    by (induction env cs m rule: duplicate_pairs_back.induct) (auto simp: Let_def split: option.splits)
  then show "(c, d) \<in> set (duplicate_search_pairs env ns) \<Longrightarrow> c \<in> set (visible_calls ns) \<and> is_search c"
    by (fastforce simp: duplicate_search_pairs_def)
qed

lemma subsumed_search:
  assumes "(c, x) \<in> set (subsumed_searches env ns accs)"
  shows "c \<in> set (visible_calls ns) \<and> is_search c"
proof -
  from assms obtain i xs where i: "(case (find (\<lambda>c. tc_id (cl_call c) = i) (rev (filter is_search (visible_calls ns))), xs) of
         (Some c, [(s, a)]) \<Rightarrow>
           if ob_lines s = [] \<or> \<not> ob_complete s then None
           else map_option (\<lambda>x. (c, x)) (superseding_read env s a)
       | _ \<Rightarrow> None) = Some (c, x)"
    unfolding subsumed_searches_def List.map_filter_def by auto
  then have "find (\<lambda>c. tc_id (cl_call c) = i) (rev (filter is_search (visible_calls ns))) = Some c"
    by (auto split: option.splits list.splits prod.splits if_splits)
  then have "c \<in> set (rev (filter is_search (visible_calls ns)))" by (metis find_Some_iff nth_mem)
  then show ?thesis by simp
qed

lemma plan_parts:
  assumes "plan_replacements env ws policy ns = Inr rs"
  obtains accs pairs where "collect_file_context env ws plain_plan ProjectedAllowed ns = Inr accs"
    "\<And>c newer. (c, newer) \<in> set pairs \<Longrightarrow> c \<in> set (visible_calls ns) \<and> is_search c"
    "rp_id ` set rs = (\<lambda>(c, newer). tc_id (cl_call c)) ` set pairs \<union>
       rp_id ` set (concat (map (read_replacements env) accs))"
    "\<And>r. r \<in> set rs \<Longrightarrow> search_note pairs r \<or> r \<in> set (concat (map (read_replacements env) accs))"
proof -
  from assms obtain accs m1 m2 where m: "collect_file_context env ws plain_plan ProjectedAllowed ns = Inr accs"
    "(if policy = CompleteCurrentRead
      then put_searches env ''current search evidence is retained by tool call ''
             (map (\<lambda>(c, x). (c, ob_id x)) (subsumed_searches env ns accs))
             (fold put_replacement (concat (map (read_replacements env) accs)) [])
      else Inr (fold put_replacement (concat (map (read_replacements env) accs)) [])) = Inr m1"
    "put_searches env ''identical result is retained by tool call ''
       (map (\<lambda>(c, newer). (c, tc_id (cl_call newer))) (duplicate_search_pairs env ns)) m1 = Inr m2"
    "rs = sort_key (\<lambda>r. call_order ns (rp_id r)) (map snd m2)"
    unfolding plan_replacements_def Let_def rbind_eq_Inr by blast
  define reads where "reads = concat (map (read_replacements env) accs)"
  define m0 where "m0 = fold put_replacement reads []"
  have k0: "keyed m0" unfolding m0_def by (rule fold_keyed [OF put_one(3)]) (simp_all add: keyed_def)
  have f0: "fst ` set m0 = rp_id ` set reads" unfolding m0_def by (simp add: fold_ids [OF put_one(1)])
  have s0: "snd ` set m0 \<subseteq> set reads" unfolding m0_def using fold_values [OF put_one(2), of reads "[]"] by simp
  define p1 where "p1 = (if policy = CompleteCurrentRead then map (\<lambda>(c, x). (c, ob_id x)) (subsumed_searches env ns accs) else [])"
  define p2 where "p2 = map (\<lambda>(c, newer). (c, tc_id (cl_call newer))) (duplicate_search_pairs env ns)"
  have m1: "put_searches env ''current search evidence is retained by tool call '' p1 m0 = Inr m1"
    using m(2) by (auto simp: p1_def m0_def reads_def put_searches_def split: if_splits)
  note keeps1 = put_searches_keeps [OF m1 k0]
  note keeps2 = put_searches_keeps [OF m(3) [folded p2_def] keeps1(1)]
  show ?thesis
  proof (rule that [OF m(1), of "p1 @ p2"])
    show "c \<in> set (visible_calls ns) \<and> is_search c" if "(c, newer) \<in> set (p1 @ p2)" for c newer
      using that subsumed_search duplicate_pairs_search by (fastforce simp: p1_def p2_def split: if_splits)
    have "rp_id ` set rs = fst ` set m2" unfolding m(4) using keyed_ids [OF keeps2(1)] by simp
    then show "rp_id ` set rs = (\<lambda>(c, newer). tc_id (cl_call c)) ` set (p1 @ p2) \<union>
       rp_id ` set (concat (map (read_replacements env) accs))"
      unfolding keeps2(2) keeps1(2) f0 reads_def [symmetric] by auto
    show "search_note (p1 @ p2) r \<or> r \<in> set (concat (map (read_replacements env) accs))" if "r \<in> set rs" for r
    proof -
      have "r \<in> snd ` set m2" using that by (simp add: m(4))
      then have "search_note p2 r \<or> search_note p1 r \<or> r \<in> set reads"
        using keeps2(3) keeps1(3) s0 by blast
      then show ?thesis by (auto simp: search_note_def reads_def)
    qed
  qed
qed

section \<open>Which reads are replaced\<close>

definition later_call :: "history_node list \<Rightarrow> call_node \<Rightarrow> call_node \<Rightarrow> bool" where
  "later_call ns c d \<longleftrightarrow>
     (\<exists>i j. i < j \<and> j < length (visible_calls ns) \<and> visible_calls ns ! i = c \<and> visible_calls ns ! j = d)"

lemma later_numbered:
  assumes "(n, c) \<in> set (numbered_calls ns 0)" "(m, d) \<in> set (numbered_calls ns 0)" "n < m"
  shows "later_call ns c d"
proof -
  let ?q = "numbered_calls ns 0"
  obtain i j where ij: "i < length ?q" "?q ! i = (n, c)" "j < length ?q" "?q ! j = (m, d)"
    using assms(1,2) by (meson in_set_conv_nth)
  have "i < j"
  proof (rule ccontr)
    assume "\<not> i < j"
    then have "map fst ?q ! j \<le> map fst ?q ! i"
      using numbered_sorted [of ns 0] ij(1,3) by (cases "i = j") (auto simp: sorted_wrt_iff_nth_less less_imp_le)
    with ij assms(3) show False by simp
  qed
  moreover have "length (visible_calls ns) = length ?q" unfolding numbered_visible [of ns 0, symmetric] by simp
  moreover have "visible_calls ns ! i = c \<and> visible_calls ns ! j = d"
    unfolding numbered_visible [of ns 0, symmetric] using ij by simp
  ultimately show ?thesis using ij(3) unfolding later_call_def by auto
qed

lemma later_numbers:
  assumes "later_call ns c d"
  obtains n m where "(n, c) \<in> set (numbered_calls ns 0)" "(m, d) \<in> set (numbered_calls ns 0)" "n < m"
proof -
  let ?q = "numbered_calls ns 0"
  from assms obtain i j where ij: "i < j" "j < length ?q" "snd (?q ! i) = c" "snd (?q ! j) = d"
    unfolding later_call_def numbered_visible [of ns 0, symmetric] by auto
  have "map fst ?q ! i < map fst ?q ! j"
    using numbered_sorted [of ns 0] ij(1,2) by (simp add: sorted_wrt_iff_nth_less)
  then have "fst (?q ! i) < fst (?q ! j)" using ij(1,2) by simp
  moreover have "(fst (?q ! i), c) \<in> set ?q" "(fst (?q ! j), d) \<in> set ?q"
    using ij by (metis order_less_trans nth_mem prod.collapse)+
  ultimately show ?thesis using that by blast
qed

lemma same_number:
  assumes "distinct (map (\<lambda>c. tc_id (cl_call c)) (visible_calls ns))"
    "(n, c) \<in> set (numbered_calls ns 0)" "(m, d) \<in> set (numbered_calls ns 0)" "tc_id (cl_call c) = tc_id (cl_call d)"
  shows "n = m \<and> c = d"
proof -
  have "distinct (map (\<lambda>q. tc_id (cl_call (snd q))) (numbered_calls ns 0))"
    using assms(1) unfolding numbered_visible [of ns 0, symmetric] by (simp add: comp_def)
  then have "inj_on (\<lambda>q. tc_id (cl_call (snd q))) (set (numbered_calls ns 0))" by (simp add: distinct_map)
  from inj_onD [OF this, of "(n, c)" "(m, d)"] assms(2-4) show ?thesis by simp
qed

lemma visible_numbered: "c \<in> set (visible_calls ns) \<Longrightarrow> \<exists>n. (n, c) \<in> set (numbered_calls ns 0)"
  unfolding numbered_visible [of ns 0, symmetric] by auto

definition reads_in :: "fold_env \<Rightarrow> path option \<Rightarrow> history_node list \<Rightarrow> path \<Rightarrow> observation list" where
  "reads_in env ws ns p =
     (case observed env ws (numbered_calls ns 0) of
        Inl _ \<Rightarrow> []
      | Inr xs \<Rightarrow> filter (\<lambda>x. ob_path x = p) (filter (\<lambda>x. ob_tool x = ''read_file'') xs))"

text \<open>What a plan says of one read of a file, in terms of the reads of that file.\<close>

lemma plan_of_read:
  assumes "plan_replacements env ws policy ns = Inr rs" "distinct (map (\<lambda>c. tc_id (cl_call c)) (visible_calls ns))"
  shows     "sorted_wrt (\<lambda>x y. ob_seq x < ob_seq y) (reads_in env ws ns p)"
    "x \<in> set (reads_in env ws ns p) \<longleftrightarrow> (\<exists>c. (ob_seq x, c) \<in> set (numbered_calls ns 0) \<and>
        observations_for env ws ProjectedAllowed c (ob_seq x) = Inr [x] \<and> file_read env ws c p (ob_lines x) \<and>
        ob_id x = tc_id (cl_call c) \<and> ob_path x = p)"
    "c \<in> set (visible_calls ns) \<Longrightarrow> file_read env ws c p ls \<Longrightarrow>
       \<exists>x \<in> set (reads_in env ws ns p). (ob_seq x, c) \<in> set (numbered_calls ns 0) \<and> ob_lines x = ls \<and> ob_id x = tc_id (cl_call c)"
    "x \<in> set (reads_in env ws ns p) \<Longrightarrow> ob_id x \<in> rp_id ` set rs \<longleftrightarrow>
       observation_state (fo_live env p) (ob_lines x) = StaleResult \<or>
       x \<in> fst ` set (redundant_pairs (filter (\<lambda>x. observation_state (fo_live env p) (ob_lines x) = CurrentResult) (reads_in env ws ns p)))"
    "x \<in> set (reads_in env ws ns p) \<Longrightarrow> r \<in> set rs \<Longrightarrow> rp_id r = ob_id x \<Longrightarrow>
       rp_reason r = StaleObservation \<longleftrightarrow> observation_state (fo_live env p) (ob_lines x) = StaleResult"
proof -
  obtain accs pairs where plan: "collect_file_context env ws plain_plan ProjectedAllowed ns = Inr accs"
    "\<And>c newer. (c, newer) \<in> set pairs \<Longrightarrow> c \<in> set (visible_calls ns) \<and> is_search c"
    "rp_id ` set rs = (\<lambda>(c, newer). tc_id (cl_call c)) ` set pairs \<union>
       rp_id ` set (concat (map (read_replacements env) accs))"
    "\<And>r. r \<in> set rs \<Longrightarrow> search_note pairs r \<or> r \<in> set (concat (map (read_replacements env) accs))"
    using plan_parts [OF assms(1)] by blast
  obtain xs where xs: "observed env ws (numbered_calls ns 0) = Inr xs"
    "distinct (map ac_path accs)" "ac_path ` set accs = ob_path ` set xs"
    "\<And>a. a \<in> set accs \<Longrightarrow> ac_obs a = filter (\<lambda>x. ob_path x = ac_path a) xs"
    using collected [OF plan(1)] by blast
  have reads_def: "reads_in env ws ns p = filter (\<lambda>x. ob_path x = p) (filter (\<lambda>x. ob_tool x = ''read_file'') xs)" for p
    by (simp add: reads_in_def xs(1))
  have reads_of: "reads_of a = reads_in env ws ns (ac_path a)" if "a \<in> set accs" for a
    using xs(4) [OF that] by (auto simp: reads_of_def read_search_def reads_def intro: filter_cong)
  have sorted: "sorted_wrt (\<lambda>x y. ob_seq x < ob_seq y) (reads_in env ws ns p)" for p
    unfolding reads_def by (intro sorted_wrt_filter reads_sorted [OF xs(1) numbered_sorted])
  have origin: "\<exists>c. (ob_seq x, c) \<in> set (numbered_calls ns 0) \<and>
      observations_for env ws ProjectedAllowed c (ob_seq x) = Inr [x] \<and> file_read env ws c p (ob_lines x) \<and>
      ob_id x = tc_id (cl_call c) \<and> ob_path x = p" if "x \<in> set (reads_in env ws ns p)" for x p
  proof -
    have x: "x \<in> set xs" "ob_path x = p" "ob_tool x = ''read_file''" using that by (simp_all add: reads_def)
    obtain n c ys where c: "(n, c) \<in> set (numbered_calls ns 0)" "observations_for env ws ProjectedAllowed c n = Inr ys"
      "x \<in> set ys" using observed_in [OF xs(1) x(1)] by blast
    note f = observation_fields [OF c(2,3)]
    have r: "file_read env ws c p (ob_lines x)" using read_observed [OF c(2,3)] f x by simp
    obtain y where "ys = [y]" by (rule read_observes [OF r c(2)])
    with c(3) have "ys = [x]" by simp
    with c(1,2) f r x(2) show ?thesis by (intro exI [of _ c]) simp
  qed
  have member: "x \<in> set (reads_in env ws ns p)" if "(n, c) \<in> set (numbered_calls ns 0)"
    "observations_for env ws ProjectedAllowed c n = Inr [x]" "file_read env ws c p ls" "ob_path x = p" for x p n c ls
  proof -
    have "x \<in> set xs" using observed_each [OF xs(1) that(1)] that(2) by auto
    moreover have "ob_tool x = ''read_file''" using observation_fields [OF that(2)] that(3) by (simp add: file_read_def)
    ultimately show ?thesis using that(4) by (simp add: reads_def)
  qed
  have unique: "x = y \<and> p = q" if xy: "x \<in> set (reads_in env ws ns p)" "y \<in> set (reads_in env ws ns q)" "ob_id x = ob_id y" for x y p q
  proof -
    obtain c d where c: "(ob_seq x, c) \<in> set (numbered_calls ns 0)" "observations_for env ws ProjectedAllowed c (ob_seq x) = Inr [x]"
      "ob_id x = tc_id (cl_call c)" "ob_path x = p" using origin [OF xy(1)] by (elim exE conjE)
    obtain d where d: "(ob_seq y, d) \<in> set (numbered_calls ns 0)" "observations_for env ws ProjectedAllowed d (ob_seq y) = Inr [y]"
      "ob_id y = tc_id (cl_call d)" "ob_path y = q"
      using origin [OF xy(2)] by (elim exE conjE)
    have "tc_id (cl_call c) = tc_id (cl_call d)" using c(3) d(3) xy(3) by (simp only:)
    from same_number [OF assms(2) c(1) d(1) this] have "ob_seq x = ob_seq y" "c = d" by blast+
    then have "Inr [x] = (Inr [y] :: observation list result)" using c(2) d(2) by metis
    then have "x = y" by simp
    then show ?thesis using c(4) d(4) by blast
  qed
  have no_search: "tc_id (cl_call c) \<noteq> ob_id x" if xy: "x \<in> set (reads_in env ws ns p)" "(c, newer) \<in> set pairs" for x p c newer
  proof
    assume same: "tc_id (cl_call c) = ob_id x"
    obtain d where d: "(ob_seq x, d) \<in> set (numbered_calls ns 0)" "file_read env ws d p (ob_lines x)" "ob_id x = tc_id (cl_call d)"
      using origin [OF xy(1)] by (elim exE conjE)
    obtain n where n: "(n, c) \<in> set (numbered_calls ns 0)" using plan(2) [OF xy(2)] visible_numbered by blast
    have "tc_id (cl_call c) = tc_id (cl_call d)" using same d(3) by (simp only:)
    from same_number [OF assms(2) n d(1) this] have "c = d" by blast
    with plan(2) [OF xy(2)] d(2) show False by (simp add: is_search_def file_read_def)
  qed
  let ?state = "\<lambda>p x. observation_state (fo_live env p) (ob_lines x)"
  let ?current = "\<lambda>p. filter (\<lambda>x. ?state p x = CurrentResult) (reads_in env ws ns p)"
  have currents: "current_reads env a = ?current (ac_path a)" if "a \<in> set accs" for a
    unfolding current_reads_def reads_of [OF that] by (intro filter_cong) (auto simp: current_iff)
  have replaced: "?state p x = StaleResult \<and> r = stale_replacement x \<or>
      (\<exists>z. (x, z) \<in> set (redundant_pairs (?current p)) \<and> r = redundant_replacement x z)"
    if "x \<in> set (reads_in env ws ns p)" "r \<in> set (concat (map (read_replacements env) accs))" "rp_id r = ob_id x" for x p r
  proof -
    from that(2) obtain a where a: "a \<in> set accs" "r \<in> set (read_replacements env a)" by auto
    from a(2) consider y where "y \<in> set (reads_in env ws ns (ac_path a))" "?state (ac_path a) y = StaleResult" "r = stale_replacement y"
      | y z where "(y, z) \<in> set (redundant_pairs (?current (ac_path a)))" "r = redundant_replacement y z"
      unfolding read_replacements_def reads_of [OF a(1)] currents [OF a(1)] by auto
    then show ?thesis
    proof cases
      case (1 y)
      with unique [OF that(1) 1(1)] that(3) show ?thesis by (simp add: stale_replacement_def)
    next
      case (2 y z)
      have "y \<in> set (reads_in env ws ns (ac_path a))" using redundant_pairs_in [OF sorted_wrt_filter [OF sorted] 2(1)] by simp
      from unique [OF that(1) this] that(3) 2 show ?thesis by (auto simp: redundant_replacement_def)
    qed
  qed
  have whole: "r \<in> set (concat (map (read_replacements env) accs))" if "x \<in> set (reads_in env ws ns p)" "r \<in> set rs" "rp_id r = ob_id x" for x p r
  proof -
    have "\<not> search_note pairs r"
    proof
      assume "search_note pairs r"
      then obtain c newer where "(c, newer) \<in> set pairs" "rp_id r = tc_id (cl_call c)" by (auto simp: search_note_def)
      with no_search [OF that(1)] that(3) show False by metis
    qed
    with plan(4) [OF that(2)] show ?thesis by blast
  qed
  have conversely: "ob_id x \<in> rp_id ` set rs" if "x \<in> set (reads_in env ws ns p)"
    "?state p x = StaleResult \<or> x \<in> fst ` set (redundant_pairs (?current p))" for x p
  proof -
    have "p \<in> ac_path ` set accs" unfolding xs(3) using that(1) by (auto simp: reads_def)
    then obtain a where a: "a \<in> set accs" "ac_path a = p" by blast
    have "ob_id x \<in> rp_id ` set (read_replacements env a)"
      using that(2)
    proof
      assume "?state p x = StaleResult"
      with that(1) have "stale_replacement x \<in> set (read_replacements env a)"
        unfolding read_replacements_def reads_of [OF a(1)] a(2) by simp
      then show ?thesis by (force simp: stale_replacement_def)
    next
      assume "x \<in> fst ` set (redundant_pairs (?current p))"
      then obtain z where "(x, z) \<in> set (redundant_pairs (?current p))" by auto
      then have "redundant_replacement x z \<in> set (read_replacements env a)"
        unfolding read_replacements_def currents [OF a(1)] a(2) by force
      then show ?thesis by (force simp: redundant_replacement_def)
    qed
    then show ?thesis unfolding plan(3) using a(1) by auto
  qed
  show "sorted_wrt (\<lambda>x y. ob_seq x < ob_seq y) (reads_in env ws ns p)" by (rule sorted)
  show "x \<in> set (reads_in env ws ns p) \<longleftrightarrow> (\<exists>c. (ob_seq x, c) \<in> set (numbered_calls ns 0) \<and>
      observations_for env ws ProjectedAllowed c (ob_seq x) = Inr [x] \<and> file_read env ws c p (ob_lines x) \<and>
      ob_id x = tc_id (cl_call c) \<and> ob_path x = p)" for p x
    by (rule iffI, rule origin, assumption) (elim exE conjE, rule member)
  show "\<exists>x \<in> set (reads_in env ws ns p). (ob_seq x, c) \<in> set (numbered_calls ns 0) \<and> ob_lines x = ls \<and> ob_id x = tc_id (cl_call c)"
    if c: "c \<in> set (visible_calls ns)" "file_read env ws c p ls" for c p ls
  proof -
    obtain n where n: "(n, c) \<in> set (numbered_calls ns 0)" using visible_numbered [OF c(1)] by blast
    obtain ys where ys: "observations_for env ws ProjectedAllowed c n = Inr ys" using observed_each [OF xs(1) n] by blast
    obtain x where x: "ys = [x]" "ob_id x = tc_id (cl_call c)" "ob_tool x = ''read_file''" "ob_seq x = n" "ob_path x = p"
      "ob_lines x = ls" by (rule read_observes [OF c(2) ys])
    have "x \<in> set (reads_in env ws ns p)" using ys x by (intro member [OF n _ c(2)]) simp_all
    with x n show ?thesis by (intro bexI [of _ x]) simp_all
  qed
  show "ob_id x \<in> rp_id ` set rs \<longleftrightarrow> ?state p x = StaleResult \<or> x \<in> fst ` set (redundant_pairs (?current p))"
    if x: "x \<in> set (reads_in env ws ns p)" for p x
  proof
    assume "ob_id x \<in> rp_id ` set rs"
    then obtain r where r: "r \<in> set rs" "rp_id r = ob_id x" by auto
    from replaced [OF x whole [OF x r] r(2)]
    show "?state p x = StaleResult \<or> x \<in> fst ` set (redundant_pairs (?current p))" by force
  qed (rule conversely [OF x])
  show "rp_reason r = StaleObservation \<longleftrightarrow> ?state p x = StaleResult"
    if x: "x \<in> set (reads_in env ws ns p)" "r \<in> set rs" "rp_id r = ob_id x" for p x r
    using replaced [OF x(1) whole [OF x] x(3)]
  proof (elim disjE conjE exE)
    fix z assume z: "(x, z) \<in> set (redundant_pairs (?current p))" "r = redundant_replacement x z"
    have "?state p x = CurrentResult" using redundant_pairs_in [OF sorted_wrt_filter [OF sorted] z(1)] by simp
    with z(2) show ?thesis by (simp add: redundant_replacement_def)
  qed (simp add: stale_replacement_def)
qed

text \<open>Current reads of a file after a given call, as observations and as calls.\<close>

lemma covering_reads:
  assumes plan: "plan_replacements env ws policy ns = Inr rs"
    and ids: "distinct (map (\<lambda>c. tc_id (cl_call c)) (visible_calls ns))"
    and x: "(ob_seq x, c) \<in> set (numbered_calls ns 0)"
  shows "(\<exists>y \<in> set (reads_in env ws ns p). observation_state (fo_live env p) (ob_lines y) = CurrentResult \<and>
      ob_seq x < ob_seq y \<and> set ls \<subseteq> set (ob_lines y)) \<longleftrightarrow>
    (\<exists>d ms. ms \<noteq> [] \<and> later_call ns c d \<and> file_read env ws d p ms \<and> set ls \<subseteq> set ms \<and> (\<forall>l \<in> set ms. live_line env p l))"
proof
  assume "\<exists>y \<in> set (reads_in env ws ns p). observation_state (fo_live env p) (ob_lines y) = CurrentResult \<and>
    ob_seq x < ob_seq y \<and> set ls \<subseteq> set (ob_lines y)"
  then obtain y where y: "y \<in> set (reads_in env ws ns p)" "observation_state (fo_live env p) (ob_lines y) = CurrentResult"
    "ob_seq x < ob_seq y" "set ls \<subseteq> set (ob_lines y)" by blast
  obtain d where d: "(ob_seq y, d) \<in> set (numbered_calls ns 0)" "file_read env ws d p (ob_lines y)"
    using y(1) plan_of_read(2) [OF plan ids] by blast
  from later_numbered [OF x d(1) y(3)] d(2) y(2,4)
  show "\<exists>d ms. ms \<noteq> [] \<and> later_call ns c d \<and> file_read env ws d p ms \<and> set ls \<subseteq> set ms \<and> (\<forall>l \<in> set ms. live_line env p l)"
    unfolding current_iff by blast
next
  assume "\<exists>d ms. ms \<noteq> [] \<and> later_call ns c d \<and> file_read env ws d p ms \<and> set ls \<subseteq> set ms \<and> (\<forall>l \<in> set ms. live_line env p l)"
  then obtain d ms where d: "ms \<noteq> []" "later_call ns c d" "file_read env ws d p ms" "set ls \<subseteq> set ms"
    "\<forall>l \<in> set ms. live_line env p l" by blast
  obtain n m where nm: "(n, c) \<in> set (numbered_calls ns 0)" "(m, d) \<in> set (numbered_calls ns 0)" "n < m"
    by (rule later_numbers [OF d(2)])
  have "d \<in> set (visible_calls ns)" using nm(2) unfolding numbered_visible [of ns 0, symmetric] by force
  from plan_of_read(3) [OF plan ids this d(3)] obtain y where y: "y \<in> set (reads_in env ws ns p)" "(ob_seq y, d) \<in> set (numbered_calls ns 0)"
    "ob_lines y = ms" by blast
  have "ob_seq x < ob_seq y"
    using same_number [OF ids nm(1) x] same_number [OF ids nm(2) y(2)] nm(3) by simp
  with y d(1,4,5) show "\<exists>y \<in> set (reads_in env ws ns p). observation_state (fo_live env p) (ob_lines y) = CurrentResult \<and>
    ob_seq x < ob_seq y \<and> set ls \<subseteq> set (ob_lines y)"
    unfolding current_iff by blast
qed

lemma covered_lines:
  "ls \<noteq> [] \<and> (\<forall>l \<in> set ls. P l) \<and>
     (\<exists>d ms. ms \<noteq> [] \<and> Q d \<and> R d ms \<and> set ls \<subseteq> set ms \<and> (\<forall>l \<in> set ms. P l)) \<longleftrightarrow>
   ls \<noteq> [] \<and> (\<exists>d ms. Q d \<and> R d ms \<and> set ls \<subseteq> set ms \<and> (\<forall>l \<in> set ms. P l))" (is "?a \<longleftrightarrow> ?b")
proof
  assume ?b
  then obtain d ms where "ls \<noteq> []" "Q d" "R d ms" "set ls \<subseteq> set ms" "\<forall>l \<in> set ms. P l" by blast
  moreover from this have "ms \<noteq> []" by auto
  ultimately show ?a by blast
qed blast

section \<open>A history of three reads\<close>

definition example_read :: "string \<Rightarrow> string \<Rightarrow> call_node" where
  "example_read i content =
     \<lparr>cl_call = \<lparr>tc_id = i, tc_name = ''read_file'', tc_arguments = ''{}''\<rparr>,
      cl_result = \<lparr>tr_id = i, tr_content = content, tr_error = False, tr_statuses = {}\<rparr>,
      cl_collapsed = False, cl_salience = 0, cl_class = FileRead\<rparr>"

definition example_reads :: "history_node list" where
  "example_reads = [Turn \<lparr>tn_content = [], tn_calls = [example_read ''1'' ''1| one'', example_read ''2'' (''1| one'' @ lf @ ''2| two''),
     example_read ''3'' ''2| three''], tn_advisories = [], tn_collapsed = False, tn_salience = 0\<rparr>]"

lemma example_plan:
  "(case plan_replacements example_fold (Some [''w'']) ExactDuplicateOnly example_reads of
      Inr rs \<Rightarrow> map (\<lambda>r. (rp_id r, rp_reason r)) rs
    | Inl _ \<Rightarrow> []) = [(''1'', RedundantObservation), (''3'', StaleObservation)]"
  by code_simp

lemma example_calls:
  "visible_calls example_reads = [example_read ''1'' ''1| one'', example_read ''2'' (''1| one'' @ lf @ ''2| two''),
     example_read ''3'' ''2| three'']"
  by (simp add: visible_calls_def example_reads_def example_read_def)

lemma example_ids: "distinct (map (\<lambda>c. tc_id (cl_call c)) (visible_calls example_reads))"
  by (simp add: example_calls example_read_def)

lemma example_lines:
  "file_read example_fold (Some [''w'']) (example_read ''1'' ''1| one'') [''w'', ''a''] [(1, ''one'')]"
  "file_read example_fold (Some [''w'']) (example_read ''2'' (''1| one'' @ lf @ ''2| two'')) [''w'', ''a''] [(1, ''one''), (2, ''two'')]"
  "live_line example_fold [''w'', ''a''] (1, ''one'')" "live_line example_fold [''w'', ''a''] (2, ''two'')"
  by code_simp+

lemma example_later: "later_call example_reads (example_read ''1'' ''1| one'') (example_read ''2'' (''1| one'' @ lf @ ''2| two''))"
  unfolding later_call_def example_calls by (intro exI [of _ 0] exI [of _ 1]) simp

lemma example_plan_is:
  obtains rs where "plan_replacements example_fold (Some [''w'']) ExactDuplicateOnly example_reads = Inr rs"
    "map (\<lambda>r. (rp_id r, rp_reason r)) rs = [(''1'', RedundantObservation), (''3'', StaleObservation)]"
  using example_plan by (cases "plan_replacements example_fold (Some [''w'']) ExactDuplicateOnly example_reads") auto

section \<open>Reads in a prompt\<close>

text \<open>C13: A read in the history is replaced in the prompt exactly when one of its lines is not what the file
  now has there, or when all its lines are shown by a later read whose lines all are.\<close>

theorem reads_replaced_exactly:
  assumes "plan_replacements env ws policy ns = Inr rs" "distinct (map (\<lambda>c. tc_id (cl_call c)) (visible_calls ns))"
    "c \<in> set (visible_calls ns)" "file_read env ws c p ls"
  shows "tc_id (cl_call c) \<in> rp_id ` set rs \<longleftrightarrow>
    fo_live env p \<noteq> UnknownLive \<and> (\<exists>l \<in> set ls. \<not> live_line env p l) \<or>
    ls \<noteq> [] \<and> (\<exists>d ms. later_call ns c d \<and> file_read env ws d p ms \<and> set ls \<subseteq> set ms \<and> (\<forall>l \<in> set ms. live_line env p l))"
    (is "_ \<longleftrightarrow> ?stale \<or> ?covered")
proof -
  note plan = plan_of_read [OF assms(1,2)]
  note sorted = plan(1) and origin = plan(2) and observation = plan(3) and replaced = plan(4) and reason = plan(5)
  obtain x where x: "x \<in> set (reads_in env ws ns p)" "(ob_seq x, c) \<in> set (numbered_calls ns 0)" "ob_lines x = ls" "ob_id x = tc_id (cl_call c)"
    using observation [OF assms(3,4)] by blast
  note covers = covering_reads [OF assms(1,2) x(2), of p ls]
  have mem: "x \<in> fst ` set (redundant_pairs (filter (\<lambda>x. observation_state (fo_live env p) (ob_lines x) = CurrentResult)
        (reads_in env ws ns p))) \<longleftrightarrow>
      observation_state (fo_live env p) ls = CurrentResult \<and>
      (\<exists>y \<in> set (reads_in env ws ns p). observation_state (fo_live env p) (ob_lines y) = CurrentResult \<and>
        ob_seq x < ob_seq y \<and> set ls \<subseteq> set (ob_lines y))"
    unfolding redundant_first [OF sorted_wrt_filter [OF sorted]] set_filter using x(1,3) by blast
  have "tc_id (cl_call c) \<in> rp_id ` set rs \<longleftrightarrow> ?stale \<or>
      observation_state (fo_live env p) ls = CurrentResult \<and>
      (\<exists>y \<in> set (reads_in env ws ns p). observation_state (fo_live env p) (ob_lines y) = CurrentResult \<and>
        ob_seq x < ob_seq y \<and> set ls \<subseteq> set (ob_lines y))"
    using replaced [OF x(1)] unfolding x(4) mem stale_iff x(3) .
  also have "\<dots> \<longleftrightarrow> ?stale \<or> ?covered"
    unfolding covers unfolding current_iff by (simp only: conj_assoc covered_lines)
  finally show ?thesis .
qed

theorem reads_replaced_exactly_witness:
  "\<exists>rs. plan_replacements example_fold (Some [''w'']) ExactDuplicateOnly example_reads = Inr rs \<and> ''1'' \<in> rp_id ` set rs"
proof -
  obtain rs where rs: "plan_replacements example_fold (Some [''w'']) ExactDuplicateOnly example_reads = Inr rs"
    by (rule example_plan_is)
  have "tc_id (cl_call (example_read ''1'' ''1| one'')) \<in> rp_id ` set rs"
    unfolding reads_replaced_exactly [OF rs example_ids _ example_lines(1), unfolded example_calls, OF list.set_intros(1)]
    using example_later example_lines(2-4) by (intro disjI2 conjI exI) auto
  with rs show ?thesis by (auto simp: example_read_def)
qed

text \<open>C12: A read that is replaced as redundant is of lines that the file still has, and a later read of the
  same file that is not replaced shows all of them; any other replaced read has a line that the file no
  longer has.\<close>

theorem replaced_reads_stay_visible:
  assumes "plan_replacements env ws policy ns = Inr rs" "distinct (map (\<lambda>c. tc_id (cl_call c)) (visible_calls ns))"
    "c \<in> set (visible_calls ns)" "file_read env ws c p ls" "r \<in> set rs" "rp_id r = tc_id (cl_call c)"
  shows "if rp_reason r = StaleObservation then \<exists>l \<in> set ls. \<not> live_line env p l
    else \<exists>d ms. later_call ns c d \<and> file_read env ws d p ms \<and> set ls \<subseteq> set ms \<and> list_all (live_line env p) ms \<and>
      tc_id (cl_call d) \<notin> rp_id ` set rs"
proof -
  note plan = plan_of_read [OF assms(1,2)]
  note sorted = plan(1) and origin = plan(2) and observation = plan(3) and replaced = plan(4) and reason = plan(5)
  let ?current = "filter (\<lambda>x. observation_state (fo_live env p) (ob_lines x) = CurrentResult) (reads_in env ws ns p)"
  obtain x where x: "x \<in> set (reads_in env ws ns p)" "(ob_seq x, c) \<in> set (numbered_calls ns 0)" "ob_lines x = ls" "ob_id x = tc_id (cl_call c)"
    using observation [OF assms(3,4)] by blast
  note why = reason [OF x(1) assms(5), unfolded x(4), OF assms(6)]
  show ?thesis
  proof (cases "rp_reason r = StaleObservation")
    case True
    with why show ?thesis unfolding stale_iff x(3) by simp
  next
    case False
    have "ob_id x \<in> rp_id ` set rs" using assms(5,6) x(4) by (metis imageI)
    with False why have "x \<in> fst ` set (redundant_pairs ?current)" using replaced [OF x(1)] by blast
    then obtain y where y: "y \<in> set ?current" "ob_seq x < ob_seq y" "set (ob_lines x) \<subseteq> set (ob_lines y)"
      "y \<notin> fst ` set (redundant_pairs ?current)"
      by (rule chain_ends [OF sorted_wrt_filter [OF sorted]])
    then have mem: "y \<in> set (reads_in env ws ns p)" "observation_state (fo_live env p) (ob_lines y) = CurrentResult" by simp_all
    obtain d where d: "(ob_seq y, d) \<in> set (numbered_calls ns 0)" "file_read env ws d p (ob_lines y)" "ob_id y = tc_id (cl_call d)"
      using mem(1) origin by blast
    have "tc_id (cl_call d) \<notin> rp_id ` set rs"
      using replaced [OF mem(1)] mem(2) y(4) unfolding d(3) by simp
    moreover have "list_all (live_line env p) (ob_lines y)" using mem(2) unfolding current_iff list_all_iff by blast
    ultimately show ?thesis
      using False later_numbered [OF x(2) d(1) y(2)] d(2) y(3) unfolding x(3) by auto
  qed
qed

theorem replaced_reads_stay_visible_witness:
  "\<exists>d ms. file_read example_fold (Some [''w'']) d [''w'', ''a''] ms \<and> (1, ''one'') \<in> set ms"
proof -
  obtain rs where rs: "plan_replacements example_fold (Some [''w'']) ExactDuplicateOnly example_reads = Inr rs"
    "map (\<lambda>r. (rp_id r, rp_reason r)) rs = [(''1'', RedundantObservation), (''3'', StaleObservation)]"
    by (rule example_plan_is)
  obtain r us where "rs = r # us" "rp_id r = ''1''" "rp_reason r = RedundantObservation" using rs(2) by (cases rs) auto
  then have r: "r \<in> set rs" "rp_id r = tc_id (cl_call (example_read ''1'' ''1| one''))"
    "rp_reason r = RedundantObservation" by (simp_all add: example_read_def)
  have "example_read ''1'' ''1| one'' \<in> set (visible_calls example_reads)" by (simp add: example_calls)
  from replaced_reads_stay_visible [OF rs(1) example_ids this example_lines(1) r(1,2)] r(3) show ?thesis by auto
qed

text \<open>Of three reads that each repeat the one before, the note for the first says that its lines are
  retained by the second, whose result is left out as well.\<close>

definition example_chain :: "history_node list" where
  "example_chain = [Turn \<lparr>tn_content = [], tn_calls = map (\<lambda>i. example_read [i] ''1| one'') ''123'',
     tn_advisories = [], tn_collapsed = False, tn_salience = 0\<rparr>]"

theorem note_names_an_omitted_result:
  "(case plan_replacements example_fold (Some [''w'']) ExactDuplicateOnly example_chain of
      Inr rs \<Rightarrow> map (\<lambda>r. (rp_id r, rp_superseding r)) rs
    | Inl _ \<Rightarrow> []) = [(''1'', Some ''2''), (''2'', Some ''3'')]"
  by code_simp

end
