(* ===== verification/Rendering_Laws.thy ===== *)
theory Rendering_Laws
  imports Housekeeping_Laws Folding_Laws Replacement_Laws
begin

text \<open>
  The messages of a rendered history: their order under any plan, the plain rendering as the case
  without a plan, and where the results that are folded away can be seen.
\<close>

section \<open>The order of the messages\<close>

text \<open>A record for the results and requests that a plan rewrites: their ids stay.\<close>

lemma plan_ids:
  "tc_id (plan_tool_call env plan c) = tc_id (cl_call c)"
  "result_with_plan env plan c = Inr r \<Longrightarrow> tr_id r = tr_id (cl_result c)"
  by (auto simp: plan_tool_call_def render_tool_call_def result_with_plan_def render_result_def split: if_splits)

lemma tool_result_id:
  "render_tool_result env ws plan folded c b = Inr (r, b') \<Longrightarrow> tr_id r = tr_id (cl_result c)"
  by (auto simp: render_tool_result_def plan_ids(2) split: option.splits if_splits)

lemma tool_results_ids:
  "render_tool_results env ws plan folded cs b = Inr (rs, b') \<Longrightarrow>
     map tr_id rs = map (\<lambda>c. tr_id (cl_result c)) cs"
  by (induction cs arbitrary: b rs) (auto simp: tool_result_id)

lemma turn_sequenced:
  assumes "render_turn_plan env ws plan folded i t b = Inr (ms, b')" "matched (Turn t)"
  shows "well_sequenced (ms @ rest) [] = well_sequenced rest []"
proof -
  have ids: "tr_id (cl_result c) = tc_id (cl_call c)" if "c \<in> set (tn_calls t)" for c
    using assms(2) that by (simp add: matched_def turn_calls_def)
  consider "ms = [AssistantMessage (turn_summary (fo_history env) t) []]" | "ms = render_turn (fo_history env) t"
    | rs where "render_tool_results env ws plan folded (tn_calls t) b = Inr (rs, b')"
      "ms = AssistantMessage (tn_content t) (map (plan_tool_call env plan) (tn_calls t)) #
        map ToolResult (with_advisories (render_advisories t) rs)"
    using assms(1) by (auto simp: render_turn_plan_def Let_def split: if_splits)
  then show ?thesis
  proof cases
    case 2
    with rendered_node_sequenced [OF assms(2), of "fo_history env" rest] show ?thesis by simp
  next
    case (3 rs)
    have "map tr_id (with_advisories (render_advisories t) rs) = map tc_id (map (plan_tool_call env plan) (tn_calls t))"
      using ids by (simp add: with_advisories_ids tool_results_ids [OF 3(1)] plan_ids(1))
    with 3(2) show ?thesis by (simp add: results_sequenced)
  qed simp
qed

lemma nodes_sequenced:
  "render_plan_nodes env ws plan folded xs b = Inr (ms, b') \<Longrightarrow> \<forall>(i, n) \<in> set xs. matched n \<Longrightarrow>
     well_sequenced (ms @ rest) [] = well_sequenced rest []"
proof (induction xs arbitrary: b ms)
  case (Cons q xs)
  obtain i x where q: "q = (i, x)" by (cases q)
  with Cons.prems(1) obtain ms1 b1 ms2 where m: "(case x of Turn t \<Rightarrow> render_turn_plan env ws plan folded i t b
      | _ \<Rightarrow> Inr (render_node (fo_history env) x, b)) = Inr (ms1, b1)"
    "render_plan_nodes env ws plan folded xs b1 = Inr (ms2, b')" "ms = ms1 @ ms2" by auto
  have "matched x" using Cons.prems(2) q by simp
  then have "well_sequenced (ms1 @ ms2 @ rest) [] = well_sequenced (ms2 @ rest) []"
    using m(1) rendered_node_sequenced [of x "fo_history env"] turn_sequenced by (cases x) auto
  with Cons.IH [OF m(2)] Cons.prems(2) m(3) show ?case by simp
qed simp

lemma enumerate_nodes: "(\<forall>(i, n) \<in> set (enumerate k ns). P n) \<longleftrightarrow> (\<forall>n \<in> set ns. P n)"
  by (metis (no_types, lifting) case_prod_unfold imageE image_eqI list.set_map map_snd_enumerate)

text \<open>A rendering gives the messages of the nodes, then perhaps the folded files.\<close>

definition newest_calls :: "render_plan \<Rightarrow> history_node list \<Rightarrow> string set" where
  "newest_calls plan ns = newest_file_calls plan (rev (enumerate 0 ns))"

definition fold_candidates :: "render_plan \<Rightarrow> history_node list \<Rightarrow> accumulator list \<Rightarrow> accumulator list" where
  "fold_candidates plan ns accs = filter (should_fold (pl_mode plan) (newest_calls plan ns)) accs"

definition protected_calls :: "fold_env \<Rightarrow> render_plan \<Rightarrow> history_node list \<Rightarrow> accumulator list \<Rightarrow> string set" where
  "protected_calls env plan ns accs =
     newest_calls plan ns \<union> pl_protected plan -
       stale_protected env (newest_calls plan ns \<union> pl_protected plan) (fold_candidates plan ns accs)"

definition folding_sections :: "string list \<Rightarrow> (accumulator \<times> folded_context) list \<Rightarrow> folded_context list" where
  "folding_sections folded contexts = map snd (filter (\<lambda>(a, s). list_ex (\<lambda>x. ob_id x \<in> set folded) (read_search a)) contexts)"

lemma if_or: "(if a then u else if b then u else v) = (if a \<or> b then u else v)"
  by simp

lemma render_folding:
  "render_with_visibility env ws plan ns =
     rbind (collect_file_context env ws plan (if pl_mode plan = LegacyMinimum then LegacyReadable else ProjectedReadable) ns)
       (\<lambda>accs.
         let contexts = select_contexts env (fold_candidates plan ns accs);
             folded = foldable_calls (fold_candidates plan ns accs) (map fst contexts) (protected_calls env plan ns accs)
         in if fold_candidates plan ns accs = [] \<or> folded = [] then render_unfolded env ws plan ns
            else rbind (render_plan_nodes env ws plan folded (enumerate 0 ns) empty_snapshot) (\<lambda>(ms, b).
              let text = join_contexts (map fc_text (folding_sections folded contexts))
              in Inr \<lparr>rh_messages = ms @ (if text = [] then [] else [UserMessage text]),
                      rh_visibility = fold (record_context env) (folding_sections folded contexts) b, rh_folded = folded\<rparr>))"
  unfolding render_with_visibility_def Let_def fold_candidates_def protected_calls_def folding_sections_def newest_calls_def
    if_or ..

lemma rendering_cases:
  assumes "render_with_visibility env ws plan ns = Inr h"
  obtains (plain) b where "render_plan_nodes env ws plan [] (enumerate 0 ns) empty_snapshot = Inr (rh_messages h, b)"
      "rh_folded h = []"
  | (folding) ms b accs contexts where
      "collect_file_context env ws plan (if pl_mode plan = LegacyMinimum then LegacyReadable else ProjectedReadable) ns = Inr accs"
      "contexts = select_contexts env (fold_candidates plan ns accs)"
      "rh_folded h = foldable_calls (fold_candidates plan ns accs) (map fst contexts) (protected_calls env plan ns accs)"
      "rh_folded h \<noteq> []"
      "render_plan_nodes env ws plan (rh_folded h) (enumerate 0 ns) empty_snapshot = Inr (ms, b)"
      "rh_messages h = ms @ (if join_contexts (map fc_text (folding_sections (rh_folded h) contexts)) = [] then []
         else [UserMessage (join_contexts (map fc_text (folding_sections (rh_folded h) contexts)))])"
      "rh_visibility h = fold (record_context env) (folding_sections (rh_folded h) contexts) b"
proof -
  obtain accs where accs: "collect_file_context env ws plan (if pl_mode plan = LegacyMinimum then LegacyReadable else ProjectedReadable) ns = Inr accs"
    using assms unfolding render_folding rbind_eq_Inr by blast
  define contexts where "contexts = select_contexts env (fold_candidates plan ns accs)"
  define folded where "folded = foldable_calls (fold_candidates plan ns accs) (map fst contexts) (protected_calls env plan ns accs)"
  note body = assms [unfolded render_folding accs rbind.simps Let_def, folded contexts_def, folded folded_def]
  show ?thesis
  proof (cases "fold_candidates plan ns accs = [] \<or> folded = []")
    case True
    with body have "render_unfolded env ws plan ns = Inr h" by simp
    then show ?thesis by (auto simp: render_unfolded_def intro: plain)
  next
    case False
    with body obtain ms b where m: "render_plan_nodes env ws plan folded (enumerate 0 ns) empty_snapshot = Inr (ms, b)"
      "h = \<lparr>rh_messages = ms @ (if join_contexts (map fc_text (folding_sections folded contexts)) = [] then []
         else [UserMessage (join_contexts (map fc_text (folding_sections folded contexts)))]),
         rh_visibility = fold (record_context env) (folding_sections folded contexts) b, rh_folded = folded\<rparr>"
      by auto
    show ?thesis
      by (rule folding [OF accs contexts_def, of ms b]) (use m False in \<open>simp_all add: folded_def\<close>)
  qed
qed

section \<open>Rendering the history of three reads\<close>

definition example_folding :: render_plan where
  "example_folding = plain_plan\<lparr>pl_mode := FoldOlderSingle\<rparr>"

lemma example_rendered:
  "(case render_with_visibility example_fold (Some [''w'']) example_folding example_reads of
      Inr h \<Rightarrow> rh_folded h | Inl _ \<Rightarrow> []) = [''3'']"
  by code_simp

lemma example_rendering:
  obtains h where "render_with_visibility example_fold (Some [''w'']) example_folding example_reads = Inr h" "''3'' \<in> set (rh_folded h)"
  using example_rendered
  by (cases "render_with_visibility example_fold (Some [''w'']) example_folding example_reads") auto

lemma example_matched: "list_all matched example_reads"
  by (simp add: example_reads_def example_read_def matched_def turn_calls_def)

text \<open>C17: Whatever the plan collapses, replaces or folds, the messages of a rendered history whose results
  match their calls give after each message of the agent the results of its calls, in order, before
  any other message.\<close>

theorem projected_prompt_is_well_sequenced:
  assumes "render_with_visibility env ws plan ns = Inr h" "list_all matched ns"
  shows "well_sequenced (rh_messages h) []"
proof -
  have ok: "well_sequenced (ms @ rest) [] = well_sequenced rest []"
    if "render_plan_nodes env ws plan folded (enumerate 0 ns) b = Inr (ms, b')" for ms rest folded b b'
    using nodes_sequenced [OF that] assms(2) by (simp add: enumerate_nodes list_all_iff)
  from assms(1) show ?thesis
  proof (cases rule: rendering_cases)
    case (plain b)
    from ok [OF plain(1), of "[]"] show ?thesis by simp
  next
    case (folding ms b accs contexts)
    from ok [OF folding(5)] show ?thesis by (simp add: folding(6))
  qed
qed

theorem projected_prompt_is_well_sequenced_witness:
  "\<exists>h. render_with_visibility example_fold (Some [''w'']) example_folding example_reads = Inr h \<and> well_sequenced (rh_messages h) []"
proof -
  obtain h where h: "render_with_visibility example_fold (Some [''w'']) example_folding example_reads = Inr h"
    by (rule example_rendering)
  from projected_prompt_is_well_sequenced [OF h example_matched] h show ?thesis by blast
qed

section \<open>Plain renderings\<close>

lemma plain_calls [simp]: "projected_call plain_plan [] c = False"
  by (simp add: projected_call_def plain_plan_def replacement_for_def)

lemma plain_turn:
  "render_turn_plan env ws plain_plan [] i t b = Inr (ms, b') \<Longrightarrow> ms = render_turn (fo_history env) t"
proof -
  have "list_ex (projected_call plain_plan []) cs = False" for cs by (induction cs) simp_all
  moreover have "i \<notin> pl_turns plain_plan" by (simp add: plain_plan_def)
  ultimately show "render_turn_plan env ws plain_plan [] i t b = Inr (ms, b') \<Longrightarrow> ms = render_turn (fo_history env) t"
    by (auto simp: render_turn_plan_def render_turn_def Let_def split: if_splits)
qed

lemma plain_nodes:
  "render_plan_nodes env ws plain_plan [] (enumerate k ns) b = Inr (ms, b') \<Longrightarrow>
     ms = concat (map (render_node (fo_history env)) ns)"
proof (induction ns arbitrary: k b ms)
  case (Cons x ns)
  then obtain ms1 b1 ms2 where m: "(case x of Turn t \<Rightarrow> render_turn_plan env ws plain_plan [] k t b
      | _ \<Rightarrow> Inr (render_node (fo_history env) x, b)) = Inr (ms1, b1)"
    "render_plan_nodes env ws plain_plan [] (enumerate (Suc k) ns) b1 = Inr (ms2, b')" "ms = ms1 @ ms2" by auto
  have "ms1 = render_node (fo_history env) x" using m(1) plain_turn by (cases x) auto
  with Cons.IH [OF m(2)] m(3) show ?case by simp
qed simp

text \<open>C18: Without a plan, a history of which nothing is folded is rendered as the messages of its nodes.\<close>

theorem plain_rendering:
  assumes "render_with_visibility env ws plain_plan ns = Inr h" "rh_folded h = []"
  shows "rh_messages h = concat (map (render_node (fo_history env)) ns)"
  using assms(1)
proof (cases rule: rendering_cases)
  case (plain b)
  from plain_nodes [OF plain(1)] show ?thesis .
next
  case (folding ms b accs contexts)
  with assms(2) show ?thesis by simp
qed

lemma example_plain:
  "(case render_with_visibility example_fold (Some [''w'']) plain_plan example_reads of
      Inr h \<Rightarrow> rh_folded h = [] | Inl _ \<Rightarrow> False)"
  by code_simp

theorem plain_rendering_witness:
  "\<exists>h. render_with_visibility example_fold (Some [''w'']) plain_plan example_reads = Inr h \<and>
    rh_messages h = concat (map (render_node (fo_history example_fold)) example_reads)"
proof -
  obtain h where h: "render_with_visibility example_fold (Some [''w'']) plain_plan example_reads = Inr h" "rh_folded h = []"
    using example_plain by (cases "render_with_visibility example_fold (Some [''w'']) plain_plan example_reads") auto
  from plain_rendering [OF h] h(1) show ?thesis by blast
qed

section \<open>The files of a call\<close>

definition grouped :: "(string \<times> path list) list \<Rightarrow> (string \<times> path) set \<Rightarrow> bool" where
  "grouped m S \<longleftrightarrow> distinct (map fst m) \<and> (\<forall>(i, ps) \<in> set m. ps \<noteq> [] \<and> set ps = {p. (i, p) \<in> S}) \<and> fst ` S = fst ` set m"

lemma grouped_add:
  assumes "grouped m S"
  shows "grouped (dict_set i (List.insert p (case map_of m i of None \<Rightarrow> [] | Some ps \<Rightarrow> ps)) m) (insert (i, p) S)"
proof -
  let ?ps = "List.insert p (case map_of m i of None \<Rightarrow> [] | Some ps \<Rightarrow> ps)"
  have d: "distinct (map fst m)" using assms by (simp add: grouped_def)
  have new: "set ?ps = {q. (i, q) \<in> insert (i, p) S}"
  proof (cases "map_of m i")
    case None
    then have "i \<notin> fst ` S" using assms by (simp add: grouped_def map_of_eq_None_iff)
    with None show ?thesis by force
  next
    case (Some ps)
    then have "(i, ps) \<in> set m" by (rule map_of_SomeD)
    with assms have "set ps = {q. (i, q) \<in> S}" unfolding grouped_def by blast
    with Some show ?thesis by auto
  qed
  have keep: "qs \<noteq> [] \<and> set qs = {q. (j, q) \<in> insert (i, p) S}" if "(j, qs) \<in> set (dict_set i ?ps m)" for j qs
  proof -
    have "map_of (dict_set i ?ps m) j = Some qs" using that d by (intro map_of_is_SomeI distinct_dict_set)
    then consider "j = i" "qs = ?ps" | "j \<noteq> i" "(j, qs) \<in> set m" by (auto split: if_splits dest: map_of_SomeD)
    then show ?thesis
    proof cases
      case 1
      then show ?thesis using new by (metis insertI1 empty_iff list.set(1) mem_Collect_eq)
    next
      case 2
      then have "qs \<noteq> [] \<and> set qs = {q. (j, q) \<in> S}" using assms unfolding grouped_def by blast
      with 2(1) show ?thesis by simp
    qed
  qed
  show ?thesis unfolding grouped_def
  proof (intro conjI)
    show "fst ` insert (i, p) S = fst ` set (dict_set i ?ps m)" using assms by (simp add: grouped_def dict_set_fst)
    show "distinct (map fst (dict_set i ?ps m))" using d by (rule distinct_dict_set)
    show "\<forall>(j, qs) \<in> set (dict_set i ?ps m). qs \<noteq> [] \<and> set qs = {q. (j, q) \<in> insert (i, p) S}" using keep by blast
  qed
qed

lemma paths_grouped: "grouped (paths_of_calls accs) {(ob_id x, ac_path a) | x a. a \<in> set accs \<and> x \<in> set (read_search a)}"
proof -
  let ?f = "\<lambda>(i, p) m. dict_set i (List.insert p (case map_of m i of None \<Rightarrow> [] | Some ps \<Rightarrow> ps)) m"
  have step: "grouped m S \<Longrightarrow> grouped (fold ?f qs m) (set qs \<union> S)" for qs m S
  proof (induction qs arbitrary: m S)
    case (Cons q qs)
    obtain i p where q: "q = (i, p)" by (cases q)
    from Cons.IH [OF grouped_add [OF Cons.prems, of i p]] show ?case by (simp add: q)
  qed simp
  have "grouped [] {}" by (simp add: grouped_def)
  note step [OF this, of "concat (map (\<lambda>a. map (\<lambda>x. (ob_id x, ac_path a)) (read_search a)) accs)"]
  moreover have "set (concat (map (\<lambda>a. map (\<lambda>x. (ob_id x, ac_path a)) (read_search a)) accs)) \<union> {} =
    {(ob_id x, ac_path a) | x a. a \<in> set accs \<and> x \<in> set (read_search a)}" by auto
  ultimately show ?thesis unfolding paths_of_calls_def by simp
qed

lemma foldable:
  "i \<in> set (foldable_calls candidates selected protected) \<Longrightarrow>
     i \<notin> protected \<and> (\<exists>a \<in> set candidates. i \<in> ob_id ` set (read_search a)) \<and>
     (\<forall>a \<in> set candidates. i \<in> ob_id ` set (read_search a) \<longrightarrow> ac_path a \<in> ac_path ` set selected)"
proof -
  assume "i \<in> set (foldable_calls candidates selected protected)"
  then obtain ps where ps: "(i, ps) \<in> set (paths_of_calls candidates)" "set ps \<subseteq> ac_path ` set selected" "i \<notin> protected"
    by (auto simp: foldable_calls_def)
  from ps(1) paths_grouped [of candidates] have "ps \<noteq> []" and
    paths: "set ps = {p. (i, p) \<in> {(ob_id x, ac_path a) | x a. a \<in> set candidates \<and> x \<in> set (read_search a)}}"
    unfolding grouped_def by blast+
  then obtain p where "p \<in> set ps" by (cases ps) auto
  with paths ps(2,3) show ?thesis by blast
qed

lemma collect_calls_fold:
  "collect_calls env ws plan mode cs n m = Inr m' \<Longrightarrow> \<exists>xs. m' = fold add_observation xs m"
proof (induction cs arbitrary: n m)
  case (Cons c cs)
  show ?case
  proof (cases "call_skipped plan mode c")
    case False
    with Cons.prems obtain ys where "collect_calls env ws plan mode cs (n + 1) (fold add_observation ys m) = Inr m'" by auto
    from Cons.IH [OF this] obtain xs where "m' = fold add_observation (ys @ xs) m" by auto
    then show ?thesis by blast
  qed (use Cons in simp)
qed (auto intro: exI [of _ "[]"])

lemma collect_nodes_fold:
  "collect_nodes env ws plan mode xs n m = Inr m' \<Longrightarrow> \<exists>ys. m' = fold add_observation ys m"
proof (induction xs arbitrary: n m)
  case (Cons q xs)
  obtain i x where q: "q = (i, x)" by (cases q)
  have e: "\<exists>ys. m = fold add_observation ys m" by (intro exI [of _ "[]"]) simp
  obtain n1 m1 where step: "\<exists>ys. m1 = fold add_observation ys m" "collect_nodes env ws plan mode xs n1 m1 = Inr m'"
  proof (cases x)
    case (Turn t)
    show ?thesis
    proof (cases "i \<in> pl_turns plan \<or> mode \<noteq> LegacyReadable \<and> tn_collapsed t")
      case True
      with Cons.prems Turn q have "collect_nodes env ws plan mode xs (n + length (tn_calls t)) m = Inr m'" by simp
      then show ?thesis by (rule that [OF e])
    next
      case False
      with Cons.prems Turn q obtain m1 where "collect_calls env ws plan mode (tn_calls t) n m = Inr m1"
        "collect_nodes env ws plan mode xs (n + length (tn_calls t)) m1 = Inr m'" by auto
      with collect_calls_fold that show ?thesis by blast
    qed
  qed (use Cons.prems q that [OF e] in simp_all)
  from Cons.IH [OF step(2)] step(1) obtain ys zs where "m' = fold add_observation (ys @ zs) m" by auto
  then show ?case by blast
qed (auto intro: exI [of _ "[]"])

lemma collected_paths: "collect_file_context env ws plan mode ns = Inr accs \<Longrightarrow> distinct (map ac_path accs)"
proof -
  assume "collect_file_context env ws plan mode ns = Inr accs"
  then obtain m where m: "collect_nodes env ws plan mode (enumerate 0 ns) 0 [] = Inr m" "accs = map snd m"
    by (auto simp: collect_file_context_def)
  from collect_nodes_fold [OF m(1)] obtain xs where "m = fold add_observation xs []" by blast
  then have f: "filed m xs" using filed_fold [OF filed_Nil, of xs] by simp
  then have "ac_path (snd q) = fst q" if "q \<in> set m" for q using that unfolding filed_def by (cases q) auto
  then have "map ac_path accs = map fst m" by (simp add: m(2))
  with f show ?thesis by (simp add: filed_def)
qed

section \<open>What is folded can be seen\<close>

text \<open>The current view of a file is part of a text.\<close>

definition in_view :: "fold_env \<Rightarrow> string \<Rightarrow> accumulator \<Rightarrow> bool" where
  "in_view env note a \<longleftrightarrow> (\<exists>s before after. render_folded env a = Some s \<and> note = before @ fc_text s @ after)"

lemma join_infix: "x \<in> set xs \<Longrightarrow> \<exists>before after. py_join sep xs = before @ x @ after"
proof (induction sep xs rule: py_join.induct)
  case (2 sep y)
  then show ?case by (intro exI [of _ "[]"]) simp
next
  case (3 sep y z ys)
  show ?case
  proof (cases "x = y")
    case True
    then show ?thesis by (intro exI [of _ "[]"] exI [of _ "sep @ py_join sep (z # ys)"]) simp
  next
    case False
    with 3 obtain u v where "py_join sep (z # ys) = u @ x @ v" by auto
    then show ?thesis by (intro exI [of _ "y @ sep @ u"] exI [of _ v]) simp
  qed
qed simp

lemma contexts_in: "(a, s) \<in> set (select_contexts env candidates) \<Longrightarrow> a \<in> set candidates \<and> render_folded env a = Some s"
proof -
  assume "(a, s) \<in> set (select_contexts env candidates)"
  then have "a \<in> set (take folded_max_files (sort_key (\<lambda>a. - int (last_sequence a)) candidates)) \<and> render_folded env a = Some s"
    by (auto simp: select_contexts_def List.map_filter_def)
  then show ?thesis using set_take_subset by fastforce
qed

lemma section_shown:
  assumes "(a, s) \<in> set contexts" "i \<in> set folded" "i \<in> ob_id ` set (read_search a)"
  shows "\<exists>before after. join_contexts (map fc_text (folding_sections folded contexts)) = before @ fc_text s @ after"
    and "join_contexts (map fc_text (folding_sections folded contexts)) \<noteq> []"
proof -
  have "s \<in> set (folding_sections folded contexts)"
    using assms by (force simp: folding_sections_def list_ex_iff)
  then have m: "fc_text s \<in> set (''[Folded file context]'' # map fc_text (folding_sections folded contexts))"
    "folding_sections folded contexts \<noteq> []" by auto
  from join_infix [OF m(1), of blank_line] m(2)
  show "\<exists>before after. join_contexts (map fc_text (folding_sections folded contexts)) = before @ fc_text s @ after"
    by (simp add: join_contexts_def)
  show "join_contexts (map fc_text (folding_sections folded contexts)) \<noteq> []"
    using m(2) by (cases "folding_sections folded contexts") (simp_all add: join_contexts_def)
qed



text \<open>C16: The result of a file call of the newest turn that has any, or of a call that the plan protects, is
  folded away only when it is a read with a line that the live file does not have there.\<close>

theorem protected_results_stay_raw:
  assumes "render_with_visibility env ws plan ns = Inr h" "i \<in> set (rh_folded h)"
    "i \<in> newest_calls plan ns \<union> pl_protected plan"
  shows "\<exists>accs a x. collect_file_context env ws plan (if pl_mode plan = LegacyMinimum then LegacyReadable else ProjectedReadable) ns = Inr accs \<and>
    a \<in> set accs \<and> x \<in> set (ac_obs a) \<and> ob_id x = i \<and> ob_tool x = ''read_file'' \<and>
    (\<exists>l \<in> set (ob_lines x). \<not> live_line env (ac_path a) l)"
  using assms(1)
proof (cases rule: rendering_cases)
  case (plain b)
  with assms(2) show ?thesis by simp
next
  case (folding ms b accs contexts)
  let ?candidates = "fold_candidates plan ns accs"
  have "i \<notin> protected_calls env plan ns accs"
    using foldable [of i ?candidates "map fst contexts"] assms(2) unfolding folding(3) by blast
  with assms(3) have "i \<in> stale_protected env (newest_calls plan ns \<union> pl_protected plan) ?candidates"
    by (simp add: protected_calls_def)
  then obtain a x where a: "a \<in> set ?candidates" "x \<in> set (read_search a)" "ob_id x = i" "ob_tool x = ''read_file''"
    "returned_lines_state (case fo_live env (ac_path a) of ReadableLive ls \<Rightarrow> Some ls | _ \<Rightarrow> None) (ob_lines x) = StaleResult"
    unfolding stale_protected_def by auto
  have "observation_state (fo_live env (ac_path a)) (ob_lines x) = StaleResult"
    using a(5) by (cases "fo_live env (ac_path a)") (simp_all add: observation_state_def returned_lines_state_def)
  then have "\<exists>l \<in> set (ob_lines x). \<not> live_line env (ac_path a) l" unfolding stale_iff by blast
  with a folding(1) show ?thesis by (auto simp: fold_candidates_def read_search_def)
qed

theorem protected_results_stay_raw_witness:
  "\<exists>accs a x. collect_file_context example_fold (Some [''w'']) example_folding ProjectedReadable example_reads = Inr accs \<and>
    a \<in> set accs \<and> x \<in> set (ac_obs a) \<and> ob_id x = ''3'' \<and> (\<exists>l \<in> set (ob_lines x). \<not> live_line example_fold (ac_path a) l)"
proof -
  obtain h where h: "render_with_visibility example_fold (Some [''w'']) example_folding example_reads = Inr h" "''3'' \<in> set (rh_folded h)"
    by (rule example_rendering)
  have newest: "''3'' \<in> newest_calls example_folding example_reads \<union> pl_protected example_folding" by code_simp
  have mode: "(if pl_mode example_folding = LegacyMinimum then LegacyReadable else ProjectedReadable) = ProjectedReadable"
    by (simp add: example_folding_def)
  show ?thesis using protected_results_stay_raw [OF h newest] unfolding mode by blast
qed

end
