(* ===== verification/Ledger_Laws.thy ===== *)
theory Ledger_Laws
  imports Context_Ledger Rendering_Laws
begin

text \<open>
  The account that a projection for the provider keeps: its balance, what it may collapse and when, and the
  budgets it works to.
\<close>

section \<open>Balance\<close>

lemma chain_append:
  "chain_end n es = Some k \<Longrightarrow> chain_end n (es @ [e]) = (if entry_before e = k then Some (entry_after e) else None)"
  by (induction es arbitrary: n) (auto split: if_splits)

lemma chain_balance:
  "chain_end n es = Some k \<Longrightarrow> n + sum_list (map entry_growth es) = k + sum_list (map entry_savings es)"
proof (induction es arbitrary: n)
  case (Cons e es)
  then have "n = entry_before e" "entry_after e + sum_list (map entry_growth es) = k + sum_list (map entry_savings es)"
    by (auto split: if_splits)
  moreover have "entry_before e + entry_growth e = entry_after e + entry_savings e"
    by (simp add: entry_growth_def entry_savings_def)
  ultimately show ?case by simp
qed simp

text \<open>A projection whose messages are those of its plan and whose entries lead from the baseline to its tokens.\<close>

definition accounted :: "fold_env \<Rightarrow> path option \<Rightarrow> history_node list \<Rightarrow> nat \<Rightarrow> projection \<Rightarrow> bool" where
  "accounted env ws ns baseline p \<longleftrightarrow>
     render_with_visibility env ws (pj_plan p) ns = Inr (pj_rendered p) \<and>
     pj_tokens p = provider_tokens (rh_messages (pj_rendered p)) \<and>
     chain_end baseline (pj_entries p) = Some (pj_tokens p)"

lemma accounted_extend:
  "accounted env ws ns baseline p \<Longrightarrow> render_with_visibility env ws plan ns = Inr h \<Longrightarrow>
   entry_before e = pj_tokens p \<Longrightarrow> entry_after e = provider_tokens (rh_messages h) \<Longrightarrow>
   accounted env ws ns baseline \<lparr>pj_plan = plan, pj_rendered = h, pj_tokens = provider_tokens (rh_messages h),
     pj_entries = pj_entries p @ [e]\<rparr>"
  by (simp add: accounted_def chain_append)

lemma replacement_entry_ends [simp]:
  "entry_before (replacement_entry ns r before after) = before" "entry_after (replacement_entry ns r before after) = after"
  by (simp_all add: replacement_entry_def)

lemma candidate_entry_ends [simp]:
  "entry_before (candidate_entry c before after) = before" "entry_after (candidate_entry c before after) = after"
  by (cases c; simp)+

lemma replace_accounted:
  "replace_results env ws ns rs p = Inr q \<Longrightarrow> accounted env ws ns baseline p \<Longrightarrow> accounted env ws ns baseline q"
proof (induction rs arbitrary: p)
  case (Cons r rs)
  then obtain h where h: "render_with_visibility env ws ((pj_plan p)\<lparr>pl_replacements := pl_replacements (pj_plan p) @ [r]\<rparr>) ns = Inr h"
    "replace_results env ws ns rs
      \<lparr>pj_plan = (pj_plan p)\<lparr>pl_replacements := pl_replacements (pj_plan p) @ [r]\<rparr>, pj_rendered = h,
       pj_tokens = provider_tokens (rh_messages h),
       pj_entries = pj_entries p @ [replacement_entry ns r (pj_tokens p) (provider_tokens (rh_messages h))]\<rparr> = Inr q"
    by (auto simp: Let_def)
  show ?case by (rule Cons.IH [OF h(2)]) (rule accounted_extend [OF Cons.prems(2) h(1)]; simp)
qed simp

lemma collapse_accounted:
  "collapse_candidates env ws ns budget cs p = Inr q \<Longrightarrow> accounted env ws ns baseline p \<Longrightarrow>
     accounted env ws ns baseline q \<and> pj_tokens q \<le> pj_tokens p"
proof (induction cs arbitrary: p)
  case (Cons c cs)
  show ?case
  proof (cases "pj_tokens p \<le> budget \<or> candidate_no_op c (pj_plan p)")
    case True
    with Cons show ?thesis by (auto split: if_splits)
  next
    case False
    with Cons.prems(1) obtain h where h: "render_with_visibility env ws (candidate_plan c (pj_plan p)) ns = Inr h"
      "(if provider_tokens (rh_messages h) \<ge> pj_tokens p then collapse_candidates env ws ns budget cs p
        else collapse_candidates env ws ns budget cs
          \<lparr>pj_plan = candidate_plan c (pj_plan p), pj_rendered = h, pj_tokens = provider_tokens (rh_messages h),
           pj_entries = pj_entries p @ [candidate_entry c (pj_tokens p) (provider_tokens (rh_messages h))]\<rparr>) = Inr q"
      by (auto simp: Let_def)
    show ?thesis
    proof (cases "provider_tokens (rh_messages h) \<ge> pj_tokens p")
      case True
      with h(2) Cons show ?thesis by simp
    next
      case False
      let ?p = "\<lparr>pj_plan = candidate_plan c (pj_plan p), pj_rendered = h, pj_tokens = provider_tokens (rh_messages h),
           pj_entries = pj_entries p @ [candidate_entry c (pj_tokens p) (provider_tokens (rh_messages h))]\<rparr>"
      have "accounted env ws ns baseline ?p" by (rule accounted_extend [OF Cons.prems(2) h(1)]) simp_all
      moreover have "collapse_candidates env ws ns budget cs ?p = Inr q" using h(2) False by simp
      ultimately show ?thesis using Cons.IH [of ?p] False by simp
    qed
  qed
qed simp

text \<open>Switching to the folding of older files is accounted for when it changes anything.\<close>

lemma switch_accounted:
  assumes "switch_folding env ws ns p = Inr q" "accounted env ws ns baseline p"
  shows "accounted env ws ns baseline q"
proof -
  obtain h where h: "render_with_visibility env ws ((pj_plan p)\<lparr>pl_mode := FoldOlderSingle\<rparr>) ns = Inr h"
    "q = \<lparr>pj_plan = (pj_plan p)\<lparr>pl_mode := FoldOlderSingle\<rparr>, pj_rendered = h, pj_tokens = provider_tokens (rh_messages h),
       pj_entries = pj_entries p @
         (if rh_messages h \<noteq> rh_messages (pj_rendered p) \<or> \<not> same_snapshot (rh_visibility h) (rh_visibility (pj_rendered p)) \<or>
             set (rh_folded h) \<noteq> set (rh_folded (pj_rendered p))
          then [ProjectionEntry (sort (remdups (rh_folded (pj_rendered p) @ rh_folded h))) (pj_tokens p) (provider_tokens (rh_messages h))]
          else [])\<rparr>"
    using assms(1) by (auto simp: switch_folding_def Let_def)
  show ?thesis
  proof (cases "rh_messages h = rh_messages (pj_rendered p)")
    case True
    with assms(2) h(1) show ?thesis
      by (auto simp: h(2) accounted_def chain_append)
  next
    case False
    then show ?thesis unfolding h(2) using accounted_extend [OF assms(2) h(1)] by simp
  qed
qed

text \<open>The stages of a projection.\<close>

definition evidence_calls :: "budget_policy \<Rightarrow> history_node list \<Rightarrow> string set result" where
  "evidence_calls policy ns = (if bp_search policy = CompleteCurrentRead then searches_requiring_evidence ns else Inr {})"

lemma projection_stages:
  assumes "project_history env ws window overhead policy ns = Inr (p, l)"
  obtains budget ids baseline rs p1 p2 where
    "resolve_budget policy window (nat overhead) = Inr budget"
    "evidence_calls policy ns = Inr ids"
    "render_with_visibility env ws (plain_plan\<lparr>pl_protected := ids\<rparr>) ns = Inr baseline"
    "replace_results env ws ns rs \<lparr>pj_plan = plain_plan\<lparr>pl_protected := ids\<rparr>, pj_rendered = baseline,
       pj_tokens = provider_tokens (rh_messages baseline), pj_entries = []\<rparr> = Inr p1"
    "switch_folding env ws ns p1 = Inr p2"
    "collapse_candidates env ws ns (rb_history budget) (projection_candidates (fo_history env) ns ids) p2 = Inr p"
    "lg_baseline l = provider_tokens (rh_messages baseline)" "lg_budget l = budget" "lg_required l = pj_tokens p2"
    "lg_final l = pj_tokens p" "lg_entries l = pj_entries p"
  using assms
  by (auto simp: project_history_def Let_def token_count_def make_ledger_def evidence_calls_def
      split: if_splits option.splits intro: that)

section \<open>Projecting a short history\<close>

definition example_turns :: "history_node list" where
  "example_turns = [UserPrompt \<lparr>pn_content = ''go'', pn_collapsed = False, pn_salience = 1\<rparr>,
    Turn \<lparr>tn_content = [], tn_calls = [\<lparr>cl_call = \<lparr>tc_id = ''1'', tc_name = ''x'', tc_arguments = ''{}''\<rparr>,
      cl_result = \<lparr>tr_id = ''1'', tr_content = ''y'', tr_error = False, tr_statuses = {}\<rparr>,
      cl_collapsed = False, cl_salience = 0, cl_class = PlainCall\<rparr>], tn_advisories = [], tn_collapsed = False, tn_salience = 0\<rparr>]"

definition example_view :: rendered_history where
  "example_view = \<lparr>rh_messages = [UserMessage ''go'', AssistantMessage [] [\<lparr>tc_id = ''1'', tc_name = ''x'', tc_arguments = ''{}''\<rparr>],
     ToolResult \<lparr>tr_id = ''1'', tr_content = ''y'', tr_error = False, tr_statuses = {}\<rparr>], rh_visibility = empty_snapshot, rh_folded = []\<rparr>"

lemma example_views:
  "render_with_visibility example_fold (Some [''w'']) plain_plan example_turns = Inr example_view"
  "render_with_visibility example_fold (Some [''w'']) (plain_plan\<lparr>pl_mode := FoldOlderSingle\<rparr>) example_turns = Inr example_view"
  "plan_replacements example_fold (Some [''w'']) ExactDuplicateOnly example_turns = Inr []"
  "projection_candidates (fo_history example_fold) example_turns {} = []"
  "summaries (fo_history example_fold) (summarised_for_candidates (projection_protected example_turns {}) example_turns) = Inr []"
  "summaries (fo_history example_fold) (concat (map summarised_for_cost (protected_nodes example_turns {}))) = Inr []"
  by code_simp+

lemma example_projection:
  obtains p l where "project_history example_fold (Some [''w'']) None 0 default_budget_policy example_turns = Inr (p, l)"
proof -
  have plain: "plain_plan\<lparr>pl_protected := {}\<rparr> = plain_plan" by (simp add: plain_plan_def)
  have "\<exists>p l. project_history example_fold (Some [''w'']) None 0 default_budget_policy example_turns = Inr (p, l)"
    by (simp add: plain project_history_def token_count_def resolve_budget_def default_budget_policy_def Let_def example_views
        switch_folding_def same_snapshot_def same_dict_def example_view_def empty_snapshot_def make_ledger_def)
  with that show ?thesis by blast
qed

section \<open>What a projection returns\<close>

text \<open>C19: What a projection for the provider returns are the messages of its plan; the final count of tokens is
  theirs, not above the count before anything was collapsed, and the baseline and all growth recorded equal
  the final count and all savings recorded.\<close>

theorem ledger_balances:
  assumes "project_history env ws window overhead policy ns = Inr (p, l)"
  shows "render_with_visibility env ws (pj_plan p) ns = Inr (pj_rendered p) \<and>
    lg_final l = provider_tokens (rh_messages (pj_rendered p)) \<and> lg_final l \<le> lg_required l \<and>
    lg_baseline l + total_growth l = lg_final l + total_savings l"
proof -
  obtain budget ids baseline rs p1 p2 where stages:
    "resolve_budget policy window (nat overhead) = Inr budget"
    "evidence_calls policy ns = Inr ids"
    "render_with_visibility env ws (plain_plan\<lparr>pl_protected := ids\<rparr>) ns = Inr baseline"
    "replace_results env ws ns rs \<lparr>pj_plan = plain_plan\<lparr>pl_protected := ids\<rparr>, pj_rendered = baseline,
       pj_tokens = provider_tokens (rh_messages baseline), pj_entries = []\<rparr> = Inr p1"
    "switch_folding env ws ns p1 = Inr p2"
    "collapse_candidates env ws ns (rb_history budget) (projection_candidates (fo_history env) ns ids) p2 = Inr p"
    "lg_baseline l = provider_tokens (rh_messages baseline)" "lg_budget l = budget" "lg_required l = pj_tokens p2"
    "lg_final l = pj_tokens p" "lg_entries l = pj_entries p"
    by (rule projection_stages [OF assms])
  have "accounted env ws ns (lg_baseline l) \<lparr>pj_plan = plain_plan\<lparr>pl_protected := ids\<rparr>, pj_rendered = baseline,
       pj_tokens = provider_tokens (rh_messages baseline), pj_entries = []\<rparr>"
    using stages(3) by (simp add: accounted_def stages(7))
  from collapse_accounted [OF stages(6) switch_accounted [OF stages(5) replace_accounted [OF stages(4) this]]]
  have p: "accounted env ws ns (lg_baseline l) p" "pj_tokens p \<le> pj_tokens p2" by blast+
  then have "chain_end (lg_baseline l) (lg_entries l) = Some (lg_final l)" by (simp add: accounted_def stages(10,11))
  from chain_balance [OF this] p show ?thesis
    by (simp add: accounted_def stages(9,10) total_growth_def total_savings_def)
qed

theorem ledger_balances_witness:
  "\<exists>p l. project_history example_fold (Some [''w'']) None 0 default_budget_policy example_turns = Inr (p, l) \<and>
    lg_baseline l + total_growth l = lg_final l + total_savings l"
proof -
  obtain p l where pl: "project_history example_fold (Some [''w'']) None 0 default_budget_policy example_turns = Inr (p, l)"
    by (rule example_projection)
  from ledger_balances [OF pl] pl show ?thesis by blast
qed

section \<open>What may be collapsed\<close>

definition collapse_entry :: "ledger_entry \<Rightarrow> bool" where
  "collapse_entry e \<longleftrightarrow> (case e of CallEntry i name d newer before after \<Rightarrow> d = DetailCollapsed | TurnEntry k before after \<Rightarrow> True | _ \<Rightarrow> False)"

lemma replace_keeps:
  "replace_results env ws ns rs p = Inr q \<Longrightarrow>
     pl_turns (pj_plan q) = pl_turns (pj_plan p) \<and> pl_details (pj_plan q) = pl_details (pj_plan p) \<and>
     filter collapse_entry (pj_entries q) = filter collapse_entry (pj_entries p)"
proof (induction rs arbitrary: p)
  case (Cons r rs)
  then obtain h where h: "replace_results env ws ns rs
      \<lparr>pj_plan = (pj_plan p)\<lparr>pl_replacements := pl_replacements (pj_plan p) @ [r]\<rparr>, pj_rendered = h,
       pj_tokens = provider_tokens (rh_messages h),
       pj_entries = pj_entries p @ [replacement_entry ns r (pj_tokens p) (provider_tokens (rh_messages h))]\<rparr> = Inr q"
    by (auto simp: Let_def)
  have "\<not> collapse_entry (replacement_entry ns r a b)" for a b by (simp add: collapse_entry_def replacement_entry_def)
  with Cons.IH [OF h] show ?case by simp
qed simp

lemma switch_keeps:
  "switch_folding env ws ns p = Inr q \<Longrightarrow>
     pl_turns (pj_plan q) = pl_turns (pj_plan p) \<and> pl_details (pj_plan q) = pl_details (pj_plan p) \<and>
     filter collapse_entry (pj_entries q) = filter collapse_entry (pj_entries p)"
  by (auto simp: switch_folding_def Let_def collapse_entry_def)

text \<open>The turns and calls that candidates name.\<close>

definition turn_targets :: "projection_candidate list \<Rightarrow> nat set" where
  "turn_targets cs = {i. \<exists>q. TurnCandidate i q \<in> set cs}"

definition call_targets :: "projection_candidate list \<Rightarrow> string set" where
  "call_targets cs = {tc_id (cl_call c) | c. \<exists>i j q. DetailCandidate i j q c \<in> set cs}"

lemma collapse_targets:
  "collapse_candidates env ws ns budget cs p = Inr q \<Longrightarrow>
     pl_turns (pj_plan q) \<subseteq> pl_turns (pj_plan p) \<union> turn_targets cs \<and>
     pl_details (pj_plan q) \<subseteq> pl_details (pj_plan p) \<union> call_targets cs \<and>
     (\<exists>es. pj_entries q = pj_entries p @ es \<and> (\<forall>e \<in> set es. entry_before e > budget \<and> entry_after e < entry_before e))"
proof (induction cs arbitrary: p)
  case (Cons c cs)
  have mono: "turn_targets cs \<subseteq> turn_targets (c # cs)" "call_targets cs \<subseteq> call_targets (c # cs)"
    by (auto simp: turn_targets_def call_targets_def)
  have skip: ?case if "collapse_candidates env ws ns budget cs p = Inr q"
    using Cons.IH [OF that] mono by blast
  show ?case
  proof (cases "pj_tokens p \<le> budget \<or> candidate_no_op c (pj_plan p)")
    case True
    then consider "p = q" | "collapse_candidates env ws ns budget cs p = Inr q"
      using Cons.prems by (auto split: if_splits)
    then show ?thesis using skip by cases auto
  next
    case False
    with Cons.prems(1) obtain h where h: "render_with_visibility env ws (candidate_plan c (pj_plan p)) ns = Inr h"
      "(if provider_tokens (rh_messages h) \<ge> pj_tokens p then collapse_candidates env ws ns budget cs p
        else collapse_candidates env ws ns budget cs
          \<lparr>pj_plan = candidate_plan c (pj_plan p), pj_rendered = h, pj_tokens = provider_tokens (rh_messages h),
           pj_entries = pj_entries p @ [candidate_entry c (pj_tokens p) (provider_tokens (rh_messages h))]\<rparr>) = Inr q"
      by (auto simp: Let_def)
    show ?thesis
    proof (cases "provider_tokens (rh_messages h) \<ge> pj_tokens p")
      case True
      with h(2) skip show ?thesis by simp
    next
      case smaller: False
      let ?e = "candidate_entry c (pj_tokens p) (provider_tokens (rh_messages h))"
      let ?p = "\<lparr>pj_plan = candidate_plan c (pj_plan p), pj_rendered = h, pj_tokens = provider_tokens (rh_messages h),
           pj_entries = pj_entries p @ [?e]\<rparr>"
      have plan: "pl_turns (candidate_plan c (pj_plan p)) \<subseteq> pl_turns (pj_plan p) \<union> turn_targets (c # cs)"
        "pl_details (candidate_plan c (pj_plan p)) \<subseteq> pl_details (pj_plan p) \<union> call_targets (c # cs)"
        by (cases c; auto simp: with_turn_collapsed_def with_detail_collapsed_def turn_targets_def call_targets_def)+
      have "collapse_candidates env ws ns budget cs ?p = Inr q" using h(2) smaller by simp
      from Cons.IH [OF this] obtain es where es: "pl_turns (pj_plan q) \<subseteq> pl_turns (candidate_plan c (pj_plan p)) \<union> turn_targets cs"
        "pl_details (pj_plan q) \<subseteq> pl_details (candidate_plan c (pj_plan p)) \<union> call_targets cs"
        "pj_entries q = pj_entries p @ ?e # es" "\<forall>e \<in> set es. entry_before e > budget \<and> entry_after e < entry_before e"
        by auto
      have "\<forall>e \<in> set (?e # es). entry_before e > budget \<and> entry_after e < entry_before e"
        using es(4) False smaller by simp
      then show ?thesis using es(1-3) plan mono by (intro conjI exI [of _ "?e # es"]) (blast | simp)+
    qed
  qed
qed simp

lemma candidate_targets:
  "turn_targets (projection_candidates env ns ids) \<subseteq>
     {i. i < length ns \<and> i \<notin> projection_protected ns ids \<and> (\<exists>t. ns ! i = Turn t \<and> \<not> tn_collapsed t)}"
  "call_targets (projection_candidates env ns ids) \<subseteq>
     {tc_id (cl_call c) | c. \<exists>i < length ns. i \<notin> projection_protected ns ids \<and>
        (\<exists>t. ns ! i = Turn t \<and> \<not> tn_collapsed t \<and> c \<in> set (tn_calls t) \<and> call_collapsible env c)}"
proof -
  have from_turn: "\<exists>t. i < length ns \<and> ns ! i = Turn t \<and> i \<notin> projection_protected ns ids \<and> \<not> tn_collapsed t \<and>
      x \<in> set (turn_candidates env (length ns - 1 - i) i t)"
    if "(i, n) \<in> set (enumerate 0 ns)" "x \<in> set (case n of Turn t \<Rightarrow>
           if i \<in> projection_protected ns ids \<or> tn_collapsed t then []
           else turn_candidates env (length ns - 1 - i) i t | _ \<Rightarrow> [])" for i n x
    using that by (cases n) (auto simp: in_set_enumerate_eq split: if_splits)
  have origin: "\<exists>i t. i < length ns \<and> ns ! i = Turn t \<and> i \<notin> projection_protected ns ids \<and> \<not> tn_collapsed t \<and>
      x \<in> set (turn_candidates env (length ns - 1 - i) i t)" if "x \<in> set (projection_candidates env ns ids)" for x
  proof -
    have "\<exists>q \<in> set qs. y \<in> set (f q)" if "y \<in> set (concat (map f qs))" for f qs y using that by auto
    from this [OF that [unfolded projection_candidates_def set_sort]]
    obtain i n where q: "(i, n) \<in> set (enumerate 0 ns)" "x \<in> set (case n of Turn t \<Rightarrow>
           if i \<in> projection_protected ns ids \<or> tn_collapsed t then []
           else turn_candidates env (length ns - 1 - i) i t | _ \<Rightarrow> [])" by (elim bexE) (simp only: split_paired_all prod.case)
    from from_turn [OF q] show ?thesis by blast
  qed
  show "turn_targets (projection_candidates env ns ids) \<subseteq>
     {i. i < length ns \<and> i \<notin> projection_protected ns ids \<and> (\<exists>t. ns ! i = Turn t \<and> \<not> tn_collapsed t)}"
  proof
    fix i assume "i \<in> turn_targets (projection_candidates env ns ids)"
    then obtain q where "TurnCandidate i q \<in> set (projection_candidates env ns ids)" by (auto simp: turn_targets_def)
    from origin [OF this] show "i \<in> {i. i < length ns \<and> i \<notin> projection_protected ns ids \<and> (\<exists>t. ns ! i = Turn t \<and> \<not> tn_collapsed t)}"
      by (auto simp: turn_candidates_def split: if_splits)
  qed
  show "call_targets (projection_candidates env ns ids) \<subseteq>
     {tc_id (cl_call c) | c. \<exists>i < length ns. i \<notin> projection_protected ns ids \<and>
        (\<exists>t. ns ! i = Turn t \<and> \<not> tn_collapsed t \<and> c \<in> set (tn_calls t) \<and> call_collapsible env c)}"
  proof
    fix k assume "k \<in> call_targets (projection_candidates env ns ids)"
    then obtain c i j q where k: "k = tc_id (cl_call c)" "DetailCandidate i j q c \<in> set (projection_candidates env ns ids)"
      by (auto simp: call_targets_def)
    from origin [OF k(2)] obtain i' t where t: "i' < length ns" "ns ! i' = Turn t" "i' \<notin> projection_protected ns ids" "\<not> tn_collapsed t"
      "DetailCandidate i j q c \<in> set (turn_candidates env (length ns - 1 - i') i' t)" by blast
    from t(5) have "c \<in> set (tn_calls t)" "call_collapsible env c"
      by (auto simp: turn_candidates_def in_set_enumerate_eq split: if_splits)
    with t(1-4) k(1) show "k \<in> {tc_id (cl_call c) | c. \<exists>i < length ns. i \<notin> projection_protected ns ids \<and>
        (\<exists>t. ns ! i = Turn t \<and> \<not> tn_collapsed t \<and> c \<in> set (tn_calls t) \<and> call_collapsible env c)}" by blast
  qed
qed

text \<open>C20: A projection collapses only turns and calls outside the protected tail, outside the turns with search
  evidence that must stay, and not collapsed in the history already; every collapse was made while the
  tokens exceeded the budget and lowered them.\<close>

theorem projection_collapses_only_as_needed:
  assumes "project_history env ws window overhead policy ns = Inr (p, l)" "evidence_calls policy ns = Inr ids"
  shows "pl_turns (pj_plan p) \<subseteq>
      {i. i < length ns \<and> i \<notin> projection_protected ns ids \<and> (\<exists>t. ns ! i = Turn t \<and> \<not> tn_collapsed t)} \<and>
    pl_details (pj_plan p) \<subseteq> {tc_id (cl_call c) | c. \<exists>i < length ns. i \<notin> projection_protected ns ids \<and>
      (\<exists>t. ns ! i = Turn t \<and> \<not> tn_collapsed t \<and> c \<in> set (tn_calls t) \<and> call_collapsible (fo_history env) c)} \<and>
    list_all (\<lambda>e. entry_before e > rb_history (lg_budget l) \<and> entry_after e < entry_before e)
      (filter collapse_entry (lg_entries l))"
proof -
  obtain budget ids' baseline rs p1 p2 where stages:
    "resolve_budget policy window (nat overhead) = Inr budget"
    "evidence_calls policy ns = Inr ids'"
    "render_with_visibility env ws (plain_plan\<lparr>pl_protected := ids'\<rparr>) ns = Inr baseline"
    "replace_results env ws ns rs \<lparr>pj_plan = plain_plan\<lparr>pl_protected := ids'\<rparr>, pj_rendered = baseline,
       pj_tokens = provider_tokens (rh_messages baseline), pj_entries = []\<rparr> = Inr p1"
    "switch_folding env ws ns p1 = Inr p2"
    "collapse_candidates env ws ns (rb_history budget) (projection_candidates (fo_history env) ns ids') p2 = Inr p"
    "lg_baseline l = provider_tokens (rh_messages baseline)" "lg_budget l = budget" "lg_required l = pj_tokens p2"
    "lg_final l = pj_tokens p" "lg_entries l = pj_entries p"
    by (rule projection_stages [OF assms(1)])
  have ids: "ids' = ids" using stages(2) assms(2) by simp
  have start: "pl_turns (pj_plan p2) = {} \<and> pl_details (pj_plan p2) = {} \<and> filter collapse_entry (pj_entries p2) = []"
    using switch_keeps [OF stages(5)] replace_keeps [OF stages(4)] by (simp add: plain_plan_def)
  obtain es where es: "pl_turns (pj_plan p) \<subseteq> pl_turns (pj_plan p2) \<union> turn_targets (projection_candidates (fo_history env) ns ids)"
    "pl_details (pj_plan p) \<subseteq> pl_details (pj_plan p2) \<union> call_targets (projection_candidates (fo_history env) ns ids)"
    "pj_entries p = pj_entries p2 @ es" "\<forall>e \<in> set es. entry_before e > rb_history budget \<and> entry_after e < entry_before e"
    using collapse_targets [OF stages(6)] unfolding ids by blast
  have "list_all (\<lambda>e. entry_before e > rb_history (lg_budget l) \<and> entry_after e < entry_before e)
      (filter collapse_entry (lg_entries l))"
    using es(3,4) start by (simp add: stages(8,11) list_all_iff)
  moreover have "pl_turns (pj_plan p) \<subseteq> turn_targets (projection_candidates (fo_history env) ns ids)"
    "pl_details (pj_plan p) \<subseteq> call_targets (projection_candidates (fo_history env) ns ids)"
    using es(1,2) start by simp_all
  ultimately show ?thesis
    using subset_trans [OF _ candidate_targets(1)] subset_trans [OF _ candidate_targets(2)] by (intro conjI) simp_all
qed

theorem projection_collapses_only_as_needed_witness:
  "\<exists>p l. project_history example_fold (Some [''w'']) None 0 default_budget_policy example_turns = Inr (p, l) \<and>
    pl_turns (pj_plan p) \<subseteq> {i. i < length example_turns \<and> i \<notin> projection_protected example_turns {} \<and>
      (\<exists>t. example_turns ! i = Turn t \<and> \<not> tn_collapsed t)}"
proof -
  obtain p l where pl: "project_history example_fold (Some [''w'']) None 0 default_budget_policy example_turns = Inr (p, l)"
    by (rule example_projection)
  have "evidence_calls default_budget_policy example_turns = Inr {}"
    by (simp add: evidence_calls_def default_budget_policy_def)
  from projection_collapses_only_as_needed [OF pl this] pl show ?thesis by blast
qed

section \<open>Budgets\<close>

lemma py_trunc_mono: "0 \<le> a \<Longrightarrow> a \<le> b \<Longrightarrow> py_trunc a \<le> py_trunc b"
  by (simp add: py_trunc_def floor_mono)

text \<open>The budget of a valid policy never exceeds its maximum, and unless it is nothing it leaves with the
  overhead room within the hard limit on the whole prompt, when the context window is known.\<close>

theorem budget_within_limits:
  assumes "make_budget_policy dflt maximum soft hard search = Inr p" "resolve_budget p window overhead = Inr b"
  shows "rb_history b \<le> bp_maximum p \<and>
    (case rb_hard b of None \<Rightarrow> window = None | Some h \<Rightarrow> rb_history b = 0 \<or> rb_history b + overhead \<le> h)"
proof -
  have p: "bp_default p \<le> bp_maximum p" "0 < bp_soft p" "bp_soft p \<le> bp_hard p"
    using assms(1) by (auto simp: make_budget_policy_def window_fraction_def split: if_splits)
  show ?thesis
  proof (cases window)
    case None
    with assms(2) p(1) show ?thesis by (auto simp: resolve_budget_def)
  next
    case (Some w)
    with assms(2) have w: "w > 0" by (auto simp: resolve_budget_def split: if_splits)
    let ?soft = "py_trunc (of_int w * bp_soft p)" and ?hard = "py_trunc (of_int w * bp_hard p)"
    have "?soft \<le> ?hard" using w p(2,3) by (intro py_trunc_mono mult_left_mono) simp_all
    moreover have "rb_hard b = Some (nat ?hard)" "0 \<le> ?hard"
      "rb_history b = min (nat (max 0 (?soft - int overhead))) (bp_maximum p)"
      using assms(2) Some w by (auto simp: resolve_budget_def token_count_def Let_def split: if_splits)
    ultimately show ?thesis by (auto simp: min_def)
  qed
qed

theorem budget_within_limits_witness:
  "\<exists>p b. make_budget_policy 12000 24000 (60 / 100) (80 / 100) ExactDuplicateOnly = Inr p \<and>
    resolve_budget p (Some 10000) 500 = Inr b \<and> rb_history b \<le> bp_maximum p"
proof -
  have p: "make_budget_policy 12000 24000 (60 / 100) (80 / 100) ExactDuplicateOnly = Inr default_budget_policy"
    by (simp add: make_budget_policy_def token_count_def window_fraction_def default_budget_policy_def)
  obtain b where b: "resolve_budget default_budget_policy (Some 10000) 500 = Inr b"
    by (simp add: resolve_budget_def default_budget_policy_def token_count_def py_trunc_def Let_def)
  from budget_within_limits [OF p b] p b show ?thesis by blast
qed

end
