(* ===== verification/Spec2Isabelle.thy ===== *)
theory Spec2Isabelle
  imports Paths Queue_Laws In_Flight Sweep Scheduler Inbox_Tools
    Gateway_Events Validation_Targets File_Safety File_Search Housekeeping_Laws History_Store Ledger_Laws
begin

text \<open>
  Thorn runs LLM agents. A gateway process (\<open>src/src/thorn/gateway\<close>) turns events of GitHub and
  GitLab into notifications; durable queues on disk (\<open>src/src/thorn/runtime\<close>) hold them until a
  session of an agent has handled them; the agent (\<open>src/src/thorn/core\<close>) works with tools on the
  files of its workspace. This library models the parts of that program that carry its own logic,
  as executable definitions translated from the Python source, and proves what makes them correct.
  The theories build on each other in the order below.

  Shared ground.
  \<^item> \<open>Prelude\<close>: Python exceptions as values (\<open>'a result\<close>), computations that pass a state and may
    raise and that keep what they wrote before they raise (\<open>eff\<close>), dictionaries with insertion order.
  \<^item> \<open>PyString\<close>, \<open>PyText\<close>: the string operations of the source (split, join, strip, splitlines,
    find, count, decimal numerals, line ends of text files), with their round trips.
  \<^item> \<open>Json\<close>, \<open>Timestamps\<close>, \<open>Ulids\<close>: values of the json library, the isoformat of a datetime, and
    the ULID generator of \<open>_notification.py\<close> with 128-bit words and the clock and random bits as input.

  The durable queues (\<open>runtime/\<close>).
  \<^item> \<open>Sessions\<close>, \<open>Addresses\<close>, \<open>Paths\<close>: session keys and agent ids (\<open>_session.py\<close>), the address book
    (\<open>_address.py\<close>), the directory layout (\<open>_paths.py\<close>), where no path of one agent or session lies
    in another.
  \<^item> \<open>Notifications\<close>: the record, its transitions and its JSON form (\<open>_notification.py\<close>).
  \<^item> \<open>Storage\<close>, \<open>Queues\<close>, \<open>Queue_Store\<close>, \<open>Queue_Laws\<close>: the world of files, directories and the index
    of in-flight keys; every change is a list of atomic steps, so that what a crash leaves is the
    world after a prefix of them; the operations of \<open>DurableQueue\<close> (\<open>_queue.py\<close>).
  \<^item> \<open>Item_Store\<close>: the locale of stores of keyed items, interpreted on the queues.
  \<^item> \<open>Inboxes\<close>, \<open>Dispatch\<close>, \<open>Notification_Queues\<close>, \<open>Sweep\<close>, \<open>In_Flight\<close>: session inboxes
    (\<open>_inbox.py\<close>), the two steps of a handling transition (\<open>_dispatch.py\<close>), the drain of service
    queues (\<open>_notification_queue.py\<close>), the repair after a crash (\<open>_sweep.py\<close>) and the rebuild of the
    index (\<open>_in_flight_index.py\<close>). The lemmas show that handling refines the store, that no item is
    lost or doubled at any crash point and that the sweep finishes what was begun.
  \<^item> \<open>Todos\<close>, \<open>Working_Sets\<close>, \<open>Inbox_Tools\<close>: the TODO file (\<open>_todo.py\<close>, yaml as a parameter with a
    round-trip hypothesis), the working set (\<open>_working_set.py\<close>) and the tools with which an agent
    claims, parks and closes items (\<open>_inbox_tools.py\<close>): reachable states keep the focus invariant, and
    nothing is handled outside the close-out phase.
  \<^item> \<open>Provider_Health\<close>, \<open>Scheduler\<close>: the circuit breaker (\<open>_provider_health.py\<close>) with integers and
    rationals for its times, and the scheduler (\<open>_scheduler.py\<close>) as steps of its session drivers, one
    between two awaits, so that every interleaving is a list of steps. The lemmas bound concurrency,
    show that no wake-up is lost after a submission and that stalled sessions are drained.

  The gateway (\<open>gateway/\<close>).
  \<^item> \<open>Peers\<close>, \<open>Trigger_Policy\<close>, \<open>Envelopes\<close>: who acts (\<open>_actor.py\<close>, \<open>_peer.py\<close>), what is let through
    (\<open>_event.py\<close>, \<open>_trigger_policy.py\<close>) and how untrusted text is quoted (\<open>_envelope.py\<close>,
    \<open>_formatter.py\<close>).
  \<^item> \<open>Gateway_Events\<close>: the handling of an event (\<open>_gateway.py\<close>) over all of the above, with the two
    segments around its await, and the activation of sessions at startup.

  The agent's files (\<open>core/\<close>).
  \<^item> \<open>Validation_Targets\<close>: the validation tracker (\<open>_validation_tracker.py\<close>).
  \<^item> \<open>Outline\<close>, \<open>Outline_Markdown\<close>: outlines of long files (\<open>_outline.py\<close>, \<open>_outline_markdown.py\<close>); they
    tile the file and show what is required. \<open>Edit_Provenance\<close>: what an edit changed
    (\<open>_edit_result.py\<close>).
  \<^item> \<open>File_Access\<close>: the access policy (\<open>_file_access.py\<close>). \<open>File_Tools\<close>: the eight file tools
    (\<open>_tools.py\<close>, \<open>resolve_path\<close> of \<open>_context.py\<close>) on a disk of directories and files. \<open>File_Safety\<close>:
    the disk stays a tree, only writable files change, hidden files leave no trace in an answer, an
    edit happens as a whole or not at all. \<open>File_Search\<close>: pages of a read and lines of a search.

  The agent's history (\<open>core/\<close>).
  \<^item> \<open>JsonText\<close>: the text of \<open>repr\<close>, \<open>str\<close> and \<open>json.dumps\<close>. \<open>History\<close>: the nodes of the conversation with
    their summaries, costs and messages, their growth, compaction (\<open>_history.py\<close>) and housekeeping
    (\<open>_housekeeping.py\<close>). A history is the list of its nodes; a collapse candidate names its node by
    position, where the code holds the object.
  \<^item> \<open>Compaction\<close>: compaction leaves recent work alone, only shortens, and saves enough or all it may.
    \<open>Housekeeping_Laws\<close>: protected nodes survive housekeeping, and after any steps the messages keep
    results next to their calls. \<open>History_Store\<close>: the JSON form (\<open>runtime/_serializer.py\<close>) and its round
    trip; the depth of reading is bounded by the size of the document.

  What the provider is sent (\<open>core/\<close>).
  \<^item> \<open>Visibility\<close>: lines read back out of results and the record of what a prompt shows
    (\<open>_prompt_visibility.py\<close>). \<open>Observations\<close>: what the results of file tools tell of files, collected by
    file, the plan of a request and the results it leaves out (\<open>_file_context_folding.py\<close>, the plans of
    \<open>_history.py\<close>). The live files are a function from paths, as they are read once per request.
    \<open>Replacement_Laws\<close>: a read is left out exactly when it is stale or wholly shown by a later current
    read, and then some read that stays shows all its lines.
  \<^item> \<open>Folding\<close>: the current view of a file, which calls are folded into it and the messages of a history
    under a plan (\<open>_file_context_folding.py\<close>). \<open>Folding_Laws\<close>: a view shows lines of the live file, at
    most eighty, and accounts for the rest. \<open>Rendering_Laws\<close>: the order of the messages under any plan,
    what is folded is in view, protected results stay.
  \<^item> \<open>Context_Ledger\<close>: budgets, candidates and the projection of a history for one request
    (\<open>_context_ledger.py\<close>). \<open>Ledger_Laws\<close>: the account balances, only unprotected parts are collapsed
    and only while the budget is exceeded; a rendering costs what its messages cost as JSON.
  Conventions. Records and datatypes have the fields and constructors of the classes they stand
  for. A raise, an early return and an error answer are branches of the result. Python's integers are
  \<open>int\<close> or \<open>nat\<close>; only the ULID generator works at a fixed width. A character is one of the code
  points below 256. Loops are structural recursion or have a termination proof; the only fuel is
  the number of rounds of a scheduler run, which the liveness theorems bound explicitly.

  What lies outside \<open>src/\<close> is a parameter: the clock, random bits, the yaml and mistletoe parsers,
  difflib, gitignore matching, glob, fnmatch and search patterns, resolving of links, the answers of
  rounds of an agent. What a theorem relies on is a named predicate (\<open>resolving\<close>, \<open>steps_resolve\<close>,
  \<open>lines_promised\<close>, \<open>comparing\<close> and the like) that states documented behaviour, and its witness gives
  a concrete instance.

  Not modelled: the agent loop around the LLM provider, prompt assembly,
  configuration loading, the clients of GitHub and GitLab, the credential broker, sandbox
  containers, the tool host, the command line, and within the modelled parts logging, time-outs of
  the operating system, shells and file locks. They are I/O, subprocesses or answers of services, or
  they are planned: next are the memory of reads and searches, the derivation of session keys
  (\<open>gateway/_routing.py\<close>) and the salience updates of the working set.
\<close>

end
